(* ===== verification/Sc_Prelude.thy ===== *)
theory Sc_Prelude
  imports Main "HOL-Library.Word" "HOL-Library.Monad_Syntax"
begin

text \<open>
  Shared vocabulary of the development: the widths of the C integer types, the
  collections of unfolding facts the component theories fill, and the generic facts on
  words, options and lists that the component proofs use.

  A call that may not return (a failed \<^verbatim>\<open>g_assert\<close>, which aborts the
  process, a null dereference, a spin on a lock nobody will release) has a result of type
  \<open>'a option\<close> whose \<open>None\<close> stands for "control does not come back";
  \<^verbatim>\<open>do\<close> blocks are the library's notation for \<^const>\<open>Option.bind\<close>.
\<close>

unbundle bit_operations_syntax

type_synonym u8 = "8 word"
type_synonym u16 = "16 word"
type_synonym u32 = "32 word"
type_synonym u64 = "64 word"

named_theorems sc_bits \<open>the flag and mask constants of \<^verbatim>\<open>sc_types.h\<close>, unfolded\<close>
named_theorems sc_state \<open>the effect of one primitive on one observation of the state\<close>

subsection \<open>Control that may not come back\<close>

definition g_assert :: "bool \<Rightarrow> unit option" where
  "g_assert b = (if b then Some () else None)"

lemma g_assert_simps [simp]:
  "g_assert True = Some ()" "g_assert False = None"
  by (simp_all add: g_assert_def)

lemma g_assert_Some [simp]: "g_assert b = Some u \<longleftrightarrow> b"
  by (simp add: g_assert_def)

lemma g_assert_bind [simp]:
  "(g_assert b \<bind> f) = Some r \<longleftrightarrow> b \<and> f () = Some r"
  by (simp add: g_assert_def)

subsection \<open>Words\<close>

lemma and_mask_absorb:
  fixes x m n :: "'a::len word"
  assumes "n AND m = m"
  shows "(x AND n) AND m = x AND m"
  using assms by (simp add: and.assoc)

lemma and_nonzero_mono:
  fixes x m n :: "'a::len word"
  assumes "x AND m \<noteq> 0" and "n AND m = m"
  shows "x AND n \<noteq> 0"
proof
  assume "x AND n = 0"
  then have "(x AND n) AND m = 0" by simp
  with assms show False by (simp add: and_mask_absorb)
qed

lemma or_and_eq_0_iff [simp]:
  fixes x y m :: "'a::len word"
  shows "(x OR y) AND m = 0 \<longleftrightarrow> x AND m = 0 \<and> y AND m = 0"
  by (auto simp: bit_eq_iff bit_simps)

lemma unat_u16_less [simp]: "unat (x :: u16) < 65536"
  using unsigned_less [of x] by simp

lemma unat_of_nat_u16 [simp]: "n < 65536 \<Longrightarrow> unat (of_nat n :: u16) = n"
  by (simp add: unat_of_nat take_bit_eq_mod)

lemma uint_pos_iff: "uint (x :: 'a::len word) > 0 \<longleftrightarrow> x \<noteq> 0"
  using unsigned_greater_eq [of x] unsigned_eq_0_iff [of x] by (smt (verit))

subsection \<open>Arithmetic\<close>

lemma mod_eq_step:
  fixes j k n :: nat
  assumes "j < k" and "k mod n = j mod n"
  shows "j + n \<le> k"
proof -
  have "n dvd k - j" using assms by (metis mod_eq_dvd_iff_nat less_imp_le)
  then have "n \<le> k - j" using \<open>j < k\<close> by (auto dest: dvd_imp_le)
  with \<open>j < k\<close> show ?thesis by simp
qed

subsection \<open>Lists\<close>

lemma filter_notin_distinct_split:
  assumes "distinct (xs @ a # ys)"
  shows "filter (\<lambda>z. z \<noteq> a) (xs @ a # ys) = xs @ ys"
proof -
  have "a \<notin> set xs" and "a \<notin> set ys" using assms by auto
  then have "filter (\<lambda>z. z \<noteq> a) xs = xs" and "filter (\<lambda>z. z \<noteq> a) ys = ys"
    by (auto simp: filter_id_conv)
  then show ?thesis by simp
qed

subsection \<open>Updates at a point\<close>

definition upd :: "'a \<Rightarrow> ('b \<Rightarrow> 'b) \<Rightarrow> ('a \<Rightarrow> 'b) \<Rightarrow> 'a \<Rightarrow> 'b" where
  "upd a f h = h(a := f (h a))"

lemma upd_commute:
  "(\<And>x. f (g x) = g (f x)) \<Longrightarrow> upd a f (upd b g h) = upd b g (upd a f h)"
  by (auto simp: upd_def fun_eq_iff)

lemma upd_upd: "upd a f (upd a g h) = upd a (\<lambda>x. f (g x)) h"
  by (simp add: upd_def)

end
