(* ===== verification/Sc_Types.thy ===== *)
theory Sc_Types
  imports Sc_Prelude
begin

text \<open>
  The base types of the C core: addresses, the bit layout of element types, access
  levels, result codes and the element cell
  (\<^verbatim>\<open>sc-memory/sc-core/sc-store/sc_types.h\<close>,
  \<^verbatim>\<open>sc_element.h\<close>, \<^verbatim>\<open>sc_element.c\<close>).
\<close>

subsection \<open>Limits\<close>

definition SC_ADDR_SEG_MAX :: nat where "SC_ADDR_SEG_MAX = 65535"
definition SC_SEGMENT_ELEMENTS_COUNT :: nat where "SC_SEGMENT_ELEMENTS_COUNT = 65535"
definition SC_CONCURRENCY_LEVEL :: nat where "SC_CONCURRENCY_LEVEL = 32"
definition SC_SEGMENT_CACHE_SIZE :: nat where "SC_SEGMENT_CACHE_SIZE = 32"
definition SC_CHECKSUM_LEN :: nat where "SC_CHECKSUM_LEN = 32"

lemmas sc_limits =
  SC_ADDR_SEG_MAX_def SC_SEGMENT_ELEMENTS_COUNT_def SC_CONCURRENCY_LEVEL_def
  SC_SEGMENT_CACHE_SIZE_def SC_CHECKSUM_LEN_def

subsection \<open>Addresses\<close>

datatype sc_addr = Addr (addr_seg: u16) (addr_offset: u16)

definition SC_ADDR_MAKE_EMPTY :: sc_addr where
  "SC_ADDR_MAKE_EMPTY = Addr 0 0"

definition SC_ADDR_IS_EMPTY :: "sc_addr \<Rightarrow> bool" where
  "SC_ADDR_IS_EMPTY a \<longleftrightarrow> addr_seg a = 0 \<and> addr_offset a = 0"

definition SC_ADDR_IS_EQUAL :: "sc_addr \<Rightarrow> sc_addr \<Rightarrow> bool" where
  "SC_ADDR_IS_EQUAL a b \<longleftrightarrow> addr_seg a = addr_seg b \<and> addr_offset a = addr_offset b"

definition SC_ADDR_LOCAL_TO_INT :: "sc_addr \<Rightarrow> u32" where
  "SC_ADDR_LOCAL_TO_INT a =
     push_bit 16 (ucast (addr_seg a)) OR (ucast (addr_offset a) AND 0xffff)"

definition SC_ADDR_LOCAL_OFFSET_FROM_INT :: "u32 \<Rightarrow> u16" where
  "SC_ADDR_LOCAL_OFFSET_FROM_INT v = ucast (v AND 0x0000ffff)"

definition SC_ADDR_LOCAL_SEG_FROM_INT :: "u32 \<Rightarrow> u16" where
  "SC_ADDR_LOCAL_SEG_FROM_INT v = SC_ADDR_LOCAL_OFFSET_FROM_INT (drop_bit 16 v)"

lemma SC_ADDR_IS_EMPTY_iff [simp]: "SC_ADDR_IS_EMPTY a \<longleftrightarrow> a = SC_ADDR_MAKE_EMPTY"
  by (cases a) (simp add: SC_ADDR_IS_EMPTY_def SC_ADDR_MAKE_EMPTY_def)

lemma SC_ADDR_IS_EQUAL_iff [simp]: "SC_ADDR_IS_EQUAL a b \<longleftrightarrow> a = b"
  by (cases a; cases b) (simp add: SC_ADDR_IS_EQUAL_def)

lemma finite_sc_addr [simp]: "finite (A :: sc_addr set)"
proof -
  have "(UNIV :: sc_addr set) = (\<lambda>(s, off). Addr s off) ` UNIV"
    by (auto simp: image_def) (metis sc_addr.exhaust)
  then have "finite (UNIV :: sc_addr set)"
    by (metis finite finite_imageI)
  then show ?thesis by (rule finite_subset [OF subset_UNIV])
qed

instantiation sc_addr :: linorder
begin

definition less_sc_addr :: "sc_addr \<Rightarrow> sc_addr \<Rightarrow> bool" where
  "less_sc_addr a b =
     (if addr_seg a < addr_seg b then True
      else if addr_seg a > addr_seg b then False
      else addr_offset a < addr_offset b)"

definition less_eq_sc_addr :: "sc_addr \<Rightarrow> sc_addr \<Rightarrow> bool" where
  "less_eq_sc_addr a b \<longleftrightarrow> a = b \<or> a < b"

instance
  by standard (auto simp: less_sc_addr_def less_eq_sc_addr_def sc_addr.expand split: if_splits)

end

subsection \<open>Element types\<close>

type_synonym sc_type = u16

definition sc_type_node :: sc_type where [sc_bits]: "sc_type_node = 0x1"
definition sc_type_link :: sc_type where [sc_bits]: "sc_type_link = 0x2"
definition sc_type_edge_common :: sc_type where [sc_bits]: "sc_type_edge_common = 0x4"
definition sc_type_arc_common :: sc_type where [sc_bits]: "sc_type_arc_common = 0x8"
definition sc_type_arc_access :: sc_type where [sc_bits]: "sc_type_arc_access = 0x10"
definition sc_type_const :: sc_type where [sc_bits]: "sc_type_const = 0x20"
definition sc_type_var :: sc_type where [sc_bits]: "sc_type_var = 0x40"
definition sc_type_arc_pos :: sc_type where [sc_bits]: "sc_type_arc_pos = 0x80"
definition sc_type_arc_neg :: sc_type where [sc_bits]: "sc_type_arc_neg = 0x100"
definition sc_type_arc_fuz :: sc_type where [sc_bits]: "sc_type_arc_fuz = 0x200"
definition sc_type_arc_temp :: sc_type where [sc_bits]: "sc_type_arc_temp = 0x400"
definition sc_type_arc_perm :: sc_type where [sc_bits]: "sc_type_arc_perm = 0x800"
definition sc_type_node_tuple :: sc_type where [sc_bits]: "sc_type_node_tuple = 0x80"
definition sc_type_node_struct :: sc_type where [sc_bits]: "sc_type_node_struct = 0x100"
definition sc_type_node_role :: sc_type where [sc_bits]: "sc_type_node_role = 0x200"
definition sc_type_node_norole :: sc_type where [sc_bits]: "sc_type_node_norole = 0x400"
definition sc_type_node_class :: sc_type where [sc_bits]: "sc_type_node_class = 0x800"
definition sc_type_node_abstract :: sc_type where [sc_bits]: "sc_type_node_abstract = 0x1000"
definition sc_type_node_material :: sc_type where [sc_bits]: "sc_type_node_material = 0x2000"

definition sc_type_arc_pos_const_perm :: sc_type where [sc_bits]:
  "sc_type_arc_pos_const_perm =
     sc_type_arc_access OR sc_type_const OR sc_type_arc_pos OR sc_type_arc_perm"
definition sc_type_arc_pos_var_perm :: sc_type where [sc_bits]:
  "sc_type_arc_pos_var_perm =
     sc_type_arc_access OR sc_type_var OR sc_type_arc_pos OR sc_type_arc_perm"
definition sc_type_element_mask :: sc_type where [sc_bits]:
  "sc_type_element_mask =
     sc_type_node OR sc_type_link OR sc_type_edge_common OR sc_type_arc_common
       OR sc_type_arc_access"
definition sc_type_constancy_mask :: sc_type where [sc_bits]:
  "sc_type_constancy_mask = sc_type_const OR sc_type_var"
definition sc_type_positivity_mask :: sc_type where [sc_bits]:
  "sc_type_positivity_mask = sc_type_arc_pos OR sc_type_arc_neg OR sc_type_arc_fuz"
definition sc_type_permanency_mask :: sc_type where [sc_bits]:
  "sc_type_permanency_mask = sc_type_arc_perm OR sc_type_arc_temp"
definition sc_type_node_mask :: sc_type where [sc_bits]:
  "sc_type_node_mask =
     sc_type_node_tuple OR sc_type_node_struct OR sc_type_node_role OR sc_type_node_norole
       OR sc_type_node_class OR sc_type_node_abstract OR sc_type_node_material"
definition sc_type_arc_mask :: sc_type where [sc_bits]:
  "sc_type_arc_mask = sc_type_arc_access OR sc_type_arc_common OR sc_type_edge_common"

definition sc_flag_request_deletion :: sc_type where [sc_bits]:
  "sc_flag_request_deletion = 0x4000"
definition sc_flag_link_self_container :: sc_type where [sc_bits]:
  "sc_flag_link_self_container = 0x8000"

definition sc_flags_remove :: "sc_type \<Rightarrow> sc_type" where
  "sc_flags_remove x = x AND NOT (sc_flag_request_deletion OR sc_flag_link_self_container)"

subsection \<open>Access levels\<close>

type_synonym sc_access_levels = u8

definition SC_ACCESS_LVL_RMASK :: u8 where "SC_ACCESS_LVL_RMASK = 0xf0"
definition SC_ACCESS_LVL_WMASK :: u8 where "SC_ACCESS_LVL_WMASK = 0x0f"

definition sc_access_lvl_get_read :: "sc_access_levels \<Rightarrow> u8" where
  "sc_access_lvl_get_read l = drop_bit 4 (l AND SC_ACCESS_LVL_RMASK)"

definition sc_access_lvl_get_write :: "sc_access_levels \<Rightarrow> u8" where
  "sc_access_lvl_get_write l = l AND SC_ACCESS_LVL_WMASK"

definition sc_access_lvl_make :: "u8 \<Rightarrow> u8 \<Rightarrow> sc_access_levels" where
  "sc_access_lvl_make r w = w OR push_bit 4 r"

definition sc_access_lvl_make_max :: sc_access_levels where
  "sc_access_lvl_make_max = sc_access_lvl_make 15 15"

definition sc_access_lvl_make_min :: sc_access_levels where
  "sc_access_lvl_make_min = sc_access_lvl_make 0 0"

definition sc_access_lvl_min :: "sc_access_levels \<Rightarrow> sc_access_levels \<Rightarrow> sc_access_levels" where
  "sc_access_lvl_min a b =
     (let r = (if a AND SC_ACCESS_LVL_RMASK < b AND SC_ACCESS_LVL_RMASK
               then a AND SC_ACCESS_LVL_RMASK else b AND SC_ACCESS_LVL_RMASK);
          w = (if a AND SC_ACCESS_LVL_WMASK < b AND SC_ACCESS_LVL_WMASK
               then a AND SC_ACCESS_LVL_WMASK else b AND SC_ACCESS_LVL_WMASK)
      in r OR w)"

definition sc_access_lvl_max :: "sc_access_levels \<Rightarrow> sc_access_levels \<Rightarrow> sc_access_levels" where
  "sc_access_lvl_max a b =
     (let r = (if a AND SC_ACCESS_LVL_RMASK > b AND SC_ACCESS_LVL_RMASK
               then a AND SC_ACCESS_LVL_RMASK else b AND SC_ACCESS_LVL_RMASK);
          w = (if a AND SC_ACCESS_LVL_WMASK > b AND SC_ACCESS_LVL_WMASK
               then a AND SC_ACCESS_LVL_WMASK else b AND SC_ACCESS_LVL_WMASK)
      in r OR w)"

definition sc_access_lvl_check_read :: "sc_access_levels \<Rightarrow> sc_access_levels \<Rightarrow> bool" where
  "sc_access_lvl_check_read c e \<longleftrightarrow> sc_access_lvl_get_read c \<ge> sc_access_lvl_get_read e"

definition sc_access_lvl_check_write :: "sc_access_levels \<Rightarrow> sc_access_levels \<Rightarrow> bool" where
  "sc_access_lvl_check_write c e \<longleftrightarrow> sc_access_lvl_get_write c \<ge> sc_access_lvl_get_write e"

subsection \<open>Result codes and event types\<close>

datatype sc_result =
    SC_RESULT_ERROR
  | SC_RESULT_OK
  | SC_RESULT_ERROR_INVALID_PARAMS
  | SC_RESULT_ERROR_INVALID_TYPE
  | SC_RESULT_ERROR_IO
  | SC_RESULT_ERROR_INVALID_STATE
  | SC_RESULT_ERROR_NOT_FOUND
  | SC_RESULT_ERROR_NO_WRITE_RIGHTS
  | SC_RESULT_ERROR_NO_READ_RIGHTS
  | SC_RESULT_NO
  | SC_RESULT_UNKNOWN

datatype sc_event_type =
    SC_EVENT_UNKNOWN
  | SC_EVENT_ADD_OUTPUT_ARC
  | SC_EVENT_ADD_INPUT_ARC
  | SC_EVENT_REMOVE_OUTPUT_ARC
  | SC_EVENT_REMOVE_INPUT_ARC
  | SC_EVENT_REMOVE_ELEMENT
  | SC_EVENT_CONTENT_CHANGED

record sc_stat =
  node_count :: nat
  arc_count :: nat
  link_count :: nat
  empty_count_stat :: nat
  segments_count :: nat

subsection \<open>The element cell\<close>

text \<open>
  The C union of \<^verbatim>\<open>sc_content\<close> and \<^verbatim>\<open>sc_arc_info\<close> is kept as two fields:
  \<open>content\<close> is the view of an sc-link, \<open>arc\<close> the view of a connector.
\<close>

record sc_arc_info =
  arc_begin :: sc_addr
  arc_end :: sc_addr
  next_out_arc :: sc_addr
  next_in_arc :: sc_addr
  prev_out_arc :: sc_addr
  prev_in_arc :: sc_addr

record sc_element =
  el_type :: sc_type
  el_access :: sc_access_levels
  first_out_arc :: sc_addr
  first_in_arc :: sc_addr
  content :: "u8 list"
  arc :: sc_arc_info

record sc_element_meta =
  locks_data :: u8
  ref_count :: u32

definition zero_arc_info :: sc_arc_info where
  "zero_arc_info =
     \<lparr>arc_begin = SC_ADDR_MAKE_EMPTY, arc_end = SC_ADDR_MAKE_EMPTY,
      next_out_arc = SC_ADDR_MAKE_EMPTY, next_in_arc = SC_ADDR_MAKE_EMPTY,
      prev_out_arc = SC_ADDR_MAKE_EMPTY, prev_in_arc = SC_ADDR_MAKE_EMPTY\<rparr>"

definition zero_element :: sc_element where
  "zero_element =
     \<lparr>el_type = 0, el_access = 0, first_out_arc = SC_ADDR_MAKE_EMPTY,
      first_in_arc = SC_ADDR_MAKE_EMPTY, content = replicate SC_CHECKSUM_LEN 0,
      arc = zero_arc_info\<rparr>"

definition zero_meta :: sc_element_meta where
  "zero_meta = \<lparr>locks_data = 0, ref_count = 0\<rparr>"

definition sc_element_set_type :: "sc_type \<Rightarrow> sc_element \<Rightarrow> sc_element" where
  "sc_element_set_type t el = el\<lparr>el_type := sc_flags_remove t\<rparr>"

definition sc_element_is_checksum_empty :: "sc_element \<Rightarrow> bool option" where
  "sc_element_is_checksum_empty el = do {
     g_assert (el_type el AND sc_type_link \<noteq> 0);
     Some (\<forall>b \<in> set (take SC_CHECKSUM_LEN (content el)). b = 0)
   }"

definition sc_element_is_request_deletion :: "sc_element \<Rightarrow> bool" where
  "sc_element_is_request_deletion el \<longleftrightarrow> el_type el AND sc_flag_request_deletion \<noteq> 0"

definition sc_element_is_valid :: "sc_element \<Rightarrow> bool" where
  "sc_element_is_valid el \<longleftrightarrow>
     \<not> (el_type el = 0 \<or> el_type el AND sc_flag_request_deletion \<noteq> 0)"

definition sc_element_get_refs :: "sc_element_meta \<Rightarrow> u16" where
  "sc_element_get_refs m = ucast (ref_count m)"

definition is_arc :: "sc_element \<Rightarrow> bool" where
  "is_arc el \<longleftrightarrow> el_type el AND sc_type_arc_mask \<noteq> 0"

end
