(* ===== verification/Sc_Stream.thy ===== *)
theory Sc_Stream
  imports Sc_Types
begin

text \<open>
  Data streams (\<^verbatim>\<open>sc_stream.c\<close>, \<^verbatim>\<open>sc_stream_memory.c\<close>, \<^verbatim>\<open>sc_stream_file.c\<close>). The
  function pointers of a stream are those its constructor sets, so the handler says which
  ones they are. A stream passed as \<^verbatim>\<open>const\<close> is still moved by reading and seeking:
  every operation returns the stream as it is afterwards. Reading outside the buffer is
  \<open>None\<close>. A C stream \<^verbatim>\<open>FILE\<close> holds the bytes of the file, the position and the
  end-of-file indicator, as the C standard describes them.
\<close>

subsection \<open>Data\<close>

definition SC_STREAM_FLAG_READ :: u8 where "SC_STREAM_FLAG_READ = 1"
definition SC_STREAM_FLAG_WRITE :: u8 where "SC_STREAM_FLAG_WRITE = 2"
definition SC_STREAM_FLAG_APPEND :: u8 where "SC_STREAM_FLAG_APPEND = 4"
definition SC_STREAM_FLAG_SEEK :: u8 where "SC_STREAM_FLAG_SEEK = 8"
definition SC_STREAM_FLAG_TELL :: u8 where "SC_STREAM_FLAG_TELL = 16"

lemmas stream_flag_defs = SC_STREAM_FLAG_READ_def SC_STREAM_FLAG_WRITE_def SC_STREAM_FLAG_APPEND_def
  SC_STREAM_FLAG_SEEK_def SC_STREAM_FLAG_TELL_def

datatype sc_stream_seek_origin = SC_STREAM_SEEK_SET | SC_STREAM_SEEK_CUR | SC_STREAM_SEEK_END

type_synonym bytes = "u8 list"

record sc_memory_buffer =
  buf_data :: bytes
  buf_size :: u32
  buf_pos :: u32
  data_owner :: bool

type_synonym files = "string \<rightharpoonup> bytes"

record FILE =
  file_name :: string
  file_data :: bytes
  file_pos :: nat
  file_eof :: bool
  file_write :: bool

datatype stream_handler = Memory sc_memory_buffer | File FILE

record sc_stream =
  handler :: stream_handler
  stream_flags :: u8

subsection \<open>Memory streams\<close>

definition sc_stream_memory_read ::
    "u32 \<Rightarrow> sc_memory_buffer \<Rightarrow> (sc_result \<times> bytes \<times> sc_memory_buffer) option" where
  "sc_stream_memory_read len b =
     (if buf_size b = 0 then Some (SC_RESULT_ERROR, [], b)
      else do {
        let n = (if len > buf_size b - buf_pos b then buf_size b - buf_pos b else len);
        g_assert (unat (buf_pos b) + unat n \<le> length (buf_data b));
        Some (SC_RESULT_OK, take (unat n) (drop (unat (buf_pos b)) (buf_data b)), b\<lparr>buf_pos := buf_pos b + n\<rparr>)
      })"

definition sc_stream_memory_seek ::
    "sc_stream_seek_origin \<Rightarrow> u32 \<Rightarrow> sc_memory_buffer \<Rightarrow> sc_result \<times> sc_memory_buffer" where
  "sc_stream_memory_seek origin off b = (case origin of
       SC_STREAM_SEEK_END \<Rightarrow>
         if off > buf_size b then (SC_RESULT_ERROR_INVALID_PARAMS, b)
         else (SC_RESULT_OK, b\<lparr>buf_pos := buf_size b - off\<rparr>)
     | SC_STREAM_SEEK_CUR \<Rightarrow>
         if off > buf_size b - buf_pos b then (SC_RESULT_ERROR_INVALID_PARAMS, b)
         else (SC_RESULT_OK, b\<lparr>buf_pos := buf_pos b + off\<rparr>)
     | SC_STREAM_SEEK_SET \<Rightarrow>
         if off > buf_size b then (SC_RESULT_ERROR_INVALID_PARAMS, b)
         else (SC_RESULT_OK, b\<lparr>buf_pos := off\<rparr>))"

definition sc_stream_memory_tell :: "sc_memory_buffer \<Rightarrow> sc_result \<times> u32" where
  "sc_stream_memory_tell b = (SC_RESULT_OK, buf_pos b)"

definition sc_stream_memory_eof :: "sc_memory_buffer \<Rightarrow> bool" where
  "sc_stream_memory_eof b \<longleftrightarrow> buf_pos b = buf_size b"

definition sc_stream_memory_new :: "bytes option \<Rightarrow> u32 \<Rightarrow> u8 \<Rightarrow> bool \<Rightarrow> sc_stream option option" where
  "sc_stream_memory_new buffer sz flags owner =
     (if flags AND SC_STREAM_FLAG_WRITE \<noteq> 0 \<or> flags AND SC_STREAM_FLAG_APPEND \<noteq> 0 then Some None
      else do {
        g_assert (flags AND SC_STREAM_FLAG_READ \<noteq> 0);
        data \<leftarrow> buffer;
        Some (Some \<lparr>handler = Memory \<lparr>buf_data = data, buf_size = sz, buf_pos = 0, data_owner = owner\<rparr>,
          stream_flags = flags OR SC_STREAM_FLAG_SEEK OR SC_STREAM_FLAG_TELL\<rparr>)
      })"

subsection \<open>File streams\<close>

definition fread :: "nat \<Rightarrow> FILE \<Rightarrow> bytes \<times> FILE" where
  "fread n f = (let d = take n (drop (file_pos f) (file_data f))
     in (d, f\<lparr>file_pos := file_pos f + length d, file_eof := (if length d < n then True else file_eof f)\<rparr>))"

definition fwrite :: "bytes \<Rightarrow> FILE \<Rightarrow> nat \<times> FILE" where
  "fwrite d f = (if file_write f
     then (length d, f\<lparr>file_data := take (file_pos f) (file_data f) @ replicate (file_pos f - length (file_data f)) 0 @
            d @ drop (file_pos f + length d) (file_data f), file_pos := file_pos f + length d\<rparr>)
     else (0, f))"

definition fseek_to :: "nat \<Rightarrow> FILE \<Rightarrow> FILE" where
  "fseek_to n f = f\<lparr>file_pos := n, file_eof := False\<rparr>"

definition sc_stream_file_read :: "u32 \<Rightarrow> FILE \<Rightarrow> sc_result \<times> bytes \<times> FILE" where
  "sc_stream_file_read len f = (let (d, f1) = fread (unat len) f in (SC_RESULT_OK, d, f1))"

definition sc_stream_file_write :: "bytes \<Rightarrow> FILE \<Rightarrow> sc_result \<times> u32 \<times> FILE" where
  "sc_stream_file_write d f = (let (n, f1) = fwrite d f in (SC_RESULT_OK, of_nat n, f1))"

definition sc_stream_file_seek :: "sc_stream_seek_origin \<Rightarrow> u32 \<Rightarrow> FILE \<Rightarrow> sc_result \<times> FILE" where
  "sc_stream_file_seek origin off f = (SC_RESULT_OK, fseek_to (case origin of
       SC_STREAM_SEEK_SET \<Rightarrow> unat off
     | SC_STREAM_SEEK_CUR \<Rightarrow> file_pos f + unat off
     | SC_STREAM_SEEK_END \<Rightarrow> length (file_data f) + unat off) f)"

definition sc_stream_file_tell :: "FILE \<Rightarrow> sc_result \<times> u32" where
  "sc_stream_file_tell f = (SC_RESULT_OK, of_nat (file_pos f))"

definition sc_stream_file_eof :: "FILE \<Rightarrow> bool" where
  "sc_stream_file_eof f = file_eof f"

definition fopen :: "string \<Rightarrow> bool \<Rightarrow> files \<Rightarrow> FILE option \<times> files" where
  "fopen name writing fs =
     (if writing then (Some \<lparr>file_name = name, file_data = [], file_pos = 0, file_eof = False, file_write = True\<rparr>,
        fs(name \<mapsto> []))
      else (map_option (\<lambda>d. \<lparr>file_name = name, file_data = d, file_pos = 0, file_eof = False, file_write = False\<rparr>)
        (fs name), fs))"

definition sc_stream_file_new :: "string \<Rightarrow> u8 \<Rightarrow> files \<Rightarrow> (sc_stream option \<times> files) option" where
  "sc_stream_file_new name flags fs = do {
     (fd, fs1) \<leftarrow>
       (if flags AND SC_STREAM_FLAG_READ \<noteq> 0 then do {
          g_assert (flags AND SC_STREAM_FLAG_APPEND = 0);
          Some (fopen name False fs)
        }
        else if flags AND SC_STREAM_FLAG_WRITE \<noteq> 0 then
          (if flags AND SC_STREAM_FLAG_APPEND \<noteq> 0 then Some (fopen name True fs) else Some (fopen name True fs))
        else Some (None, fs));
     (case fd of
        None \<Rightarrow> Some (None, fs1)
      | Some f \<Rightarrow> Some (Some \<lparr>handler = File f, stream_flags = flags OR SC_STREAM_FLAG_TELL OR SC_STREAM_FLAG_SEEK\<rparr>, fs1))
   }"

definition sc_stream_file_free_handler :: "FILE \<Rightarrow> files \<Rightarrow> sc_result \<times> files" where
  "sc_stream_file_free_handler f fs =
     (SC_RESULT_OK, if file_write f then fs(file_name f \<mapsto> file_data f) else fs)"

subsection \<open>Streams\<close>

definition sc_stream_check_flag :: "u8 \<Rightarrow> sc_stream \<Rightarrow> bool" where
  "sc_stream_check_flag flag s \<longleftrightarrow> stream_flags s AND flag \<noteq> 0"

definition sc_stream_read_data :: "u32 \<Rightarrow> sc_stream \<Rightarrow> (sc_result \<times> bytes \<times> sc_stream) option" where
  "sc_stream_read_data len s =
     (if \<not> sc_stream_check_flag SC_STREAM_FLAG_READ s then Some (SC_RESULT_ERROR, [], s)
      else (case handler s of
        Memory b \<Rightarrow> do {
          (r, d, b1) \<leftarrow> sc_stream_memory_read len b;
          Some (r, d, s\<lparr>handler := Memory b1\<rparr>)
        }
      | File f \<Rightarrow> (let (r, d, f1) = sc_stream_file_read len f in Some (r, d, s\<lparr>handler := File f1\<rparr>))))"

definition sc_stream_write_data :: "bytes \<Rightarrow> sc_stream \<Rightarrow> sc_result \<times> u32 option \<times> sc_stream" where
  "sc_stream_write_data d s =
     (if \<not> sc_stream_check_flag SC_STREAM_FLAG_WRITE s then (SC_RESULT_ERROR, None, s)
      else (case handler s of
        Memory b \<Rightarrow> (SC_RESULT_ERROR, None, s)
      | File f \<Rightarrow> (let (r, n, f1) = sc_stream_file_write d f in (r, Some n, s\<lparr>handler := File f1\<rparr>))))"

definition stream_seek :: "sc_stream_seek_origin \<Rightarrow> u32 \<Rightarrow> sc_stream \<Rightarrow> sc_result \<times> sc_stream" where
  "stream_seek origin off s = (case handler s of
       Memory b \<Rightarrow> (let (r, b1) = sc_stream_memory_seek origin off b in (r, s\<lparr>handler := Memory b1\<rparr>))
     | File f \<Rightarrow> (let (r, f1) = sc_stream_file_seek origin off f in (r, s\<lparr>handler := File f1\<rparr>)))"

definition stream_tell :: "sc_stream \<Rightarrow> sc_result \<times> u32" where
  "stream_tell s = (case handler s of Memory b \<Rightarrow> sc_stream_memory_tell b | File f \<Rightarrow> sc_stream_file_tell f)"

definition sc_stream_seek :: "sc_stream_seek_origin \<Rightarrow> u32 \<Rightarrow> sc_stream \<Rightarrow> sc_result \<times> sc_stream" where
  "sc_stream_seek origin off s =
     (if \<not> sc_stream_check_flag SC_STREAM_FLAG_SEEK s then (SC_RESULT_ERROR, s)
      else stream_seek origin off s)"

definition sc_stream_eof :: "sc_stream \<Rightarrow> bool" where
  "sc_stream_eof s = (case handler s of Memory b \<Rightarrow> sc_stream_memory_eof b | File f \<Rightarrow> sc_stream_file_eof f)"

definition sc_stream_get_length :: "sc_stream \<Rightarrow> sc_result \<times> u32 option \<times> sc_stream" where
  "sc_stream_get_length s =
     (if \<not> sc_stream_check_flag (SC_STREAM_FLAG_SEEK OR SC_STREAM_FLAG_TELL) s then (SC_RESULT_ERROR, None, s)
      else let (r, old_pos) = stream_tell s in
        if r = SC_RESULT_ERROR then (SC_RESULT_ERROR, None, s)
        else let (r1, s1) = stream_seek SC_STREAM_SEEK_END 0 s in
          if r1 = SC_RESULT_ERROR then (SC_RESULT_ERROR, None, snd (stream_seek SC_STREAM_SEEK_SET old_pos s1))
          else let (res, len) = stream_tell s1 in (res, Some len, snd (stream_seek SC_STREAM_SEEK_SET old_pos s1)))"

definition sc_stream_get_position :: "sc_stream \<Rightarrow> sc_result \<times> u32" where
  "sc_stream_get_position s = stream_tell s"

definition sc_stream_free :: "sc_stream \<Rightarrow> files \<Rightarrow> sc_result \<times> files" where
  "sc_stream_free s fs = (case handler s of
       Memory b \<Rightarrow> (SC_RESULT_OK, fs)
     | File f \<Rightarrow> (SC_RESULT_OK, snd (sc_stream_file_free_handler f fs)))"

subsection \<open>What a readable stream holds\<close>

text \<open>
  \<open>whole\<close> are the bytes of a stream, \<open>at_pos\<close> its position; a stream is sound when it may be
  read and moved, its buffer is as long as it says and its position is inside.
\<close>

definition whole :: "sc_stream \<Rightarrow> bytes" where
  "whole s = (case handler s of Memory b \<Rightarrow> take (unat (buf_size b)) (buf_data b) | File f \<Rightarrow> file_data f)"

definition at_pos :: "sc_stream \<Rightarrow> nat" where
  "at_pos s = (case handler s of Memory b \<Rightarrow> unat (buf_pos b) | File f \<Rightarrow> file_pos f)"

definition stream_ok :: "sc_stream \<Rightarrow> bool" where
  "stream_ok s \<longleftrightarrow> sc_stream_check_flag SC_STREAM_FLAG_READ s \<and> sc_stream_check_flag SC_STREAM_FLAG_SEEK s \<and>
     length (whole s) < 2 ^ 32 \<and> at_pos s \<le> length (whole s) \<and>
     (case handler s of Memory b \<Rightarrow> unat (buf_size b) \<le> length (buf_data b)
      | File f \<Rightarrow> file_eof f \<longrightarrow> file_pos f = length (file_data f))"

definition same_stream :: "sc_stream \<Rightarrow> sc_stream \<Rightarrow> bool" where
  "same_stream s s' \<longleftrightarrow> whole s' = whole s \<and> stream_flags s' = stream_flags s"

lemma same_stream_refl [simp]: "same_stream s s"
  by (simp add: same_stream_def)

lemma same_stream_trans: "same_stream s s1 \<Longrightarrow> same_stream s1 s2 \<Longrightarrow> same_stream s s2"
  by (simp add: same_stream_def)

lemma read_data_ok:
  assumes ok: "stream_ok s" and e: "\<not> sc_stream_eof s"
  shows "\<exists>s'. sc_stream_read_data n s = Some (SC_RESULT_OK, take (unat n) (drop (at_pos s) (whole s)), s') \<and>
     stream_ok s' \<and> same_stream s s' \<and> at_pos s' = at_pos s + length (take (unat n) (drop (at_pos s) (whole s))) \<and>
     (length (drop (at_pos s) (whole s)) < unat n \<longrightarrow> sc_stream_eof s')"
proof (cases "handler s")
  case (Memory b)
  define m where "m = (if n > buf_size b - buf_pos b then buf_size b - buf_pos b else n)"
  let ?b = "b\<lparr>buf_pos := buf_pos b + m\<rparr>"
  have c: "unat (buf_size b) \<le> length (buf_data b)" "unat (buf_pos b) \<le> unat (buf_size b)" "buf_pos b \<noteq> buf_size b"
    using ok e Memory by (auto simp: stream_ok_def whole_def at_pos_def sc_stream_eof_def sc_stream_memory_eof_def)
  have sub: "unat (buf_size b - buf_pos b) = unat (buf_size b) - unat (buf_pos b)"
    using c(2) by (simp add: unat_sub word_le_nat_alt)
  have mn: "unat m = min (unat n) (unat (buf_size b) - unat (buf_pos b))"
    using sub by (auto simp: m_def word_less_nat_alt)
  have nz: "buf_size b \<noteq> 0" using c(2,3) by (auto simp only: unat_0 le_zero_eq unat_eq_zero)
  have lt: "unat (buf_size b) < 2 ^ 32" using unsigned_less [of "buf_size b", where ?'a = nat] by simp
  have p: "unat (buf_pos b + m) = unat (buf_pos b) + unat m"
    by (rule unat_add_lem [THEN iffD1]) (use mn c(2) lt in simp)
  have d: "take (unat m) (drop (unat (buf_pos b)) (buf_data b)) =
      take (unat n) (drop (at_pos s) (whole s))"
    using c mn Memory by (auto simp: whole_def at_pos_def drop_take min_def)
  have len: "length (take (unat n) (drop (at_pos s) (whole s))) = unat m"
    using c(1,2) mn Memory by (simp add: whole_def at_pos_def min_def)
  have r: "sc_stream_read_data n s = Some (SC_RESULT_OK, take (unat n) (drop (at_pos s) (whole s)), s\<lparr>handler := Memory ?b\<rparr>)"
    using ok Memory nz c(1,2) mn unfolding d [symmetric]
    by (simp add: sc_stream_read_data_def stream_ok_def sc_stream_memory_read_def Let_def flip: m_def)
  have "stream_ok (s\<lparr>handler := Memory ?b\<rparr>)"
    using ok Memory c p mn by (simp add: stream_ok_def sc_stream_check_flag_def whole_def at_pos_def)
  moreover have "sc_stream_eof (s\<lparr>handler := Memory ?b\<rparr>)" if "length (drop (at_pos s) (whole s)) < unat n"
    using that Memory c p mn by (simp add: sc_stream_eof_def sc_stream_memory_eof_def word_unat_eq_iff whole_def at_pos_def)
  ultimately show ?thesis
    using r Memory len p by (intro exI [of _ "s\<lparr>handler := Memory ?b\<rparr>"]) (simp add: same_stream_def whole_def at_pos_def)
next
  case (File f)
  then show ?thesis
    using ok e
    by (auto simp: sc_stream_read_data_def stream_ok_def sc_stream_file_read_def fread_def Let_def same_stream_def
        whole_def at_pos_def sc_stream_eof_def sc_stream_file_eof_def sc_stream_check_flag_def)
qed

subsection \<open>Reading to the end\<close>

text \<open>
  A source of bytes that is read in blocks: a read delivers what is left, up to the size of
  the block, and a read that comes short raises the end-of-file indicator. The two loops of
  the file memory that read a whole stream are clients of this interface.
\<close>

locale byte_source =
  fixes good :: "'s \<Rightarrow> bool" and rest :: "'s \<Rightarrow> 'b list" and same :: "'s \<Rightarrow> 's \<Rightarrow> bool"
    and eof :: "'s \<Rightarrow> bool" and read :: "u32 \<Rightarrow> 's \<Rightarrow> (sc_result \<times> 'b list \<times> 's) option"
  assumes rest_eof: "good s \<Longrightarrow> eof s \<Longrightarrow> rest s = []"
    and read_block: "good s \<Longrightarrow> \<not> eof s \<Longrightarrow>
      \<exists>s'. read n s = Some (SC_RESULT_OK, take (unat n) (rest s), s') \<and> good s' \<and> same s s' \<and>
        rest s' = drop (unat n) (rest s) \<and> (length (rest s) < unat n \<longrightarrow> eof s')"
    and same_refl: "same s s" and same_trans: "same s s1 \<Longrightarrow> same s1 s2 \<Longrightarrow> same s s2"
begin

lemma drain_to_eof:
  assumes loop: "\<And>s acc. loop s acc = (if eof s then Some (Some acc, s)
      else do { (r, d, s1) \<leftarrow> read n s; if r = SC_RESULT_ERROR then Some (None, s1) else loop s1 (acc @ d) })"
    and n: "n \<noteq> 0" and good: "good s"
  shows "\<exists>s'. loop s acc = Some (Some (acc @ rest s), s') \<and> good s' \<and> same s s'"
  using good
proof (induction "length (rest s)" arbitrary: s acc rule: less_induct)
  case less
  show ?case
  proof (cases "eof s")
    case True
    then show ?thesis using less.prems rest_eof same_refl by (simp add: loop [of s])
  next
    case False
    obtain s1 where s1: "read n s = Some (SC_RESULT_OK, take (unat n) (rest s), s1)" "good s1" "same s s1"
      "rest s1 = drop (unat n) (rest s)" "length (rest s) < unat n \<Longrightarrow> eof s1"
      using read_block [OF less.prems False, of n] by blast
    have step: "loop s acc = loop s1 (acc @ take (unat n) (rest s))" using False s1(1) by (simp add: loop [of s])
    have "\<exists>s'. loop s1 (acc @ take (unat n) (rest s)) = Some (Some (acc @ take (unat n) (rest s) @ rest s1), s') \<and>
        good s' \<and> same s1 s'"
    proof (cases "length (rest s) < unat n")
      case True
      then show ?thesis using s1 rest_eof [OF s1(2)] same_refl by (simp add: loop [of s1])
    next
      case False
      moreover have "unat n > 0" using n by (simp add: unat_gt_0)
      ultimately have "length (rest s1) < length (rest s)" using s1(4) by simp
      from less.hyps [OF this s1(2), of "acc @ take (unat n) (rest s)"] show ?thesis by simp
    qed
    then show ?thesis using step s1(3,4) same_trans by auto
  qed
qed

lemma collect_known_length:
  assumes loop: "\<And>s acc. loop s acc = (if length acc < len
      then do { (r, d, s1) \<leftarrow> read n s; if r \<noteq> SC_RESULT_OK then Some (None, s1) else loop s1 (acc @ d) }
      else Some (Some acc, s))"
    and n: "n \<noteq> 0" and good: "good s" and len: "len = length acc + length (rest s)"
  shows "\<exists>s'. loop s acc = Some (Some (acc @ rest s), s') \<and> good s' \<and> same s s'"
  using good len
proof (induction "length (rest s)" arbitrary: s acc rule: less_induct)
  case less
  show ?case
  proof (cases "rest s = []")
    case True
    then show ?thesis using less.prems same_refl by (simp add: loop [of s])
  next
    case False
    then have ne: "\<not> eof s" using rest_eof less.prems(1) by blast
    obtain s1 where s1: "read n s = Some (SC_RESULT_OK, take (unat n) (rest s), s1)" "good s1" "same s s1"
      "rest s1 = drop (unat n) (rest s)"
      using read_block [OF less.prems(1) ne, of n] by blast
    have step: "loop s acc = loop s1 (acc @ take (unat n) (rest s))"
      using False less.prems(2) s1(1) by (simp add: loop [of s])
    have "unat n > 0" using n by (simp add: unat_gt_0)
    then have "length (rest s1) < length (rest s)" "len = length (acc @ take (unat n) (rest s)) + length (rest s1)"
      using s1(4) False less.prems(2) by auto
    from less.hyps [OF this(1) s1(2) this(2)] show ?thesis using step s1(3,4) same_trans by auto
  qed
qed

end

definition rest :: "sc_stream \<Rightarrow> bytes" where
  "rest s = drop (at_pos s) (whole s)"

interpretation stream: byte_source stream_ok rest same_stream sc_stream_eof sc_stream_read_data
proof
  fix s n
  assume ok: "stream_ok s"
  show "rest s = []" if "sc_stream_eof s"
    using ok that by (auto simp: stream_ok_def rest_def whole_def at_pos_def sc_stream_eof_def
        sc_stream_memory_eof_def sc_stream_file_eof_def split: stream_handler.splits)
  show "\<exists>s'. sc_stream_read_data n s = Some (SC_RESULT_OK, take (unat n) (rest s), s') \<and> stream_ok s' \<and>
      same_stream s s' \<and> rest s' = drop (unat n) (rest s) \<and> (length (rest s) < unat n \<longrightarrow> sc_stream_eof s')"
    if e: "\<not> sc_stream_eof s"
  proof -
    obtain s' where s': "sc_stream_read_data n s = Some (SC_RESULT_OK, take (unat n) (drop (at_pos s) (whole s)), s')"
      "stream_ok s'" "same_stream s s'" "at_pos s' = at_pos s + length (take (unat n) (drop (at_pos s) (whole s)))"
      "length (drop (at_pos s) (whole s)) < unat n \<longrightarrow> sc_stream_eof s'"
      using read_data_ok [OF ok e, of n] by blast
    moreover have "rest s' = drop (unat n) (rest s)"
      using s'(3,4) ok by (auto simp: rest_def same_stream_def stream_ok_def min_def add.commute)
    ultimately show ?thesis by (auto simp: rest_def)
  qed
qed (auto intro: same_stream_trans)

lemma seek_start:
  assumes "stream_ok s"
  shows "\<exists>s'. sc_stream_seek SC_STREAM_SEEK_SET 0 s = (SC_RESULT_OK, s') \<and> stream_ok s' \<and> same_stream s s' \<and>
     at_pos s' = 0"
  using assms
  by (auto simp: sc_stream_seek_def stream_seek_def stream_ok_def sc_stream_memory_seek_def sc_stream_file_seek_def
      fseek_to_def same_stream_def whole_def at_pos_def sc_stream_check_flag_def split: stream_handler.splits)

lemma get_length_ok:
  assumes "stream_ok s"
  shows "\<exists>s'. sc_stream_get_length s = (SC_RESULT_OK, Some (of_nat (length (whole s))), s') \<and> stream_ok s' \<and>
     same_stream s s' \<and> at_pos s' = at_pos s"
proof -
  have f: "sc_stream_check_flag (SC_STREAM_FLAG_SEEK OR SC_STREAM_FLAG_TELL) s"
    using assms by (auto simp: stream_ok_def sc_stream_check_flag_def bit.conj_disj_distrib or_eq_0_iff)
  show ?thesis
  proof (cases "handler s")
    case (Memory b)
    then have w: "length (whole s) = unat (buf_size b)" and p: "\<not> buf_size b < buf_pos b"
      using assms by (auto simp: stream_ok_def whole_def at_pos_def word_less_nat_alt)
    show ?thesis
      using Memory assms f p unfolding w
      by (auto simp: sc_stream_get_length_def stream_tell_def stream_seek_def sc_stream_memory_tell_def
          sc_stream_memory_seek_def stream_ok_def same_stream_def whole_def at_pos_def sc_stream_check_flag_def)
  next
    case (File g)
    then have "unat (of_nat (file_pos g) :: u32) = file_pos g"
      using assms by (auto simp: stream_ok_def at_pos_def whole_def unat_of_nat intro!: mod_less)
    then show ?thesis
      using File assms f
      by (auto simp: sc_stream_get_length_def stream_tell_def stream_seek_def sc_stream_file_tell_def
          sc_stream_file_seek_def fseek_to_def stream_ok_def same_stream_def whole_def at_pos_def
          sc_stream_check_flag_def)
  qed
qed

lemma memory_new_ok:
  assumes "length d = unat n"
  shows "\<exists>s. sc_stream_memory_new (Some d) n SC_STREAM_FLAG_READ owner = Some (Some s) \<and> stream_ok s \<and>
     whole s = d \<and> at_pos s = 0"
proof -
  have "length d < 2 ^ 32" using assms unsigned_less [of n, where ?'a = nat] by simp
  then show ?thesis
    using assms
    by (simp add: sc_stream_memory_new_def stream_flag_defs stream_ok_def whole_def at_pos_def sc_stream_check_flag_def)
qed

end
