(* ===== verification/Sc_File_Memory.thy ===== *)
theory Sc_File_Memory
  imports Sc_Stream
begin

text \<open>
  The file memory (\<^verbatim>\<open>sc_fm_engine.cpp\<close>) and the checksums of contents
  (\<^verbatim>\<open>sc_link_helpers.c\<close>). The key-value store RocksDB is the parameter \<open>db\<close>, a record of
  the three calls the engine makes; \<open>rocks_ok\<close> is what the engine relies on: they succeed,
  and a lookup sees the last write. The digest of glib is the parameter \<open>sha\<close>, from the
  bytes given to \<^verbatim>\<open>g_checksum_update\<close> to the hexadecimal string. Sizes are those of a
  64-bit little-endian machine.
\<close>

subsection \<open>Parameters\<close>

record 'db rocksdb =
  rocks_get :: "'db \<Rightarrow> bytes \<Rightarrow> bytes option"
  rocks_put :: "'db \<Rightarrow> bytes \<Rightarrow> bytes \<Rightarrow> bool \<times> 'db"
  rocks_delete :: "'db \<Rightarrow> bytes \<Rightarrow> bool \<times> 'db"

definition rocks_ok :: "'db rocksdb \<Rightarrow> bool" where
  "rocks_ok db \<longleftrightarrow>
     (\<forall>d k v. fst (rocks_put db d k v) \<and>
        rocks_get db (snd (rocks_put db d k v)) = (rocks_get db d)(k \<mapsto> v)) \<and>
     (\<forall>d k. fst (rocks_delete db d k) \<and>
        rocks_get db (snd (rocks_delete db d k)) = (rocks_get db d)(k := None))"

definition sha_ok :: "(bytes \<Rightarrow> bytes) \<Rightarrow> bool" where
  "sha_ok sha \<longleftrightarrow> (\<forall>d. length (sha d) = 2 * SC_CHECKSUM_LEN \<and> (\<forall>b \<in> set (sha d). b \<noteq> 0))"

subsection \<open>Checksums\<close>

partial_function (option) checksum_loop :: "sc_stream \<Rightarrow> bytes \<Rightarrow> (bytes option \<times> sc_stream) option" where
  "checksum_loop s acc =
     (if sc_stream_eof s then Some (Some acc, s)
      else do {
        (r, d, s1) \<leftarrow> sc_stream_read_data 1024 s;
        if r = SC_RESULT_ERROR then Some (None, s1) else checksum_loop s1 (acc @ d)
      })"

definition sc_link_calculate_checksum ::
    "(bytes \<Rightarrow> bytes) \<Rightarrow> sc_stream \<Rightarrow> (bytes option \<times> sc_stream) option" where
  "sc_link_calculate_checksum sha s = do {
     let s1 = snd (sc_stream_seek SC_STREAM_SEEK_SET 0 s);
     (acc, s2) \<leftarrow> checksum_loop s1 [];
     (case acc of
        None \<Rightarrow> Some (None, s2)
      | Some d \<Rightarrow> Some (Some (take SC_CHECKSUM_LEN (sha d)), snd (sc_stream_seek SC_STREAM_SEEK_SET 0 s2)))
   }"

definition sc_link_self_container_calculate_checksum :: "(bytes \<Rightarrow> bytes) \<Rightarrow> sc_element \<Rightarrow> bytes option option" where
  "sc_link_self_container_calculate_checksum sha el = do {
     s \<leftarrow> sc_stream_memory_new (Some (drop 1 (content el))) (ucast (content el ! 0)) SC_STREAM_FLAG_READ False;
     s1 \<leftarrow> s;
     (sum, _) \<leftarrow> sc_link_calculate_checksum sha s1;
     Some sum
   }"

subsection \<open>Keys and values\<close>

definition literal :: "string \<Rightarrow> bytes" where
  "literal = map of_char"

definition MakeAddrsKey :: "bytes \<Rightarrow> bytes" where
  "MakeAddrsKey cs = cs @ literal ''_addrs''"

definition MakeContentKey :: "bytes \<Rightarrow> bytes" where
  "MakeContentKey cs = cs @ literal ''_content''"

fun le_bytes :: "nat \<Rightarrow> nat \<Rightarrow> bytes" where
  "le_bytes 0 x = []"
| "le_bytes (Suc n) x = of_nat (x mod 256) # le_bytes n (x div 256)"

fun le_nat :: "bytes \<Rightarrow> nat" where
  "le_nat [] = 0"
| "le_nat (b # bs) = unat b + 256 * le_nat bs"

definition addr_bytes :: "sc_addr \<Rightarrow> bytes" where
  "addr_bytes a = le_bytes 2 (unat (addr_seg a)) @ le_bytes 2 (unat (addr_offset a))"

definition bytes_addr :: "bytes \<Rightarrow> sc_addr" where
  "bytes_addr bs = Addr (of_nat (le_nat (take 2 bs))) (of_nat (le_nat (take 2 (drop 2 bs))))"

definition DataToStringBuffer :: "sc_addr list \<Rightarrow> bytes" where
  "DataToStringBuffer addrs = le_bytes 8 (length addrs) @ concat (map addr_bytes addrs)"

fun bytes_addrs :: "nat \<Rightarrow> bytes \<Rightarrow> sc_addr list" where
  "bytes_addrs 0 bs = []"
| "bytes_addrs (Suc n) bs = bytes_addr (take 4 bs) # bytes_addrs n (drop 4 bs)"

definition StringBufferToData :: "bytes \<Rightarrow> sc_addr list option" where
  "StringBufferToData data = do {
     g_assert (length data \<ge> 8);
     let n = le_nat (take 8 data);
     g_assert (length data = 8 + 4 * n);
     Some (bytes_addrs n (drop 8 data))
   }"

subsection \<open>Operations\<close>

definition SC_RES :: "bool \<Rightarrow> sc_result" where
  "SC_RES b = (if b then SC_RESULT_OK else SC_RESULT_ERROR)"

definition sc_fm_read_stream_new :: "'db rocksdb \<Rightarrow> bytes \<Rightarrow> 'db \<Rightarrow> sc_stream option option" where
  "sc_fm_read_stream_new db cs d = (case rocks_get db d (MakeContentKey cs) of
       Some v \<Rightarrow> sc_stream_memory_new (Some v) (of_nat (length v)) SC_STREAM_FLAG_READ True
     | None \<Rightarrow> Some None)"

partial_function (option) fm_collect :: "u32 \<Rightarrow> sc_stream \<Rightarrow> bytes \<Rightarrow> (bytes option \<times> sc_stream) option" where
  "fm_collect len s acc =
     (if length acc < unat len then do {
        (r, d, s1) \<leftarrow> sc_stream_read_data 1024 s;
        if r \<noteq> SC_RESULT_OK then Some (None, s1) else fm_collect len s1 (acc @ d)
      }
      else Some (Some acc, s))"

definition sc_fm_write_stream ::
    "'db rocksdb \<Rightarrow> bytes \<Rightarrow> sc_stream \<Rightarrow> 'db \<Rightarrow> (sc_result \<times> sc_stream \<times> 'db) option" where
  "sc_fm_write_stream db cs s d = do {
     let s1 = snd (sc_stream_seek SC_STREAM_SEEK_SET 0 s);
     let (res, len, s2) = sc_stream_get_length s1;
     if res \<noteq> SC_RESULT_OK then Some (SC_RESULT_ERROR_IO, s2, d)
     else do {
       n \<leftarrow> len;
       (acc, s3) \<leftarrow> fm_collect n s2 [];
       (case acc of
          None \<Rightarrow> Some (SC_RESULT_ERROR_IO, s3, d)
        | Some v \<Rightarrow> (let (ok, d1) = rocks_put db d (MakeContentKey cs) v in Some (SC_RES ok, s3, d1)))
     }
   }"

definition sc_fm_addr_ref_append ::
    "'db rocksdb \<Rightarrow> sc_addr \<Rightarrow> bytes \<Rightarrow> 'db \<Rightarrow> (sc_result \<times> 'db) option" where
  "sc_fm_addr_ref_append db a cs d = do {
     let key = MakeAddrsKey cs;
     addrs \<leftarrow> (case rocks_get db d key of Some v \<Rightarrow> StringBufferToData v | None \<Rightarrow> Some []);
     let (ok, d1) = rocks_put db d key (DataToStringBuffer (addrs @ [a]));
     Some (SC_RES ok, d1)
   }"

definition sc_fm_addr_ref_remove ::
    "'db rocksdb \<Rightarrow> sc_addr \<Rightarrow> bytes \<Rightarrow> 'db \<Rightarrow> (sc_result \<times> 'db) option" where
  "sc_fm_addr_ref_remove db a cs d = (let key = MakeAddrsKey cs in
     case rocks_get db d key of
       None \<Rightarrow> Some (SC_RESULT_ERROR_IO, d)
     | Some v \<Rightarrow> do {
         addrs \<leftarrow> StringBufferToData v;
         let addrs1 = remove1 a addrs;
         if addrs1 = [] then do {
           let (_, d1) = rocks_delete db d key;
           let (ok, d2) = rocks_delete db d1 (MakeContentKey cs);
           Some (SC_RES ok, d2)
         }
         else do {
           let (ok, d1) = rocks_put db d key (DataToStringBuffer addrs1);
           Some (SC_RES ok, d1)
         }
       })"

definition sc_fm_find :: "'db rocksdb \<Rightarrow> bytes \<Rightarrow> 'db \<Rightarrow> (sc_result \<times> sc_addr list) option" where
  "sc_fm_find db cs d = (case rocks_get db d (MakeAddrsKey cs) of
       None \<Rightarrow> Some (SC_RESULT_ERROR_IO, [])
     | Some v \<Rightarrow> do { addrs \<leftarrow> StringBufferToData v; Some (SC_RESULT_OK, addrs) })"

subsection \<open>Contents (\<^verbatim>\<open>sc_fs_storage.c\<close>)\<close>

definition sc_fs_storage_add_content_addr ::
    "'db rocksdb \<Rightarrow> sc_addr \<Rightarrow> bytes \<Rightarrow> 'db \<Rightarrow> (sc_result \<times> 'db) option" where
  "sc_fs_storage_add_content_addr db a cs d = sc_fm_addr_ref_append db a cs d"

definition sc_fs_storage_remove_content_addr ::
    "'db rocksdb \<Rightarrow> sc_addr \<Rightarrow> bytes \<Rightarrow> 'db \<Rightarrow> (sc_result \<times> 'db) option" where
  "sc_fs_storage_remove_content_addr db a cs d = sc_fm_addr_ref_remove db a cs d"

definition sc_fs_storage_write_content ::
    "'db rocksdb \<Rightarrow> sc_addr \<Rightarrow> bytes \<Rightarrow> sc_stream \<Rightarrow> 'db \<Rightarrow> (sc_result \<times> sc_stream \<times> 'db) option" where
  "sc_fs_storage_write_content db a cs s d = do {
     (r, s1, d1) \<leftarrow> sc_fm_write_stream db cs s d;
     if r = SC_RESULT_OK then do {
       let s2 = snd (sc_stream_seek SC_STREAM_SEEK_SET 0 s1);
       (r2, d2) \<leftarrow> sc_fs_storage_add_content_addr db a cs d1;
       Some (r2, s2, d2)
     }
     else Some (SC_RESULT_ERROR_IO, s1, d1)
   }"

definition sc_fs_storage_find_links_with_content ::
    "'db rocksdb \<Rightarrow> bytes \<Rightarrow> 'db \<Rightarrow> (sc_result \<times> sc_addr list) option" where
  "sc_fs_storage_find_links_with_content db cs d = sc_fm_find db cs d"

text \<open>The test at the end looks at the pointer to the result, which is never null.\<close>

definition sc_fs_storage_get_checksum_content ::
    "'db rocksdb \<Rightarrow> bytes \<Rightarrow> 'db \<Rightarrow> (sc_result \<times> sc_stream option) option" where
  "sc_fs_storage_get_checksum_content db cs d = do {
     s \<leftarrow> sc_fm_read_stream_new db cs d;
     Some (SC_RESULT_OK, s)
   }"

subsection \<open>The encoding of address lists\<close>

lemma length_le_bytes [simp]: "length (le_bytes n x) = n"
  by (induction n arbitrary: x) simp_all

lemma le_nat_le_bytes: "x < 256 ^ n \<Longrightarrow> le_nat (le_bytes n x) = x"
proof (induction n arbitrary: x)
  case (Suc n)
  then have "x div 256 < 256 ^ n" by (simp add: div_less_iff_less_mult)
  moreover have "unat (of_nat (x mod 256) :: u8) = x mod 256" by (simp add: unat_of_nat)
  ultimately show ?case using Suc.IH by simp
qed simp

lemma length_addr_bytes [simp]: "length (addr_bytes a) = 4"
  by (simp add: addr_bytes_def)

lemma bytes_addr_addr_bytes [simp]: "bytes_addr (addr_bytes a) = a"
  by (cases a) (simp add: bytes_addr_def addr_bytes_def le_nat_le_bytes)

lemma bytes_addrs_concat: "bytes_addrs (length addrs) (concat (map addr_bytes addrs)) = addrs"
  by (induction addrs) simp_all

lemma length_concat_addrs [simp]: "length (concat (map addr_bytes addrs)) = 4 * length addrs"
  by (induction addrs) simp_all

lemma string_buffer_back:
  "length addrs < 2 ^ 64 \<Longrightarrow> StringBufferToData (DataToStringBuffer addrs) = Some addrs"
  using le_nat_le_bytes [of "length addrs" 8]
  by (simp add: StringBufferToData_def DataToStringBuffer_def Let_def bytes_addrs_concat)

subsection \<open>The file memory as an index\<close>

text \<open>
  Abstractly the file memory maps a checksum to the links that hold a content with that
  checksum, in the order they were added, and to the content itself when it is kept.
\<close>

record fm_index =
  links_of :: "bytes \<Rightarrow> sc_addr list"
  content_of :: "bytes \<rightharpoonup> bytes"

definition index_add :: "sc_addr \<Rightarrow> bytes \<Rightarrow> fm_index \<Rightarrow> fm_index" where
  "index_add a cs x = x\<lparr>links_of := (links_of x)(cs := links_of x cs @ [a])\<rparr>"

definition index_remove :: "sc_addr \<Rightarrow> bytes \<Rightarrow> fm_index \<Rightarrow> fm_index" where
  "index_remove a cs x = (let l = remove1 a (links_of x cs)
     in x\<lparr>links_of := (links_of x)(cs := l),
          content_of := (if l = [] then (content_of x)(cs := None) else content_of x)\<rparr>)"

definition index_store :: "bytes \<Rightarrow> bytes \<Rightarrow> fm_index \<Rightarrow> fm_index" where
  "index_store cs v x = x\<lparr>content_of := (content_of x)(cs \<mapsto> v)\<rparr>"

definition fm_wf :: "'db rocksdb \<Rightarrow> 'db \<Rightarrow> bool" where
  "fm_wf db d \<longleftrightarrow> (\<forall>cs v. rocks_get db d (MakeAddrsKey cs) = Some v \<longrightarrow>
     (\<exists>l. v = DataToStringBuffer l \<and> l \<noteq> [] \<and> length l < 2 ^ 64))"

definition fm_abs :: "'db rocksdb \<Rightarrow> 'db \<Rightarrow> fm_index" where
  "fm_abs db d = \<lparr>
     links_of = (\<lambda>cs. case rocks_get db d (MakeAddrsKey cs) of None \<Rightarrow> [] | Some v \<Rightarrow> the (StringBufferToData v)),
     content_of = (\<lambda>cs. rocks_get db d (MakeContentKey cs))\<rparr>"

lemma keys_inj [simp]:
  "MakeAddrsKey x = MakeAddrsKey y \<longleftrightarrow> x = y" "MakeContentKey x = MakeContentKey y \<longleftrightarrow> x = y"
  by (simp_all add: MakeAddrsKey_def MakeContentKey_def)

lemma keys_distinct [simp]: "MakeAddrsKey x \<noteq> MakeContentKey y" "MakeContentKey y \<noteq> MakeAddrsKey x"
proof -
  have "last (MakeAddrsKey x) \<noteq> last (MakeContentKey y)"
    by (simp add: MakeAddrsKey_def MakeContentKey_def literal_def of_char_def)
  then show "MakeAddrsKey x \<noteq> MakeContentKey y" "MakeContentKey y \<noteq> MakeAddrsKey x" by metis+
qed

lemma rocks_put_ok:
  assumes "rocks_ok db"
  obtains d' where "rocks_put db d k v = (True, d')" "rocks_get db d' = (rocks_get db d)(k \<mapsto> v)"
proof -
  have "fst (rocks_put db d k v)" "rocks_get db (snd (rocks_put db d k v)) = (rocks_get db d)(k \<mapsto> v)"
    using assms by (simp_all add: rocks_ok_def)
  then show thesis by (cases "rocks_put db d k v") (auto intro: that)
qed

lemma rocks_delete_ok:
  assumes "rocks_ok db"
  obtains d' where "rocks_delete db d k = (True, d')" "rocks_get db d' = (rocks_get db d)(k := None)"
proof -
  have "fst (rocks_delete db d k)" "rocks_get db (snd (rocks_delete db d k)) = (rocks_get db d)(k := None)"
    using assms by (simp_all add: rocks_ok_def)
  then show thesis by (cases "rocks_delete db d k") (auto intro: that)
qed

lemma fm_cases:
  assumes "fm_wf db d"
  obtains (none) "rocks_get db d (MakeAddrsKey cs) = None" "links_of (fm_abs db d) cs = []"
    | (some) l where "rocks_get db d (MakeAddrsKey cs) = Some (DataToStringBuffer l)" "l \<noteq> []"
        "length l < 2 ^ 64" "links_of (fm_abs db d) cs = l"
  using assms string_buffer_back
  by (cases "rocks_get db d (MakeAddrsKey cs)") (auto simp: fm_wf_def fm_abs_def)

lemma fm_append_refines:
  assumes db: "rocks_ok db" and wf: "fm_wf db d" and room: "length (links_of (fm_abs db d) cs) < 2 ^ 64 - 1"
  shows "\<exists>d'. sc_fm_addr_ref_append db a cs d = Some (SC_RESULT_OK, d') \<and> fm_wf db d' \<and>
     fm_abs db d' = index_add a cs (fm_abs db d)"
proof -
  let ?l = "links_of (fm_abs db d) cs"
  obtain d' where d': "rocks_put db d (MakeAddrsKey cs) (DataToStringBuffer (?l @ [a])) = (True, d')"
    "rocks_get db d' = (rocks_get db d)(MakeAddrsKey cs \<mapsto> DataToStringBuffer (?l @ [a]))"
    using rocks_put_ok [OF db] by blast
  have "(case rocks_get db d (MakeAddrsKey cs) of Some v \<Rightarrow> StringBufferToData v | None \<Rightarrow> Some []) = Some ?l"
    using wf string_buffer_back by (cases rule: fm_cases [where cs = cs]) auto
  then have r: "sc_fm_addr_ref_append db a cs d = Some (SC_RESULT_OK, d')"
    using d'(1) by (simp add: sc_fm_addr_ref_append_def SC_RES_def)
  have "fm_wf db d'" using wf room d'(2) by (auto simp: fm_wf_def)
  moreover have "fm_abs db d' = index_add a cs (fm_abs db d)"
    using room string_buffer_back [of "?l @ [a]"] d'(2) by (auto simp: fm_abs_def index_add_def fun_eq_iff)
  ultimately show ?thesis using r by blast
qed

lemma fm_remove_refines:
  assumes db: "rocks_ok db" and wf: "fm_wf db d"
  shows "\<exists>d'. sc_fm_addr_ref_remove db a cs d =
       Some (if links_of (fm_abs db d) cs = [] then SC_RESULT_ERROR_IO else SC_RESULT_OK, d') \<and> fm_wf db d' \<and>
     fm_abs db d' = (if links_of (fm_abs db d) cs = [] then fm_abs db d else index_remove a cs (fm_abs db d))"
  using wf
proof (cases rule: fm_cases [where cs = cs])
  case none
  then show ?thesis using wf by (simp add: sc_fm_addr_ref_remove_def)
next
  case (some l)
  let ?l = "remove1 a l"
  show ?thesis
  proof (cases "?l = []")
    case True
    obtain d1 where d1: "rocks_delete db d (MakeAddrsKey cs) = (True, d1)"
      "rocks_get db d1 = (rocks_get db d)(MakeAddrsKey cs := None)" using rocks_delete_ok [OF db] by blast
    obtain d2 where d2: "rocks_delete db d1 (MakeContentKey cs) = (True, d2)"
      "rocks_get db d2 = (rocks_get db d1)(MakeContentKey cs := None)" using rocks_delete_ok [OF db] by blast
    have "sc_fm_addr_ref_remove db a cs d = Some (SC_RESULT_OK, d2)"
      using some True d1(1) d2(1) string_buffer_back by (simp add: sc_fm_addr_ref_remove_def SC_RES_def)
    moreover have "fm_wf db d2" using wf d1(2) d2(2) by (auto simp: fm_wf_def)
    moreover have "fm_abs db d2 = index_remove a cs (fm_abs db d)"
      using some True d1(2) d2(2) by (auto simp: fm_abs_def index_remove_def fun_eq_iff string_buffer_back)
    ultimately show ?thesis using some by auto
  next
    case False
    obtain d1 where d1: "rocks_put db d (MakeAddrsKey cs) (DataToStringBuffer ?l) = (True, d1)"
      "rocks_get db d1 = (rocks_get db d)(MakeAddrsKey cs \<mapsto> DataToStringBuffer ?l)"
      using rocks_put_ok [OF db] by blast
    have len: "length ?l < 2 ^ 64" using some(3) length_remove1 [of a l] by (auto split: if_splits)
    have "sc_fm_addr_ref_remove db a cs d = Some (SC_RESULT_OK, d1)"
      using some False d1(1) string_buffer_back by (simp add: sc_fm_addr_ref_remove_def SC_RES_def)
    moreover have "fm_wf db d1" using wf d1(2) False len by (auto simp: fm_wf_def)
    moreover have "fm_abs db d1 = index_remove a cs (fm_abs db d)"
      using some False d1(2) string_buffer_back [OF len]
      by (auto simp: fm_abs_def index_remove_def fun_eq_iff string_buffer_back)
    ultimately show ?thesis using some by auto
  qed
qed

lemma fm_find_refines:
  assumes "fm_wf db d"
  shows "sc_fm_find db cs d = Some (if links_of (fm_abs db d) cs = [] then SC_RESULT_ERROR_IO else SC_RESULT_OK,
     links_of (fm_abs db d) cs)"
  using assms by (cases rule: fm_cases [where cs = cs]) (auto simp: sc_fm_find_def string_buffer_back)


text \<open>A store kept in a map satisfies what is asked of RocksDB.\<close>

definition map_db :: "(bytes \<rightharpoonup> bytes) rocksdb" where
  "map_db = \<lparr>rocks_get = (\<lambda>d. d), rocks_put = (\<lambda>d k v. (True, d(k \<mapsto> v))), rocks_delete = (\<lambda>d k. (True, d(k := None)))\<rparr>"

lemma map_db_ok: "rocks_ok map_db" "fm_wf map_db Map.empty" "fm_abs map_db Map.empty = \<lparr>links_of = \<lambda>_. [], content_of = Map.empty\<rparr>"
  by (simp_all add: rocks_ok_def map_db_def fm_wf_def fm_abs_def)


text \<open>
  The binary form of an address list is read back exactly: eight bytes of length and four
  bytes for each address.
\<close>

theorem address_list_roundtrip:
  assumes "length addrs < 2 ^ 64"
  shows "StringBufferToData (DataToStringBuffer addrs) = Some addrs \<and>
     length (DataToStringBuffer addrs) = 8 + 4 * length addrs"
  using string_buffer_back [OF assms] by (simp add: DataToStringBuffer_def)

theorem address_list_roundtrip_witness:
  "StringBufferToData (DataToStringBuffer [Addr 1 2, Addr 0xffff 7]) = Some [Addr 1 2, Addr 0xffff 7]"
  using address_list_roundtrip [of "[Addr 1 2, Addr 0xffff 7]"] by simp

subsection \<open>Whole contents\<close>

lemma checksum_ok:
  assumes "stream_ok s"
  shows "\<exists>s'. sc_link_calculate_checksum sha s = Some (Some (take SC_CHECKSUM_LEN (sha (whole s))), s') \<and>
     stream_ok s' \<and> same_stream s s' \<and> at_pos s' = 0"
proof -
  obtain s1 where s1: "sc_stream_seek SC_STREAM_SEEK_SET 0 s = (SC_RESULT_OK, s1)" "stream_ok s1" "same_stream s s1"
    "at_pos s1 = 0" using seek_start [OF assms] by blast
  obtain s2 where s2: "checksum_loop s1 [] = Some (Some ([] @ rest s1), s2)" "stream_ok s2" "same_stream s1 s2"
    using stream.drain_to_eof [where loop = checksum_loop, OF checksum_loop.simps _ s1(2), of "[]"] by auto
  obtain s3 where s3: "sc_stream_seek SC_STREAM_SEEK_SET 0 s2 = (SC_RESULT_OK, s3)" "stream_ok s3" "same_stream s2 s3"
    "at_pos s3 = 0" using seek_start [OF s2(2)] by blast
  have "rest s1 = whole s" using s1(3,4) by (simp add: rest_def same_stream_def)
  moreover have "same_stream s s3" using s1(3) s2(3) s3(3) same_stream_trans by blast
  ultimately show ?thesis
    using s1(1) s2(1) s3 by (simp add: sc_link_calculate_checksum_def)
qed

lemma write_stream_ok:
  assumes db: "rocks_ok db" and s: "stream_ok s"
  shows "\<exists>s' d'. sc_fm_write_stream db cs s d = Some (SC_RESULT_OK, s', d') \<and> stream_ok s' \<and> same_stream s s' \<and>
     rocks_get db d' = (rocks_get db d)(MakeContentKey cs \<mapsto> whole s)"
proof -
  obtain s1 where s1: "sc_stream_seek SC_STREAM_SEEK_SET 0 s = (SC_RESULT_OK, s1)" "stream_ok s1" "same_stream s s1"
    "at_pos s1 = 0" using seek_start [OF s] by blast
  obtain s2 where s2: "sc_stream_get_length s1 = (SC_RESULT_OK, Some (of_nat (length (whole s1))), s2)" "stream_ok s2"
    "same_stream s1 s2" "at_pos s2 = at_pos s1" using get_length_ok [OF s1(2)] by blast
  have w: "whole s1 = whole s" "rest s2 = whole s" using s1(3,4) s2(3,4) by (simp_all add: rest_def same_stream_def)
  have n: "unat (of_nat (length (whole s)) :: u32) = length (whole s)"
    using s by (auto simp: stream_ok_def unat_of_nat intro!: mod_less)
  obtain s3 where s3: "fm_collect (of_nat (length (whole s))) s2 [] = Some (Some ([] @ rest s2), s3)" "stream_ok s3"
    "same_stream s2 s3"
    using stream.collect_known_length [where loop = "fm_collect (of_nat (length (whole s)))",
        OF fm_collect.simps _ s2(2), of "[]"] n w(2) by auto
  obtain d' where d': "rocks_put db d (MakeContentKey cs) (whole s) = (True, d')"
    "rocks_get db d' = (rocks_get db d)(MakeContentKey cs \<mapsto> whole s)" using rocks_put_ok [OF db] by blast
  have "same_stream s s3" using s1(3) s2(3) s3(3) same_stream_trans by blast
  then show ?thesis
    using s1(1) s2(1) s3(1,2) d' w by (simp add: sc_fm_write_stream_def SC_RES_def)
qed

end
