(* ===== verification/Sc_Segment.thy ===== *)
theory Sc_Segment
  imports Sc_Types
begin

text \<open>
  A segment: a fixed array of element cells, split into \<^const>\<open>SC_CONCURRENCY_LEVEL\<close>
  interleaved sections that are locked separately and keep their own free-cell counters
  (\<^verbatim>\<open>sc-store/sc_segment.h\<close>, \<^verbatim>\<open>sc-store/sc_segment.c\<close>).

  The operations are those of one thread \<open>th\<close> while no other thread runs: waiting for
  a lock that another thread holds is \<open>None\<close>. The interleaved execution of the lock is the
  subject of theory \<open>Sc_Section_Lock\<close>.
\<close>

type_synonym thread = nat

record sc_segment_section =
  thread_lock :: "thread option"
  empty_count :: int
  empty_offset :: int
  internal_lock :: int
  lock_count :: int

record sc_segment =
  seg_meta :: "nat \<Rightarrow> sc_element_meta"
  seg_elements :: "nat \<Rightarrow> sc_element"
  seg_num :: u16
  seg_sections :: "nat \<Rightarrow> sc_segment_section"
  elements_count :: int

definition zero_section :: sc_segment_section where
  "zero_section =
     \<lparr>thread_lock = None, empty_count = 0, empty_offset = 0, internal_lock = 0, lock_count = 0\<rparr>"

subsection \<open>Creation and loading\<close>

definition sc_segment_new :: "u16 \<Rightarrow> sc_segment" where
  "sc_segment_new n =
     (let count = SC_SEGMENT_ELEMENTS_COUNT div SC_CONCURRENCY_LEVEL;
          c = count * SC_CONCURRENCY_LEVEL;
          secs = (\<lambda>i. if i < SC_CONCURRENCY_LEVEL
                      then zero_section
                        \<lparr>empty_offset := int i,
                         empty_count := (if c + i \<le> SC_SEGMENT_ELEMENTS_COUNT
                                         then int count + 1 else int count)\<rparr>
                      else zero_section);
          secs0 = secs(0 := (secs 0)
                        \<lparr>empty_offset := empty_offset (secs 0) + int SC_CONCURRENCY_LEVEL,
                         empty_count := empty_count (secs 0) - 1\<rparr>)
      in \<lparr>seg_meta = (\<lambda>_. zero_meta), seg_elements = (\<lambda>_. zero_element), seg_num = n,
          seg_sections = (if n = 0 then secs0 else secs), elements_count = 0\<rparr>)"

function sc_segment_loaded_scan ::
    "(nat \<Rightarrow> sc_element) \<Rightarrow> nat \<Rightarrow> int \<Rightarrow> int \<Rightarrow> int \<Rightarrow> int \<times> int \<times> int" where
  "sc_segment_loaded_scan els idx e_count e_offset el_count =
     (if idx < SC_SEGMENT_ELEMENTS_COUNT
      then if el_type (els idx) = 0
           then sc_segment_loaded_scan els (idx + SC_CONCURRENCY_LEVEL)
                  (e_count + 1) (int idx) el_count
           else sc_segment_loaded_scan els (idx + SC_CONCURRENCY_LEVEL)
                  e_count e_offset (el_count + 1)
      else (e_count, e_offset, el_count))"
  by pat_completeness auto
termination
  by (relation "measure (\<lambda>(els, idx, _). SC_SEGMENT_ELEMENTS_COUNT - idx)")
     (auto simp: sc_limits)

declare sc_segment_loaded_scan.simps [simp del]

definition sc_segment_loaded_section :: "nat \<Rightarrow> sc_segment \<Rightarrow> sc_segment" where
  "sc_segment_loaded_section i sg =
     (let sec = seg_sections sg i;
          (ec, eo, cnt) = sc_segment_loaded_scan (seg_elements sg) i 0 (empty_offset sec)
                            (elements_count sg)
      in sg\<lparr>seg_sections := (seg_sections sg)
              (i := sec\<lparr>empty_count := ec, empty_offset := eo\<rparr>),
            elements_count := cnt\<rparr>)"

definition sc_segment_loaded :: "sc_segment \<Rightarrow> sc_segment" where
  "sc_segment_loaded sg =
     (let sg1 = fold sc_segment_loaded_section [0..<SC_CONCURRENCY_LEVEL]
                  (sg\<lparr>elements_count := 0\<rparr>)
      in sg1\<lparr>seg_meta := (\<lambda>i. if i < SC_SEGMENT_ELEMENTS_COUNT \<and>
                                    el_type (seg_elements sg1 i) \<noteq> 0
                                 then (seg_meta sg1 i)\<lparr>ref_count := 1\<rparr>
                                 else seg_meta sg1 i)\<rparr>)"

subsection \<open>Section locks\<close>

definition sc_segment_section_lock ::
    "thread \<Rightarrow> sc_segment_section \<Rightarrow> sc_segment_section option" where
  "sc_segment_section_lock th sec =
     (if internal_lock sec \<noteq> 0 then None
      else if thread_lock sec \<noteq> None \<and> thread_lock sec \<noteq> Some th then None
      else Some (sec\<lparr>thread_lock := Some th, lock_count := lock_count sec + 1\<rparr>))"

function sc_segment_section_lock_try ::
    "thread \<Rightarrow> nat \<Rightarrow> nat \<Rightarrow> sc_segment_section \<Rightarrow> bool \<times> sc_segment_section" where
  "sc_segment_section_lock_try th max_attempts attempts sec =
     (if internal_lock sec \<noteq> 0
      then if max_attempts < attempts then (False, sec)
           else sc_segment_section_lock_try th max_attempts (attempts + 1) sec
      else if thread_lock sec \<noteq> None \<and> thread_lock sec \<noteq> Some th
      then if attempts + 1 \<ge> max_attempts then (False, sec)
           else sc_segment_section_lock_try th max_attempts (attempts + 1) sec
      else (True, sec\<lparr>thread_lock := Some th, lock_count := lock_count sec + 1\<rparr>))"
  by pat_completeness auto
termination
  by (relation "measure (\<lambda>(th, m, a, sec). m + 1 - a)") auto

declare sc_segment_section_lock_try.simps [simp del]

definition sc_segment_section_unlock ::
    "thread \<Rightarrow> sc_segment_section \<Rightarrow> sc_segment_section option" where
  "sc_segment_section_unlock th sec =
     (if internal_lock sec \<noteq> 0 then None
      else do {
        g_assert (thread_lock sec = Some th);
        let sec1 = sec\<lparr>lock_count := lock_count sec - 1\<rparr>;
        Some (if lock_count sec1 = 0 then sec1\<lparr>thread_lock := None\<rparr> else sec1)
      })"

definition set_section :: "nat \<Rightarrow> sc_segment_section \<Rightarrow> sc_segment \<Rightarrow> sc_segment" where
  "set_section i sec sg = sg\<lparr>seg_sections := (seg_sections sg)(i := sec)\<rparr>"

definition sc_segment_lock_element :: "thread \<Rightarrow> nat \<Rightarrow> sc_segment \<Rightarrow> sc_segment option" where
  "sc_segment_lock_element th off sg = do {
     g_assert (off < SC_SEGMENT_ELEMENTS_COUNT);
     let i = off mod SC_CONCURRENCY_LEVEL;
     sec \<leftarrow> sc_segment_section_lock th (seg_sections sg i);
     Some (set_section i sec sg)
   }"

definition sc_segment_lock_element_try ::
    "thread \<Rightarrow> nat \<Rightarrow> nat \<Rightarrow> sc_segment \<Rightarrow> (bool \<times> sc_segment) option" where
  "sc_segment_lock_element_try th off max_attempts sg = do {
     g_assert (off < SC_SEGMENT_ELEMENTS_COUNT);
     let i = off mod SC_CONCURRENCY_LEVEL;
     let (locked, sec) = sc_segment_section_lock_try th max_attempts 0 (seg_sections sg i);
     Some (locked, set_section i sec sg)
   }"

definition sc_segment_unlock_element :: "thread \<Rightarrow> nat \<Rightarrow> sc_segment \<Rightarrow> sc_segment option" where
  "sc_segment_unlock_element th off sg = do {
     g_assert (off < SC_SEGMENT_ELEMENTS_COUNT);
     let i = off mod SC_CONCURRENCY_LEVEL;
     sec \<leftarrow> sc_segment_section_unlock th (seg_sections sg i);
     Some (set_section i sec sg)
   }"

fun sc_segment_lock_from :: "thread \<Rightarrow> nat list \<Rightarrow> sc_segment \<Rightarrow> sc_segment option" where
  "sc_segment_lock_from th [] sg = Some sg"
| "sc_segment_lock_from th (i # is) sg = do {
     sec \<leftarrow> sc_segment_section_lock th (seg_sections sg i);
     sc_segment_lock_from th is (set_section i sec sg)
   }"

definition sc_segment_lock :: "thread \<Rightarrow> sc_segment \<Rightarrow> sc_segment option" where
  "sc_segment_lock th = sc_segment_lock_from th [0..<SC_CONCURRENCY_LEVEL]"

fun sc_segment_unlock_from :: "thread \<Rightarrow> nat list \<Rightarrow> sc_segment \<Rightarrow> sc_segment option" where
  "sc_segment_unlock_from th [] sg = Some sg"
| "sc_segment_unlock_from th (i # is) sg = do {
     sec \<leftarrow> sc_segment_section_unlock th (seg_sections sg i);
     sc_segment_unlock_from th is (set_section i sec sg)
   }"

definition sc_segment_unlock :: "thread \<Rightarrow> sc_segment \<Rightarrow> sc_segment option" where
  "sc_segment_unlock th = sc_segment_unlock_from th [0..<SC_CONCURRENCY_LEVEL]"

subsection \<open>Cells\<close>

definition sc_segment_erase_element :: "nat \<Rightarrow> sc_segment \<Rightarrow> sc_segment option" where
  "sc_segment_erase_element off sg = do {
     let i = off mod SC_CONCURRENCY_LEVEL;
     g_assert (thread_lock (seg_sections sg i) \<noteq> None);
     g_assert (off < SC_SEGMENT_ELEMENTS_COUNT);
     let sec = seg_sections sg i;
     g_assert (off \<noteq> 0 \<or> seg_num sg \<noteq> 0);
     Some (set_section i (sec\<lparr>empty_count := empty_count sec + 1, empty_offset := int off\<rparr>)
            (sg\<lparr>elements_count := elements_count sg - 1,
                seg_elements := (seg_elements sg)(off := zero_element)\<rparr>))
   }"

definition sc_segment_get_elements_count :: "sc_segment \<Rightarrow> int" where
  "sc_segment_get_elements_count sg = elements_count sg"

definition sc_segment_has_empty_slot :: "sc_segment \<Rightarrow> bool" where
  "sc_segment_has_empty_slot sg \<longleftrightarrow>
     (if seg_num sg = 0 then elements_count sg < int SC_SEGMENT_ELEMENTS_COUNT - 1
      else elements_count sg < int SC_SEGMENT_ELEMENTS_COUNT)"

definition sc_segment_get_meta :: "thread \<Rightarrow> nat \<Rightarrow> sc_segment \<Rightarrow> sc_element_meta option" where
  "sc_segment_get_meta th off sg = do {
     g_assert (thread_lock (seg_sections sg (off mod SC_CONCURRENCY_LEVEL)) = Some th);
     g_assert (off < SC_SEGMENT_ELEMENTS_COUNT);
     Some (seg_meta sg off)
   }"

subsection \<open>Statistics\<close>

definition collect_cell :: "sc_type \<Rightarrow> sc_stat \<Rightarrow> sc_stat" where
  "collect_cell t st =
     (if t AND sc_type_node \<noteq> 0 then st\<lparr>node_count := node_count st + 1\<rparr>
      else if t AND sc_type_link \<noteq> 0 then st\<lparr>link_count := link_count st + 1\<rparr>
      else if t AND sc_type_arc_mask \<noteq> 0 then st\<lparr>arc_count := arc_count st + 1\<rparr>
      else if t = 0 then st\<lparr>empty_count_stat := empty_count_stat st + 1\<rparr>
      else st)"

function collect_section :: "(nat \<Rightarrow> sc_element) \<Rightarrow> nat \<Rightarrow> sc_stat \<Rightarrow> sc_stat" where
  "collect_section els j st =
     (if j < SC_SEGMENT_ELEMENTS_COUNT
      then collect_section els (j + SC_CONCURRENCY_LEVEL) (collect_cell (el_type (els j)) st)
      else st)"
  by pat_completeness auto
termination
  by (relation "measure (\<lambda>(els, j, st). SC_SEGMENT_ELEMENTS_COUNT - j)") (auto simp: sc_limits)

declare collect_section.simps [simp del]

fun sc_segment_collect_from ::
    "thread \<Rightarrow> nat list \<Rightarrow> sc_segment \<Rightarrow> sc_stat \<Rightarrow> (sc_segment \<times> sc_stat) option" where
  "sc_segment_collect_from th [] sg st = Some (sg, st)"
| "sc_segment_collect_from th (i # is) sg st = do {
     sec \<leftarrow> sc_segment_section_lock th (seg_sections sg i);
     let st1 = collect_section (seg_elements sg) i st;
     sec1 \<leftarrow> sc_segment_section_unlock th sec;
     sc_segment_collect_from th is (set_section i sec1 sg) st1
   }"

definition sc_segment_collect_elements_stat ::
    "thread \<Rightarrow> sc_segment \<Rightarrow> sc_stat \<Rightarrow> (sc_segment \<times> sc_stat) option" where
  "sc_segment_collect_elements_stat th =
     sc_segment_collect_from th [0..<SC_CONCURRENCY_LEVEL]"

subsection \<open>Taking a free cell\<close>

function find_empty_up :: "(nat \<Rightarrow> sc_element) \<Rightarrow> nat \<Rightarrow> nat option" where
  "find_empty_up els j =
     (if j < SC_SEGMENT_ELEMENTS_COUNT
      then if el_type (els j) = 0 then Some j
           else find_empty_up els (j + SC_CONCURRENCY_LEVEL)
      else None)"
  by pat_completeness auto
termination
  by (relation "measure (\<lambda>(els, j). SC_SEGMENT_ELEMENTS_COUNT - j)") (auto simp: sc_limits)

function find_empty_down :: "(nat \<Rightarrow> sc_element) \<Rightarrow> int \<Rightarrow> int \<Rightarrow> int option" where
  "find_empty_down els left j =
     (if j \<ge> left
      then if el_type (els (nat j)) = 0 then Some j
           else find_empty_down els left (j - int SC_CONCURRENCY_LEVEL)
      else None)"
  by pat_completeness auto
termination
  by (relation "measure (\<lambda>(els, left, j). nat (j + int SC_CONCURRENCY_LEVEL - left))")
     (auto simp: sc_limits)

declare find_empty_up.simps [simp del] find_empty_down.simps [simp del]

text \<open>
  One round of the \<^verbatim>\<open>for\<close> loop: the section \<open>sec_id\<close>, tried at position \<open>i\<close>. The result
  is the offset of the cell taken (its section stays locked), or nothing and on to the
  next section.
\<close>

definition next_empty :: "nat \<Rightarrow> sc_segment \<Rightarrow> int \<Rightarrow> int option" where
  "next_empty i sg e =
     (case find_empty_up (seg_elements sg) (nat e + SC_CONCURRENCY_LEVEL) of
        Some j \<Rightarrow> Some (int j)
      | None \<Rightarrow> find_empty_down (seg_elements sg)
          (if i = 0 \<and> seg_num sg = 0 then int SC_CONCURRENCY_LEVEL else e)
          (e - int SC_CONCURRENCY_LEVEL))"

definition lock_empty_in_section ::
    "thread \<Rightarrow> nat \<Rightarrow> nat \<Rightarrow> sc_segment \<Rightarrow> (nat option \<times> sc_segment) option" where
  "lock_empty_in_section th i sec_id sg =
     (if empty_count (seg_sections sg sec_id) = 0 then Some (None, sg)
      else let (locked, sec) = sc_segment_section_lock_try th 1 0 (seg_sections sg sec_id)
      in if \<not> locked then Some (None, sg)
      else let idx = empty_offset sec
      in if empty_count sec > 0 then do {
           let sec1 = sec\<lparr>empty_count := empty_count sec - 1\<rparr>;
           let sg1 = sg\<lparr>elements_count := elements_count sg + 1\<rparr>;
           g_assert (0 \<le> idx \<and> idx < int SC_SEGMENT_ELEMENTS_COUNT);
           g_assert (uint (seg_num sg) + idx > 0);
           case next_empty i sg idx of
             Some j \<Rightarrow> do {
               g_assert (uint (seg_num sg) + j > 0);
               g_assert (empty_count sec1 \<ge> 0);
               Some (Some (nat idx), set_section sec_id (sec1\<lparr>empty_offset := j\<rparr>) sg1)
             }
           | None \<Rightarrow> do {
               sec2 \<leftarrow> sc_segment_section_unlock th sec1;
               Some (None, set_section sec_id sec2 sg1)
             }
         }
      else do {
        sec2 \<leftarrow> sc_segment_section_unlock th sec;
        Some (None, set_section sec_id sec2 sg)
      })"

fun lock_empty_pass ::
    "u32 \<Rightarrow> thread \<Rightarrow> nat list \<Rightarrow> sc_segment \<Rightarrow> (nat option \<times> sc_segment) option" where
  "lock_empty_pass ctx_id th [] sg = Some (None, sg)"
| "lock_empty_pass ctx_id th (i # is) sg = do {
     let sec_id = unat (ctx_id + of_nat i) mod SC_CONCURRENCY_LEVEL;
     (r, sg1) \<leftarrow> lock_empty_in_section th i sec_id sg;
     case r of Some off \<Rightarrow> Some (Some off, sg1)
     | None \<Rightarrow> lock_empty_pass ctx_id th is sg1
   }"

text \<open>
  The \<^verbatim>\<open>while\<close> loop: \<open>max_attempts\<close> counts from 1 to \<^const>\<open>SC_CONCURRENCY_LEVEL\<close>; the
  argument is the number of rounds that are left.
\<close>

fun lock_empty_rounds ::
    "u32 \<Rightarrow> thread \<Rightarrow> nat \<Rightarrow> sc_segment \<Rightarrow> (nat option \<times> sc_segment) option" where
  "lock_empty_rounds ctx_id th 0 sg = Some (None, sg)"
| "lock_empty_rounds ctx_id th (Suc n) sg =
     (if sc_segment_has_empty_slot sg then do {
        (r, sg1) \<leftarrow> lock_empty_pass ctx_id th [0..<SC_CONCURRENCY_LEVEL] sg;
        case r of Some off \<Rightarrow> Some (Some off, sg1)
        | None \<Rightarrow> lock_empty_rounds ctx_id th n sg1
      }
      else Some (None, sg))"

definition sc_segment_lock_empty_element ::
    "u32 \<Rightarrow> thread \<Rightarrow> sc_segment \<Rightarrow> (nat option \<times> sc_segment) option" where
  "sc_segment_lock_empty_element ctx_id th sg =
     lock_empty_rounds ctx_id th SC_CONCURRENCY_LEVEL sg"

subsection \<open>Lock discipline of a section\<close>

text \<open>
  Seen by the running thread \<open>th\<close>, a quiet section is either free with count 0 or held
  by \<open>th\<close> with a positive count; the guard \<^verbatim>\<open>internal_lock\<close> is down.
\<close>

definition section_ok :: "thread \<Rightarrow> sc_segment_section \<Rightarrow> bool" where
  "section_ok th sec \<longleftrightarrow>
     internal_lock sec = 0 \<and>
     (thread_lock sec = None \<and> lock_count sec = 0 \<or>
      thread_lock sec = Some th \<and> lock_count sec > 0)"

definition locked_section :: "thread \<Rightarrow> sc_segment_section \<Rightarrow> sc_segment_section" where
  "locked_section th sec = sec\<lparr>thread_lock := Some th, lock_count := lock_count sec + 1\<rparr>"

definition unlocked_section :: "sc_segment_section \<Rightarrow> sc_segment_section" where
  "unlocked_section sec =
     sec\<lparr>lock_count := lock_count sec - 1,
         thread_lock := (if lock_count sec = 1 then None else thread_lock sec)\<rparr>"

lemma section_lock_ok:
  "section_ok th sec \<Longrightarrow> sc_segment_section_lock th sec = Some (locked_section th sec)"
  by (auto simp: section_ok_def sc_segment_section_lock_def locked_section_def)

lemma section_lock_try_ok:
  "section_ok th sec \<Longrightarrow>
   sc_segment_section_lock_try th m a sec = (True, locked_section th sec)"
  by (subst sc_segment_section_lock_try.simps) (auto simp: section_ok_def locked_section_def)

lemma section_unlock_ok:
  "section_ok th sec \<Longrightarrow> lock_count sec > 0 \<Longrightarrow>
   sc_segment_section_unlock th sec = Some (unlocked_section sec)"
  by (auto simp: section_ok_def sc_segment_section_unlock_def unlocked_section_def Let_def)

lemma section_ok_locked [simp]: "section_ok th sec \<Longrightarrow> section_ok th (locked_section th sec)"
  by (auto simp: section_ok_def locked_section_def)

lemma section_ok_unlocked [simp]:
  "section_ok th sec \<Longrightarrow> lock_count sec > 0 \<Longrightarrow> section_ok th (unlocked_section sec)"
  by (auto simp: section_ok_def unlocked_section_def)

lemma lock_count_locked [simp]: "lock_count (locked_section th sec) = lock_count sec + 1"
  by (simp add: locked_section_def)

lemma lock_count_unlocked [simp]: "lock_count (unlocked_section sec) = lock_count sec - 1"
  by (simp add: unlocked_section_def)

lemma section_ok_nonneg: "section_ok th sec \<Longrightarrow> lock_count sec \<ge> 0"
  by (auto simp: section_ok_def)

lemma unlocked_locked [simp]:
  "section_ok th sec \<Longrightarrow> unlocked_section (locked_section th sec) = sec"
  by (auto simp: section_ok_def unlocked_section_def locked_section_def)

lemma section_free_fields [simp]:
  "empty_count (locked_section th sec) = empty_count sec"
  "empty_offset (locked_section th sec) = empty_offset sec"
  "empty_count (unlocked_section sec) = empty_count sec"
  "empty_offset (unlocked_section sec) = empty_offset sec"
  by (simp_all add: locked_section_def unlocked_section_def)

lemma section_ok_free_update [simp]:
  "section_ok th (sec\<lparr>empty_count := c\<rparr>) = section_ok th sec"
  "section_ok th (sec\<lparr>empty_offset := off\<rparr>) = section_ok th sec"
  by (simp_all add: section_ok_def)

definition seg_locks_ok :: "thread \<Rightarrow> sc_segment \<Rightarrow> bool" where
  "seg_locks_ok th sg \<longleftrightarrow> (\<forall>i < SC_CONCURRENCY_LEVEL. section_ok th (seg_sections sg i))"

definition seg_lock_counts :: "sc_segment \<Rightarrow> nat \<Rightarrow> int" where
  "seg_lock_counts sg i = lock_count (seg_sections sg i)"

lemma set_section_simps [simp]:
  "seg_elements (set_section i sec sg) = seg_elements sg"
  "seg_meta (set_section i sec sg) = seg_meta sg"
  "seg_num (set_section i sec sg) = seg_num sg"
  "elements_count (set_section i sec sg) = elements_count sg"
  "seg_sections (set_section i sec sg) = (seg_sections sg)(i := sec)"
  by (simp_all add: set_section_def)

lemma seg_lock_counts_set [simp]:
  "seg_lock_counts (set_section i sec sg) = (seg_lock_counts sg)(i := lock_count sec)"
  by (auto simp: seg_lock_counts_def)

lemma seg_lock_counts_elements_count [simp]:
  "seg_lock_counts (sg\<lparr>elements_count := n\<rparr>) = seg_lock_counts sg"
  by (auto simp: seg_lock_counts_def)

lemma mod_level_less [simp]: "n mod SC_CONCURRENCY_LEVEL < SC_CONCURRENCY_LEVEL"
  by (simp add: sc_limits)

lemma seg_locks_ok_set [simp]:
  "seg_locks_ok th sg \<Longrightarrow> section_ok th sec \<Longrightarrow> seg_locks_ok th (set_section i sec sg)"
  by (simp add: seg_locks_ok_def)

subsection \<open>Free-cell bookkeeping\<close>

text \<open>
  What the allocator relies on: a section that counts a free cell has its
  \<^verbatim>\<open>empty_offset\<close> at a free cell of that section, and never at the cell whose address
  would be the empty address.
\<close>

definition section_free_ok :: "sc_segment \<Rightarrow> nat \<Rightarrow> bool" where
  "section_free_ok sg i \<longleftrightarrow>
     (let e = empty_offset (seg_sections sg i)
      in 0 \<le> e \<and> e < int SC_SEGMENT_ELEMENTS_COUNT \<and> nat e mod SC_CONCURRENCY_LEVEL = i \<and>
         el_type (seg_elements sg (nat e)) = 0 \<and> (seg_num sg = 0 \<longrightarrow> e \<noteq> 0))"

definition seg_ok :: "sc_segment \<Rightarrow> bool" where
  "seg_ok sg \<longleftrightarrow>
     (\<forall>i < SC_CONCURRENCY_LEVEL.
        empty_count (seg_sections sg i) > 0 \<longrightarrow> section_free_ok sg i)"

definition seg_balance :: "sc_segment \<Rightarrow> int" where
  "seg_balance sg =
     elements_count sg + (\<Sum>i < SC_CONCURRENCY_LEVEL. empty_count (seg_sections sg i))"

lemma seg_balance_set_section:
  assumes "i < SC_CONCURRENCY_LEVEL"
  shows "seg_balance (set_section i sec sg) =
           seg_balance sg + empty_count sec - empty_count (seg_sections sg i)"
proof -
  let ?A = "{..<SC_CONCURRENCY_LEVEL} - {i}"
  have "(\<Sum>k < SC_CONCURRENCY_LEVEL. empty_count (((seg_sections sg)(i := sec)) k)) =
          empty_count sec + (\<Sum>k \<in> ?A. empty_count (seg_sections sg k))"
    using assms by (subst sum.remove [of _ i]) (auto intro!: sum.cong)
  moreover have "(\<Sum>k < SC_CONCURRENCY_LEVEL. empty_count (seg_sections sg k)) =
          empty_count (seg_sections sg i) + (\<Sum>k \<in> ?A. empty_count (seg_sections sg k))"
    using assms by (subst sum.remove [of _ i]) auto
  ultimately show ?thesis by (simp add: seg_balance_def)
qed

lemma seg_balance_elements_count [simp]:
  "seg_balance (sg\<lparr>elements_count := n\<rparr>) = seg_balance sg - elements_count sg + n"
  by (simp add: seg_balance_def)

lemma find_empty_up_Some:
  "find_empty_up els j = Some k \<Longrightarrow>
   j \<le> k \<and> k < SC_SEGMENT_ELEMENTS_COUNT \<and> el_type (els k) = 0 \<and>
   k mod SC_CONCURRENCY_LEVEL = j mod SC_CONCURRENCY_LEVEL"
proof (induction els j rule: find_empty_up.induct)
  case (1 els j)
  from "1.prems" show ?case
    by (subst (asm) find_empty_up.simps) (auto split: if_splits dest: "1.IH")
qed

lemma find_empty_up_None:
  "find_empty_up els j = None \<Longrightarrow> j \<le> k \<Longrightarrow> k < SC_SEGMENT_ELEMENTS_COUNT \<Longrightarrow>
   k mod SC_CONCURRENCY_LEVEL = j mod SC_CONCURRENCY_LEVEL \<Longrightarrow> el_type (els k) \<noteq> 0"
proof (induction els j rule: find_empty_up.induct)
  case (1 els j)
  have "j < SC_SEGMENT_ELEMENTS_COUNT" using "1.prems" by simp
  with "1.prems"(1) have ne: "el_type (els j) \<noteq> 0"
    and rest: "find_empty_up els (j + SC_CONCURRENCY_LEVEL) = None"
    by (auto simp: find_empty_up.simps [of els j] split: if_splits)
  show ?case
  proof (cases "k = j")
    case False
    with "1.prems" have "j + SC_CONCURRENCY_LEVEL \<le> k"
      by (intro mod_eq_step) simp_all
    then show ?thesis
      using "1.IH" [OF _ ne rest] "1.prems" \<open>j < SC_SEGMENT_ELEMENTS_COUNT\<close> by simp
  qed (use ne in simp)
qed

lemma find_empty_down_Some:
  "find_empty_down els left j = Some k \<Longrightarrow>
   left \<le> k \<and> k \<le> j \<and> el_type (els (nat k)) = 0 \<and>
   k mod int SC_CONCURRENCY_LEVEL = j mod int SC_CONCURRENCY_LEVEL"
proof (induction els left j rule: find_empty_down.induct)
  case (1 els left j)
  from "1.prems" show ?case
    by (subst (asm) find_empty_down.simps) (auto split: if_splits dest: "1.IH" simp: sc_limits)
qed

subsection \<open>The allocator\<close>

text \<open>
  \<open>cell_taken th sg r sg'\<close>: the result \<open>r\<close> of looking for a free cell in \<open>sg\<close>, with \<open>sg'\<close>
  the segment afterwards. Cells are not touched, the bookkeeping stays sound, the balance
  of used and free cells is kept, and the locks of \<open>th\<close> change only by the section of
  the cell that is handed out.
\<close>

definition cell_taken :: "thread \<Rightarrow> sc_segment \<Rightarrow> nat option \<Rightarrow> sc_segment \<Rightarrow> bool" where
  "cell_taken th sg r sg' \<longleftrightarrow>
     seg_elements sg' = seg_elements sg \<and> seg_meta sg' = seg_meta sg \<and>
     seg_num sg' = seg_num sg \<and> seg_ok sg' \<and> seg_locks_ok th sg' \<and>
     seg_balance sg' = seg_balance sg \<and>
     (case r of
        None \<Rightarrow> seg_lock_counts sg' = seg_lock_counts sg
      | Some off \<Rightarrow>
          off < SC_SEGMENT_ELEMENTS_COUNT \<and> el_type (seg_elements sg off) = 0 \<and>
          (seg_num sg = 0 \<longrightarrow> off \<noteq> 0) \<and>
          (\<forall>i < SC_CONCURRENCY_LEVEL. empty_count (seg_sections sg' i) > 0 \<longrightarrow>
             nat (empty_offset (seg_sections sg' i)) \<noteq> off) \<and>
          seg_lock_counts sg' =
            (seg_lock_counts sg)(off mod SC_CONCURRENCY_LEVEL :=
               seg_lock_counts sg (off mod SC_CONCURRENCY_LEVEL) + 1))"

lemma cell_taken_refl: "seg_ok sg \<Longrightarrow> seg_locks_ok th sg \<Longrightarrow> cell_taken th sg None sg"
  by (simp add: cell_taken_def)

lemma section_free_ok_cong:
  assumes "empty_offset (seg_sections sg' i) = empty_offset (seg_sections sg i)"
    and "seg_elements sg' = seg_elements sg" and "seg_num sg' = seg_num sg"
  shows "section_free_ok sg' i = section_free_ok sg i"
  using assms by (simp add: section_free_ok_def)

lemma next_free_cell:
  assumes e: "0 \<le> e" "e < int SC_SEGMENT_ELEMENTS_COUNT"
    and found: "(case find_empty_up els (nat e + SC_CONCURRENCY_LEVEL) of
                   Some j \<Rightarrow> Some (int j)
                 | None \<Rightarrow> find_empty_down els left (e - int SC_CONCURRENCY_LEVEL)) = Some j"
    and left: "left = int SC_CONCURRENCY_LEVEL \<or> left = e"
  shows "0 < j \<and> j < int SC_SEGMENT_ELEMENTS_COUNT \<and> j \<noteq> e \<and> el_type (els (nat j)) = 0 \<and>
         nat j mod SC_CONCURRENCY_LEVEL = nat e mod SC_CONCURRENCY_LEVEL"
proof (cases "find_empty_up els (nat e + SC_CONCURRENCY_LEVEL)")
  case (Some k)
  with found have "j = int k" by simp
  with find_empty_up_Some [OF Some] e show ?thesis
    by (auto simp: sc_limits)
next
  case None
  with found have "find_empty_down els left (e - int SC_CONCURRENCY_LEVEL) = Some j" by simp
  from find_empty_down_Some [OF this]
  have j: "left \<le> j" "j \<le> e - int SC_CONCURRENCY_LEVEL" "el_type (els (nat j)) = 0"
    "j mod int SC_CONCURRENCY_LEVEL = e mod int SC_CONCURRENCY_LEVEL"
    by (auto simp: sc_limits)
  with left have "left = int SC_CONCURRENCY_LEVEL" by (auto simp: sc_limits)
  with j have "0 < j" by (simp add: sc_limits)
  have "nat j mod SC_CONCURRENCY_LEVEL = nat (j mod int SC_CONCURRENCY_LEVEL)"
    and "nat e mod SC_CONCURRENCY_LEVEL = nat (e mod int SC_CONCURRENCY_LEVEL)"
    using \<open>0 < j\<close> e by (simp_all add: nat_mod_distrib)
  with j e \<open>0 < j\<close> show ?thesis by (simp add: sc_limits)
qed

lemma seg_ok_set_section:
  assumes "seg_ok sg"
    and "empty_count sec > 0 \<Longrightarrow> section_free_ok (set_section k sec sg) k"
  shows "seg_ok (set_section k sec sg)"
  unfolding seg_ok_def
proof (intro allI impI)
  fix i
  assume i: "i < SC_CONCURRENCY_LEVEL" "empty_count (seg_sections (set_section k sec sg) i) > 0"
  show "section_free_ok (set_section k sec sg) i"
  proof (cases "i = k")
    case False
    then have "section_free_ok sg i" using assms(1) i by (simp add: seg_ok_def)
    with False show ?thesis by (simp add: section_free_ok_def)
  qed (use assms(2) i in simp)
qed

lemma seg_ok_elements_count [simp]: "seg_ok (sg\<lparr>elements_count := n\<rparr>) = seg_ok sg"
  by (simp add: seg_ok_def section_free_ok_def)

lemma seg_locks_ok_elements_count [simp]:
  "seg_locks_ok th (sg\<lparr>elements_count := n\<rparr>) = seg_locks_ok th sg"
  by (simp add: seg_locks_ok_def)

lemma cell_skipped:
  assumes ok: "seg_ok sg" "seg_locks_ok th sg" and k: "k < SC_CONCURRENCY_LEVEL"
    and sec: "sec = seg_sections sg k" and free: "section_free_ok sg k"
  shows "cell_taken th sg None
           (set_section k (unlocked_section
               ((locked_section th sec)\<lparr>empty_count := empty_count sec - 1\<rparr>))
             (sg\<lparr>elements_count := elements_count sg + 1\<rparr>))"
proof -
  have sok: "section_ok th sec" using ok k sec by (simp add: seg_locks_ok_def)
  have u: "section_ok th (unlocked_section
             ((locked_section th sec)\<lparr>empty_count := empty_count sec - 1\<rparr>))"
    using sok section_ok_nonneg [OF sok] by simp
  show ?thesis
    unfolding cell_taken_def
  proof (intro conjI)
    show "seg_ok (set_section k (unlocked_section
               ((locked_section th sec)\<lparr>empty_count := empty_count sec - 1\<rparr>))
             (sg\<lparr>elements_count := elements_count sg + 1\<rparr>))"
      using ok(1) free sec by (intro seg_ok_set_section) (simp_all add: section_free_ok_def)
  qed (use ok u k sec in \<open>simp_all add: seg_balance_set_section seg_lock_counts_def fun_eq_iff\<close>)
qed

lemma cell_handed_out:
  assumes ok: "seg_ok sg" "seg_locks_ok th sg" and k: "k < SC_CONCURRENCY_LEVEL"
    and sec: "sec = seg_sections sg k" and free: "section_free_ok sg k"
    and e: "e = empty_offset sec"
    and j: "0 < j" "j < int SC_SEGMENT_ELEMENTS_COUNT" "j \<noteq> e"
      "el_type (seg_elements sg (nat j)) = 0" "nat j mod SC_CONCURRENCY_LEVEL = k"
  shows "cell_taken th sg (Some (nat e))
           (set_section k ((locked_section th sec)
               \<lparr>empty_count := empty_count sec - 1, empty_offset := j\<rparr>)
             (sg\<lparr>elements_count := elements_count sg + 1\<rparr>))" (is "cell_taken th sg _ ?sg'")
proof -
  have sok: "section_ok th sec" using ok k sec by (simp add: seg_locks_ok_def)
  have e': "0 \<le> e" "e < int SC_SEGMENT_ELEMENTS_COUNT" "nat e mod SC_CONCURRENCY_LEVEL = k"
    "el_type (seg_elements sg (nat e)) = 0" "seg_num sg = 0 \<Longrightarrow> e \<noteq> 0"
    using free e sec by (auto simp: section_free_ok_def Let_def)
  have ok': "seg_ok ?sg'"
    using ok(1) j by (intro seg_ok_set_section) (simp_all add: section_free_ok_def)
  have moved: "nat (empty_offset (seg_sections ?sg' i)) \<noteq> nat e"
    if i: "i < SC_CONCURRENCY_LEVEL" "empty_count (seg_sections ?sg' i) > 0" for i
  proof (cases "i = k")
    case True
    with j(1,3) e'(1) show ?thesis by simp
  next
    case False
    from ok' i have "section_free_ok ?sg' i" by (simp add: seg_ok_def)
    with False e'(3) show ?thesis by (auto simp: section_free_ok_def Let_def)
  qed
  show ?thesis
    unfolding cell_taken_def
    using ok ok' moved e' k sok
    by (auto simp: seg_balance_set_section seg_lock_counts_def fun_eq_iff simp flip: sec)
qed

text \<open>One round on a section whose bookkeeping is sound.\<close>

lemma lock_empty_in_section_step:
  assumes ok: "seg_ok sg" "seg_locks_ok th sg" and k: "k < SC_CONCURRENCY_LEVEL"
    and sec: "sec = seg_sections sg k" "empty_count sec > 0" and e: "e = empty_offset sec"
  shows "lock_empty_in_section th i k sg =
    (let sec1 = (locked_section th sec)\<lparr>empty_count := empty_count sec - 1\<rparr>;
         sg1 = sg\<lparr>elements_count := elements_count sg + 1\<rparr>
     in case next_empty i sg e of
          Some j \<Rightarrow> Some (Some (nat e), set_section k (sec1\<lparr>empty_offset := j\<rparr>) sg1)
        | None \<Rightarrow> Some (None, set_section k (unlocked_section sec1) sg1))"
proof -
  have sok: "section_ok th sec" using ok k sec by (simp add: seg_locks_ok_def)
  have free: "section_free_ok sg k" using ok k sec by (simp add: seg_ok_def)
  then have e': "0 \<le> e" "e < int SC_SEGMENT_ELEMENTS_COUNT" "seg_num sg = 0 \<Longrightarrow> e \<noteq> 0"
    by (auto simp: section_free_ok_def Let_def e sec)
  have pos: "uint (seg_num sg) + e > 0"
    using e' by (cases "seg_num sg = 0") (auto simp: add_pos_nonneg uint_pos_iff)
  have posj: "uint (seg_num sg) + j > 0" if "next_empty i sg e = Some j" for j
  proof -
    have "0 < j"
      using next_free_cell [OF e'(1,2) that [unfolded next_empty_def]] by (auto split: if_splits)
    then show ?thesis by (simp add: add_nonneg_pos)
  qed
  have unl: "sc_segment_section_unlock th
      ((locked_section th sec)\<lparr>empty_count := empty_count sec - 1\<rparr>) =
      Some (unlocked_section ((locked_section th sec)\<lparr>empty_count := empty_count sec - 1\<rparr>))"
    using sok section_ok_nonneg [OF sok] by (intro section_unlock_ok) simp_all
  show ?thesis
    using sec(2) e' pos sok
    by (auto simp: lock_empty_in_section_def section_lock_try_ok Let_def unl
          simp flip: sec(1) e dest: posj split: option.split)
qed

lemma lock_empty_in_section_total:
  assumes ok: "seg_ok sg" "seg_locks_ok th sg" and k: "k < SC_CONCURRENCY_LEVEL"
  shows "\<exists>r sg'. lock_empty_in_section th i k sg = Some (r, sg') \<and> cell_taken th sg r sg'"
proof -
  define sec where "sec = seg_sections sg k"
  define e where "e = empty_offset sec"
  have sok: "section_ok th sec" using ok k by (simp add: seg_locks_ok_def sec_def)
  show ?thesis
  proof (cases "empty_count sec > 0")
    case False
    have "set_section k sec sg = sg" by (simp add: set_section_def sec_def)
    with False sok cell_taken_refl [OF ok] show ?thesis
      by (auto simp: lock_empty_in_section_def section_lock_try_ok section_unlock_ok
            section_ok_nonneg Let_def simp flip: sec_def)
  next
    case True
    then have free: "section_free_ok sg k" using ok k by (simp add: seg_ok_def sec_def)
    then have e: "0 \<le> e" "e < int SC_SEGMENT_ELEMENTS_COUNT" "nat e mod SC_CONCURRENCY_LEVEL = k"
      by (auto simp: section_free_ok_def Let_def e_def sec_def)
    show ?thesis
    proof (cases "next_empty i sg e")
      case None
      with lock_empty_in_section_step [OF ok k sec_def True e_def, of i]
        cell_skipped [OF ok k sec_def free]
      show ?thesis by (simp add: Let_def)
    next
      case (Some j)
      from next_free_cell [OF e(1,2) Some [unfolded next_empty_def]] e(3)
      have j: "0 < j" "j < int SC_SEGMENT_ELEMENTS_COUNT" "j \<noteq> e"
        "el_type (seg_elements sg (nat j)) = 0" "nat j mod SC_CONCURRENCY_LEVEL = k"
        by (auto split: if_splits)
      from Some lock_empty_in_section_step [OF ok k sec_def True e_def, of i]
        cell_handed_out [OF ok k sec_def free e_def j]
      show ?thesis by (simp add: Let_def)
    qed
  qed
qed

lemma cell_taken_trans:
  assumes "cell_taken th sg None sg1" and "cell_taken th sg1 r sg2"
  shows "cell_taken th sg r sg2"
  using assms by (cases r) (auto simp: cell_taken_def)

lemma lock_empty_pass_total:
  "seg_ok sg \<Longrightarrow> seg_locks_ok th sg \<Longrightarrow>
   \<exists>r sg'. lock_empty_pass ctx_id th is sg = Some (r, sg') \<and> cell_taken th sg r sg'"
proof (induction "is" arbitrary: sg)
  case Nil
  then show ?case by (simp add: cell_taken_refl)
next
  case (Cons i "is")
  let ?k = "unat (ctx_id + of_nat i) mod SC_CONCURRENCY_LEVEL"
  obtain r sg1 where s: "lock_empty_in_section th i ?k sg = Some (r, sg1)"
    and t: "cell_taken th sg r sg1"
    using lock_empty_in_section_total [OF Cons.prems mod_level_less] by blast
  show ?case
  proof (cases r)
    case None
    with t have "seg_ok sg1" "seg_locks_ok th sg1" by (simp_all add: cell_taken_def)
    from Cons.IH [OF this] None s t show ?thesis by (auto intro: cell_taken_trans)
  next
    case (Some off)
    with s t show ?thesis by simp
  qed
qed

lemma lock_empty_rounds_total:
  "seg_ok sg \<Longrightarrow> seg_locks_ok th sg \<Longrightarrow>
   \<exists>r sg'. lock_empty_rounds ctx_id th n sg = Some (r, sg') \<and> cell_taken th sg r sg'"
proof (induction n arbitrary: sg)
  case 0
  then show ?case by (simp add: cell_taken_refl)
next
  case (Suc n)
  obtain r sg1 where s: "lock_empty_pass ctx_id th [0..<SC_CONCURRENCY_LEVEL] sg = Some (r, sg1)"
    and t: "cell_taken th sg r sg1"
    using lock_empty_pass_total [OF Suc.prems] by blast
  show ?case
  proof (cases r)
    case None
    with t have "seg_ok sg1" "seg_locks_ok th sg1" by (simp_all add: cell_taken_def)
    from Suc.IH [OF this] None s t Suc.prems show ?thesis
      by (auto intro: cell_taken_trans cell_taken_refl)
  next
    case (Some off)
    with s t Suc.prems show ?thesis by (auto intro: cell_taken_refl)
  qed
qed

lemma lock_empty_element_total:
  assumes "seg_ok sg" and "seg_locks_ok th sg"
  shows "\<exists>r sg'. sc_segment_lock_empty_element ctx_id th sg = Some (r, sg') \<and>
                 cell_taken th sg r sg'"
  using lock_empty_rounds_total [OF assms] by (simp add: sc_segment_lock_empty_element_def)

lemma seg_ok_write_taken:
  assumes "cell_taken th sg (Some off) sg'"
  shows "seg_ok (sg'\<lparr>seg_elements := (seg_elements sg')(off := el)\<rparr>)"
  using assms
  by (auto simp: cell_taken_def seg_ok_def section_free_ok_def Let_def)

lemma seg_ok_write_used:
  assumes "seg_ok sg" and "el_type (seg_elements sg off) \<noteq> 0"
  shows "seg_ok (sg\<lparr>seg_elements := (seg_elements sg)(off := el)\<rparr>)"
  using assms by (auto simp: seg_ok_def section_free_ok_def Let_def)

subsection \<open>Fresh segments and erased cells\<close>

lemma seg_sections_new:
  "i < SC_CONCURRENCY_LEVEL \<Longrightarrow>
   seg_sections (sc_segment_new n) i =
     zero_section\<lparr>empty_offset := (if n = 0 \<and> i = 0 then 32 else int i),
                  empty_count := (if n = 0 \<and> i = 0 then 2047 else 2048)\<rparr>"
  by (auto simp: sc_segment_new_def Let_def sc_limits zero_section_def)

lemma seg_new_simps [simp]:
  "seg_elements (sc_segment_new n) = (\<lambda>_. zero_element)"
  "seg_meta (sc_segment_new n) = (\<lambda>_. zero_meta)"
  "seg_num (sc_segment_new n) = n"
  "elements_count (sc_segment_new n) = 0"
  by (simp_all add: sc_segment_new_def Let_def)

lemma zero_element_type [simp]: "el_type zero_element = 0"
  by (simp add: zero_element_def)

lemma seg_ok_new [simp]: "seg_ok (sc_segment_new n)"
  by (auto simp: seg_ok_def section_free_ok_def Let_def seg_sections_new)
     (auto simp: sc_limits)

lemma seg_locks_ok_new [simp]: "seg_locks_ok th (sc_segment_new n)"
  by (simp add: seg_locks_ok_def seg_sections_new section_ok_def zero_section_def)

lemma seg_lock_counts_new [simp]:
  "i < SC_CONCURRENCY_LEVEL \<Longrightarrow> seg_lock_counts (sc_segment_new n) i = 0"
  by (simp add: seg_lock_counts_def seg_sections_new zero_section_def)

lemma seg_balance_new: "seg_balance (sc_segment_new n) = (if n = 0 then 65535 else 65536)"
proof -
  have "(\<Sum>i < SC_CONCURRENCY_LEVEL. empty_count (seg_sections (sc_segment_new n) i)) =
        (\<Sum>i < SC_CONCURRENCY_LEVEL. 2048 - (if i = 0 then (if n = 0 then 1 else 0) else 0))"
    by (intro sum.cong) (auto simp: seg_sections_new)
  also have "\<dots> = (if n = 0 then 65535 else 65536)"
    by (simp add: sc_limits sum_subtractf sum.delta)
  finally show ?thesis by (simp add: seg_balance_def)
qed

lemma erase_element_ok:
  assumes ok: "seg_ok sg" "seg_locks_ok th sg"
    and off: "off < SC_SEGMENT_ELEMENTS_COUNT" "seg_num sg = 0 \<Longrightarrow> off \<noteq> 0"
    and lk: "seg_lock_counts sg (off mod SC_CONCURRENCY_LEVEL) > 0"
  shows "\<exists>sg'. sc_segment_erase_element off sg = Some sg' \<and>
           seg_elements sg' = (seg_elements sg)(off := zero_element) \<and>
           seg_meta sg' = seg_meta sg \<and> seg_num sg' = seg_num sg \<and>
           seg_ok sg' \<and> seg_locks_ok th sg' \<and>
           seg_lock_counts sg' = seg_lock_counts sg \<and> seg_balance sg' = seg_balance sg"
proof -
  let ?k = "off mod SC_CONCURRENCY_LEVEL"
  let ?sec = "seg_sections sg ?k"
  let ?sg1 = "sg\<lparr>elements_count := elements_count sg - 1,
                  seg_elements := (seg_elements sg)(off := zero_element)\<rparr>"
  let ?sg' = "set_section ?k (?sec\<lparr>empty_count := empty_count ?sec + 1, empty_offset := int off\<rparr>)
                ?sg1"
  have "section_ok th ?sec" using ok by (simp add: seg_locks_ok_def)
  then have tl: "thread_lock ?sec \<noteq> None"
    using lk by (auto simp: section_ok_def seg_lock_counts_def)
  have "sc_segment_erase_element off sg = Some ?sg'"
    using tl off by (auto simp: sc_segment_erase_element_def Let_def)
  moreover have "seg_ok ?sg1"
    using ok(1) by (auto simp: seg_ok_def section_free_ok_def Let_def)
  then have "seg_ok ?sg'"
    using off by (intro seg_ok_set_section) (auto simp: section_free_ok_def Let_def)
  moreover have "seg_locks_ok th ?sg'"
    using ok(2) by (intro seg_locks_ok_set) (auto simp: seg_locks_ok_def)
  moreover have "seg_lock_counts ?sg' = seg_lock_counts sg"
    by (auto simp: seg_lock_counts_def fun_eq_iff)
  moreover have "seg_balance ?sg' = seg_balance sg"
    by (subst seg_balance_set_section) (simp_all add: seg_balance_def)
  ultimately show ?thesis by (intro exI [of _ ?sg']) (simp del: seg_lock_counts_set)
qed

subsection \<open>Properties\<close>

text \<open>
  C32. \<^verbatim>\<open>sc_segment_lock_empty_element\<close> on a sound segment returns within its rounds. No cell is
  written and the balance of used and free cells is kept; a cell that is handed out is free,
  is not the reserved cell of segment 0, cannot be handed out again and has its section
  locked once more, and without a cell no lock is kept.
\<close>

theorem lock_empty_element_correct:
  assumes "seg_ok sg" and "seg_locks_ok th sg"
  shows "\<exists>r sg'. sc_segment_lock_empty_element ctx_id th sg = Some (r, sg') \<and>
     seg_elements sg' = seg_elements sg \<and> seg_ok sg' \<and> seg_locks_ok th sg' \<and>
     seg_balance sg' = seg_balance sg \<and>
     (case r of None \<Rightarrow> seg_lock_counts sg' = seg_lock_counts sg
      | Some off \<Rightarrow> off < SC_SEGMENT_ELEMENTS_COUNT \<and> el_type (seg_elements sg off) = 0 \<and>
          (seg_num sg = 0 \<longrightarrow> off \<noteq> 0) \<and>
          (\<forall>i < SC_CONCURRENCY_LEVEL. empty_count (seg_sections sg' i) > 0 \<longrightarrow>
             nat (empty_offset (seg_sections sg' i)) \<noteq> off) \<and>
          seg_lock_counts sg' = (seg_lock_counts sg)(off mod SC_CONCURRENCY_LEVEL :=
             seg_lock_counts sg (off mod SC_CONCURRENCY_LEVEL) + 1))"
  using lock_empty_element_total [OF assms, of ctx_id] unfolding cell_taken_def by blast

theorem lock_empty_element_correct_witness:
  "\<exists>r sg'. sc_segment_lock_empty_element 5 7 (sc_segment_new 1) = Some (r, sg') \<and>
     seg_elements sg' = seg_elements (sc_segment_new 1) \<and> seg_balance sg' = 65536"
  using lock_empty_element_correct [OF seg_ok_new seg_locks_ok_new, of 5 7 1]
  by (simp add: seg_balance_new) blast

text \<open>
  The last free cell of a section is lost: when no other cell of the section is free, the
  round on this section hands out nothing, yet counts the cell as used, and the cell stays
  free in the segment.
\<close>

theorem last_cell_is_lost:
  assumes ok: "seg_ok sg" "seg_locks_ok th sg" and k: "k < SC_CONCURRENCY_LEVEL"
    and sec: "empty_count (seg_sections sg k) > 0"
    and used: "\<And>j. j < SC_SEGMENT_ELEMENTS_COUNT \<Longrightarrow> j mod SC_CONCURRENCY_LEVEL = k \<Longrightarrow>
      int j \<noteq> empty_offset (seg_sections sg k) \<Longrightarrow> el_type (seg_elements sg j) \<noteq> 0"
  shows "\<exists>sg'. lock_empty_in_section th i k sg = Some (None, sg') \<and>
     el_type (seg_elements sg' (nat (empty_offset (seg_sections sg k)))) = 0 \<and>
     empty_count (seg_sections sg' k) = empty_count (seg_sections sg k) - 1 \<and>
     elements_count sg' = elements_count sg + 1"
proof -
  define e where "e = empty_offset (seg_sections sg k)"
  have free: "section_free_ok sg k" using ok k sec by (simp add: seg_ok_def)
  then have e: "0 \<le> e" "e < int SC_SEGMENT_ELEMENTS_COUNT" "nat e mod SC_CONCURRENCY_LEVEL = k"
    "el_type (seg_elements sg (nat e)) = 0"
    by (auto simp: section_free_ok_def Let_def e_def)
  have "next_empty i sg e = None"
  proof (rule ccontr)
    assume "next_empty i sg e \<noteq> None"
    then obtain j where j: "next_empty i sg e = Some j" by blast
    have "0 < j" "j < int SC_SEGMENT_ELEMENTS_COUNT" "j \<noteq> e" "el_type (seg_elements sg (nat j)) = 0"
      "nat j mod SC_CONCURRENCY_LEVEL = k"
      using next_free_cell [OF e(1,2) j [unfolded next_empty_def]] e(3) by (auto split: if_splits)
    with used [of "nat j"] show False by (simp add: e_def nat_less_iff)
  qed
  with lock_empty_in_section_step [OF ok k refl sec e_def, of i] e(4) show ?thesis
    by (simp add: Let_def e_def unlocked_section_def locked_section_def)
qed

definition almost_full_segment :: sc_segment where
  "almost_full_segment = (sc_segment_new 1)
     \<lparr>seg_elements := (\<lambda>j. if j = 5 then zero_element else zero_element\<lparr>el_type := sc_type_node\<rparr>),
      seg_sections := (\<lambda>_. zero_section)(5 := zero_section\<lparr>empty_count := 1, empty_offset := 5\<rparr>),
      elements_count := 65534\<rparr>"

theorem last_cell_is_lost_witness:
  "\<exists>sg'. lock_empty_in_section 7 0 5 almost_full_segment = Some (None, sg') \<and> elements_count sg' = 65535 \<and>
     el_type (seg_elements sg' 5) = 0"
proof -
  have "seg_ok almost_full_segment" "seg_locks_ok 7 almost_full_segment"
    by (auto simp: seg_ok_def section_free_ok_def Let_def almost_full_segment_def zero_section_def
          zero_element_def seg_locks_ok_def section_ok_def sc_limits)
  from last_cell_is_lost [OF this, of 5 0] show ?thesis
    by (auto simp: almost_full_segment_def zero_section_def zero_element_def sc_type_node_def sc_limits)
qed

text \<open>
  A new segment claims one free cell more than it has: its counters add up to 65536 (65535
  in segment 0, whose first cell is reserved) while it holds 65535 cells.
\<close>

theorem new_segment_overcounts:
  "seg_balance (sc_segment_new n) =
     int SC_SEGMENT_ELEMENTS_COUNT + 1 - (if n = 0 then 1 else 0)"
  by (simp add: seg_balance_new sc_limits)

end
