(* ===== verification/Sc_Loaded.thy ===== *)
theory Sc_Loaded
  imports Sc_Segment
begin

text \<open>
  The state of a segment after it was read from the segment file
  (\<^verbatim>\<open>sc_segment_loaded\<close>): the counters fit the cells, but every section points at its last
  free cell, from where the allocator finds no further one.
\<close>

subsection \<open>The counters\<close>

definition free_in :: "(nat \<Rightarrow> sc_element) \<Rightarrow> nat \<Rightarrow> nat set" where
  "free_in els k = {j. j < SC_SEGMENT_ELEMENTS_COUNT \<and> j mod SC_CONCURRENCY_LEVEL = k \<and> el_type (els j) = 0}"

lemma finite_free_in [simp]: "finite (free_in els k)"
  by (rule finite_subset [of _ "{..<SC_SEGMENT_ELEMENTS_COUNT}"]) (auto simp: free_in_def)

definition free_from :: "(nat \<Rightarrow> sc_element) \<Rightarrow> nat \<Rightarrow> nat set" where
  "free_from els idx = {j \<in> free_in els (idx mod SC_CONCURRENCY_LEVEL). idx \<le> j}"

lemma free_from_step:
  assumes "idx < SC_SEGMENT_ELEMENTS_COUNT"
  shows "free_from els idx =
     (if el_type (els idx) = 0 then insert idx (free_from els (idx + SC_CONCURRENCY_LEVEL))
      else free_from els (idx + SC_CONCURRENCY_LEVEL))"
proof -
  let ?n = "idx + SC_CONCURRENCY_LEVEL"
  have m: "?n mod SC_CONCURRENCY_LEVEL = idx mod SC_CONCURRENCY_LEVEL" by simp
  have "j \<in> free_from els idx \<longleftrightarrow> j = idx \<and> el_type (els idx) = 0 \<or> j \<in> free_from els ?n" for j
  proof (cases "idx < j")
    case True
    then have "?n \<le> j" if "j mod SC_CONCURRENCY_LEVEL = idx mod SC_CONCURRENCY_LEVEL"
      using mod_eq_step [of idx j SC_CONCURRENCY_LEVEL] that by simp
    then show ?thesis using True m unfolding free_from_def free_in_def mem_Collect_eq by auto
  next
    case False
    then show ?thesis using assms m unfolding free_from_def free_in_def mem_Collect_eq
      by (cases "j = idx") (auto simp: sc_limits)
  qed
  then show ?thesis by (simp add: set_eq_iff)
qed

lemma free_from_end: "\<not> idx < SC_SEGMENT_ELEMENTS_COUNT \<Longrightarrow> free_from els idx = {}"
  by (auto simp: free_from_def free_in_def)

lemma free_from_bounds: "finite (free_from els idx)" "\<And>j. j \<in> free_from els idx \<Longrightarrow> idx \<le> j"
  "idx \<notin> free_from els (idx + SC_CONCURRENCY_LEVEL)"
  by (auto simp: free_from_def sc_limits intro: finite_subset [OF _ finite_free_in])

lemma loaded_scan:
  "sc_segment_loaded_scan els idx c e n = (c', e', n') \<Longrightarrow>
     c' = c + int (card (free_from els idx)) \<and>
     e' = (if free_from els idx = {} then e else int (Max (free_from els idx)))"
proof (induction els idx c e n rule: sc_segment_loaded_scan.induct)
  case (1 els idx c e n)
  let ?r = "free_from els (idx + SC_CONCURRENCY_LEVEL)"
  note step = "1.prems" [unfolded sc_segment_loaded_scan.simps [of els idx]]
  consider (over) "\<not> idx < SC_SEGMENT_ELEMENTS_COUNT"
    | (free) "idx < SC_SEGMENT_ELEMENTS_COUNT" "el_type (els idx) = 0"
    | (used) "idx < SC_SEGMENT_ELEMENTS_COUNT" "el_type (els idx) \<noteq> 0" by blast
  then show ?case
  proof cases
    case over
    then show ?thesis using step free_from_end by simp
  next
    case free
    have s: "free_from els idx = insert idx ?r" using free_from_step free by simp
    have ih: "c' = c + 1 + int (card ?r)" "e' = (if ?r = {} then int idx else int (Max ?r))"
      using "1.IH"(1) [OF free] step free by auto
    have "Max (insert idx ?r) = Max ?r" if "?r \<noteq> {}"
    proof -
      have "Max ?r \<in> ?r" using that free_from_bounds(1) by (rule Max_in [rotated])
      from free_from_bounds(2) [OF this] have "idx \<le> Max ?r" by simp
      then show ?thesis using that free_from_bounds(1) by (simp add: max_def)
    qed
    then show ?thesis using ih free_from_bounds(1,3) unfolding s by simp
  next
    case used
    then show ?thesis using "1.IH"(2) [OF used] step free_from_step [where els = els and idx = idx] by simp
  qed
qed

lemma free_from_section: "k < SC_CONCURRENCY_LEVEL \<Longrightarrow> free_from els k = free_in els k"
proof -
  assume k: "k < SC_CONCURRENCY_LEVEL"
  have "k \<le> j" if "j mod SC_CONCURRENCY_LEVEL = k" for j using that mod_less_eq_dividend by metis
  then show ?thesis using k by (auto simp: free_from_def free_in_def)
qed

lemma loaded_section:
  assumes "k < SC_CONCURRENCY_LEVEL"
  shows "seg_sections (sc_segment_loaded_section k sg) =
     (seg_sections sg)(k := (seg_sections sg k)\<lparr>empty_count := int (card (free_in (seg_elements sg) k)),
        empty_offset := (if free_in (seg_elements sg) k = {} then empty_offset (seg_sections sg k)
          else int (Max (free_in (seg_elements sg) k)))\<rparr>)"
    "seg_elements (sc_segment_loaded_section k sg) = seg_elements sg"
    "seg_num (sc_segment_loaded_section k sg) = seg_num sg"
    "seg_meta (sc_segment_loaded_section k sg) = seg_meta sg"
proof -
  obtain c e n where scan: "sc_segment_loaded_scan (seg_elements sg) k 0 (empty_offset (seg_sections sg k)) (elements_count sg) = (c, e, n)"
    by (rule prod_cases3)
  then have "c = int (card (free_in (seg_elements sg) k))"
    "e = (if free_in (seg_elements sg) k = {} then empty_offset (seg_sections sg k) else int (Max (free_in (seg_elements sg) k)))"
    using loaded_scan [OF scan] free_from_section [OF assms, of "seg_elements sg"] by simp_all
  then show "seg_sections (sc_segment_loaded_section k sg) =
     (seg_sections sg)(k := (seg_sections sg k)\<lparr>empty_count := int (card (free_in (seg_elements sg) k)),
        empty_offset := (if free_in (seg_elements sg) k = {} then empty_offset (seg_sections sg k)
          else int (Max (free_in (seg_elements sg) k)))\<rparr>)"
    using scan by (simp add: sc_segment_loaded_section_def Let_def)
  show "seg_elements (sc_segment_loaded_section k sg) = seg_elements sg"
    "seg_num (sc_segment_loaded_section k sg) = seg_num sg"
    "seg_meta (sc_segment_loaded_section k sg) = seg_meta sg"
    using scan by (simp_all add: sc_segment_loaded_section_def Let_def)
qed

definition section_loaded :: "(nat \<Rightarrow> sc_element) \<Rightarrow> nat \<Rightarrow> sc_segment_section \<Rightarrow> sc_segment_section" where
  "section_loaded els k sc = sc\<lparr>empty_count := int (card (free_in els k)),
     empty_offset := (if free_in els k = {} then empty_offset sc else int (Max (free_in els k)))\<rparr>"

lemma loaded_sections:
  assumes "set ks \<subseteq> {..<SC_CONCURRENCY_LEVEL}" "distinct ks"
  shows "seg_sections (fold sc_segment_loaded_section ks sg) =
     (\<lambda>k. if k \<in> set ks then section_loaded (seg_elements sg) k (seg_sections sg k) else seg_sections sg k) \<and>
     seg_elements (fold sc_segment_loaded_section ks sg) = seg_elements sg \<and>
     seg_num (fold sc_segment_loaded_section ks sg) = seg_num sg \<and>
     seg_meta (fold sc_segment_loaded_section ks sg) = seg_meta sg"
  using assms
proof (induction ks arbitrary: sg)
  case (Cons k ks)
  then have "k < SC_CONCURRENCY_LEVEL" by simp
  note l = loaded_section [OF this, of sg]
  have ih: "seg_sections (fold sc_segment_loaded_section ks (sc_segment_loaded_section k sg)) =
      (\<lambda>j. if j \<in> set ks then section_loaded (seg_elements sg) j (seg_sections (sc_segment_loaded_section k sg) j)
        else seg_sections (sc_segment_loaded_section k sg) j)"
    "seg_elements (fold sc_segment_loaded_section ks (sc_segment_loaded_section k sg)) = seg_elements sg"
    "seg_num (fold sc_segment_loaded_section ks (sc_segment_loaded_section k sg)) = seg_num sg"
    "seg_meta (fold sc_segment_loaded_section ks (sc_segment_loaded_section k sg)) = seg_meta sg"
    using Cons.IH [of "sc_segment_loaded_section k sg"] Cons.prems unfolding l(2-4) by simp_all
  have "k \<notin> set ks" using Cons.prems by simp
  then show ?case unfolding fold_simps ih(2-) by (auto simp: ih(1) l(1) fun_eq_iff section_loaded_def)
qed simp

lemma segment_loaded:
  "seg_elements (sc_segment_loaded sg) = seg_elements sg" "seg_num (sc_segment_loaded sg) = seg_num sg"
  "k < SC_CONCURRENCY_LEVEL \<Longrightarrow> seg_sections (sc_segment_loaded sg) k = section_loaded (seg_elements sg) k (seg_sections sg k)"
  "seg_meta (sc_segment_loaded sg) = (\<lambda>i. if i < SC_SEGMENT_ELEMENTS_COUNT \<and> el_type (seg_elements sg i) \<noteq> 0
     then (seg_meta sg i)\<lparr>ref_count := 1\<rparr> else seg_meta sg i)"
proof -
  have p: "set [0..<SC_CONCURRENCY_LEVEL] \<subseteq> {..<SC_CONCURRENCY_LEVEL}" "distinct [0..<SC_CONCURRENCY_LEVEL]" by auto
  note l = loaded_sections [OF p, of "sg\<lparr>elements_count := 0\<rparr>"]
  show "seg_elements (sc_segment_loaded sg) = seg_elements sg" "seg_num (sc_segment_loaded sg) = seg_num sg"
    "seg_meta (sc_segment_loaded sg) = (\<lambda>i. if i < SC_SEGMENT_ELEMENTS_COUNT \<and> el_type (seg_elements sg i) \<noteq> 0
       then (seg_meta sg i)\<lparr>ref_count := 1\<rparr> else seg_meta sg i)"
    using l by (simp_all add: sc_segment_loaded_def Let_def cong del: if_weak_cong)
  show "k < SC_CONCURRENCY_LEVEL \<Longrightarrow>
      seg_sections (sc_segment_loaded sg) k = section_loaded (seg_elements sg) k (seg_sections sg k)"
    using l by (simp add: sc_segment_loaded_def Let_def)
qed

subsection \<open>The allocator on a loaded segment\<close>

definition at_last :: "sc_segment \<Rightarrow> bool" where
  "at_last sg \<longleftrightarrow> seg_num sg \<noteq> 0 \<and> (\<forall>k < SC_CONCURRENCY_LEVEL. empty_count (seg_sections sg k) > 0 \<longrightarrow>
     free_in (seg_elements sg) k \<noteq> {} \<and> empty_offset (seg_sections sg k) = int (Max (free_in (seg_elements sg) k)))"

lemma at_last_seg_ok: "at_last sg \<Longrightarrow> seg_ok sg"
proof -
  assume l: "at_last sg"
  have "section_free_ok sg k" if "k < SC_CONCURRENCY_LEVEL" "empty_count (seg_sections sg k) > 0" for k
    using l that Max_in [of "free_in (seg_elements sg) k"]
    by (auto simp: at_last_def section_free_ok_def Let_def free_in_def)
  then show ?thesis by (simp add: seg_ok_def)
qed

lemma no_next_empty:
  assumes l: "at_last sg" and k: "k < SC_CONCURRENCY_LEVEL" "empty_count (seg_sections sg k) > 0"
  shows "next_empty i sg (empty_offset (seg_sections sg k)) = None"
proof -
  let ?F = "free_in (seg_elements sg) k"
  have e: "empty_offset (seg_sections sg k) = int (Max ?F)" and ne: "?F \<noteq> {}" and n: "seg_num sg \<noteq> 0"
    using l k by (auto simp: at_last_def)
  have m: "Max ?F mod SC_CONCURRENCY_LEVEL = k" using Max_in [OF finite_free_in ne] by (simp add: free_in_def)
  have "find_empty_up (seg_elements sg) (Max ?F + SC_CONCURRENCY_LEVEL) = None"
  proof (rule ccontr)
    assume "find_empty_up (seg_elements sg) (Max ?F + SC_CONCURRENCY_LEVEL) \<noteq> None"
    then obtain j where "find_empty_up (seg_elements sg) (Max ?F + SC_CONCURRENCY_LEVEL) = Some j" by blast
    from find_empty_up_Some [OF this] have "j \<in> ?F" "j > Max ?F" using m by (auto simp: free_in_def sc_limits)
    then show False using Max_ge [OF finite_free_in] not_less by blast
  qed
  moreover have "find_empty_down (seg_elements sg) (int (Max ?F)) (int (Max ?F) - int SC_CONCURRENCY_LEVEL) = None"
    by (simp add: find_empty_down.simps sc_limits)
  ultimately show ?thesis using n by (simp add: next_empty_def e)
qed

lemma in_section_nothing:
  assumes l: "at_last sg" and o: "seg_locks_ok th sg" and k: "k < SC_CONCURRENCY_LEVEL"
  shows "\<exists>sg'. lock_empty_in_section th i k sg = Some (None, sg') \<and> at_last sg' \<and> seg_locks_ok th sg' \<and>
     seg_elements sg' = seg_elements sg"
proof -
  obtain r sg' where t: "lock_empty_in_section th i k sg = Some (r, sg')" "cell_taken th sg r sg'"
    using lock_empty_in_section_total [OF at_last_seg_ok [OF l] o k] by blast
  then have s: "seg_locks_ok th sg'" "seg_elements sg' = seg_elements sg" "seg_num sg' = seg_num sg"
    by (auto simp: cell_taken_def)
  show ?thesis
  proof (cases "empty_count (seg_sections sg k) > 0")
    case True
    note st = lock_empty_in_section_step [OF at_last_seg_ok [OF l] o k refl True refl, of i, unfolded no_next_empty [OF l k True]]
    then have "r = None" and sg': "sg' = set_section k (unlocked_section ((locked_section th (seg_sections sg k))
        \<lparr>empty_count := empty_count (seg_sections sg k) - 1\<rparr>)) (sg\<lparr>elements_count := elements_count sg + 1\<rparr>)"
      using t(1) by (simp_all add: Let_def)
    moreover have "at_last sg'"
      using l unfolding sg' by (auto simp: at_last_def set_section_def unlocked_section_def locked_section_def)
    ultimately show ?thesis using t(1) s by blast
  next
    case False
    have sok: "section_ok th (seg_sections sg k)" using o k by (simp add: seg_locks_ok_def)
    have "set_section k (seg_sections sg k) sg = sg" by (simp add: set_section_def)
    with False sok have "lock_empty_in_section th i k sg = Some (None, sg)"
      by (auto simp: lock_empty_in_section_def section_lock_try_ok section_unlock_ok section_ok_nonneg Let_def)
    then show ?thesis using l o by blast
  qed
qed

lemma pass_nothing:
  "at_last sg \<Longrightarrow> seg_locks_ok th sg \<Longrightarrow>
   \<exists>sg'. lock_empty_pass ctx_id th is sg = Some (None, sg') \<and> at_last sg' \<and> seg_locks_ok th sg' \<and> seg_elements sg' = seg_elements sg"
proof (induction "is" arbitrary: sg)
  case (Cons i "is")
  let ?k = "unat (ctx_id + of_nat i) mod SC_CONCURRENCY_LEVEL"
  have "?k < SC_CONCURRENCY_LEVEL" by (simp add: sc_limits)
  from in_section_nothing [OF Cons.prems this, of i] obtain sg1 where
    "lock_empty_in_section th i ?k sg = Some (None, sg1)" "at_last sg1" "seg_locks_ok th sg1" "seg_elements sg1 = seg_elements sg"
    by blast
  then show ?case using Cons.IH [of sg1] by simp
qed simp

lemma rounds_nothing:
  "at_last sg \<Longrightarrow> seg_locks_ok th sg \<Longrightarrow>
   \<exists>sg'. lock_empty_rounds ctx_id th n sg = Some (None, sg') \<and> at_last sg' \<and> seg_elements sg' = seg_elements sg"
proof (induction n arbitrary: sg)
  case (Suc n)
  from pass_nothing [OF Suc.prems] obtain sg1 where
    "lock_empty_pass ctx_id th [0..<SC_CONCURRENCY_LEVEL] sg = Some (None, sg1)" "at_last sg1" "seg_locks_ok th sg1"
    "seg_elements sg1 = seg_elements sg" by blast
  then show ?case using Suc.IH [of sg1] Suc.prems by auto
qed auto

text \<open>
  C37. After a restart the free cells of a segment (other than the first one) are unusable:
  \<^verbatim>\<open>sc_segment_loaded\<close> lets every section point at its last free cell, and from there
  \<^verbatim>\<open>sc_segment_lock_empty_element\<close> finds no other free cell and hands out nothing, however
  many cells of the segment are free.
\<close>

theorem loaded_segment_hands_out_nothing:
  assumes "seg_num sg \<noteq> 0" and "seg_locks_ok th sg"
  shows "\<exists>sg'. sc_segment_lock_empty_element ctx_id th (sc_segment_loaded sg) = Some (None, sg') \<and>
     seg_elements sg' = seg_elements sg"
proof -
  have "at_last (sc_segment_loaded sg)"
    using assms(1) by (auto simp: at_last_def segment_loaded section_loaded_def card_gt_0_iff)
  moreover have "seg_locks_ok th (sc_segment_loaded sg)"
    using assms(2) by (simp add: seg_locks_ok_def segment_loaded section_loaded_def section_ok_def)
  ultimately show ?thesis
    using rounds_nothing [of "sc_segment_loaded sg" th ctx_id SC_CONCURRENCY_LEVEL]
    by (auto simp: sc_segment_lock_empty_element_def segment_loaded)
qed

theorem loaded_segment_hands_out_nothing_witness:
  "\<exists>sg'. sc_segment_lock_empty_element 1 0 (sc_segment_loaded (sc_segment_new 1)) = Some (None, sg') \<and>
     seg_elements sg' = seg_elements (sc_segment_new 1)"
proof -
  have "seg_num (sc_segment_new 1) \<noteq> 0" by (simp add: seg_new_simps)
  then show ?thesis by (rule loaded_segment_hands_out_nothing [OF _ seg_locks_ok_new])
qed

end
