(* ===== verification/Sc_Storage.thy ===== *)
theory Sc_Storage
  imports Sc_Segment
begin

text \<open>
  The storage: the table of segments, the cache of segments that may have room, and the
  operations on single elements
  (\<^verbatim>\<open>sc-store/sc_storage.h\<close>, \<^verbatim>\<open>sc-store/sc_storage.c\<close>).
  Creating connectors is in theory \<open>Sc_Graph\<close>, deletion in \<open>Sc_Free\<close>.

  The state is what the C globals hold. The calls into the event module and into the
  file memory, which change nothing the storage reads, are recorded in order in
  \<open>ext_calls\<close>. The thread that runs is \<open>cur_thread\<close> (\<^verbatim>\<open>sc_thread()\<close>).
\<close>

subsection \<open>State\<close>

record sc_memory_context =
  ctx_id :: u32
  ctx_access :: sc_access_levels

datatype ext_call =
    SC_EVENT_EMIT sc_addr sc_access_levels sc_event_type sc_addr sc_addr
  | SC_EVENT_NOTIFY_ELEMENT_DELETED sc_addr
  | SC_FS_STORAGE_REMOVE_CONTENT_ADDR sc_addr "u8 list"

record sc_storage =
  segments :: "nat \<Rightarrow> sc_segment option"
  segments_num :: nat
  segments_cache :: "nat \<Rightarrow> nat option"
  segments_cache_count :: int
  max_loaded_segments :: int
  cur_thread :: thread
  ext_calls :: "ext_call list"

definition put_segment :: "nat \<Rightarrow> sc_segment \<Rightarrow> sc_storage \<Rightarrow> sc_storage" where
  "put_segment n sg s = s\<lparr>segments := (segments s)(n := Some sg)\<rparr>"

abbreviation seg_ix :: "sc_addr \<Rightarrow> nat" where "seg_ix a \<equiv> unat (addr_seg a)"
abbreviation off_ix :: "sc_addr \<Rightarrow> nat" where "off_ix a \<equiv> unat (addr_offset a)"

text \<open>Dereferencing an element pointer, and storing through it.\<close>

definition el_at :: "sc_storage \<Rightarrow> sc_addr \<Rightarrow> sc_element" where
  "el_at s a = (case segments s (seg_ix a) of
     Some sg \<Rightarrow> seg_elements sg (off_ix a) | None \<Rightarrow> zero_element)"

definition set_el :: "sc_addr \<Rightarrow> (sc_element \<Rightarrow> sc_element) \<Rightarrow> sc_storage \<Rightarrow> sc_storage" where
  "set_el a f s = (case segments s (seg_ix a) of
     Some sg \<Rightarrow> put_segment (seg_ix a)
       (sg\<lparr>seg_elements := (seg_elements sg)(off_ix a := f (seg_elements sg (off_ix a)))\<rparr>) s
   | None \<Rightarrow> s)"

definition meta_at :: "sc_storage \<Rightarrow> sc_addr \<Rightarrow> sc_element_meta" where
  "meta_at s a = (case segments s (seg_ix a) of
     Some sg \<Rightarrow> seg_meta sg (off_ix a) | None \<Rightarrow> zero_meta)"

definition set_refs :: "sc_addr \<Rightarrow> u32 \<Rightarrow> sc_storage \<Rightarrow> sc_storage" where
  "set_refs a n s = (case segments s (seg_ix a) of
     Some sg \<Rightarrow> put_segment (seg_ix a)
       (sg\<lparr>seg_meta := (seg_meta sg)(off_ix a := (seg_meta sg (off_ix a))\<lparr>ref_count := n\<rparr>)\<rparr>) s
   | None \<Rightarrow> s)"

definition ext_call :: "ext_call \<Rightarrow> sc_storage \<Rightarrow> sc_storage" where
  "ext_call c s = s\<lparr>ext_calls := ext_calls s @ [c]\<rparr>"

subsection \<open>Locking an element\<close>

definition sc_storage_element_lock :: "sc_addr \<Rightarrow> sc_storage \<Rightarrow> (sc_result \<times> sc_storage) option" where
  "sc_storage_element_lock a s =
     (if seg_ix a \<ge> SC_ADDR_SEG_MAX then Some (SC_RESULT_ERROR, s)
      else case segments s (seg_ix a) of
        None \<Rightarrow> Some (SC_RESULT_ERROR, s)
      | Some sg \<Rightarrow> do {
          sg' \<leftarrow> sc_segment_lock_element (cur_thread s) (off_ix a) sg;
          Some (SC_RESULT_OK, put_segment (seg_ix a) sg' s)
        })"

text \<open>The Boolean says whether the element pointer that comes back is not null.\<close>

definition sc_storage_element_lock_try ::
    "sc_addr \<Rightarrow> nat \<Rightarrow> sc_storage \<Rightarrow> (sc_result \<times> bool \<times> sc_storage) option" where
  "sc_storage_element_lock_try a max_attempts s =
     (if seg_ix a \<ge> SC_ADDR_SEG_MAX then Some (SC_RESULT_ERROR, False, s)
      else case segments s (seg_ix a) of
        None \<Rightarrow> Some (SC_RESULT_ERROR, False, s)
      | Some sg \<Rightarrow> do {
          (locked, sg') \<leftarrow> sc_segment_lock_element_try (cur_thread s) (off_ix a) max_attempts sg;
          Some (SC_RESULT_OK, locked, put_segment (seg_ix a) sg' s)
        })"

definition sc_storage_element_unlock :: "sc_addr \<Rightarrow> sc_storage \<Rightarrow> (sc_result \<times> sc_storage) option" where
  "sc_storage_element_unlock a s =
     (if seg_ix a \<ge> SC_ADDR_SEG_MAX then Some (SC_RESULT_ERROR, s)
      else case segments s (seg_ix a) of
        None \<Rightarrow> Some (SC_RESULT_ERROR, s)
      | Some sg \<Rightarrow> do {
          sg' \<leftarrow> sc_segment_unlock_element (cur_thread s) (off_ix a) sg;
          Some (SC_RESULT_OK, put_segment (seg_ix a) sg' s)
        })"

definition sc_storage_get_element_meta :: "sc_addr \<Rightarrow> sc_storage \<Rightarrow> sc_element_meta option" where
  "sc_storage_get_element_meta a s = do {
     g_assert (seg_ix a < SC_ADDR_SEG_MAX);
     case segments s (seg_ix a) of
       None \<Rightarrow> None
     | Some sg \<Rightarrow> sc_segment_get_meta (cur_thread s) (off_ix a) sg
   }"

subsection \<open>The segment cache\<close>

fun cache_append_at :: "nat \<Rightarrow> nat list \<Rightarrow> sc_storage \<Rightarrow> sc_storage" where
  "cache_append_at n [] s = s"
| "cache_append_at n (k # ks) s =
     (if segments_cache s k = None
      then s\<lparr>segments_cache := (segments_cache s)(k \<mapsto> n),
             segments_cache_count := segments_cache_count s + 1\<rparr>
      else cache_append_at n ks s)"

definition cache_slots_from :: "nat \<Rightarrow> nat list" where
  "cache_slots_from idx =
     map (\<lambda>i. (idx mod SC_SEGMENT_CACHE_SIZE + i) mod SC_SEGMENT_CACHE_SIZE)
       [0..<SC_SEGMENT_CACHE_SIZE]"

definition sc_segment_cache_append :: "nat \<Rightarrow> sc_storage \<Rightarrow> sc_storage" where
  "sc_segment_cache_append n s = cache_append_at n (cache_slots_from (cur_thread s)) s"

fun cache_remove_at :: "nat \<Rightarrow> nat list \<Rightarrow> sc_storage \<Rightarrow> sc_storage" where
  "cache_remove_at n [] s = s"
| "cache_remove_at n (k # ks) s =
     (if segments_cache s k = Some n
      then s\<lparr>segments_cache := (segments_cache s)(k := None),
             segments_cache_count := segments_cache_count s - 1\<rparr>
      else cache_remove_at n ks s)"

definition sc_segment_cache_remove :: "sc_memory_context \<Rightarrow> nat \<Rightarrow> sc_storage \<Rightarrow> sc_storage" where
  "sc_segment_cache_remove ctx n s = cache_remove_at n (cache_slots_from (unat (ctx_id ctx))) s"

definition sc_segment_cache_clear :: "sc_storage \<Rightarrow> sc_storage" where
  "sc_segment_cache_clear s = s\<lparr>segments_cache := (\<lambda>_. None)\<rparr>"

fun cache_update_at :: "nat list \<Rightarrow> sc_storage \<Rightarrow> sc_storage" where
  "cache_update_at [] s = s"
| "cache_update_at (i # is) s =
     (let s1 = (case segments s i of
            Some sg \<Rightarrow> if sc_segment_has_empty_slot sg then sc_segment_cache_append i s else s
          | None \<Rightarrow> s)
      in if segments_cache_count s1 = int SC_SEGMENT_CACHE_SIZE then s1
         else cache_update_at is s1)"

definition sc_segment_cache_update :: "sc_storage \<Rightarrow> sc_storage" where
  "sc_segment_cache_update s = cache_update_at [0..<segments_num s] s"

fun cache_first :: "nat list \<Rightarrow> (nat \<Rightarrow> nat option) \<Rightarrow> nat option" where
  "cache_first [] c = None"
| "cache_first (k # ks) c = (case c k of Some n \<Rightarrow> Some n | None \<Rightarrow> cache_first ks c)"

definition sc_segment_cache_get ::
    "sc_memory_context \<Rightarrow> sc_storage \<Rightarrow> (nat \<times> sc_storage) option" where
  "sc_segment_cache_get ctx s =
     (case (if segments_cache_count s > 0
            then cache_first (cache_slots_from (unat (ctx_id ctx))) (segments_cache s)
            else None) of
        Some n \<Rightarrow> Some (n, s)
      | None \<Rightarrow>
          (let s1 = sc_segment_cache_update s;
               n = segments_num s1
           in if n < SC_ADDR_SEG_MAX
              then Some (n, sc_segment_cache_append n
                     (put_segment n (sc_segment_new (of_nat n)) (s1\<lparr>segments_num := n + 1\<rparr>)))
              else None))"

subsection \<open>New cells\<close>

partial_function (option) append_el_loop ::
    "sc_memory_context \<Rightarrow> sc_storage \<Rightarrow> (sc_addr option \<times> sc_storage) option" where
  "append_el_loop ctx s = do {
     (n, s1) \<leftarrow> sc_segment_cache_get ctx s;
     case segments s1 n of
       None \<Rightarrow> None
     | Some sg \<Rightarrow> do {
         (r, sg1) \<leftarrow> sc_segment_lock_empty_element (ctx_id ctx) (cur_thread s1) sg;
         let s2 = put_segment n sg1 s1;
         case r of
           Some off \<Rightarrow> do {
             let a = Addr (seg_num sg1) (of_nat off);
             let s3 = set_el a (\<lambda>el. el\<lparr>el_access :=
                        sc_access_lvl_min (ctx_access ctx) (el_access el)\<rparr>) s2;
             m \<leftarrow> sc_segment_get_meta (cur_thread s3) off sg1;
             Some (Some a, set_refs a 1 s3)
           }
         | None \<Rightarrow> append_el_loop ctx (sc_segment_cache_remove ctx n s2)
       }
   }"

definition sc_storage_append_el_into_segments ::
    "sc_memory_context \<Rightarrow> sc_storage \<Rightarrow> (sc_addr option \<times> sc_storage) option" where
  "sc_storage_append_el_into_segments ctx s =
     (if int (segments_num s) \<ge> max_loaded_segments s then Some (None, s)
      else append_el_loop ctx s)"

definition sc_storage_element_new_access ::
    "sc_memory_context \<Rightarrow> sc_type \<Rightarrow> sc_access_levels \<Rightarrow> sc_storage \<Rightarrow>
     (sc_addr \<times> sc_storage) option" where
  "sc_storage_element_new_access ctx t al s = do {
     (r, s1) \<leftarrow> sc_storage_append_el_into_segments ctx s;
     case r of
       Some a \<Rightarrow> do {
         let s2 = set_el a (\<lambda>el. el\<lparr>el_type := t, el_access := al\<rparr>) s1;
         (_, s3) \<leftarrow> sc_storage_element_unlock a s2;
         Some (a, s3)
       }
     | None \<Rightarrow> Some (SC_ADDR_MAKE_EMPTY, s1)
   }"

definition sc_storage_node_new_ext ::
    "sc_memory_context \<Rightarrow> sc_type \<Rightarrow> sc_access_levels \<Rightarrow> sc_storage \<Rightarrow>
     (sc_addr \<times> sc_storage) option" where
  "sc_storage_node_new_ext ctx t al s = do {
     g_assert (sc_type_arc_mask AND t = 0);
     (r, s1) \<leftarrow> sc_storage_append_el_into_segments ctx s;
     case r of
       Some a \<Rightarrow> do {
         let s2 = set_el a (\<lambda>el. el\<lparr>el_type := sc_flags_remove (sc_type_node OR t),
                                     el_access := al\<rparr>) s1;
         (_, s3) \<leftarrow> sc_storage_element_unlock a s2;
         Some (a, s3)
       }
     | None \<Rightarrow> Some (SC_ADDR_MAKE_EMPTY, s1)
   }"

definition sc_storage_node_new ::
    "sc_memory_context \<Rightarrow> sc_type \<Rightarrow> sc_storage \<Rightarrow> (sc_addr \<times> sc_storage) option" where
  "sc_storage_node_new ctx t s = sc_storage_node_new_ext ctx t (ctx_access ctx) s"

definition sc_storage_link_new_ext ::
    "sc_memory_context \<Rightarrow> sc_access_levels \<Rightarrow> bool \<Rightarrow> sc_storage \<Rightarrow>
     (sc_addr \<times> sc_storage) option" where
  "sc_storage_link_new_ext ctx al is_const s = do {
     (r, s1) \<leftarrow> sc_storage_append_el_into_segments ctx s;
     case r of
       Some a \<Rightarrow> do {
         let s2 = set_el a (\<lambda>el. el\<lparr>el_type := sc_type_link OR
                                       (if is_const then sc_type_const else sc_type_var),
                                     el_access := al\<rparr>) s1;
         (_, s3) \<leftarrow> sc_storage_element_unlock a s2;
         Some (a, s3)
       }
     | None \<Rightarrow> Some (SC_ADDR_MAKE_EMPTY, s1)
   }"

definition sc_storage_link_new ::
    "sc_memory_context \<Rightarrow> bool \<Rightarrow> sc_storage \<Rightarrow> (sc_addr \<times> sc_storage) option" where
  "sc_storage_link_new ctx is_const s = sc_storage_link_new_ext ctx (ctx_access ctx) is_const s"

subsection \<open>Reading and changing one element\<close>

definition sc_storage_is_element :: "sc_addr \<Rightarrow> sc_storage \<Rightarrow> (bool \<times> sc_storage) option" where
  "sc_storage_is_element a s = do {
     (r, s1) \<leftarrow> sc_storage_element_lock a s;
     if r \<noteq> SC_RESULT_OK then Some (False, s1)
     else do {
       let el = el_at s1 a;
       let res = \<not> (el_type el = 0 \<or> el_type el AND sc_flag_request_deletion \<noteq> 0);
       (_, s2) \<leftarrow> sc_storage_element_unlock a s1;
       Some (res, s2)
     }
   }"

definition sc_storage_get_element_type ::
    "sc_memory_context \<Rightarrow> sc_addr \<Rightarrow> sc_storage \<Rightarrow>
     (sc_result \<times> sc_type option \<times> sc_storage) option" where
  "sc_storage_get_element_type ctx a s = do {
     (r, s1) \<leftarrow> sc_storage_element_lock a s;
     if r \<noteq> SC_RESULT_OK then Some (SC_RESULT_ERROR, None, s1)
     else do {
       let el = el_at s1 a;
       let (res, out) =
         (if \<not> sc_element_is_valid el then (SC_RESULT_ERROR_INVALID_STATE, None)
          else if sc_access_lvl_check_read (ctx_access ctx) (el_access el)
          then (SC_RESULT_OK, Some (sc_flags_remove (el_type el)))
          else (SC_RESULT_ERROR_NO_READ_RIGHTS, None));
       (_, s2) \<leftarrow> sc_storage_element_unlock a s1;
       Some (res, out, s2)
     }
   }"

definition sc_storage_change_element_subtype ::
    "sc_memory_context \<Rightarrow> sc_addr \<Rightarrow> sc_type \<Rightarrow> sc_storage \<Rightarrow>
     (sc_result \<times> sc_storage) option" where
  "sc_storage_change_element_subtype ctx a t s = do {
     (r, s1) \<leftarrow> sc_storage_element_lock a s;
     if r \<noteq> SC_RESULT_OK then Some (SC_RESULT_ERROR, s1)
     else let el = el_at s1 a in
       if \<not> sc_element_is_valid el then do {
         (_, s2) \<leftarrow> sc_storage_element_unlock a s1;
         Some (SC_RESULT_ERROR_INVALID_STATE, s2)
       }
       else if el_type el AND sc_type_element_mask \<noteq> t AND sc_type_element_mask
       then Some (SC_RESULT_ERROR_INVALID_PARAMS, s1)
       else if sc_access_lvl_check_write (ctx_access ctx) (el_access el) then do {
         (_, s2) \<leftarrow> sc_storage_element_unlock a (set_el a (\<lambda>e. e\<lparr>el_type := t\<rparr>) s1);
         Some (SC_RESULT_OK, s2)
       }
       else do {
         (_, s2) \<leftarrow> sc_storage_element_unlock a s1;
         Some (SC_RESULT_ERROR_NO_WRITE_RIGHTS, s2)
       }
   }"

text \<open>
  The three arc readers share one body; what they store through their out-pointers is
  the argument \<open>out\<close>.
\<close>

definition arc_reader ::
    "(sc_element \<Rightarrow> 'a) \<Rightarrow> sc_memory_context \<Rightarrow> sc_addr \<Rightarrow> sc_storage \<Rightarrow>
     (sc_result \<times> 'a option \<times> sc_storage) option" where
  "arc_reader out ctx a s = do {
     (r, s1) \<leftarrow> sc_storage_element_lock a s;
     if r \<noteq> SC_RESULT_OK then Some (SC_RESULT_ERROR, None, s1)
     else do {
       let el = el_at s1 a;
       let (res, v) =
         (if \<not> sc_element_is_valid el then (SC_RESULT_ERROR_INVALID_STATE, None)
          else if sc_access_lvl_check_read (ctx_access ctx) (el_access el)
          then if el_type el AND sc_type_arc_mask \<noteq> 0
               then (SC_RESULT_OK, Some (out el)) else (SC_RESULT_ERROR_INVALID_TYPE, None)
          else (SC_RESULT_ERROR_NO_READ_RIGHTS, None));
       (_, s2) \<leftarrow> sc_storage_element_unlock a s1;
       Some (res, v, s2)
     }
   }"

definition sc_storage_get_arc_begin ::
    "sc_memory_context \<Rightarrow> sc_addr \<Rightarrow> sc_storage \<Rightarrow>
     (sc_result \<times> sc_addr option \<times> sc_storage) option" where
  "sc_storage_get_arc_begin = arc_reader (\<lambda>el. arc_begin (arc el))"

definition sc_storage_get_arc_end ::
    "sc_memory_context \<Rightarrow> sc_addr \<Rightarrow> sc_storage \<Rightarrow>
     (sc_result \<times> sc_addr option \<times> sc_storage) option" where
  "sc_storage_get_arc_end = arc_reader (\<lambda>el. arc_end (arc el))"

definition sc_storage_get_arc_info ::
    "sc_memory_context \<Rightarrow> sc_addr \<Rightarrow> sc_storage \<Rightarrow>
     (sc_result \<times> (sc_addr \<times> sc_addr) option \<times> sc_storage) option" where
  "sc_storage_get_arc_info = arc_reader (\<lambda>el. (arc_begin (arc el), arc_end (arc el)))"

definition sc_storage_set_access_levels ::
    "sc_memory_context \<Rightarrow> sc_addr \<Rightarrow> sc_access_levels \<Rightarrow> sc_storage \<Rightarrow>
     (sc_result \<times> sc_access_levels option \<times> sc_storage) option" where
  "sc_storage_set_access_levels ctx a al s = do {
     (r, s1) \<leftarrow> sc_storage_element_lock a s;
     if r \<noteq> SC_RESULT_OK then Some (SC_RESULT_ERROR, None, s1)
     else if sc_access_lvl_check_write (ctx_access ctx) (el_access (el_at s1 a)) then do {
       let v = sc_access_lvl_min (ctx_access ctx) al;
       (_, s2) \<leftarrow> sc_storage_element_unlock a (set_el a (\<lambda>e. e\<lparr>el_access := v\<rparr>) s1);
       Some (SC_RESULT_OK, Some v, s2)
     }
     else do {
       (_, s2) \<leftarrow> sc_storage_element_unlock a s1;
       Some (SC_RESULT_ERROR_NO_WRITE_RIGHTS, None, s2)
     }
   }"

definition sc_storage_get_access_levels ::
    "sc_memory_context \<Rightarrow> sc_addr \<Rightarrow> sc_storage \<Rightarrow>
     (sc_result \<times> sc_access_levels option \<times> sc_storage) option" where
  "sc_storage_get_access_levels ctx a s = do {
     (r, s1) \<leftarrow> sc_storage_element_lock a s;
     if r \<noteq> SC_RESULT_OK then Some (SC_RESULT_ERROR, None, s1)
     else do {
       let el = el_at s1 a;
       let (res, v) =
         (if sc_access_lvl_check_read (ctx_access ctx) (el_access el)
          then (SC_RESULT_OK, Some (el_access el))
          else (SC_RESULT_ERROR_NO_READ_RIGHTS, None));
       (_, s2) \<leftarrow> sc_storage_element_unlock a s1;
       Some (res, v, s2)
     }
   }"

subsection \<open>References\<close>

definition sc_storage_erase_element_from_segment ::
    "sc_addr \<Rightarrow> sc_storage \<Rightarrow> sc_storage option" where
  "sc_storage_erase_element_from_segment a s =
     (case segments s (seg_ix a) of
        None \<Rightarrow> None
      | Some sg \<Rightarrow> do {
          sg' \<leftarrow> sc_segment_erase_element (off_ix a) sg;
          Some (put_segment (seg_ix a) sg' s)
        })"

text \<open>
  \<^verbatim>\<open>g_critical\<close> is fatal (\<^verbatim>\<open>g_log_set_always_fatal\<close> in
  \<^verbatim>\<open>sc_memory_initialize\<close>), so the branch that cannot lock does not return.
\<close>

definition sc_storage_ref_common :: "sc_addr \<Rightarrow> int \<Rightarrow> sc_storage \<Rightarrow> (bool \<times> sc_storage) option" where
  "sc_storage_ref_common a dir s = do {
     g_assert (dir = 1 \<or> dir = -1);
     g_assert (\<not> SC_ADDR_IS_EMPTY a);
     (r, s1) \<leftarrow> sc_storage_element_lock a s;
     if r = SC_RESULT_OK then do {
       m \<leftarrow> sc_storage_get_element_meta a s1;
       g_assert (ref_count m > 0);
       let n = ref_count m + of_int dir;
       g_assert (n < 0xffffffff);
       (_, s2) \<leftarrow> sc_storage_element_unlock a (set_refs a n s1);
       Some (n = 0, s2)
     }
     else None
   }"

definition sc_storage_element_ref :: "sc_addr \<Rightarrow> sc_storage \<Rightarrow> sc_storage option" where
  "sc_storage_element_ref a s = do {
     (_, s1) \<leftarrow> sc_storage_ref_common a 1 s;
     Some s1
   }"

definition sc_storage_element_unref :: "sc_addr \<Rightarrow> sc_storage \<Rightarrow> (bool \<times> sc_storage) option" where
  "sc_storage_element_unref a s = do {
     (no_refs, s1) \<leftarrow> sc_storage_ref_common a (-1) s;
     if no_refs then do {
       (r, s2) \<leftarrow> sc_storage_element_lock a s1;
       g_assert (r = SC_RESULT_OK);
       s3 \<leftarrow> sc_storage_erase_element_from_segment a s2;
       let s4 = sc_segment_cache_append (seg_ix a) s3;
       (_, s5) \<leftarrow> sc_storage_element_unlock a s4;
       Some (True, s5)
     }
     else Some (False, s1)
   }"

subsection \<open>Statistics\<close>

definition sc_storage_get_segments_count :: "sc_storage \<Rightarrow> nat" where
  "sc_storage_get_segments_count s = segments_num s"

fun collect_segments :: "nat list \<Rightarrow> sc_storage \<Rightarrow> sc_stat \<Rightarrow> (sc_stat \<times> sc_storage) option" where
  "collect_segments [] s st = Some (st, s)"
| "collect_segments (n # ns) s st =
     (case segments s n of
        None \<Rightarrow> None
      | Some sg \<Rightarrow> do {
          (sg1, st1) \<leftarrow> sc_segment_collect_elements_stat (cur_thread s) sg st;
          collect_segments ns (put_segment n sg1 s) st1
        })"

definition sc_storage_get_elements_stat :: "sc_storage \<Rightarrow> (sc_stat \<times> sc_storage) option" where
  "sc_storage_get_elements_stat s =
     collect_segments [0..<segments_num s] s
       \<lparr>node_count = 0, arc_count = 0, link_count = 0, empty_count_stat = 0,
        segments_count = sc_storage_get_segments_count s\<rparr>"

end
