(* ===== verification/Sc_Segment_File.thy ===== *)
theory Sc_Segment_File
  imports Sc_File_Memory Sc_Loaded Sc_Storage
begin

text \<open>
  The segment file (\<^verbatim>\<open>sc_fs_storage.c\<close>) and what the storage does with it when it starts,
  saves and stops (\<^verbatim>\<open>sc_storage_initialize\<close>, \<^verbatim>\<open>sc_storage_save\<close>, \<^verbatim>\<open>sc_storage_shutdown\<close>).

  The byte layout is that of the C structures on a 64-bit little-endian machine. The digest
  (SHA-512) of glib is the parameter \<open>sha\<close>; what the operating system answers to the calls of
  glib is the parameter \<open>io\<close>; RocksDB is opened, destroyed and flushed through \<open>adm\<close>. A call
  of \<^verbatim>\<open>g_error\<close> or \<^verbatim>\<open>g_critical\<close> ends the process (\<^verbatim>\<open>g_log_set_always_fatal\<close> in
  \<^verbatim>\<open>sc_memory_initialize\<close>). Saving also says in which state the files are when that happens.
\<close>

subsection \<open>Elements as bytes\<close>

definition arc_bytes :: "sc_arc_info \<Rightarrow> bytes" where
  "arc_bytes r = addr_bytes (arc_begin r) @ addr_bytes (arc_end r) @ addr_bytes (next_out_arc r) @
     addr_bytes (next_in_arc r) @ addr_bytes (prev_out_arc r) @ addr_bytes (prev_in_arc r)"

definition bytes_arc :: "bytes \<Rightarrow> sc_arc_info" where
  "bytes_arc bs = \<lparr>arc_begin = bytes_addr (take 4 bs), arc_end = bytes_addr (take 4 (drop 4 bs)),
     next_out_arc = bytes_addr (take 4 (drop 8 bs)), next_in_arc = bytes_addr (take 4 (drop 12 bs)),
     prev_out_arc = bytes_addr (take 4 (drop 16 bs)), prev_in_arc = bytes_addr (take 4 (drop 20 bs))\<rparr>"

text \<open>
  The union of content and connector: its bytes are the content of a link and the connector
  of everything else.
\<close>

definition union_bytes :: "sc_element \<Rightarrow> bytes" where
  "union_bytes e = (if el_type e AND sc_type_link \<noteq> 0 then content e else arc_bytes (arc e) @ replicate 8 0)"

definition SC_ELEMENT_SIZE :: nat where "SC_ELEMENT_SIZE = 44"

definition element_bytes :: "sc_element \<Rightarrow> bytes" where
  "element_bytes e = le_bytes 2 (unat (el_type e)) @ [el_access e, 0] @ addr_bytes (first_out_arc e) @
     addr_bytes (first_in_arc e) @ union_bytes e"

definition bytes_element :: "bytes \<Rightarrow> sc_element" where
  "bytes_element bs =
     (let t = of_nat (le_nat (take 2 bs)) :: sc_type; u = drop 12 bs
      in \<lparr>el_type = t, el_access = bs ! 2, first_out_arc = bytes_addr (take 4 (drop 4 bs)),
          first_in_arc = bytes_addr (take 4 (drop 8 bs)),
          content = (if t AND sc_type_link \<noteq> 0 then u else replicate SC_CHECKSUM_LEN 0),
          arc = (if t AND sc_type_link \<noteq> 0 then zero_arc_info else bytes_arc u)\<rparr>)"

definition SC_SEG_ELEMENTS_SIZE_BYTE :: nat where
  "SC_SEG_ELEMENTS_SIZE_BYTE = SC_ELEMENT_SIZE * SC_SEGMENT_ELEMENTS_COUNT"

definition segment_bytes :: "sc_segment \<Rightarrow> bytes" where
  "segment_bytes sg = concat (map (\<lambda>i. element_bytes (seg_elements sg i)) [0..<SC_SEGMENT_ELEMENTS_COUNT])"

definition bytes_elements :: "bytes \<Rightarrow> nat \<Rightarrow> sc_element" where
  "bytes_elements bs i = (if i < SC_SEGMENT_ELEMENTS_COUNT
     then bytes_element (take SC_ELEMENT_SIZE (drop (SC_ELEMENT_SIZE * i) bs)) else zero_element)"

subsection \<open>The header\<close>

definition SC_STORAGE_SEG_CHECKSUM_SIZE :: nat where "SC_STORAGE_SEG_CHECKSUM_SIZE = 64"

record sc_fs_storage_segments_header =
  hd_version :: u32
  hd_segments_num :: u16
  hd_timestamp :: u64
  hd_checksum :: bytes

definition SC_HEADER_SIZE :: nat where "SC_HEADER_SIZE = 80"

definition header_bytes :: "sc_fs_storage_segments_header \<Rightarrow> bytes" where
  "header_bytes h = le_bytes 4 (unat (hd_version h)) @ le_bytes 2 (unat (hd_segments_num h)) @ [0, 0] @
     le_bytes 8 (unat (hd_timestamp h)) @ hd_checksum h"

definition bytes_header :: "bytes \<Rightarrow> sc_fs_storage_segments_header" where
  "bytes_header bs = \<lparr>hd_version = of_nat (le_nat (take 4 bs)), hd_segments_num = of_nat (le_nat (take 2 (drop 4 bs))),
     hd_timestamp = of_nat (le_nat (take 8 (drop 8 bs))),
     hd_checksum = take SC_STORAGE_SEG_CHECKSUM_SIZE (drop 16 bs)\<rparr>"

record sc_version =
  ver_major :: u8
  ver_minor :: u8
  ver_patch :: u8
  ver_suffix :: string

definition SC_VERSION :: sc_version where
  "SC_VERSION = \<lparr>ver_major = 0, ver_minor = 7, ver_patch = 0, ver_suffix = []\<rparr>"

definition sc_version_to_int :: "sc_version \<Rightarrow> u32" where
  "sc_version_to_int v = push_bit 16 (ucast (ver_major v)) OR push_bit 8 (ucast (ver_minor v)) OR ucast (ver_patch v)"

definition sc_version_from_int :: "u32 \<Rightarrow> sc_version \<Rightarrow> sc_version" where
  "sc_version_from_int x v = v\<lparr>ver_major := ucast (drop_bit 16 x AND 0xff), ver_minor := ucast (drop_bit 8 x AND 0xff),
     ver_patch := ucast (x AND 0xff)\<rparr>"

definition sc_version_compare :: "sc_version \<Rightarrow> sc_version \<Rightarrow> int" where
  "sc_version_compare a b =
     (if ver_major a < ver_major b then -1 else if ver_major a > ver_major b then 1
      else if ver_minor a < ver_minor b then -1 else if ver_minor a > ver_minor b then 1
      else if ver_patch a < ver_patch b then -1 else if ver_patch a > ver_patch b then 1
      else 0)"

subsection \<open>Writing\<close>

text \<open>
  The answers of the system: whether the repository is a directory or can be made one,
  whether a file can be opened, whether the \<open>k\<close>-th write succeeds and how much of the bytes
  written has reached the file when the process ends early, whether the temporary file is a
  regular one and can be renamed, whether a file can be removed; the temporary name, and the time.
\<close>

record glib_io =
  io_dir :: bool
  io_mkdir :: bool
  io_open :: bool
  io_write :: "nat \<Rightarrow> bool"
  io_left :: "bytes \<Rightarrow> bytes"
  io_regular :: bool
  io_rename :: bool
  io_remove :: bool
  io_tmp :: string
  io_time :: u64

record 'db rocks_admin =
  adm_open :: "'db \<Rightarrow> bool"
  adm_destroy :: "'db \<Rightarrow> 'db"
  adm_flush :: "'db \<Rightarrow> bool"

fun write_all :: "glib_io \<Rightarrow> nat \<Rightarrow> bytes list \<Rightarrow> bytes \<Rightarrow> bool \<times> bytes" where
  "write_all io k [] out = (True, out)"
| "write_all io k (c # cs) out = (if io_write io k then write_all io (Suc k) cs (out @ c) else (False, out))"

text \<open>The segments before the first missing one.\<close>

fun leading :: "nat list \<Rightarrow> (nat \<Rightarrow> sc_segment option) \<Rightarrow> sc_segment list" where
  "leading [] segs = []"
| "leading (i # is) segs = (case segs i of None \<Rightarrow> [] | Some sg \<Rightarrow> sg # leading is segs)"

definition sc_fm_save :: "'db rocks_admin \<Rightarrow> bool \<Rightarrow> 'db \<Rightarrow> sc_result option" where
  "sc_fm_save adm db_open d = do { g_assert db_open; Some (SC_RES (adm_flush adm d)) }"

text \<open>The first component is \<open>None\<close> when the process ended.\<close>

definition sc_fs_storage_write_to_path ::
    "'db rocks_admin \<Rightarrow> glib_io \<Rightarrow> (bytes \<Rightarrow> bytes) \<Rightarrow> string \<Rightarrow> (nat \<Rightarrow> sc_segment option) \<Rightarrow> bool \<times> 'db \<Rightarrow>
     files \<Rightarrow> bool option \<times> files" where
  "sc_fs_storage_write_to_path adm io sha segments_path segs db fs =
     (if \<not> io_dir io \<and> \<not> io_mkdir io then (None, fs)
      else if \<not> io_open io then (None, fs)
      else let saved = leading [0..<SC_ADDR_SEG_MAX] segs;
        header = \<lparr>hd_version = sc_version_to_int SC_VERSION, hd_segments_num = of_nat (length saved),
          hd_timestamp = io_time io, hd_checksum = sha (concat (map segment_bytes saved))\<rparr>;
        (ok, out) = write_all io 0 (le_bytes 4 SC_HEADER_SIZE # header_bytes header # map segment_bytes saved) []
      in if \<not> ok then (None, fs(io_tmp io \<mapsto> io_left io out))
         else let fs1 = fs(io_tmp io \<mapsto> out)
         in if io_regular io \<and> \<not> io_rename io then (None, fs1)
            else let fs2 = (if io_regular io then fs1(io_tmp io := None, segments_path \<mapsto> out) else fs1)
            in if sc_fm_save adm (fst db) (snd db) = Some SC_RESULT_OK then (Some True, fs2) else (None, fs2))"

subsection \<open>Reading\<close>

definition loaded_segment :: "nat \<Rightarrow> bytes \<Rightarrow> sc_segment" where
  "loaded_segment i bs = sc_segment_loaded ((sc_segment_new (of_nat i))\<lparr>seg_elements := bytes_elements bs\<rparr>)"

fun read_segments ::
    "nat list \<Rightarrow> bytes \<Rightarrow> bytes \<Rightarrow> (nat \<Rightarrow> sc_segment option) \<Rightarrow> (bytes \<times> (nat \<Rightarrow> sc_segment option)) option" where
  "read_segments [] bs acc segs = Some (acc, segs)"
| "read_segments (i # is) bs acc segs =
     (let chunk = take SC_SEG_ELEMENTS_SIZE_BYTE bs
      in if length chunk \<noteq> SC_SEG_ELEMENTS_SIZE_BYTE then None
         else read_segments is (drop SC_SEG_ELEMENTS_SIZE_BYTE bs) (acc @ chunk) (segs(i \<mapsto> loaded_segment i chunk)))"

definition sc_fm_clean_state :: sc_result where
  "sc_fm_clean_state = SC_RESULT_OK"

definition sc_fs_storage_read_from_path ::
    "glib_io \<Rightarrow> (bytes \<Rightarrow> bytes) \<Rightarrow> string \<Rightarrow> files \<Rightarrow> (nat \<Rightarrow> sc_segment option) \<Rightarrow> nat \<Rightarrow>
     (bool \<times> (nat \<Rightarrow> sc_segment option) \<times> nat) option" where
  "sc_fs_storage_read_from_path io sha segments_path fs segs num =
     (if \<not> io_dir io then None
      else case fs segments_path of
        None \<Rightarrow> Some (False, segs, num)
      | Some bs \<Rightarrow> do {
          g_assert (io_open io);
          g_assert (length bs \<ge> 4);
          g_assert (le_nat (take 4 bs) = SC_HEADER_SIZE);
          g_assert (length (drop 4 bs) \<ge> SC_HEADER_SIZE);
          let header = bytes_header (take SC_HEADER_SIZE (drop 4 bs));
          let n = unat (hd_segments_num header);
          (data, segs1) \<leftarrow> read_segments [0..<n] (drop SC_HEADER_SIZE (drop 4 bs)) [] segs;
          if sha data = hd_checksum header then do {
            g_assert (sc_fm_clean_state = SC_RESULT_OK);
            Some (True, segs1, n)
          }
          else Some (False, \<lambda>i. if i < SC_ADDR_SEG_MAX then None else segs1 i, 0)
        })"

subsection \<open>Starting, saving and stopping the storage\<close>

record 'db repository =
  rep_storage :: sc_storage
  rep_allocated :: bool
  rep_initialized :: bool
  rep_path :: string
  rep_segments_path :: string
  rep_files :: files
  rep_db_open :: bool
  rep_db :: 'db

definition MAX_PATH_LENGTH :: nat where "MAX_PATH_LENGTH = 1024"

definition sc_fm_init :: "'db rocks_admin \<Rightarrow> 'db repository \<Rightarrow> sc_result \<times> 'db repository" where
  "sc_fm_init adm r = (let ok = adm_open adm (rep_db r) in (SC_RES ok, r\<lparr>rep_db_open := ok\<rparr>))"

definition sc_fm_free :: "'db repository \<Rightarrow> 'db repository option" where
  "sc_fm_free r = do { g_assert (rep_db_open r); Some (r\<lparr>rep_db_open := False\<rparr>) }"

definition sc_fm_clear :: "'db rocks_admin \<Rightarrow> 'db repository \<Rightarrow> (sc_result \<times> 'db repository) option" where
  "sc_fm_clear adm r = do {
     r1 \<leftarrow> sc_fm_free r;
     let d = adm_destroy adm (rep_db r1);
     let ok = adm_open adm d;
     Some (SC_RES ok, r1\<lparr>rep_db := d, rep_db_open := ok\<rparr>)
   }"

definition sc_fs_storage_initialize ::
    "'db rocks_admin \<Rightarrow> glib_io \<Rightarrow> string \<Rightarrow> bool \<Rightarrow> 'db repository \<Rightarrow> (bool \<times> 'db repository) option" where
  "sc_fs_storage_initialize adm io path clear r = do {
     let r1 = r\<lparr>rep_segments_path := take (MAX_PATH_LENGTH - 1) (path @ ''/segments.scdb''), rep_path := path\<rparr>;
     let (_, r2) = sc_fm_init adm r1;
     if clear then do {
       let old = rep_files r2 (rep_segments_path r2) \<noteq> None;
       g_assert (old \<longrightarrow> io_remove io);
       let r3 = r2\<lparr>rep_files := (rep_files r2)(rep_segments_path r2 := None)\<rparr>;
       (res, r4) \<leftarrow> sc_fm_clear adm r3;
       g_assert (res = SC_RESULT_OK);
       Some (True, r4)
     }
     else Some (True, r2)
   }"

definition sc_fs_storage_shutdown ::
    "'db rocks_admin \<Rightarrow> glib_io \<Rightarrow> (bytes \<Rightarrow> bytes) \<Rightarrow> bool \<Rightarrow> 'db repository \<Rightarrow> (bool \<times> 'db repository) option" where
  "sc_fs_storage_shutdown adm io sha save_segments r = do {
     r1 \<leftarrow> (if save_segments then
              let (res, fs) = sc_fs_storage_write_to_path adm io sha (rep_segments_path r) (segments (rep_storage r))
                    (rep_db_open r, rep_db r) (rep_files r)
              in map_option (\<lambda>_. r\<lparr>rep_files := fs\<rparr>) res
            else Some r);
     r2 \<leftarrow> sc_fm_free r1;
     Some (False, r2)
   }"

definition sc_storage_initialize ::
    "'db rocks_admin \<Rightarrow> glib_io \<Rightarrow> (bytes \<Rightarrow> bytes) \<Rightarrow> string \<Rightarrow> bool \<Rightarrow> 'db repository \<Rightarrow> (bool \<times> 'db repository) option" where
  "sc_storage_initialize adm io sha path clear r = do {
     g_assert (\<not> rep_allocated r);
     g_assert (\<not> rep_initialized r);
     let r1 = r\<lparr>rep_allocated := True, rep_storage := (rep_storage r)\<lparr>segments := (\<lambda>_. None)\<rparr>\<rparr>;
     (res, r2) \<leftarrow> sc_fs_storage_initialize adm io path clear r1;
     if \<not> res then Some (False, r2)
     else do {
       r3 \<leftarrow> (if clear then Some r2
              else do {
                (_, segs, num) \<leftarrow> sc_fs_storage_read_from_path io sha (rep_segments_path r2) (rep_files r2)
                   (segments (rep_storage r2)) (segments_num (rep_storage r2));
                Some (r2\<lparr>rep_storage := (rep_storage r2)\<lparr>segments := segs, segments_num := num\<rparr>\<rparr>)
              });
       Some (True, r3\<lparr>rep_initialized := True, rep_storage := (rep_storage r3)\<lparr>segments_cache := (\<lambda>_. None)\<rparr>\<rparr>)
     }
   }"

definition sc_storage_shutdown ::
    "'db rocks_admin \<Rightarrow> glib_io \<Rightarrow> (bytes \<Rightarrow> bytes) \<Rightarrow> bool \<Rightarrow> 'db repository \<Rightarrow> 'db repository option" where
  "sc_storage_shutdown adm io sha save_state r = do {
     g_assert (rep_allocated r);
     (_, r1) \<leftarrow> sc_fs_storage_shutdown adm io sha save_state r;
     let s = (rep_storage r1)\<lparr>segments := (\<lambda>_. None), segments_num := 0\<rparr>;
     Some (r1\<lparr>rep_allocated := False, rep_initialized := False, rep_storage := sc_segment_cache_clear s\<rparr>)
   }"

definition sc_storage_is_initialized :: "'db repository \<Rightarrow> bool" where
  "sc_storage_is_initialized r = rep_initialized r"

fun lock_segments :: "nat list \<Rightarrow> sc_storage \<Rightarrow> sc_storage option" where
  "lock_segments [] s = Some s"
| "lock_segments (i # is) s = (case segments s i of
      None \<Rightarrow> lock_segments is s
    | Some sg \<Rightarrow> do { sg1 \<leftarrow> sc_segment_lock (cur_thread s) sg; lock_segments is (put_segment i sg1 s) })"

fun unlock_segments :: "nat list \<Rightarrow> sc_storage \<Rightarrow> sc_storage option" where
  "unlock_segments [] s = Some s"
| "unlock_segments (i # is) s = (case segments s i of
      None \<Rightarrow> unlock_segments is s
    | Some sg \<Rightarrow> do { sg1 \<leftarrow> sc_segment_unlock (cur_thread s) sg; unlock_segments is (put_segment i sg1 s) })"

definition sc_storage_save ::
    "'db rocks_admin \<Rightarrow> glib_io \<Rightarrow> (bytes \<Rightarrow> bytes) \<Rightarrow> 'db repository \<Rightarrow> (sc_result \<times> 'db repository) option" where
  "sc_storage_save adm io sha r = do {
     s1 \<leftarrow> lock_segments [0..<SC_ADDR_SEG_MAX] (rep_storage r);
     let (res, fs) = sc_fs_storage_write_to_path adm io sha (rep_segments_path r) (segments s1)
           (rep_db_open r, rep_db r) (rep_files r);
     _ \<leftarrow> res;
     s2 \<leftarrow> unlock_segments [0..<SC_ADDR_SEG_MAX] s1;
     Some (SC_RESULT_OK, r\<lparr>rep_storage := s2, rep_files := fs\<rparr>)
   }"

end
