(* ===== verification/Sc_Storage_Laws.thy ===== *)
theory Sc_Storage_Laws
  imports Sc_Storage
begin

text \<open>
  What the storage primitives do, stated on four observations of the state: the element
  at an address, its reference count, how often the running thread holds a section, and
  the recorded external calls. The storage invariant \<open>storage_ok\<close> is the soundness of
  the segment table, of the lock words and of the free-cell bookkeeping. The component
  proofs above this level use these laws and never look into segments again.
\<close>

subsection \<open>Observations\<close>

definition has_cell :: "sc_storage \<Rightarrow> sc_addr \<Rightarrow> bool" where
  "has_cell s a \<longleftrightarrow> seg_ix a < SC_ADDR_SEG_MAX \<and> segments s (seg_ix a) \<noteq> None \<and>
     off_ix a < SC_SEGMENT_ELEMENTS_COUNT"

definition sec_of :: "sc_addr \<Rightarrow> nat \<times> nat" where
  "sec_of a = (seg_ix a, off_ix a mod SC_CONCURRENCY_LEVEL)"

definition held :: "sc_storage \<Rightarrow> nat \<times> nat \<Rightarrow> int" where
  "held s k = (case segments s (fst k) of
     Some sg \<Rightarrow> seg_lock_counts sg (snd k) | None \<Rightarrow> 0)"

definition refs :: "sc_storage \<Rightarrow> sc_addr \<Rightarrow> u32" where
  "refs s a = ref_count (meta_at s a)"

text \<open>A free cell is zeroed, up to its access levels.\<close>

definition cell_clean :: "sc_element \<Rightarrow> bool" where
  "cell_clean el \<longleftrightarrow>
     (el_type el = 0 \<longrightarrow> first_out_arc el = SC_ADDR_MAKE_EMPTY \<and>
        first_in_arc el = SC_ADDR_MAKE_EMPTY \<and> arc el = zero_arc_info)"

definition segment_ok :: "thread \<Rightarrow> nat \<Rightarrow> sc_segment \<Rightarrow> bool" where
  "segment_ok th n sg \<longleftrightarrow>
     n < SC_ADDR_SEG_MAX \<and> seg_num sg = of_nat n \<and> seg_ok sg \<and> seg_locks_ok th sg \<and>
     (\<forall>k. cell_clean (seg_elements sg k)) \<and>
     (n = 0 \<longrightarrow> el_type (seg_elements sg 0) = 0)"

definition storage_ok :: "sc_storage \<Rightarrow> bool" where
  "storage_ok s \<longleftrightarrow>
     (\<forall>n sg. segments s n = Some sg \<longrightarrow> segment_ok (cur_thread s) n sg) \<and>
     (\<forall>n. segments s n \<noteq> None \<longleftrightarrow> n < segments_num s) \<and>
     (\<forall>k n. segments_cache s k = Some n \<longrightarrow> segments s n \<noteq> None)"

lemma storage_ok_segment:
  "storage_ok s \<Longrightarrow> segments s n = Some sg \<Longrightarrow> segment_ok (cur_thread s) n sg"
  by (simp add: storage_ok_def)

lemma has_cellE:
  assumes "has_cell s a"
  obtains sg where "segments s (seg_ix a) = Some sg" "seg_ix a < SC_ADDR_SEG_MAX"
    "off_ix a < SC_SEGMENT_ELEMENTS_COUNT"
  using assms by (auto simp: has_cell_def)

lemma put_segment_simps [simp]:
  "segments (put_segment n sg s) = (segments s)(n \<mapsto> sg)"
  "segments_num (put_segment n sg s) = segments_num s"
  "segments_cache (put_segment n sg s) = segments_cache s"
  "segments_cache_count (put_segment n sg s) = segments_cache_count s"
  "max_loaded_segments (put_segment n sg s) = max_loaded_segments s"
  "cur_thread (put_segment n sg s) = cur_thread s"
  "ext_calls (put_segment n sg s) = ext_calls s"
  by (simp_all add: put_segment_def)

text \<open>Two addresses of the same segment table slot with the same offset are equal.\<close>

lemma addr_eq_iff: "a = b \<longleftrightarrow> seg_ix a = seg_ix b \<and> off_ix a = off_ix b"
  by (cases a; cases b) (auto simp: word_unat_eq_iff)

subsection \<open>Writing through an element pointer\<close>

lemma el_at_set_el [sc_state]:
  "has_cell s a \<Longrightarrow> el_at (set_el a f s) b = (if a = b then f (el_at s a) else el_at s b)"
  by (auto simp: el_at_def set_el_def addr_eq_iff elim!: has_cellE split: option.splits)

lemma set_el_frame [sc_state]:
  "meta_at (set_el a f s) = meta_at s"
  "refs (set_el a f s) = refs s"
  "held (set_el a f s) = held s"
  "has_cell (set_el a f s) = has_cell s"
  "ext_calls (set_el a f s) = ext_calls s"
  "cur_thread (set_el a f s) = cur_thread s"
  "segments_num (set_el a f s) = segments_num s"
  "max_loaded_segments (set_el a f s) = max_loaded_segments s"
  by (auto simp: meta_at_def refs_def held_def has_cell_def set_el_def seg_lock_counts_def
        fun_eq_iff split: option.splits)

lemma el_at_set_refs [sc_state]: "el_at (set_refs a n s) = el_at s"
  by (auto simp: el_at_def set_refs_def fun_eq_iff addr_eq_iff split: option.splits)

lemma refs_set_refs [sc_state]:
  "has_cell s a \<Longrightarrow> refs (set_refs a n s) b = (if a = b then n else refs s b)"
  by (auto simp: refs_def meta_at_def set_refs_def addr_eq_iff elim!: has_cellE
        split: option.splits)

lemma set_refs_frame [sc_state]:
  "held (set_refs a n s) = held s"
  "has_cell (set_refs a n s) = has_cell s"
  "ext_calls (set_refs a n s) = ext_calls s"
  "cur_thread (set_refs a n s) = cur_thread s"
  "segments_num (set_refs a n s) = segments_num s"
  "max_loaded_segments (set_refs a n s) = max_loaded_segments s"
  by (auto simp: held_def has_cell_def set_refs_def seg_lock_counts_def fun_eq_iff
        split: option.splits)

lemma ext_call_frame [sc_state]:
  "el_at (ext_call c s) = el_at s" "meta_at (ext_call c s) = meta_at s"
  "refs (ext_call c s) = refs s" "held (ext_call c s) = held s"
  "has_cell (ext_call c s) = has_cell s" "storage_ok (ext_call c s) = storage_ok s"
  "cur_thread (ext_call c s) = cur_thread s"
  "segments_num (ext_call c s) = segments_num s"
  "max_loaded_segments (ext_call c s) = max_loaded_segments s"
  "ext_calls (ext_call c s) = ext_calls s @ [c]"
  by (auto simp: ext_call_def el_at_def meta_at_def refs_def held_def has_cell_def
        storage_ok_def fun_eq_iff)

lemma storage_ok_put:
  assumes "storage_ok s" and "segments s n = Some sg0" and "segment_ok (cur_thread s) n sg"
  shows "storage_ok (put_segment n sg s)"
proof -
  have "n < segments_num s" using assms(1,2) by (auto simp: storage_ok_def)
  with assms show ?thesis by (auto simp: storage_ok_def)
qed

lemma segment_ok_meta [simp]: "segment_ok th n (sg\<lparr>seg_meta := m\<rparr>) = segment_ok th n sg"
  by (simp add: segment_ok_def seg_ok_def seg_locks_ok_def section_free_ok_def)

lemma storage_ok_set_refs [sc_state]: "storage_ok s \<Longrightarrow> storage_ok (set_refs a n s)"
  by (cases "segments s (seg_ix a)")
     (simp_all add: set_refs_def storage_ok_put storage_ok_segment)

lemma storage_ok_set_el:
  assumes "storage_ok s" and "el_type (el_at s a) \<noteq> 0" and "cell_clean (f (el_at s a))"
    and "a \<noteq> SC_ADDR_MAKE_EMPTY"
  shows "storage_ok (set_el a f s)"
proof (cases "segments s (seg_ix a)")
  case (Some sg)
  have "segment_ok (cur_thread s) (seg_ix a)
    (sg\<lparr>seg_elements := (seg_elements sg)(off_ix a := f (seg_elements sg (off_ix a)))\<rparr>)"
    using storage_ok_segment [OF assms(1) Some] assms Some
    by (auto simp: segment_ok_def el_at_def seg_locks_ok_def SC_ADDR_MAKE_EMPTY_def
          addr_eq_iff intro: seg_ok_write_used)
  with assms(1) Some show ?thesis
    by (simp add: set_el_def storage_ok_put)
qed (use assms in \<open>simp add: set_el_def\<close>)

subsection \<open>Locks\<close>

definition lock_cell :: "sc_addr \<Rightarrow> sc_storage \<Rightarrow> sc_storage" where
  "lock_cell a s = (case segments s (seg_ix a) of
     Some sg \<Rightarrow> (let i = off_ix a mod SC_CONCURRENCY_LEVEL in
       put_segment (seg_ix a)
         (set_section i (locked_section (cur_thread s) (seg_sections sg i)) sg) s)
   | None \<Rightarrow> s)"

definition unlock_cell :: "sc_addr \<Rightarrow> sc_storage \<Rightarrow> sc_storage" where
  "unlock_cell a s = (case segments s (seg_ix a) of
     Some sg \<Rightarrow> (let i = off_ix a mod SC_CONCURRENCY_LEVEL in
       put_segment (seg_ix a) (set_section i (unlocked_section (seg_sections sg i)) sg) s)
   | None \<Rightarrow> s)"

lemma seg_section_ok:
  "storage_ok s \<Longrightarrow> segments s n = Some sg \<Longrightarrow> i < SC_CONCURRENCY_LEVEL \<Longrightarrow>
   section_ok (cur_thread s) (seg_sections sg i)"
  by (auto dest!: storage_ok_segment simp: segment_ok_def seg_locks_ok_def)

lemma element_lock_ok:
  assumes "storage_ok s" and "has_cell s a"
  shows "sc_storage_element_lock a s = Some (SC_RESULT_OK, lock_cell a s)"
  using assms
  by (auto elim!: has_cellE simp: sc_storage_element_lock_def sc_segment_lock_element_def
        lock_cell_def section_lock_ok seg_section_ok Let_def)

lemma element_lock_try_ok:
  assumes "storage_ok s" and "has_cell s a"
  shows "sc_storage_element_lock_try a m s = Some (SC_RESULT_OK, True, lock_cell a s)"
  using assms
  by (auto elim!: has_cellE simp: sc_storage_element_lock_try_def sc_segment_lock_element_try_def
        lock_cell_def section_lock_try_ok seg_section_ok Let_def)

lemma element_unlock_ok:
  assumes "storage_ok s" and "has_cell s a" and "held s (sec_of a) > 0"
  shows "sc_storage_element_unlock a s = Some (SC_RESULT_OK, unlock_cell a s)"
  using assms
  by (auto elim!: has_cellE simp: sc_storage_element_unlock_def sc_segment_unlock_element_def
        unlock_cell_def section_unlock_ok seg_section_ok held_def sec_of_def seg_lock_counts_def Let_def)

lemma lock_cell_frame [sc_state]:
  "el_at (lock_cell a s) = el_at s" "el_at (unlock_cell a s) = el_at s"
  "meta_at (lock_cell a s) = meta_at s" "meta_at (unlock_cell a s) = meta_at s"
  "refs (lock_cell a s) = refs s" "refs (unlock_cell a s) = refs s"
  "has_cell (lock_cell a s) = has_cell s" "has_cell (unlock_cell a s) = has_cell s"
  "ext_calls (lock_cell a s) = ext_calls s" "ext_calls (unlock_cell a s) = ext_calls s"
  "cur_thread (lock_cell a s) = cur_thread s" "cur_thread (unlock_cell a s) = cur_thread s"
  "segments_num (lock_cell a s) = segments_num s"
  "segments_num (unlock_cell a s) = segments_num s"
  "max_loaded_segments (lock_cell a s) = max_loaded_segments s"
  "max_loaded_segments (unlock_cell a s) = max_loaded_segments s"
  by (auto simp: el_at_def meta_at_def refs_def has_cell_def lock_cell_def unlock_cell_def
        Let_def fun_eq_iff split: option.splits)

lemma held_lock_cell [sc_state]:
  "has_cell s a \<Longrightarrow> held (lock_cell a s) = (held s)(sec_of a := held s (sec_of a) + 1)"
  by (auto elim!: has_cellE simp: held_def lock_cell_def sec_of_def Let_def fun_eq_iff
        seg_lock_counts_def split: option.splits)

lemma held_unlock_cell [sc_state]:
  "has_cell s a \<Longrightarrow> held (unlock_cell a s) = (held s)(sec_of a := held s (sec_of a) - 1)"
  by (auto elim!: has_cellE simp: held_def unlock_cell_def sec_of_def Let_def fun_eq_iff
        seg_lock_counts_def split: option.splits)

lemma held_nonneg: "storage_ok s \<Longrightarrow> has_cell s a \<Longrightarrow> held s (sec_of a) \<ge> 0"
  by (auto elim!: has_cellE simp: held_def sec_of_def seg_lock_counts_def
        intro!: section_ok_nonneg [OF seg_section_ok])

lemma seg_ok_set_lock:
  assumes "seg_ok sg" and "empty_count sec = empty_count (seg_sections sg k)"
    and "empty_offset sec = empty_offset (seg_sections sg k)"
  shows "seg_ok (set_section k sec sg)"
  using assms by (auto simp: seg_ok_def section_free_ok_def Let_def)

lemma segment_ok_set_lock:
  assumes "segment_ok th n sg" and "section_ok th sec"
    and "empty_count sec = empty_count (seg_sections sg k)"
    and "empty_offset sec = empty_offset (seg_sections sg k)"
  shows "segment_ok th n (set_section k sec sg)"
  using assms by (simp add: segment_ok_def seg_ok_set_lock)

lemma storage_ok_lock_cell [sc_state]: "storage_ok s \<Longrightarrow> storage_ok (lock_cell a s)"
  by (cases "segments s (seg_ix a)")
     (simp_all add: lock_cell_def Let_def storage_ok_put storage_ok_segment
        segment_ok_set_lock seg_section_ok)

lemma storage_ok_unlock_cell [sc_state]:
  assumes "storage_ok s" and "has_cell s a" and "held s (sec_of a) > 0"
  shows "storage_ok (unlock_cell a s)"
proof -
  obtain sg where sg: "segments s (seg_ix a) = Some sg" using assms(2) by (rule has_cellE)
  let ?i = "off_ix a mod SC_CONCURRENCY_LEVEL"
  have "section_ok (cur_thread s) (unlocked_section (seg_sections sg ?i))"
    using assms sg seg_section_ok [OF assms(1) sg, of ?i]
    by (simp add: held_def sec_of_def seg_lock_counts_def)
  with storage_ok_segment [OF assms(1) sg] have
    "segment_ok (cur_thread s) (seg_ix a)
       (set_section ?i (unlocked_section (seg_sections sg ?i)) sg)"
    by (simp add: segment_ok_set_lock)
  with assms(1) sg show ?thesis by (simp add: unlock_cell_def Let_def storage_ok_put)
qed

lemma unlock_lock_cell [sc_state]:
  assumes "storage_ok s" and "has_cell s a"
  shows "unlock_cell a (lock_cell a s) = s"
proof -
  obtain sg where sg: "segments s (seg_ix a) = Some sg" using assms(2) by (rule has_cellE)
  let ?i = "off_ix a mod SC_CONCURRENCY_LEVEL"
  have "section_ok (cur_thread s) (seg_sections sg ?i)"
    using assms(1) sg by (rule seg_section_ok) simp
  with sg show ?thesis
    by (simp add: unlock_cell_def lock_cell_def Let_def put_segment_def set_section_def
          fun_upd_idem)
qed

subsection \<open>Sequences of locks\<close>

text \<open>\<open>same_but_locks s s'\<close>: only lock words differ, and the storage is sound.\<close>

definition same_but_locks :: "sc_storage \<Rightarrow> sc_storage \<Rightarrow> bool" where
  "same_but_locks s s' \<longleftrightarrow>
     storage_ok s' \<and> el_at s' = el_at s \<and> meta_at s' = meta_at s \<and> refs s' = refs s \<and>
     has_cell s' = has_cell s \<and>
     ext_calls s' = ext_calls s \<and> cur_thread s' = cur_thread s \<and>
     segments_num s' = segments_num s \<and> max_loaded_segments s' = max_loaded_segments s"

lemma same_but_locks_refl [simp]: "storage_ok s \<Longrightarrow> same_but_locks s s"
  by (simp add: same_but_locks_def)

lemma same_but_locks_trans:
  "same_but_locks s s1 \<Longrightarrow> same_but_locks s1 s2 \<Longrightarrow> same_but_locks s s2"
  by (simp add: same_but_locks_def)

lemma same_but_locks_lock: "storage_ok s \<Longrightarrow> same_but_locks s (lock_cell a s)"
  by (simp add: same_but_locks_def sc_state)

lemma same_but_locks_unlock:
  "storage_ok s \<Longrightarrow> has_cell s a \<Longrightarrow> held s (sec_of a) > 0 \<Longrightarrow> same_but_locks s (unlock_cell a s)"
  by (simp add: same_but_locks_def sc_state)

definition locks_of :: "sc_addr list \<Rightarrow> nat \<times> nat \<Rightarrow> int" where
  "locks_of xs k = int (count_list (map sec_of xs) k)"

lemma locks_of_simps [simp]:
  "locks_of [] k = 0" "locks_of (x # xs) k = of_bool (sec_of x = k) + locks_of xs k"
  "locks_of (xs @ ys) k = locks_of xs k + locks_of ys k"
  by (simp_all add: locks_of_def)

lemma locks_of_nonneg [simp]: "locks_of xs k \<ge> 0"
  by (simp add: locks_of_def)

lemma held_lock: "has_cell s a \<Longrightarrow> held (lock_cell a s) k = held s k + of_bool (sec_of a = k)"
  by (simp add: sc_state)

lemma held_unlock: "has_cell s a \<Longrightarrow> held (unlock_cell a s) k = held s k - of_bool (sec_of a = k)"
  by (simp add: sc_state)

fun unlock_all :: "sc_addr list \<Rightarrow> sc_storage \<Rightarrow> sc_storage option" where
  "unlock_all [] s = Some s"
| "unlock_all (a # as) s = do { (_, s1) \<leftarrow> sc_storage_element_unlock a s; unlock_all as s1 }"

lemma unlock_all_append:
  "unlock_all (as @ bs) s = Option.bind (unlock_all as s) (unlock_all bs)"
  by (induction as arbitrary: s) (auto simp: case_prod_beta split: Option.bind_split)

lemma unlock_all_ok:
  assumes "storage_ok s" and "\<forall>a \<in> set xs. has_cell s a"
    and "\<forall>a \<in> set xs. held s (sec_of a) \<ge> locks_of xs (sec_of a)"
  shows "\<exists>s'. unlock_all xs s = Some s' \<and> same_but_locks s s' \<and>
              (\<forall>k. held s' k = held s k - locks_of xs k)"
  using assms
proof (induction xs arbitrary: s)
  case (Cons a xs)
  let ?s1 = "unlock_cell a s"
  have "held s (sec_of a) \<ge> 1 + locks_of xs (sec_of a)"
    using bspec [OF Cons.prems(3), of a] by simp
  then have "held s (sec_of a) > 0" using locks_of_nonneg [of xs "sec_of a"] by linarith
  with Cons.prems(2) have a: "has_cell s a" "held s (sec_of a) > 0" by auto
  note u = element_unlock_ok [OF Cons.prems(1) a] same_but_locks_unlock [OF Cons.prems(1) a]
  then have "storage_ok ?s1" "\<forall>b \<in> set xs. has_cell ?s1 b"
    using Cons.prems(2) by (simp_all add: same_but_locks_def)
  moreover have "locks_of xs (sec_of b) \<le> held ?s1 (sec_of b)" if "b \<in> set xs" for b
    using bspec [OF Cons.prems(3), of b] that by (simp add: held_unlock [OF a(1)])
  ultimately obtain s' where "unlock_all xs ?s1 = Some s'" "same_but_locks ?s1 s'"
    "\<forall>k. held s' k = held ?s1 k - locks_of xs k"
    using Cons.IH by blast
  with u show ?case by (auto simp: held_unlock [OF a(1)] intro: same_but_locks_trans)
qed simp

end
