(* ===== verification/Sc_Storage_Alloc.thy ===== *)
theory Sc_Storage_Alloc
  imports Sc_Storage_Laws
begin

text \<open>
  New cells: the segment cache always produces a segment, the search for a cell ends, and
  the cell that comes back is free, reserved for the caller and not the empty address. From
  this, the behaviour of creating nodes and links.
\<close>

subsection \<open>States that differ only in bookkeeping\<close>

definition same_view :: "sc_storage \<Rightarrow> sc_storage \<Rightarrow> bool" where
  "same_view s s' \<longleftrightarrow>
     el_at s' = el_at s \<and> refs s' = refs s \<and> held s' = held s \<and>
     (\<forall>a. has_cell s a \<longrightarrow> has_cell s' a) \<and>
     ext_calls s' = ext_calls s \<and> cur_thread s' = cur_thread s \<and>
     max_loaded_segments s' = max_loaded_segments s"

lemma same_view_refl [simp]: "same_view s s"
  by (simp add: same_view_def)

lemma same_view_trans: "same_view s s1 \<Longrightarrow> same_view s1 s2 \<Longrightarrow> same_view s s2"
  by (simp add: same_view_def)

lemma same_view_cache [simp]:
  "same_view s (s\<lparr>segments_cache := c, segments_cache_count := n\<rparr>)"
  by (simp add: same_view_def el_at_def refs_def meta_at_def held_def has_cell_def fun_eq_iff)

lemma storage_ok_cache:
  "storage_ok s \<Longrightarrow> (\<And>k n. c k = Some n \<Longrightarrow> segments s n \<noteq> None) \<Longrightarrow>
   storage_ok (s\<lparr>segments_cache := c, segments_cache_count := m\<rparr>)"
  by (auto simp: storage_ok_def)

subsection \<open>The cache\<close>

lemma cache_append_at_cases:
  "cache_append_at n ks s = s \<or>
   (\<exists>k \<in> set ks. cache_append_at n ks s =
      s\<lparr>segments_cache := (segments_cache s)(k \<mapsto> n),
        segments_cache_count := segments_cache_count s + 1\<rparr>)"
  by (induction ks) (auto simp: fun_upd_def)

lemma cache_append_simps [simp]:
  "segments (sc_segment_cache_append n s) = segments s"
  "segments_num (sc_segment_cache_append n s) = segments_num s"
  using cache_append_at_cases [of n "cache_slots_from (cur_thread s)" s]
  by (auto simp: sc_segment_cache_append_def)

lemma same_view_cache_append [simp]: "same_view s (sc_segment_cache_append n s)"
  using cache_append_at_cases [of n "cache_slots_from (cur_thread s)" s]
  by (auto simp: sc_segment_cache_append_def)

lemma storage_ok_cache_append [simp]:
  assumes "storage_ok s" and "segments s n \<noteq> None"
  shows "storage_ok (sc_segment_cache_append n s)"
  using cache_append_at_cases [of n "cache_slots_from (cur_thread s)" s] assms
  by (auto simp: sc_segment_cache_append_def intro!: storage_ok_cache split: if_splits)
     (auto simp: storage_ok_def)

lemma cache_update_at_simps [simp]:
  "segments (cache_update_at ns s) = segments s"
  "segments_num (cache_update_at ns s) = segments_num s"
  by (induction ns arbitrary: s) (auto simp: Let_def split: option.splits)

lemma same_view_cache_update_at [simp]: "same_view s (cache_update_at ns s)"
proof (induction ns arbitrary: s)
  case (Cons n ns)
  define s1 where "s1 = (case segments s n of
            Some sg \<Rightarrow> if sc_segment_has_empty_slot sg then sc_segment_cache_append n s else s
          | None \<Rightarrow> s)"
  have "same_view s s1" by (simp add: s1_def split: option.split)
  with Cons.IH [of s1] show ?case
    by (auto simp flip: s1_def intro: same_view_trans)
qed simp

lemma storage_ok_cache_update_at [simp]: "storage_ok s \<Longrightarrow> storage_ok (cache_update_at ns s)"
  by (induction ns arbitrary: s) (simp_all add: Let_def split: option.split)

lemma set_cache_slots [simp]: "set (cache_slots_from idx) = {..<SC_SEGMENT_CACHE_SIZE}"
proof -
  let ?n = "SC_SEGMENT_CACHE_SIZE" and ?f = "\<lambda>i. (idx mod SC_SEGMENT_CACHE_SIZE + i) mod SC_SEGMENT_CACHE_SIZE"
  have "inj_on ?f {..<?n}"
  proof (rule inj_onI)
    fix i j assume ij: "i \<in> {..<?n}" "j \<in> {..<?n}" "?f i = ?f j"
    then show "i = j"
      using mod_eq_step [of "idx mod ?n + i" "idx mod ?n + j" ?n]
        mod_eq_step [of "idx mod ?n + j" "idx mod ?n + i" ?n]
      by (cases i j rule: linorder_cases) auto
  qed
  moreover have "?f ` {..<?n} \<subseteq> {..<?n}" by (auto simp: sc_limits)
  ultimately have "?f ` {..<?n} = {..<?n}"
    by (simp add: endo_inj_surj)
  then show ?thesis by (simp add: cache_slots_from_def atLeast0LessThan)
qed

lemma cache_first_Some: "cache_first ks c = Some n \<Longrightarrow> \<exists>k \<in> set ks. c k = Some n"
  by (induction ks) (auto split: option.splits)

definition cached :: "sc_storage \<Rightarrow> nat set" where
  "cached s = {k. k < SC_SEGMENT_CACHE_SIZE \<and> segments_cache s k \<noteq> None}"

lemma finite_cached [simp]: "finite (cached s)"
  by (rule finite_subset [of _ "{..<SC_SEGMENT_CACHE_SIZE}"]) (auto simp: cached_def)

lemma cache_remove_at_hit:
  assumes "k \<in> set ks" and "segments_cache s k = Some n" and "set ks \<subseteq> {..<SC_SEGMENT_CACHE_SIZE}"
  shows "\<exists>k'. k' \<in> cached s \<and> cache_remove_at n ks s =
     s\<lparr>segments_cache := (segments_cache s)(k' := None),
       segments_cache_count := segments_cache_count s - 1\<rparr>"
  using assms by (induction ks) (auto simp: cached_def)

subsection \<open>A segment with room\<close>

lemma seg_lock_counts_new_all [simp]: "seg_lock_counts (sc_segment_new n) = (\<lambda>_. 0)"
  by (auto simp: seg_lock_counts_def sc_segment_new_def Let_def zero_section_def fun_eq_iff)

lemma segment_ok_new:
  "n < SC_ADDR_SEG_MAX \<Longrightarrow> segment_ok th n (sc_segment_new (of_nat n))"
  by (simp add: segment_ok_def cell_clean_def zero_element_def)

lemma same_view_new_segment:
  assumes "segments s n = None"
  shows "same_view s (put_segment n (sc_segment_new (of_nat n)) (s\<lparr>segments_num := m\<rparr>))"
  using assms
  by (auto simp: same_view_def el_at_def refs_def meta_at_def held_def has_cell_def fun_eq_iff)

lemma storage_ok_new_segment:
  assumes "storage_ok s" and "segments_num s < SC_ADDR_SEG_MAX"
  shows "storage_ok (put_segment (segments_num s) (sc_segment_new (of_nat (segments_num s)))
           (s\<lparr>segments_num := segments_num s + 1\<rparr>))"
  using assms by (auto simp: storage_ok_def segment_ok_new)

lemma cache_get_total:
  assumes ok: "storage_ok s" and room: "segments_num s < SC_ADDR_SEG_MAX"
  shows "\<exists>n s1. sc_segment_cache_get ctx s = Some (n, s1) \<and> storage_ok s1 \<and> same_view s s1 \<and>
    segments_num s1 \<le> Suc (segments_num s) \<and>
    (s1 = s \<and> (\<exists>k < SC_SEGMENT_CACHE_SIZE. segments_cache s k = Some n) \<or>
     segments s1 n = Some (sc_segment_new (of_nat n)))"
proof (cases "if segments_cache_count s > 0
              then cache_first (cache_slots_from (unat (ctx_id ctx))) (segments_cache s) else None")
  case (Some n)
  then have "\<exists>k < SC_SEGMENT_CACHE_SIZE. segments_cache s k = Some n"
    by (auto split: if_splits dest!: cache_first_Some)
  with ok Some show ?thesis by (simp add: sc_segment_cache_get_def)
next
  case None
  let ?s1 = "sc_segment_cache_update s" and ?n = "segments_num s"
  let ?s2 = "put_segment ?n (sc_segment_new (of_nat ?n)) (?s1\<lparr>segments_num := ?n + 1\<rparr>)"
  have s1: "storage_ok ?s1" "same_view s ?s1" "segments_num ?s1 = ?n"
    using ok by (simp_all add: sc_segment_cache_update_def)
  moreover have "segments ?s1 ?n = None"
    using s1 by (auto simp: storage_ok_def)
  ultimately have "storage_ok ?s2" "same_view s ?s2"
    using storage_ok_new_segment [OF s1(1)] room same_view_new_segment [of ?s1 ?n]
    by (auto intro: same_view_trans)
  moreover from this have "same_view s (sc_segment_cache_append ?n ?s2)"
    by (auto intro: same_view_trans)
  ultimately show ?thesis
    using None room s1(3) by (simp add: sc_segment_cache_get_def Let_def)
qed

lemma lock_empty_new_segment:
  "\<exists>off sg'. sc_segment_lock_empty_element c th (sc_segment_new n) = Some (Some off, sg')"
proof -
  let ?sg = "sc_segment_new n" and ?k = "unat c mod SC_CONCURRENCY_LEVEL"
  let ?sec = "seg_sections ?sg ?k"
  have up: "find_empty_up (\<lambda>_. zero_element) j = Some j" if "j < SC_SEGMENT_ELEMENTS_COUNT" for j
    using that by (subst find_empty_up.simps) (simp add: zero_element_def)
  have "nat (empty_offset (seg_sections ?sg k)) + SC_CONCURRENCY_LEVEL < SC_SEGMENT_ELEMENTS_COUNT"
    "empty_count (seg_sections ?sg k) > 0" if "k < SC_CONCURRENCY_LEVEL" for k
    using that by (auto simp: seg_sections_new sc_limits)
  from this [OF mod_level_less, of "unat c"]
  have "\<exists>off sg'. lock_empty_in_section th 0 ?k ?sg = Some (Some off, sg')"
    by (subst lock_empty_in_section_step [OF seg_ok_new seg_locks_ok_new mod_level_less refl _ refl])
       (simp_all add: next_empty_def up Let_def)
  then obtain off sg' where "lock_empty_in_section th 0 ?k ?sg = Some (Some off, sg')" by blast
  moreover have "[0..<SC_CONCURRENCY_LEVEL] = 0 # [1..<SC_CONCURRENCY_LEVEL]"
    by (simp add: sc_limits upt_conv_Cons)
  moreover have "sc_segment_has_empty_slot ?sg"
    by (simp add: sc_segment_has_empty_slot_def sc_limits)
  ultimately have "lock_empty_rounds c th (Suc m) ?sg = Some (Some off, sg')" for m
    by (simp del: upt_Suc)
  from this [of 31] have "lock_empty_rounds c th SC_CONCURRENCY_LEVEL ?sg = Some (Some off, sg')"
    by (simp add: sc_limits)
  then show ?thesis by (simp add: sc_segment_lock_empty_element_def)
qed

subsection \<open>The search for a cell\<close>

text \<open>
  A reserved cell is free, is not the reserved address 0/0, and no section will hand it
  out again; writing an element into it keeps the storage sound.
\<close>

definition reserved :: "sc_storage \<Rightarrow> sc_addr \<Rightarrow> bool" where
  "reserved s a \<longleftrightarrow> has_cell s a \<and> a \<noteq> SC_ADDR_MAKE_EMPTY \<and>
     (\<forall>sg. segments s (seg_ix a) = Some sg \<longrightarrow>
        (\<forall>i < SC_CONCURRENCY_LEVEL. empty_count (seg_sections sg i) > 0 \<longrightarrow>
           nat (empty_offset (seg_sections sg i)) \<noteq> off_ix a))"

lemma storage_ok_set_reserved:
  assumes "storage_ok s" and "reserved s a" and "cell_clean (f (el_at s a))"
  shows "storage_ok (set_el a f s)"
proof -
  obtain sg where sg: "segments s (seg_ix a) = Some sg"
    using assms(2) by (auto simp: reserved_def elim: has_cellE)
  let ?sg = "sg\<lparr>seg_elements := (seg_elements sg)(off_ix a := f (seg_elements sg (off_ix a)))\<rparr>"
  have ok: "segment_ok (cur_thread s) (seg_ix a) sg" by (rule storage_ok_segment [OF assms(1) sg])
  then have "seg_ok ?sg"
    using assms(2) sg by (auto simp: segment_ok_def reserved_def seg_ok_def section_free_ok_def Let_def)
  with ok assms sg have "segment_ok (cur_thread s) (seg_ix a) ?sg"
    by (auto simp: segment_ok_def el_at_def seg_locks_ok_def SC_ADDR_MAKE_EMPTY_def
          addr_eq_iff reserved_def)
  with assms(1) sg show ?thesis by (simp add: set_el_def storage_ok_put)
qed

lemma reserved_set_el [sc_state]: "reserved (set_el b f s) a = reserved s a"
  by (auto simp: reserved_def sc_state) (auto simp: set_el_def split: option.splits if_splits)

lemma reserved_set_refs [sc_state]: "reserved (set_refs b n s) a = reserved s a"
  by (auto simp: reserved_def sc_state) (auto simp: set_refs_def split: option.splits if_splits)

text \<open>What the allocation of a cell promises.\<close>

definition allocated :: "sc_memory_context \<Rightarrow> sc_storage \<Rightarrow> sc_addr \<Rightarrow> sc_storage \<Rightarrow> bool" where
  "allocated ctx s a s' \<longleftrightarrow>
     storage_ok s' \<and> reserved s' a \<and> el_type (el_at s a) = 0 \<and>
     el_at s' = (el_at s)(a := (el_at s a)\<lparr>el_access :=
                   sc_access_lvl_min (ctx_access ctx) (el_access (el_at s a))\<rparr>) \<and>
     refs s' = (refs s)(a := 1) \<and>
     held s' = (held s)(sec_of a := held s (sec_of a) + 1) \<and>
     (\<forall>b. has_cell s b \<longrightarrow> has_cell s' b) \<and>
     ext_calls s' = ext_calls s \<and> cur_thread s' = cur_thread s \<and>
     max_loaded_segments s' = max_loaded_segments s"

lemma allocated_same_view: "same_view s s1 \<Longrightarrow> allocated ctx s1 a s2 \<Longrightarrow> allocated ctx s a s2"
  by (simp add: same_view_def allocated_def)

lemma segment_ok_taken:
  assumes "segment_ok th n sg" and "cell_taken th sg r sg'"
  shows "segment_ok th n sg'"
  using assms by (simp add: segment_ok_def cell_taken_def)

lemma same_view_skipped:
  assumes sg: "segments s n = Some sg" and "cell_taken (cur_thread s) sg None sg'"
  shows "same_view s (put_segment n sg' s)"
  using assms
  by (auto simp: same_view_def cell_taken_def el_at_def refs_def meta_at_def held_def has_cell_def
        fun_eq_iff split: option.splits)

lemma taken_cell:
  assumes ok: "storage_ok s" and sg: "segments s n = Some sg"
    and t: "cell_taken (cur_thread s) sg (Some off) sg'"
  defines "a \<equiv> Addr (seg_num sg') (of_nat off)"
  defines "s1 \<equiv> put_segment n sg' s"
  shows "seg_ix a = n" "off_ix a = off" "reserved s1 a" "el_type (el_at s a) = 0"
    "el_at s1 = el_at s" "refs s1 = refs s" "has_cell s1 = has_cell s" "storage_ok s1"
    "held s1 = (held s)(sec_of a := held s (sec_of a) + 1)"
proof -
  have sok: "segment_ok (cur_thread s) n sg" by (rule storage_ok_segment [OF ok sg])
  have off: "off < SC_SEGMENT_ELEMENTS_COUNT" "n < SC_ADDR_SEG_MAX" "seg_num sg' = of_nat n"
    using t sok by (auto simp: cell_taken_def segment_ok_def)
  then show ix: "seg_ix a = n" "off_ix a = off" by (simp_all add: a_def sc_limits)
  show same: "el_at s1 = el_at s" "refs s1 = refs s" "has_cell s1 = has_cell s"
    using t sg by (auto simp: s1_def cell_taken_def el_at_def refs_def meta_at_def has_cell_def
        fun_eq_iff split: option.splits)
  show "el_type (el_at s a) = 0"
    using t sg ix by (simp add: el_at_def cell_taken_def)
  show "storage_ok s1"
    unfolding s1_def using ok sg segment_ok_taken [OF sok t] by (rule storage_ok_put)
  show "held s1 = (held s)(sec_of a := held s (sec_of a) + 1)"
    using t sg ix by (auto simp: s1_def held_def sec_of_def cell_taken_def fun_eq_iff)
  have "a \<noteq> SC_ADDR_MAKE_EMPTY"
    using t off ix sok
    by (auto simp: cell_taken_def segment_ok_def SC_ADDR_MAKE_EMPTY_def a_def word_unat_eq_iff)
  with t off ix sg show "reserved s1 a"
    by (auto simp: reserved_def has_cell_def s1_def cell_taken_def)
qed

lemma segment_get_meta_ok:
  assumes "seg_locks_ok th sg" and "seg_lock_counts sg (off mod SC_CONCURRENCY_LEVEL) > 0"
    and "off < SC_SEGMENT_ELEMENTS_COUNT"
  shows "sc_segment_get_meta th off sg = Some (seg_meta sg off)"
proof -
  have "section_ok th (seg_sections sg (off mod SC_CONCURRENCY_LEVEL))"
    using assms(1) by (simp add: seg_locks_ok_def)
  with assms(2,3) show ?thesis
    by (auto simp: sc_segment_get_meta_def seg_lock_counts_def section_ok_def)
qed

lemma allocated_taken:
  fixes ctx :: sc_memory_context
  assumes ok: "storage_ok s" and sg: "segments s n = Some sg"
    and t: "cell_taken (cur_thread s) sg (Some off) sg'"
  defines "a \<equiv> Addr (seg_num sg') (of_nat off)"
  defines "s1 \<equiv> set_el a (\<lambda>el. el\<lparr>el_access := sc_access_lvl_min (ctx_access ctx) (el_access el)\<rparr>)
                  (put_segment n sg' s)"
  shows "allocated ctx s a (set_refs a 1 s1)"
    "\<exists>m. sc_segment_get_meta (cur_thread s1) off sg' = Some m"
proof -
  note tc = taken_cell [OF ok sg t, folded a_def]
  have cell: "has_cell (put_segment n sg' s) a" using tc(3) by (simp add: reserved_def)
  have free: "segment_ok (cur_thread s) n sg'"
    by (rule segment_ok_taken [OF storage_ok_segment [OF ok sg] t])
  have "cell_clean (el_at s a)"
    using free sg t tc(1,2) by (auto simp: segment_ok_def cell_taken_def el_at_def)
  then have "storage_ok s1"
    unfolding s1_def using tc by (intro storage_ok_set_reserved) (auto simp: cell_clean_def)
  with tc cell show "allocated ctx s a (set_refs a 1 s1)"
    by (auto simp: allocated_def s1_def sc_state fun_eq_iff)
  have "held s (sec_of a) \<ge> 0" using held_nonneg [OF ok] cell tc(7) by simp
  then have "seg_lock_counts sg' (off mod SC_CONCURRENCY_LEVEL) > 0"
    using t sg tc(1,2) by (auto simp: held_def sec_of_def cell_taken_def)
  moreover have "seg_locks_ok (cur_thread s) sg'" "off < SC_SEGMENT_ELEMENTS_COUNT"
    using t by (auto simp: cell_taken_def)
  ultimately show "\<exists>m. sc_segment_get_meta (cur_thread s1) off sg' = Some m"
    by (simp add: s1_def sc_state segment_get_meta_ok)
qed

lemma append_el_loop_total:
  assumes "storage_ok s" and "segments_num s < SC_ADDR_SEG_MAX"
  shows "\<exists>a s'. append_el_loop ctx s = Some (Some a, s') \<and> allocated ctx s a s' \<and>
    segments_num s' \<le> Suc (segments_num s)"
  using assms
proof (induction "card (cached s)" arbitrary: s rule: less_induct)
  case less
  obtain n s1 where get: "sc_segment_cache_get ctx s = Some (n, s1)" and ok1: "storage_ok s1"
    and view: "same_view s s1" and num: "segments_num s1 \<le> Suc (segments_num s)"
    and src: "s1 = s \<and> (\<exists>k < SC_SEGMENT_CACHE_SIZE. segments_cache s k = Some n) \<or>
              segments s1 n = Some (sc_segment_new (of_nat n))"
    using cache_get_total [OF less.prems] by blast
  have "segments s1 n \<noteq> None" using src ok1 by (auto simp: storage_ok_def)
  then obtain sg where sg: "segments s1 n = Some sg" by blast
  then have sok: "segment_ok (cur_thread s1) n sg" by (rule storage_ok_segment [OF ok1])
  then obtain r sg' where lk: "sc_segment_lock_empty_element (ctx_id ctx) (cur_thread s1) sg = Some (r, sg')"
    and t: "cell_taken (cur_thread s1) sg r sg'"
    using lock_empty_element_total [of sg "cur_thread s1" "ctx_id ctx"]
    by (auto simp: segment_ok_def)
  show ?case
  proof (cases r)
    case (Some off)
    from allocated_taken [OF ok1 sg t [unfolded Some], of ctx] get sg lk Some view num
    show ?thesis
      by (subst append_el_loop.simps) (auto simp: Let_def sc_state dest: allocated_same_view)
  next
    case None
    with lk lock_empty_new_segment [of "ctx_id ctx" "cur_thread s1" "of_nat n"] sg src
    obtain k where "s1 = s" and k: "k < SC_SEGMENT_CACHE_SIZE" "segments_cache s k = Some n"
      by auto
    let ?s2 = "put_segment n sg' s"
    let ?s3 = "sc_segment_cache_remove ctx n ?s2"
    have s2: "storage_ok ?s2" "same_view s ?s2"
      using \<open>s1 = s\<close> ok1 sg t None segment_ok_taken [OF sok t]
      by (auto intro: storage_ok_put same_view_skipped)
    obtain k' where k': "k' \<in> cached ?s2" and s3: "?s3 =
        ?s2\<lparr>segments_cache := (segments_cache ?s2)(k' := None),
           segments_cache_count := segments_cache_count ?s2 - 1\<rparr>"
      using cache_remove_at_hit [of k "cache_slots_from (unat (ctx_id ctx))" ?s2 n] k
      by (auto simp: sc_segment_cache_remove_def)
    have "cached ?s3 = cached s - {k'}" "k' \<in> cached s" using k' s3 by (auto simp: cached_def)
    then have "card (cached ?s3) < card (cached s)" by (simp del: card_Diff_insert card_Diff_singleton add: card_Diff1_less)
    moreover have "storage_ok ?s3"
      using s2(1) unfolding s3 by (intro storage_ok_cache) (auto simp: storage_ok_def split: if_splits)
    moreover have "same_view s ?s3"
      using s2(2) unfolding s3 by (auto intro: same_view_trans)
    moreover have "segments_num ?s3 = segments_num s" by (simp add: s3)
    ultimately obtain a s' where "append_el_loop ctx ?s3 = Some (Some a, s')"
      "allocated ctx s a s'" "segments_num s' \<le> Suc (segments_num s)"
      using less.hyps [of ?s3] less.prems by (auto dest: allocated_same_view)
    with get sg lk None \<open>s1 = s\<close> show ?thesis
      by (subst append_el_loop.simps) (auto simp: Let_def)
  qed
qed

lemma append_el_into_segments_total:
  assumes "storage_ok s" and "max_loaded_segments s \<le> int SC_ADDR_SEG_MAX"
  shows "if int (segments_num s) \<ge> max_loaded_segments s
         then sc_storage_append_el_into_segments ctx s = Some (None, s)
         else \<exists>a s'. sc_storage_append_el_into_segments ctx s = Some (Some a, s') \<and>
                     allocated ctx s a s' \<and> segments_num s' \<le> Suc (segments_num s)"
  using assms append_el_loop_total [OF assms(1), of ctx]
  by (auto simp: sc_storage_append_el_into_segments_def)

end
