(* ===== verification/Sc_Chain.thy ===== *)
theory Sc_Chain
  imports Sc_Types
begin

text \<open>
  The two adjacency lists of an element. Every connector is threaded on the list of its
  begin element (\<^verbatim>\<open>first_out_arc\<close>, \<^verbatim>\<open>next_out_arc\<close>, \<^verbatim>\<open>prev_out_arc\<close>) and on
  the list of its end element (\<^verbatim>\<open>first_in_arc\<close>, \<^verbatim>\<open>next_in_arc\<close>,
  \<^verbatim>\<open>prev_in_arc\<close>); both are doubly linked and end with the empty address. The locale
  \<open>arc_links\<close> is the interface of one such list over the cells of the storage; it is
  interpreted for the output and for the input list, so that insertion at the head and
  removal are proved once.
\<close>

subsection \<open>Doubly linked lists\<close>

definition head_addr :: "sc_addr list \<Rightarrow> sc_addr" where
  "head_addr xs = (case xs of [] \<Rightarrow> SC_ADDR_MAKE_EMPTY | x # _ \<Rightarrow> x)"

lemma head_addr_simps [simp]:
  "head_addr [] = SC_ADDR_MAKE_EMPTY" "head_addr (x # xs) = x"
  by (simp_all add: head_addr_def)

lemma head_addr_empty_iff:
  "SC_ADDR_MAKE_EMPTY \<notin> set xs \<Longrightarrow> head_addr xs = SC_ADDR_MAKE_EMPTY \<longleftrightarrow> xs = []"
  by (cases xs) auto

lemma head_addr_append: "head_addr (xs @ ys) = (if xs = [] then head_addr ys else hd xs)"
  by (cases xs) auto

text \<open>\<open>dll nx pv p xs\<close>: \<open>xs\<close> is linked by \<open>nx\<close> and \<open>pv\<close>, its first cell points back to \<open>p\<close>.\<close>

fun dll :: "(sc_addr \<Rightarrow> sc_addr) \<Rightarrow> (sc_addr \<Rightarrow> sc_addr) \<Rightarrow> sc_addr \<Rightarrow> sc_addr list \<Rightarrow> bool" where
  "dll nx pv p [] = True"
| "dll nx pv p (x # xs) \<longleftrightarrow> pv x = p \<and> nx x = head_addr xs \<and> dll nx pv x xs"

lemma dll_cong:
  "(\<And>x. x \<in> set xs \<Longrightarrow> nx x = nx' x \<and> pv x = pv' x) \<Longrightarrow> dll nx pv p xs = dll nx' pv' p xs"
  by (induction xs arbitrary: p) auto

lemma dll_change_prev:
  assumes "distinct xs" and "dll nx pv p xs"
  shows "dll nx (\<lambda>y. if xs \<noteq> [] \<and> y = hd xs then q else pv y) q xs"
proof (cases xs)
  case (Cons x ys)
  have "dll nx (\<lambda>y. if y = x then q else pv y) x ys = dll nx pv x ys"
    using assms(1) Cons by (intro dll_cong) auto
  with assms(2) Cons show ?thesis by simp
qed simp

lemma dll_middle:
  assumes "dll nx pv p (ys @ x # zs)"
  shows "pv x = (if ys = [] then p else last ys)" "nx x = head_addr zs"
    "ys \<noteq> [] \<Longrightarrow> nx (last ys) = x" "zs \<noteq> [] \<Longrightarrow> pv (hd zs) = x"
  using assms
proof (induction ys arbitrary: p)
  case Nil
  { case 4 then show ?case by (cases zs) auto }
next
  case (Cons y ys)
  { case 3 with Cons show ?case by (cases ys) auto }
qed auto

text \<open>Taking \<open>x\<close> out: its neighbours are joined, nothing else changes.\<close>

lemma dll_unlink:
  assumes "dll nx pv p (ys @ x # zs)" and "distinct (ys @ x # zs)"
  shows "dll (\<lambda>y. if ys \<noteq> [] \<and> y = last ys then nx x else nx y)
             (\<lambda>y. if zs \<noteq> [] \<and> y = hd zs then pv x else pv y) p (ys @ zs)"
  using assms
proof (induction ys arbitrary: p)
  case Nil
  then show ?case using dll_change_prev [of zs nx pv x p] by auto
next
  case (Cons y ys)
  let ?nx = "\<lambda>z. if z = last (y # ys) then nx x else nx z"
    and ?pv = "\<lambda>z. if zs \<noteq> [] \<and> z = hd zs then pv x else pv z"
  have "dll (\<lambda>z. if ys \<noteq> [] \<and> z = last ys then nx x else nx z) ?pv y (ys @ zs)"
    using Cons.prems by (intro Cons.IH) auto
  then have "dll ?nx ?pv y (ys @ zs)"
    using Cons.prems(2) by (subst (asm) dll_cong [where nx' = ?nx and pv' = ?pv]) auto
  moreover have "?pv y = p" "?nx y = head_addr (ys @ zs)"
    using Cons.prems dll_middle(2) [OF Cons.prems(1)] by (cases ys; cases zs; auto)+
  ultimately show ?case by simp
qed

subsection \<open>The list of one owner\<close>

locale arc_links =
  fixes own nxt prv first :: "sc_element \<Rightarrow> sc_addr"
    and put_nxt put_prv put_first :: "sc_addr \<Rightarrow> sc_element \<Rightarrow> sc_element"
  assumes put_nxt [simp]: "nxt (put_nxt a e) = a" "prv (put_nxt a e) = prv e"
      "own (put_nxt a e) = own e" "first (put_nxt a e) = first e"
    and put_prv [simp]: "nxt (put_prv a e) = nxt e" "prv (put_prv a e) = a"
      "own (put_prv a e) = own e" "first (put_prv a e) = first e"
    and put_first [simp]: "nxt (put_first a e) = nxt e" "prv (put_first a e) = prv e"
      "own (put_first a e) = own e" "first (put_first a e) = a"
begin

text \<open>
  \<open>A\<close> is the set of connectors, \<open>L\<close> the set of elements whose head pointer counts: an
  element that is being deleted has lost its own list before its connectors are gone.
\<close>

definition chain ::
    "(sc_addr \<Rightarrow> sc_element) \<Rightarrow> sc_addr set \<Rightarrow> sc_addr set \<Rightarrow> sc_addr \<Rightarrow> sc_addr list \<Rightarrow> bool" where
  "chain h A L b xs \<longleftrightarrow> distinct xs \<and> set xs = {x \<in> A. own (h x) = b} \<and>
     dll (\<lambda>x. nxt (h x)) (\<lambda>x. prv (h x)) SC_ADDR_MAKE_EMPTY xs \<and>
     (b \<in> L \<longrightarrow> first (h b) = head_addr xs)"

definition chains :: "(sc_addr \<Rightarrow> sc_element) \<Rightarrow> sc_addr set \<Rightarrow> sc_addr set \<Rightarrow> bool" where
  "chains h A L \<longleftrightarrow> SC_ADDR_MAKE_EMPTY \<notin> A \<and> (\<forall>b. \<exists>xs. chain h A L b xs)"

definition link_front :: "sc_addr \<Rightarrow> sc_addr \<Rightarrow> (sc_addr \<Rightarrow> sc_element) \<Rightarrow> (sc_addr \<Rightarrow> sc_element)" where
  "link_front x b h =
     (let f = first (h b);
          h1 = upd x (put_nxt f) h;
          h2 = (if f = SC_ADDR_MAKE_EMPTY then h1 else upd f (put_prv x) h1)
      in upd b (put_first x) h2)"

definition unlink :: "sc_addr \<Rightarrow> (sc_addr \<Rightarrow> sc_element) \<Rightarrow> (sc_addr \<Rightarrow> sc_element)" where
  "unlink x h =
     (let p = prv (h x); n = nxt (h x); b = own (h x);
          h1 = (if p = SC_ADDR_MAKE_EMPTY then h else upd p (put_nxt n) h);
          h2 = (if n = SC_ADDR_MAKE_EMPTY then h1 else upd n (put_prv p) h1)
      in if first (h2 b) = x then upd b (put_first n) h2 else h2)"

lemma chain_cong:
  assumes "\<And>y. y \<in> A \<Longrightarrow> own (h' y) = own (h y) \<and> nxt (h' y) = nxt (h y) \<and> prv (h' y) = prv (h y)"
    and "\<And>y. y \<in> L \<Longrightarrow> first (h' y) = first (h y)"
  shows "chain h' A L = chain h A L"
proof (intro ext)
  fix b xs
  have "{x \<in> A. own (h' x) = b} = {x \<in> A. own (h x) = b}" using assms(1) by auto
  moreover have "dll (\<lambda>x. nxt (h' x)) (\<lambda>x. prv (h' x)) SC_ADDR_MAKE_EMPTY xs =
      dll (\<lambda>x. nxt (h x)) (\<lambda>x. prv (h x)) SC_ADDR_MAKE_EMPTY xs"
    if "set xs \<subseteq> A" using that assms(1) by (intro dll_cong) auto
  ultimately show "chain h' A L b xs = chain h A L b xs"
    using assms(2) by (auto simp: chain_def)
qed

lemma chains_cong:
  assumes "\<And>y. y \<in> A \<Longrightarrow> own (h' y) = own (h y) \<and> nxt (h' y) = nxt (h y) \<and> prv (h' y) = prv (h y)"
    and "\<And>y. y \<in> L \<Longrightarrow> first (h' y) = first (h y)"
  shows "chains h' A L = chains h A L"
  using chain_cong [OF assms] by (simp add: chains_def)

lemma chain_drop_owner: "chain h A L b xs \<Longrightarrow> L' \<subseteq> L \<Longrightarrow> chain h A L' b xs"
  by (auto simp: chain_def)

lemma chain_unique:
  assumes "chain h A L b xs" and "chain h A L b ys" and "b \<in> L" and "SC_ADDR_MAKE_EMPTY \<notin> A"
  shows "xs = ys"
proof -
  have walk: "us = vs" if "dll nx pv p us" "dll nx pv q vs" "head_addr us = head_addr vs"
    "SC_ADDR_MAKE_EMPTY \<notin> set us" "SC_ADDR_MAKE_EMPTY \<notin> set vs" for nx pv p q us vs
    using that
  proof (induction us arbitrary: vs p q)
    case Nil then show ?case by (cases vs) auto
  next
    case (Cons u us) then show ?case by (cases vs) auto
  qed
  show ?thesis
    using assms by (intro walk) (auto simp: chain_def)
qed

lemma link_front_own [simp]: "own (link_front x b h y) = own (h y)"
  by (simp add: link_front_def Let_def upd_def)

lemma link_front_ne [simp]:
  "y \<noteq> x \<Longrightarrow> y \<noteq> b \<Longrightarrow> y \<noteq> first (h b) \<Longrightarrow> link_front x b h y = h y"
  by (simp add: link_front_def Let_def upd_def)

lemma link_front_sel:
  assumes "x \<noteq> b" and "x \<noteq> first (h b)"
  shows "own (link_front x b h y) = own (h y)"
    "nxt (link_front x b h y) = (if y = x then first (h b) else nxt (h y))"
    "prv (link_front x b h y) =
       (if y = first (h b) \<and> y \<noteq> SC_ADDR_MAKE_EMPTY then x else prv (h y))"
    "first (link_front x b h y) = (if y = b then x else first (h y))"
  using assms by (auto simp: link_front_def Let_def upd_def)

text \<open>Insertion at the head.\<close>

lemma chain_link_front:
  assumes ch: "chain h A L b xs" and b: "b \<in> L" and x: "x \<notin> A" "x \<notin> L"
    and new: "own (h x) = b" "prv (h x) = SC_ADDR_MAKE_EMPTY" "x \<noteq> SC_ADDR_MAKE_EMPTY"
    and ne: "SC_ADDR_MAKE_EMPTY \<notin> A"
  shows "chain (link_front x b h) (insert x A) (insert x L) b (x # xs)"
proof -
  have xs: "set xs \<subseteq> A" "first (h b) = head_addr xs" "SC_ADDR_MAKE_EMPTY \<notin> set xs"
    using ch b ne by (auto simp: chain_def)
  have "x \<noteq> b" using b x by auto
  moreover have xf: "x \<noteq> first (h b)" using x xs new(3) by (cases xs) auto
  ultimately have sel: "own (link_front x b h y) = own (h y)"
    "nxt (link_front x b h y) = (if y = x then first (h b) else nxt (h y))"
    "prv (link_front x b h y) =
       (if y = first (h b) \<and> y \<noteq> SC_ADDR_MAKE_EMPTY then x else prv (h y))"
    "first (link_front x b h y) = (if y = b then x else first (h y))" for y
    by (simp_all add: link_front_sel)
  have "dll (\<lambda>y. nxt (h y)) (\<lambda>y. if xs \<noteq> [] \<and> y = hd xs then x else prv (h y)) x xs"
    using ch by (intro dll_change_prev) (auto simp: chain_def)
  moreover have "dll (\<lambda>y. nxt (link_front x b h y)) (\<lambda>y. prv (link_front x b h y)) x xs =
      dll (\<lambda>y. nxt (h y)) (\<lambda>y. if xs \<noteq> [] \<and> y = hd xs then x else prv (h y)) x xs"
  proof (rule dll_cong)
    fix y assume "y \<in> set xs"
    then have "y \<noteq> x" "xs \<noteq> []" "y \<noteq> SC_ADDR_MAKE_EMPTY" using x xs by auto
    then show "nxt (link_front x b h y) = nxt (h y) \<and>
        prv (link_front x b h y) = (if xs \<noteq> [] \<and> y = hd xs then x else prv (h y))"
      by (simp add: sel xs(2) head_addr_def split: list.split)
  qed
  ultimately have "dll (\<lambda>y. nxt (link_front x b h y)) (\<lambda>y. prv (link_front x b h y)) x xs"
    by simp
  moreover have "nxt (link_front x b h x) = head_addr xs" "prv (link_front x b h x) = prv (h x)"
    using xf xs(2) by (simp_all add: sel)
  moreover have "set (x # xs) = {y \<in> insert x A. own (link_front x b h y) = b}"
    using ch new(1) by (auto simp: chain_def sel(1))
  moreover have "distinct (x # xs)" using ch x xs(1) by (auto simp: chain_def)
  ultimately show ?thesis
    using new(2) by (simp add: chain_def sel(4))
qed

lemma chain_link_front_other:
  assumes ch: "chain h A L c ys" and b: "chain h A L b xs" "b \<in> L" "c \<noteq> b"
    and x: "x \<notin> A" "x \<notin> L" "own (h x) = b"
    and new: "x \<noteq> SC_ADDR_MAKE_EMPTY" "first (h x) = SC_ADDR_MAKE_EMPTY"
    and ne: "SC_ADDR_MAKE_EMPTY \<notin> A" and dang: "\<And>y. y \<in> A \<Longrightarrow> own (h y) \<noteq> x"
  shows "chain (link_front x b h) (insert x A) (insert x L) c ys"
proof -
  have xs: "set xs = {y \<in> A. own (h y) = b}" "first (h b) = head_addr xs"
    using b by (auto simp: chain_def)
  have "x \<noteq> b" using b(2) x by auto
  moreover have "x \<noteq> first (h b)" using x(1) xs new(1) by (cases xs) auto
  ultimately have sel: "own (link_front x b h y) = own (h y)"
    "nxt (link_front x b h y) = (if y = x then first (h b) else nxt (h y))"
    "prv (link_front x b h y) =
       (if y = first (h b) \<and> y \<noteq> SC_ADDR_MAKE_EMPTY then x else prv (h y))"
    "first (link_front x b h y) = (if y = b then x else first (h y))" for y
    by (simp_all add: link_front_sel)
  have f: "own (h (first (h b))) = b \<or> first (h b) = SC_ADDR_MAKE_EMPTY"
    using xs by (cases xs) auto
  have "dll (\<lambda>y. nxt (link_front x b h y)) (\<lambda>y. prv (link_front x b h y)) SC_ADDR_MAKE_EMPTY ys"
    using ch b(3) x f
    by (subst dll_cong [where nx' = "\<lambda>y. nxt (h y)" and pv' = "\<lambda>y. prv (h y)"])
       (auto simp: chain_def sel)
  moreover have "c = x \<Longrightarrow> set ys = {}" using ch dang by (auto simp: chain_def)
  ultimately show ?thesis
    using ch b(3) x new by (auto simp: chain_def sel)
qed

lemma chains_link_front:
  assumes ch: "chains h A L" and b: "b \<in> L" and x: "x \<notin> A" "x \<notin> L"
    and new: "own (h x) = b" "prv (h x) = SC_ADDR_MAKE_EMPTY" "x \<noteq> SC_ADDR_MAKE_EMPTY"
      "first (h x) = SC_ADDR_MAKE_EMPTY"
    and dang: "\<And>y. y \<in> A \<Longrightarrow> own (h y) \<in> L"
  shows "chains (link_front x b h) (insert x A) (insert x L)"
proof -
  obtain xs where xs: "chain h A L b xs" and ne: "SC_ADDR_MAKE_EMPTY \<notin> A"
    using ch by (auto simp: chains_def)
  have "\<exists>ys. chain (link_front x b h) (insert x A) (insert x L) c ys" for c
  proof (cases "c = b")
    case True
    with chain_link_front [OF xs b x new(1-3) ne] show ?thesis by blast
  next
    case False
    obtain ys where ys: "chain h A L c ys" using ch by (auto simp: chains_def)
    from chain_link_front_other [OF ys xs b False x new(1) new(3,4) ne] dang x(2)
    show ?thesis by blast
  qed
  with ne new(3) show ?thesis by (auto simp: chains_def)
qed

text \<open>A new element with an empty list that is not a connector.\<close>

lemma chain_new_owner:
  assumes ch: "chain h A L b xs" and a: "a \<notin> A" and e: "first e = SC_ADDR_MAKE_EMPTY"
    and dang: "\<And>y. y \<in> A \<Longrightarrow> own (h y) \<noteq> a"
  shows "chain (h(a := e)) A (insert a L) b xs"
proof -
  have A: "(h(a := e)) y = h y" if "y \<in> A" for y using a that by auto
  have S: "set xs = {x \<in> A. own (h x) = b}" using ch by (simp add: chain_def)
  have "set xs = {x \<in> A. own ((h(a := e)) x) = b}" using S a by auto
  moreover have "dll (\<lambda>x. nxt ((h(a := e)) x)) (\<lambda>x. prv ((h(a := e)) x)) SC_ADDR_MAKE_EMPTY xs =
      dll (\<lambda>x. nxt (h x)) (\<lambda>x. prv (h x)) SC_ADDR_MAKE_EMPTY xs"
    using S A by (intro dll_cong) simp
  moreover have "first ((h(a := e)) b) = head_addr xs" if "b \<in> insert a L"
  proof (cases "b = a")
    case True
    then have "set xs = {}" using S dang by auto
    with True e show ?thesis by simp
  qed (use ch that in \<open>simp add: chain_def\<close>)
  ultimately show ?thesis using ch unfolding chain_def by simp
qed

text \<open>Removal of a connector.\<close>

lemma unlink_sel:
  "own (unlink x h y) = own (h y)"
  "nxt (unlink x h y) =
     (if y = prv (h x) \<and> y \<noteq> SC_ADDR_MAKE_EMPTY then nxt (h x) else nxt (h y))"
  "prv (unlink x h y) =
     (if y = nxt (h x) \<and> y \<noteq> SC_ADDR_MAKE_EMPTY then prv (h x) else prv (h y))"
  "first (unlink x h y) =
     (if y = own (h x) \<and> first (h y) = x then nxt (h x) else first (h y))"
  by (auto simp: unlink_def Let_def upd_def)

lemma chain_unlink:
  assumes ch: "chain h A L b (ys @ x # zs)" and ne: "SC_ADDR_MAKE_EMPTY \<notin> A"
  shows "chain (unlink x h) (A - {x}) L b (ys @ zs)"
proof -
  let ?nx = "\<lambda>y. nxt (h y)" and ?pv = "\<lambda>y. prv (h y)"
  have d: "dll ?nx ?pv SC_ADDR_MAKE_EMPTY (ys @ x # zs)" and dist: "distinct (ys @ x # zs)"
    and S: "set (ys @ x # zs) = {y \<in> A. own (h y) = b}"
    using ch by (auto simp: chain_def)
  have E: "SC_ADDR_MAKE_EMPTY \<notin> set (ys @ x # zs)" using S ne by blast
  note m = dll_middle [OF d]
  have "dll (\<lambda>y. nxt (unlink x h y)) (\<lambda>y. prv (unlink x h y)) SC_ADDR_MAKE_EMPTY (ys @ zs) =
      dll (\<lambda>y. if ys \<noteq> [] \<and> y = last ys then ?nx x else ?nx y)
          (\<lambda>y. if zs \<noteq> [] \<and> y = hd zs then ?pv x else ?pv y) SC_ADDR_MAKE_EMPTY (ys @ zs)"
  proof (rule dll_cong)
    fix y assume "y \<in> set (ys @ zs)"
    then have "y \<noteq> SC_ADDR_MAKE_EMPTY" using E by auto
    then show "nxt (unlink x h y) = (if ys \<noteq> [] \<and> y = last ys then ?nx x else ?nx y) \<and>
      prv (unlink x h y) = (if zs \<noteq> [] \<and> y = hd zs then ?pv x else ?pv y)"
      by (auto simp: unlink_sel(2,3) m(1,2) head_addr_def split: list.split)
  qed
  then have "dll (\<lambda>y. nxt (unlink x h y)) (\<lambda>y. prv (unlink x h y)) SC_ADDR_MAKE_EMPTY (ys @ zs)"
    using dll_unlink [OF d dist] by simp
  moreover have "set (ys @ zs) = {y \<in> A - {x}. own (unlink x h y) = b}"
    using S dist by (auto simp: unlink_sel(1))
  moreover have "first (unlink x h b) = head_addr (ys @ zs)" if "b \<in> L"
  proof -
    have "own (h x) = b" using S by auto
    moreover have "first (h b) = head_addr (ys @ x # zs)" using ch that by (simp add: chain_def)
    ultimately show ?thesis
      using dist m(2) by (cases ys) (auto simp: unlink_sel(4))
  qed
  ultimately show ?thesis using dist by (auto simp: chain_def)
qed

lemma chain_unlink_other:
  assumes ch: "chain h A L c us" and b: "chain h A L b (ys @ x # zs)" "c \<noteq> b"
    and ne: "SC_ADDR_MAKE_EMPTY \<notin> A"
  shows "chain (unlink x h) (A - {x}) L c us"
proof -
  have S: "set (ys @ x # zs) = {y \<in> A. own (h y) = b}" "set us = {y \<in> A. own (h y) = c}"
    using b ch by (simp_all add: chain_def)
  have m: "prv (h x) = (if ys = [] then SC_ADDR_MAKE_EMPTY else last ys)" "nxt (h x) = head_addr zs"
    using b by (auto simp: chain_def dest: dll_middle)
  have "prv (h x) \<in> set us \<Longrightarrow> prv (h x) = SC_ADDR_MAKE_EMPTY"
    using S b(2) m(1) by (metis (mono_tags, lifting) Un_iff last_in_set mem_Collect_eq set_append)
  moreover have "nxt (h x) \<in> set us \<Longrightarrow> nxt (h x) = SC_ADDR_MAKE_EMPTY"
    using S b(2) m(2) by (cases zs) auto
  ultimately have "dll (\<lambda>y. nxt (unlink x h y)) (\<lambda>y. prv (unlink x h y)) SC_ADDR_MAKE_EMPTY us =
      dll (\<lambda>y. nxt (h y)) (\<lambda>y. prv (h y)) SC_ADDR_MAKE_EMPTY us"
    by (intro dll_cong) (auto simp: unlink_sel)
  moreover have "own (h x) = b" using S by auto
  moreover from this S b(2) have "set us = {y \<in> A - {x}. own (unlink x h y) = c}"
    by (auto simp: unlink_sel(1))
  ultimately show ?thesis
    using ch b(2) by (auto simp: chain_def unlink_sel(4))
qed

lemma chain_unlink_filter:
  assumes ch: "chains h A L" and x: "x \<in> A" and c: "chain h A L c us"
  shows "chain (unlink x h) (A - {x}) L c (filter (\<lambda>y. y \<noteq> x) us)"
proof -
  let ?b = "own (h x)"
  obtain vs where vs: "chain h A L ?b vs" and ne: "SC_ADDR_MAKE_EMPTY \<notin> A"
    using ch by (auto simp: chains_def)
  show ?thesis
  proof (cases "c = ?b")
    case True
    have "x \<in> set us" using c x True by (auto simp: chain_def)
    then obtain ys zs where us: "us = ys @ x # zs" by (auto simp: in_set_conv_decomp)
    moreover have "distinct us" using c by (simp add: chain_def)
    ultimately have "filter (\<lambda>y. y \<noteq> x) us = ys @ zs"
      by (simp only: filter_notin_distinct_split)
    with chain_unlink [OF _ ne] c us show ?thesis by simp
  next
    case False
    have "x \<in> set vs" using vs x by (auto simp: chain_def)
    then obtain ys zs where "vs = ys @ x # zs" by (auto simp: in_set_conv_decomp)
    with chain_unlink_other [OF c _ False ne] vs have "chain (unlink x h) (A - {x}) L c us" by simp
    moreover have "x \<notin> set us" using c False by (auto simp: chain_def)
    then have "filter (\<lambda>y. y \<noteq> x) us = us" by (auto simp: filter_id_conv)
    ultimately show ?thesis by simp
  qed
qed

lemma chains_unlink:
  assumes "chains h A L" and "x \<in> A"
  shows "chains (unlink x h) (A - {x}) L"
  using assms chain_unlink_filter [OF assms] by (fastforce simp: chains_def)

lemma chain_neighbours:
  assumes "chain h A L (own (h x)) xs" and "x \<in> A"
  shows "prv (h x) = SC_ADDR_MAKE_EMPTY \<or> prv (h x) \<in> A"
    "nxt (h x) = SC_ADDR_MAKE_EMPTY \<or> nxt (h x) \<in> A"
proof -
  have S: "set xs = {y \<in> A. own (h y) = own (h x)}" using assms(1) by (simp add: chain_def)
  then have "x \<in> set xs" using assms(2) by simp
  then obtain ys zs where xs: "xs = ys @ x # zs" by (auto simp: in_set_conv_decomp)
  then have m: "prv (h x) = (if ys = [] then SC_ADDR_MAKE_EMPTY else last ys)" "nxt (h x) = head_addr zs"
    using assms(1) by (auto simp: chain_def dest: dll_middle)
  have sub: "set ys \<subseteq> A" "set zs \<subseteq> A" using S xs by auto
  show "prv (h x) = SC_ADDR_MAKE_EMPTY \<or> prv (h x) \<in> A" 
    using m(1) subsetD [OF sub(1) last_in_set] by auto
  show "nxt (h x) = SC_ADDR_MAKE_EMPTY \<or> nxt (h x) \<in> A" using m(2) sub(2) by (cases zs) auto
qed

lemma chain_no_empty:
  "chain h A L b xs \<Longrightarrow> SC_ADDR_MAKE_EMPTY \<notin> A \<Longrightarrow> SC_ADDR_MAKE_EMPTY \<notin> set xs"
  by (auto simp: chain_def)

end

interpretation out: arc_links "\<lambda>e. arc_begin (arc e)" "\<lambda>e. next_out_arc (arc e)"
    "\<lambda>e. prev_out_arc (arc e)" first_out_arc
    "\<lambda>a e. e\<lparr>arc := (arc e)\<lparr>next_out_arc := a\<rparr>\<rparr>" "\<lambda>a e. e\<lparr>arc := (arc e)\<lparr>prev_out_arc := a\<rparr>\<rparr>"
    "\<lambda>a e. e\<lparr>first_out_arc := a\<rparr>"
  by unfold_locales simp_all

interpretation inn: arc_links "\<lambda>e. arc_end (arc e)" "\<lambda>e. next_in_arc (arc e)"
    "\<lambda>e. prev_in_arc (arc e)" first_in_arc
    "\<lambda>a e. e\<lparr>arc := (arc e)\<lparr>next_in_arc := a\<rparr>\<rparr>" "\<lambda>a e. e\<lparr>arc := (arc e)\<lparr>prev_in_arc := a\<rparr>\<rparr>"
    "\<lambda>a e. e\<lparr>first_in_arc := a\<rparr>"
  by unfold_locales simp_all

text \<open>The two lists do not share a field, so work on one leaves the other alone.\<close>

lemma inn_sel_out_link_front [simp]:
  "arc_end (arc (out.link_front x b h y)) = arc_end (arc (h y))"
  "next_in_arc (arc (out.link_front x b h y)) = next_in_arc (arc (h y))"
  "prev_in_arc (arc (out.link_front x b h y)) = prev_in_arc (arc (h y))"
  "first_in_arc (out.link_front x b h y) = first_in_arc (h y)"
  "el_type (out.link_front x b h y) = el_type (h y)"
  "el_access (out.link_front x b h y) = el_access (h y)"
  "content (out.link_front x b h y) = content (h y)"
  by (simp_all add: out.link_front_def Let_def upd_def)

lemma inn_sel_out_unlink [simp]:
  "arc_end (arc (out.unlink x h y)) = arc_end (arc (h y))"
  "next_in_arc (arc (out.unlink x h y)) = next_in_arc (arc (h y))"
  "prev_in_arc (arc (out.unlink x h y)) = prev_in_arc (arc (h y))"
  "first_in_arc (out.unlink x h y) = first_in_arc (h y)"
  "el_type (out.unlink x h y) = el_type (h y)"
  "el_access (out.unlink x h y) = el_access (h y)"
  "content (out.unlink x h y) = content (h y)"
  by (simp_all add: out.unlink_def Let_def upd_def)

lemma out_sel_inn_link_front [simp]:
  "arc_begin (arc (inn.link_front x b h y)) = arc_begin (arc (h y))"
  "next_out_arc (arc (inn.link_front x b h y)) = next_out_arc (arc (h y))"
  "prev_out_arc (arc (inn.link_front x b h y)) = prev_out_arc (arc (h y))"
  "first_out_arc (inn.link_front x b h y) = first_out_arc (h y)"
  "el_type (inn.link_front x b h y) = el_type (h y)"
  "el_access (inn.link_front x b h y) = el_access (h y)"
  "content (inn.link_front x b h y) = content (h y)"
  by (simp_all add: inn.link_front_def Let_def upd_def)

lemma out_sel_inn_unlink [simp]:
  "arc_begin (arc (inn.unlink x h y)) = arc_begin (arc (h y))"
  "next_out_arc (arc (inn.unlink x h y)) = next_out_arc (arc (h y))"
  "prev_out_arc (arc (inn.unlink x h y)) = prev_out_arc (arc (h y))"
  "first_out_arc (inn.unlink x h y) = first_out_arc (h y)"
  "el_type (inn.unlink x h y) = el_type (h y)"
  "el_access (inn.unlink x h y) = el_access (h y)"
  "content (inn.unlink x h y) = content (h y)"
  by (simp_all add: inn.unlink_def Let_def upd_def)

end
