(* ===== verification/Sc_Graph.thy ===== *)
theory Sc_Graph
  imports Sc_Storage_Alloc Sc_Chain
begin

text \<open>
  The graph invariant and creation. \<open>graph_ok\<close> says that the storage is sound, that the
  output list of an element holds exactly the connectors that leave it and the input list
  exactly those that enter it, that no connector dangles, and that every element carries a
  reference. The model of \<^verbatim>\<open>sc_storage_arc_new_ext\<close> is here too, with the proofs that
  nodes, links and connectors are created as specified and that the invariant is kept.
\<close>

subsection \<open>Connectors\<close>

definition s_max_storage_lock_attempts :: nat where "s_max_storage_lock_attempts = 100"

text \<open>
  The code after the label \<^verbatim>\<open>unlock\<close>: which pointers are not null decides what is
  unlocked, in this order.
\<close>

definition unlock_if :: "bool \<Rightarrow> sc_addr \<Rightarrow> sc_storage \<Rightarrow> sc_storage option" where
  "unlock_if c a s = (if c then do { (_, s1) \<leftarrow> sc_storage_element_unlock a s; Some s1 } else Some s)"

definition arc_new_unlock ::
    "bool \<Rightarrow> bool \<Rightarrow> bool \<Rightarrow> bool \<Rightarrow> bool \<Rightarrow> sc_addr \<Rightarrow> sc_addr \<Rightarrow> sc_addr \<Rightarrow> sc_addr \<Rightarrow> sc_addr \<Rightarrow>
     sc_storage \<Rightarrow> sc_storage option" where
  "arc_new_unlock beg_el f_out_arc end_el f_in_arc tmp_el first_out beg first_in end' a s = do {
     s1 \<leftarrow> unlock_if (beg_el \<and> f_out_arc) first_out s;
     s2 \<leftarrow> unlock_if beg_el beg s1;
     s3 \<leftarrow> unlock_if (end_el \<and> f_in_arc) first_in s2;
     s4 \<leftarrow> unlock_if end_el end' s3;
     unlock_if tmp_el a s4
   }"

definition lock_try_if :: "sc_addr \<Rightarrow> sc_storage \<Rightarrow> (bool \<times> sc_storage) option" where
  "lock_try_if a s =
     (if \<not> SC_ADDR_IS_EMPTY a
      then do { (_, locked, s1) \<leftarrow> sc_storage_element_lock_try a s_max_storage_lock_attempts s;
                Some (locked, s1) }
      else Some (False, s))"

definition arc_type :: "sc_type \<Rightarrow> sc_type" where
  "arc_type t = sc_flags_remove (if t AND sc_type_arc_mask \<noteq> 0 then t else sc_type_arc_common OR t)"

text \<open>From the new cell to the label: the cell is filled, events go out, both lists get a new head.\<close>

definition arc_new_link ::
    "sc_type \<Rightarrow> sc_addr \<Rightarrow> sc_addr \<Rightarrow> sc_access_levels \<Rightarrow> bool \<Rightarrow> sc_addr \<Rightarrow> bool \<Rightarrow> sc_addr \<Rightarrow>
     sc_addr \<Rightarrow> sc_access_levels \<Rightarrow> sc_access_levels \<Rightarrow> sc_storage \<Rightarrow> sc_storage option" where
  "arc_new_link t beg end' al f_out_arc first_out f_in_arc first_in a beg_access end_access s = do {
     let s1 = set_el a (\<lambda>e. e\<lparr>el_type := arc_type t,
                              arc := (arc e)\<lparr>arc_begin := beg, arc_end := end'\<rparr>,
                              el_access := al\<rparr>) s;
     g_assert (a \<noteq> first_in);
     let s2 = ext_call (SC_EVENT_EMIT beg beg_access SC_EVENT_ADD_OUTPUT_ARC a end') s1;
     let s3 = ext_call (SC_EVENT_EMIT end' end_access SC_EVENT_ADD_INPUT_ARC a beg) s2;
     g_assert (el_type (el_at s3 beg) \<noteq> 0 \<and> el_type (el_at s3 end') \<noteq> 0);
     let s4 = set_el a (\<lambda>e. e\<lparr>arc := (arc e)\<lparr>next_out_arc := first_out,
                                            next_in_arc := first_in\<rparr>\<rparr>) s3;
     g_assert (a \<noteq> first_out \<and> a \<noteq> first_in);
     let s5 = (if f_out_arc
               then set_el first_out (\<lambda>e. e\<lparr>arc := (arc e)\<lparr>prev_out_arc := a\<rparr>\<rparr>) s4 else s4);
     let s6 = (if f_in_arc
               then set_el first_in (\<lambda>e. e\<lparr>arc := (arc e)\<lparr>prev_in_arc := a\<rparr>\<rparr>) s5 else s5);
     let s7 = set_el beg (\<lambda>e. e\<lparr>first_out_arc := a\<rparr>) s6;
     Some (set_el end' (\<lambda>e. e\<lparr>first_in_arc := a\<rparr>) s7)
   }"

text \<open>
  One round of the loop: whether it ends with \<^verbatim>\<open>should_break\<close>, and the address. A round
  that could not get its locks leaves the address empty and the loop goes on. When no cell
  is left, the null pointer is dereferenced before the assertion that would catch it.
\<close>

definition arc_new_round ::
    "sc_memory_context \<Rightarrow> sc_type \<Rightarrow> sc_addr \<Rightarrow> sc_addr \<Rightarrow> sc_access_levels \<Rightarrow> sc_storage \<Rightarrow>
     (bool \<times> sc_addr \<times> sc_storage) option" where
  "arc_new_round ctx t beg end' al s = do {
     let N = SC_ADDR_MAKE_EMPTY;
     (_, beg_el, s1) \<leftarrow> sc_storage_element_lock_try beg s_max_storage_lock_attempts s;
     if \<not> beg_el then Some (False, N, s1)
     else if \<not> sc_element_is_valid (el_at s1 beg) then do {
       s2 \<leftarrow> arc_new_unlock True False False False False N beg N end' N s1;
       Some (True, N, s2)
     }
     else do {
       (_, end_el, s2) \<leftarrow> sc_storage_element_lock_try end' s_max_storage_lock_attempts s1;
       if \<not> end_el then do {
         s3 \<leftarrow> arc_new_unlock True False False False False N beg N end' N s2;
         Some (False, N, s3)
       }
       else if \<not> sc_element_is_valid (el_at s2 end') then do {
         s3 \<leftarrow> arc_new_unlock True False True False False N beg N end' N s2;
         Some (True, N, s3)
       }
       else do {
         let first_out = first_out_arc (el_at s2 beg);
         (f_out_arc, s3) \<leftarrow> lock_try_if first_out s2;
         if first_out \<noteq> N \<and> \<not> f_out_arc then do {
           s4 \<leftarrow> arc_new_unlock True False True False False first_out beg N end' N s3;
           Some (False, N, s4)
         }
         else do {
           let first_in = first_in_arc (el_at s3 end');
           (f_in_arc, s4) \<leftarrow> lock_try_if first_in s3;
           if first_in \<noteq> N \<and> \<not> f_in_arc then do {
             s5 \<leftarrow> arc_new_unlock True f_out_arc True False False first_out beg first_in end' N s4;
             Some (False, N, s5)
           }
           else do {
             (r, s5) \<leftarrow> sc_storage_append_el_into_segments ctx s4;
             case r of
               None \<Rightarrow> None
             | Some a \<Rightarrow> do {
                 s6 \<leftarrow> arc_new_link t beg end' al f_out_arc first_out f_in_arc first_in a
                        (el_access (el_at s1 beg)) (el_access (el_at s2 end')) s5;
                 s7 \<leftarrow> arc_new_unlock True f_out_arc True f_in_arc True
                        first_out beg first_in end' a s6;
                 Some (False, a, s7)
               }
           }
         }
       }
     }
   }"

partial_function (option) arc_new_loop ::
    "sc_memory_context \<Rightarrow> sc_type \<Rightarrow> sc_addr \<Rightarrow> sc_addr \<Rightarrow> sc_access_levels \<Rightarrow> sc_storage \<Rightarrow>
     (sc_addr \<times> sc_storage) option" where
  "arc_new_loop ctx t beg end' al s = do {
     (should_break, a, s1) \<leftarrow> arc_new_round ctx t beg end' al s;
     if should_break \<or> \<not> SC_ADDR_IS_EMPTY a then Some (a, s1)
     else arc_new_loop ctx t beg end' al s1
   }"

definition sc_storage_arc_new_ext ::
    "sc_memory_context \<Rightarrow> sc_type \<Rightarrow> sc_addr \<Rightarrow> sc_addr \<Rightarrow> sc_access_levels \<Rightarrow> sc_storage \<Rightarrow>
     (sc_addr \<times> sc_storage) option" where
  "sc_storage_arc_new_ext ctx t beg end' al s = do {
     g_assert (sc_type_node AND t = 0);
     if SC_ADDR_IS_EMPTY beg \<or> SC_ADDR_IS_EMPTY end' then Some (SC_ADDR_MAKE_EMPTY, s)
     else arc_new_loop ctx t beg end' al s
   }"

definition sc_storage_arc_new ::
    "sc_memory_context \<Rightarrow> sc_type \<Rightarrow> sc_addr \<Rightarrow> sc_addr \<Rightarrow> sc_storage \<Rightarrow>
     (sc_addr \<times> sc_storage) option" where
  "sc_storage_arc_new ctx t beg end' s = sc_storage_arc_new_ext ctx t beg end' (ctx_access ctx) s"

subsection \<open>The graph invariant\<close>

definition live :: "sc_storage \<Rightarrow> sc_addr set" where
  "live s = {a. has_cell s a \<and> sc_element_is_valid (el_at s a)}"

definition arcs :: "sc_storage \<Rightarrow> sc_addr set" where
  "arcs s = {a \<in> live s. is_arc (el_at s a)}"

definition out_list :: "sc_storage \<Rightarrow> sc_addr \<Rightarrow> sc_addr list \<Rightarrow> bool" where
  "out_list s = out.chain (el_at s) (arcs s) (live s)"

definition in_list :: "sc_storage \<Rightarrow> sc_addr \<Rightarrow> sc_addr list \<Rightarrow> bool" where
  "in_list s = inn.chain (el_at s) (arcs s) (live s)"

definition graph_ok :: "sc_storage \<Rightarrow> bool" where
  "graph_ok s \<longleftrightarrow>
     storage_ok s \<and>
     (\<forall>b. \<exists>xs. out_list s b xs) \<and> (\<forall>b. \<exists>xs. in_list s b xs) \<and>
     (\<forall>x \<in> arcs s. arc_begin (arc (el_at s x)) \<in> live s \<and> arc_end (arc (el_at s x)) \<in> live s \<and>
        el_type (el_at s x) AND sc_type_link = 0) \<and>
     (\<forall>x \<in> live s. refs s x > 0)"

lemma empty_not_live [simp]: "storage_ok s \<Longrightarrow> SC_ADDR_MAKE_EMPTY \<notin> live s"
  by (auto simp: live_def has_cell_def SC_ADDR_MAKE_EMPTY_def el_at_def sc_element_is_valid_def
        segment_ok_def dest!: storage_ok_segment [of s 0])

lemma arcs_live: "arcs s \<subseteq> live s"
  by (auto simp: arcs_def)

lemma empty_not_arc [simp]: "storage_ok s \<Longrightarrow> SC_ADDR_MAKE_EMPTY \<notin> arcs s"
  using arcs_live empty_not_live by blast

lemma graph_ok_storage: "graph_ok s \<Longrightarrow> storage_ok s"
  by (simp add: graph_ok_def)

lemma graph_ok_chains:
  assumes "graph_ok s"
  shows "out.chains (el_at s) (arcs s) (live s)" "inn.chains (el_at s) (arcs s) (live s)"
  using assms by (simp_all add: graph_ok_def out.chains_def inn.chains_def out_list_def in_list_def)

lemma graph_okI:
  assumes "storage_ok s" "out.chains (el_at s) (arcs s) (live s)"
    "inn.chains (el_at s) (arcs s) (live s)"
    "\<And>x. x \<in> arcs s \<Longrightarrow> arc_begin (arc (el_at s x)) \<in> live s \<and> arc_end (arc (el_at s x)) \<in> live s \<and>
        el_type (el_at s x) AND sc_type_link = 0"
    "\<And>x. x \<in> live s \<Longrightarrow> refs s x > 0"
  shows "graph_ok s"
  using assms by (simp add: graph_ok_def out.chains_def inn.chains_def out_list_def in_list_def)

lemma graph_ok_lists:
  assumes "graph_ok s"
  shows "\<exists>xs. out_list s b xs" "\<exists>xs. in_list s b xs"
  using assms by (simp_all add: graph_ok_def)

lemma live_typed: "a \<in> live s \<Longrightarrow> has_cell s a \<and> el_type (el_at s a) \<noteq> 0"
  by (simp add: live_def sc_element_is_valid_def)

text \<open>Two states with the same elements, cells and counts have the same graph.\<close>

lemma live_cong: "el_at s' = el_at s \<Longrightarrow> has_cell s' = has_cell s \<Longrightarrow> live s' = live s"
  by (simp add: live_def)

lemma arcs_cong: "el_at s' = el_at s \<Longrightarrow> has_cell s' = has_cell s \<Longrightarrow> arcs s' = arcs s"
  by (simp add: arcs_def live_def)

lemma graph_ok_cong:
  assumes "el_at s' = el_at s" "has_cell s' = has_cell s" "refs s' = refs s" "storage_ok s'"
    and "graph_ok s"
  shows "graph_ok s'"
  using assms live_cong [OF assms(1,2)] arcs_cong [OF assms(1,2)]
  by (simp add: graph_ok_def out_list_def in_list_def)

subsection \<open>Creating nodes and links\<close>

definition created ::
    "sc_storage \<Rightarrow> sc_addr \<Rightarrow> sc_element \<Rightarrow> sc_storage \<Rightarrow> bool" where
  "created s a e s' \<longleftrightarrow>
     storage_ok s' \<and> has_cell s' a \<and> a \<noteq> SC_ADDR_MAKE_EMPTY \<and> el_type (el_at s a) = 0 \<and>
     el_at s' = (el_at s)(a := e) \<and> refs s' = (refs s)(a := 1) \<and> held s' = held s \<and>
     (\<forall>b. has_cell s b \<longrightarrow> has_cell s' b) \<and>
     ext_calls s' = ext_calls s \<and> cur_thread s' = cur_thread s \<and>
     max_loaded_segments s' = max_loaded_segments s \<and> segments_num s' \<le> Suc (segments_num s)"

lemma held_nonneg_cell: "storage_ok s \<Longrightarrow> held s (sec_of a) \<ge> 0"
  by (auto simp: held_def sec_of_def seg_lock_counts_def split: option.split
        intro!: section_ok_nonneg [OF seg_section_ok])

lemma cell_clean_el_at: "storage_ok s \<Longrightarrow> cell_clean (el_at s a)"
  by (auto simp: el_at_def segment_ok_def cell_clean_def zero_element_def split: option.split
        dest!: storage_ok_segment)

lemma el_at_set_el_fun:
  "has_cell s a \<Longrightarrow> el_at (set_el a f s) = (el_at s)(a := f (el_at s a))"
  by (auto simp: sc_state fun_eq_iff)

lemma allocated_written:
  assumes s: "storage_ok s" and al: "allocated ctx s a s1" and n: "segments_num s1 \<le> Suc (segments_num s)"
    and f: "cell_clean (f (el_at s1 a))"
  shows "\<exists>s'. sc_storage_element_unlock a (set_el a f s1) = Some (SC_RESULT_OK, s') \<and>
              created s a (f (el_at s1 a)) s'"
proof -
  let ?s2 = "set_el a f s1"
  have r: "reserved s1 a" "storage_ok s1" "has_cell s1 a" "a \<noteq> SC_ADDR_MAKE_EMPTY"
    using al by (auto simp: allocated_def reserved_def)
  have ok: "storage_ok ?s2" using r f by (intro storage_ok_set_reserved)
  have h: "held ?s2 (sec_of a) > 0" "has_cell ?s2 a"
    using al r held_nonneg_cell [OF s, of a] by (simp_all add: sc_state allocated_def)
  have "sc_storage_element_unlock a ?s2 = Some (SC_RESULT_OK, unlock_cell a ?s2)"
    by (rule element_unlock_ok [OF ok h(2,1)])
  moreover have "storage_ok (unlock_cell a ?s2)" by (rule storage_ok_unlock_cell [OF ok h(2,1)])
  then have "created s a (f (el_at s1 a)) (unlock_cell a ?s2)"
    using al n r(3,4) h(2) by (simp add: created_def allocated_def sc_state el_at_set_el_fun)
  ultimately show ?thesis by blast
qed

lemma typed_has_cell:
  assumes "storage_ok s" and "has_cell s' a" and "el_type (el_at s a) \<noteq> 0"
  shows "has_cell s a"
  using assms
  by (auto simp: has_cell_def el_at_def segment_ok_def zero_element_def split: option.splits
        dest: storage_ok_segment)

lemma live_created:
  assumes "storage_ok s" and "created s a e s'" and "sc_element_is_valid e"
  shows "live s' = insert a (live s)"
  using assms typed_has_cell [OF assms(1), of s']
  by (auto simp: live_def created_def sc_element_is_valid_def split: if_splits)

lemma created_not_live: "created s a e s' \<Longrightarrow> a \<notin> live s"
  by (auto simp: created_def live_def sc_element_is_valid_def)

lemma arcs_created:
  assumes "storage_ok s" and "created s a e s'" and "sc_element_is_valid e"
  shows "arcs s' = (if is_arc e then insert a (arcs s) else arcs s)"
  using live_created [OF assms] created_not_live [OF assms(2)] assms(2)
  by (auto simp: arcs_def created_def split: if_splits)

text \<open>A new element with empty lists that is not a connector joins the graph.\<close>

lemma graph_ok_created:
  assumes ok: "graph_ok s" and cr: "created s a e s'" and v: "sc_element_is_valid e" "\<not> is_arc e"
    and e: "first_out_arc e = SC_ADDR_MAKE_EMPTY" "first_in_arc e = SC_ADDR_MAKE_EMPTY"
  shows "graph_ok s'"
    and "out_list s b xs \<Longrightarrow> out_list s' b xs" and "in_list s b xs \<Longrightarrow> in_list s' b xs"
proof -
  note sok = graph_ok_storage [OF ok]
  have L: "live s' = insert a (live s)" and A: "arcs s' = arcs s" and a: "a \<notin> live s" "a \<notin> arcs s"
    using live_created [OF sok cr v(1)] arcs_created [OF sok cr v(1)] created_not_live [OF cr] v(2)
      arcs_live by auto
  have h: "el_at s' = (el_at s)(a := e)" and s': "storage_ok s'" and r: "refs s' = (refs s)(a := 1)"
    using cr by (simp_all add: created_def)
  have dang: "arc_begin (arc (el_at s x)) \<noteq> a" "arc_end (arc (el_at s x)) \<noteq> a"
    if "x \<in> arcs s" for x using ok that a(1) by (auto simp: graph_ok_def)
  have out: "out_list s' b xs" if "out_list s b xs" for b xs
    using out.chain_new_owner [OF that [unfolded out_list_def] a(2) e(1) dang(1)]
    by (simp add: out_list_def h L A)
  have inn: "in_list s' b xs" if "in_list s b xs" for b xs
    using inn.chain_new_owner [OF that [unfolded in_list_def] a(2) e(2) dang(2)]
    by (simp add: in_list_def h L A)
  show "out_list s b xs \<Longrightarrow> out_list s' b xs" by (rule out)
  show "in_list s b xs \<Longrightarrow> in_list s' b xs" by (rule inn)
  show "graph_ok s'"
    unfolding graph_ok_def
  proof (intro conjI allI ballI)
    show "\<exists>xs. out_list s' b xs" "\<exists>xs. in_list s' b xs" for b
      using ok out inn unfolding graph_ok_def by blast+
  next
    fix x assume "x \<in> arcs s'"
    then have "x \<in> arcs s" "el_at s' x = el_at s x" using a(2) by (auto simp: A h)
    then show "arc_begin (arc (el_at s' x)) \<in> live s'" "arc_end (arc (el_at s' x)) \<in> live s'"
      "el_type (el_at s' x) AND sc_type_link = 0"
      using ok by (simp_all add: graph_ok_def L)
  qed (use ok s' in \<open>auto simp: graph_ok_def L r\<close>)
qed

lemma created_by_write:
  assumes "storage_ok s" and "max_loaded_segments s \<le> int SC_ADDR_SEG_MAX"
    and "int (segments_num s) < max_loaded_segments s" and "t \<noteq> 0"
  shows "\<exists>a s1 s'. sc_storage_append_el_into_segments ctx s = Some (Some a, s1) \<and>
     sc_storage_element_unlock a (set_el a (\<lambda>e. e\<lparr>el_type := t, el_access := al\<rparr>) s1) =
       Some (SC_RESULT_OK, s') \<and>
     created s a ((el_at s a)\<lparr>el_type := t, el_access := al\<rparr>) s'"
proof -
  obtain a s1 where a: "sc_storage_append_el_into_segments ctx s = Some (Some a, s1)"
    and al: "allocated ctx s a s1" "segments_num s1 \<le> Suc (segments_num s)"
    using append_el_into_segments_total [OF assms(1,2), of ctx] assms(3) by auto
  have el: "(el_at s1 a)\<lparr>el_type := t, el_access := al\<rparr> = (el_at s a)\<lparr>el_type := t, el_access := al\<rparr>"
    using al by (simp add: allocated_def)
  from allocated_written [OF assms(1) al, of "\<lambda>e. e\<lparr>el_type := t, el_access := al\<rparr>"] a assms(4)
  show ?thesis by (auto simp: el cell_clean_def)
qed

lemma flags_remove_and [simp]:
  "sc_flags_remove t AND sc_flag_request_deletion = 0"
  "sc_flags_remove t AND sc_type_node = t AND sc_type_node"
  "sc_flags_remove t AND sc_type_link = t AND sc_type_link"
  "sc_flags_remove t AND sc_type_arc_mask = t AND sc_type_arc_mask"
  by (simp_all add: sc_flags_remove_def sc_bits and.assoc)

lemma nonzero_if_and: "(t :: sc_type) AND m \<noteq> 0 \<Longrightarrow> t \<noteq> 0"
  by auto

lemma new_node_type:
  assumes "sc_type_arc_mask AND t = 0"
  shows "sc_flags_remove (sc_type_node OR t) AND sc_type_node \<noteq> 0"
    "sc_flags_remove (sc_type_node OR t) \<noteq> 0"
    "sc_flags_remove (sc_type_node OR t) AND sc_type_arc_mask = 0"
proof -
  show 1: "sc_flags_remove (sc_type_node OR t) AND sc_type_node \<noteq> 0"
    by simp (simp add: sc_type_node_def)
  show "sc_flags_remove (sc_type_node OR t) \<noteq> 0" by (rule nonzero_if_and [OF 1])
  have "sc_type_node AND sc_type_arc_mask = 0" by (simp add: sc_bits)
  then show "sc_flags_remove (sc_type_node OR t) AND sc_type_arc_mask = 0"
    using assms by (simp add: and.commute [of t sc_type_arc_mask])
qed

lemma new_element_spec:
  assumes ok: "graph_ok s" and cap: "max_loaded_segments s \<le> int SC_ADDR_SEG_MAX"
    "int (segments_num s) < max_loaded_segments s"
    and t: "t \<noteq> 0" "t AND sc_flag_request_deletion = 0" "t AND sc_type_arc_mask = 0"
  shows "\<exists>a s1 s'. sc_storage_append_el_into_segments ctx s = Some (Some a, s1) \<and>
     sc_storage_element_unlock a (set_el a (\<lambda>e. e\<lparr>el_type := t, el_access := al\<rparr>) s1) =
       Some (SC_RESULT_OK, s') \<and>
     created s a ((el_at s a)\<lparr>el_type := t, el_access := al\<rparr>) s' \<and>
     graph_ok s' \<and> live s' = insert a (live s) \<and> arcs s' = arcs s"
proof -
  note sok = graph_ok_storage [OF ok]
  obtain a s1 s' where a: "sc_storage_append_el_into_segments ctx s = Some (Some a, s1)"
      "sc_storage_element_unlock a (set_el a (\<lambda>e. e\<lparr>el_type := t, el_access := al\<rparr>) s1) =
         Some (SC_RESULT_OK, s')"
    and cr: "created s a ((el_at s a)\<lparr>el_type := t, el_access := al\<rparr>) s'"
    using created_by_write [OF sok cap t(1), of ctx al] by blast
  let ?e = "(el_at s a)\<lparr>el_type := t, el_access := al\<rparr>"
  have v: "sc_element_is_valid ?e" "\<not> is_arc ?e"
    using t by (simp_all add: sc_element_is_valid_def is_arc_def)
  have "first_out_arc ?e = SC_ADDR_MAKE_EMPTY" "first_in_arc ?e = SC_ADDR_MAKE_EMPTY"
    using cell_clean_el_at [OF sok, of a] cr by (simp_all add: cell_clean_def created_def)
  from graph_ok_created(1) [OF ok cr v this] live_created [OF sok cr v(1)]
    arcs_created [OF sok cr v(1)] v(2) cr a
  show ?thesis by auto
qed

subsection \<open>Creating connectors\<close>

lemma unlock_if_eq: "unlock_if c a s = unlock_all (if c then [a] else []) s"
  by (auto simp: unlock_if_def split: Option.bind_split)

lemma arc_new_unlock_eq:
  "arc_new_unlock b f_out e f_in t FO B FI E A s =
   unlock_all ((if b \<and> f_out then [FO] else []) @ (if b then [B] else []) @
     (if e \<and> f_in then [FI] else []) @ (if e then [E] else []) @ (if t then [A] else [])) s"
  by (simp only: arc_new_unlock_def unlock_if_eq unlock_all_append [symmetric])

lemma lock_try_if_ok:
  assumes "storage_ok s" and "a = SC_ADDR_MAKE_EMPTY \<or> has_cell s a"
  shows "\<exists>s'. lock_try_if a s = Some (a \<noteq> SC_ADDR_MAKE_EMPTY, s') \<and> same_but_locks s s' \<and>
     (\<forall>k. held s' k = held s k + locks_of (if a \<noteq> SC_ADDR_MAKE_EMPTY then [a] else []) k)"
  using assms element_lock_try_ok [of s a]
  by (auto simp: lock_try_if_def same_but_locks_lock held_lock)

lemma lock_try_ok:
  assumes "storage_ok s" and "has_cell s a"
  shows "\<exists>s'. sc_storage_element_lock_try a m s = Some (SC_RESULT_OK, True, s') \<and>
     same_but_locks s s' \<and> (\<forall>k. held s' k = held s k + of_bool (sec_of a = k))"
  using assms element_lock_try_ok [OF assms, of m]
  by (auto simp: same_but_locks_lock held_lock)

definition new_arc ::
    "sc_type \<Rightarrow> sc_addr \<Rightarrow> sc_addr \<Rightarrow> sc_access_levels \<Rightarrow> sc_element \<Rightarrow> sc_element" where
  "new_arc t beg end' al e = e\<lparr>el_type := arc_type t,
     arc := zero_arc_info\<lparr>arc_begin := beg, arc_end := end'\<rparr>, el_access := al\<rparr>"

text \<open>The heap after the links are set: the new connector is at the head of both lists.\<close>

definition linked_heap ::
    "sc_addr \<Rightarrow> sc_element \<Rightarrow> sc_addr \<Rightarrow> sc_addr \<Rightarrow> (sc_addr \<Rightarrow> sc_element) \<Rightarrow> (sc_addr \<Rightarrow> sc_element)" where
  "linked_heap a e beg end' h = inn.link_front a end' (out.link_front a beg (h(a := e)))"

lemma arc_type_valid:
  "arc_type t AND sc_flag_request_deletion = 0" "arc_type t AND sc_type_arc_mask \<noteq> 0"
  "arc_type t \<noteq> 0" "t AND sc_type_link = 0 \<Longrightarrow> arc_type t AND sc_type_link = 0"
proof -
  show 1: "arc_type t AND sc_type_arc_mask \<noteq> 0"
    by (simp add: arc_type_def) (simp add: sc_bits)
  show "arc_type t \<noteq> 0" by (rule nonzero_if_and [OF 1])
  have "sc_type_arc_common AND sc_type_link = 0" by (simp add: sc_bits)
  then show "t AND sc_type_link = 0 \<Longrightarrow> arc_type t AND sc_type_link = 0"
    by (simp add: arc_type_def)
qed (simp add: arc_type_def)

lemma storage_ok_set_typed:
  assumes "storage_ok s" and "el_type (el_at s a) \<noteq> 0" and "el_type (f (el_at s a)) \<noteq> 0"
  shows "storage_ok (set_el a f s)"
proof (rule storage_ok_set_el [OF assms(1,2)])
  show "a \<noteq> SC_ADDR_MAKE_EMPTY"
  proof
    assume "a = SC_ADDR_MAKE_EMPTY"
    with assms(1,2) show False
      by (auto simp: SC_ADDR_MAKE_EMPTY_def el_at_def zero_element_def segment_ok_def
            split: option.splits dest: storage_ok_segment)
  qed
qed (use assms in \<open>simp add: cell_clean_def\<close>)

lemma el_type_set_el:
  "(\<And>e. el_type (f e) = el_type e) \<Longrightarrow> el_type (el_at (set_el a f s) x) = el_type (el_at s x)"
  by (auto simp: el_at_def set_el_def addr_eq_iff split: option.splits)

lemma arc_new_link_ok:
  assumes sok: "storage_ok s" and res: "reserved s a"
    and free: "el_type (el_at s a) = 0"
    and b: "b \<in> live s" and e: "e \<in> live s"
    and fo: "fo = first_out_arc (el_at s b)" "fo = SC_ADDR_MAKE_EMPTY \<or> fo \<in> live s"
    and fi: "fi = first_in_arc (el_at s e)" "fi = SC_ADDR_MAKE_EMPTY \<or> fi \<in> live s"
  shows "\<exists>s'. arc_new_link t b e al (fo \<noteq> SC_ADDR_MAKE_EMPTY) fo (fi \<noteq> SC_ADDR_MAKE_EMPTY) fi
               a ba ea s = Some s' \<and>
     storage_ok s' \<and> el_at s' = linked_heap a (new_arc t b e al (el_at s a)) b e (el_at s) \<and>
     refs s' = refs s \<and> held s' = held s \<and> has_cell s' = has_cell s \<and>
     cur_thread s' = cur_thread s \<and> max_loaded_segments s' = max_loaded_segments s \<and>
     segments_num s' = segments_num s \<and>
     ext_calls s' = ext_calls s @ [SC_EVENT_EMIT b ba SC_EVENT_ADD_OUTPUT_ARC a e,
                                   SC_EVENT_EMIT e ea SC_EVENT_ADD_INPUT_ARC a b]"
proof -
  let ?N = "SC_ADDR_MAKE_EMPTY" and ?h = "el_at s"
  have a: "has_cell s a" "a \<noteq> ?N" using res by (simp_all add: reserved_def)
  have b': "has_cell s b" "el_type (?h b) \<noteq> 0" "b \<noteq> a" "b \<noteq> ?N"
    and e': "has_cell s e" "el_type (?h e) \<noteq> 0" "e \<noteq> a" "e \<noteq> ?N"
    using b e free live_typed [of b s] live_typed [of e s] empty_not_live [OF sok] by auto
  have fo': "fo \<noteq> ?N \<Longrightarrow> has_cell s fo" "fo \<noteq> ?N \<Longrightarrow> el_type (?h fo) \<noteq> 0" "fo \<noteq> a"
    and fi': "fi \<noteq> ?N \<Longrightarrow> has_cell s fi" "fi \<noteq> ?N \<Longrightarrow> el_type (?h fi) \<noteq> 0" "fi \<noteq> a"
    using fo(2) fi(2) free a live_typed [of fo s] live_typed [of fi s] by auto
  have cl: "arc (?h a) = zero_arc_info" using cell_clean_el_at [OF sok, of a] free by (simp add: cell_clean_def)
  define s1 where "s1 = set_el a (\<lambda>x. x\<lparr>el_type := arc_type t,
      arc := (arc x)\<lparr>arc_begin := b, arc_end := e\<rparr>, el_access := al\<rparr>) s"
  define s3 where "s3 = ext_call (SC_EVENT_EMIT e ea SC_EVENT_ADD_INPUT_ARC a b)
      (ext_call (SC_EVENT_EMIT b ba SC_EVENT_ADD_OUTPUT_ARC a e) s1)"
  define s4 where "s4 = set_el a (\<lambda>x. x\<lparr>arc := (arc x)\<lparr>next_out_arc := fo, next_in_arc := fi\<rparr>\<rparr>) s3"
  define s5 where "s5 = (if fo \<noteq> ?N
      then set_el fo (\<lambda>x. x\<lparr>arc := (arc x)\<lparr>prev_out_arc := a\<rparr>\<rparr>) s4 else s4)"
  define s6 where "s6 = (if fi \<noteq> ?N
      then set_el fi (\<lambda>x. x\<lparr>arc := (arc x)\<lparr>prev_in_arc := a\<rparr>\<rparr>) s5 else s5)"
  define s7 where "s7 = set_el b (\<lambda>x. x\<lparr>first_out_arc := a\<rparr>) s6"
  define s8 where "s8 = set_el e (\<lambda>x. x\<lparr>first_in_arc := a\<rparr>) s7"
  have c: "has_cell s1 = has_cell s" "has_cell s3 = has_cell s" "has_cell s4 = has_cell s"
    "has_cell s5 = has_cell s" "has_cell s6 = has_cell s" "has_cell s7 = has_cell s"
    "has_cell s8 = has_cell s"
    by (simp_all add: s8_def s7_def s6_def s5_def s4_def s3_def s1_def sc_state)
  have ty: "el_type (el_at s3 x) = (if x = a then arc_type t else el_type (?h x))"
    "el_type (el_at s4 x) = el_type (el_at s3 x)" "el_type (el_at s5 x) = el_type (el_at s3 x)"
    "el_type (el_at s6 x) = el_type (el_at s3 x)" "el_type (el_at s7 x) = el_type (el_at s3 x)" for x
    using a(1) by (simp_all add: s7_def s6_def s5_def s4_def el_type_set_el)
      (simp add: s3_def s1_def sc_state)
  have "storage_ok s1"
    unfolding s1_def using sok res arc_type_valid(3)
    by (intro storage_ok_set_reserved) (auto simp: cell_clean_def)
  then have "storage_ok s3" by (simp add: s3_def sc_state)
  then have "storage_ok s4"
    unfolding s4_def using arc_type_valid(3) ty by (intro storage_ok_set_typed) simp_all
  then have "storage_ok s5"
    unfolding s5_def using fo' ty arc_type_valid(3) by (auto intro!: storage_ok_set_typed)
  then have "storage_ok s6"
    unfolding s6_def using fi' ty arc_type_valid(3) by (auto intro!: storage_ok_set_typed)
  then have "storage_ok s7"
    unfolding s7_def using b' ty arc_type_valid(3) by (intro storage_ok_set_typed) simp_all
  then have s8: "storage_ok s8"
    unfolding s8_def using e' ty arc_type_valid(3) by (intro storage_ok_set_typed) simp_all
  have run: "arc_new_link t b e al (fo \<noteq> ?N) fo (fi \<noteq> ?N) fi a ba ea s = Some s8"
  proof -
    have "el_type (el_at s3 b) \<noteq> 0" "el_type (el_at s3 e) \<noteq> 0" using b' e' ty(1) by simp_all
    with fo'(3) fi'(3) show ?thesis
      unfolding arc_new_link_def Let_def s8_def s7_def s6_def s5_def s4_def s3_def s1_def
      by (simp del: if_split)
  qed
  have heap: "el_at s8 = linked_heap a (new_arc t b e al (?h a)) b e ?h"
  proof -
    let ?no = "\<lambda>x. x\<lparr>arc := (arc x)\<lparr>next_out_arc := fo\<rparr>\<rparr>" and ?ni = "\<lambda>x. x\<lparr>arc := (arc x)\<lparr>next_in_arc := fi\<rparr>\<rparr>"
    let ?po = "\<lambda>x. x\<lparr>arc := (arc x)\<lparr>prev_out_arc := a\<rparr>\<rparr>" and ?pi = "\<lambda>x. x\<lparr>arc := (arc x)\<lparr>prev_in_arc := a\<rparr>\<rparr>"
    let ?hn = "?h(a := new_arc t b e al (?h a))"
    let ?FO = "\<lambda>h. if fo = ?N then h else upd fo ?po h" and ?FI = "\<lambda>h. if fi = ?N then h else upd fi ?pi h"
    have "el_at s1 = ?hn" using a cl by (simp add: s1_def el_at_set_el_fun new_arc_def)
    then have "el_at s4 = upd a ?ni (upd a ?no ?hn)"
      using a by (simp add: s4_def el_at_set_el_fun s3_def s1_def sc_state upd_def)
    then have "el_at s6 = ?FI (?FO (upd a ?ni (upd a ?no ?hn)))"
      using fo' fi' c by (simp add: s6_def s5_def el_at_set_el_fun upd_def)
    then have "el_at s8 = upd e (\<lambda>x. x\<lparr>first_in_arc := a\<rparr>) (upd b (\<lambda>x. x\<lparr>first_out_arc := a\<rparr>)
        (?FI (?FO (upd a ?ni (upd a ?no ?hn)))))"
      using b' e' c by (simp add: s8_def s7_def el_at_set_el_fun upd_def)
    also have "\<dots> = upd e (\<lambda>x. x\<lparr>first_in_arc := a\<rparr>) (?FI (upd a ?ni
        (upd b (\<lambda>x. x\<lparr>first_out_arc := a\<rparr>) (?FO (upd a ?no ?hn)))))"
    proof -
      have cm: "upd b (\<lambda>x. x\<lparr>first_out_arc := a\<rparr>) (upd y (\<lambda>x. x\<lparr>arc := (arc x)\<lparr>next_in_arc := v\<rparr>\<rparr>) h) =
            upd y (\<lambda>x. x\<lparr>arc := (arc x)\<lparr>next_in_arc := v\<rparr>\<rparr>) (upd b (\<lambda>x. x\<lparr>first_out_arc := a\<rparr>) h)"
        "upd b (\<lambda>x. x\<lparr>first_out_arc := a\<rparr>) (upd y ?pi h) = upd y ?pi (upd b (\<lambda>x. x\<lparr>first_out_arc := a\<rparr>) h)"
        "upd fo ?po (upd y (\<lambda>x. x\<lparr>arc := (arc x)\<lparr>next_in_arc := v\<rparr>\<rparr>) h) =
         upd y (\<lambda>x. x\<lparr>arc := (arc x)\<lparr>next_in_arc := v\<rparr>\<rparr>) (upd fo ?po h)" for y v h
        by (rule upd_commute, simp)+
      show ?thesis by (cases "fo = ?N"; cases "fi = ?N") (simp_all only: cm if_True if_False refl simp_thms)
    qed
    also have "\<dots> = linked_heap a (new_arc t b e al (?h a)) b e ?h"
    proof -
      have o: "upd b (\<lambda>x. x\<lparr>first_out_arc := a\<rparr>) (?FO (upd a ?no ?hn)) = out.link_front a b ?hn"
        using b'(3) fo(1) by (simp add: out.link_front_def Let_def)
      have "first_in_arc (out.link_front a b ?hn e) = fi" using e'(3) fi(1) by simp
      then show ?thesis by (simp add: linked_heap_def o inn.link_front_def Let_def)
    qed
    finally show ?thesis .
  qed
  show ?thesis
    using run s8 heap c(7) by (auto simp: s8_def s7_def s6_def s5_def s4_def s3_def s1_def sc_state)
qed

text \<open>What creating a connector promises.\<close>

definition arc_created ::
    "sc_type \<Rightarrow> sc_addr \<Rightarrow> sc_addr \<Rightarrow> sc_access_levels \<Rightarrow> sc_storage \<Rightarrow> sc_addr \<Rightarrow> sc_storage \<Rightarrow> bool" where
  "arc_created t b e al s a s' \<longleftrightarrow>
     storage_ok s' \<and> has_cell s' a \<and> a \<noteq> SC_ADDR_MAKE_EMPTY \<and> el_type (el_at s a) = 0 \<and>
     el_at s' = linked_heap a (new_arc t b e al (el_at s a)) b e (el_at s) \<and>
     refs s' = (refs s)(a := 1) \<and> held s' = held s \<and>
     (\<forall>c. has_cell s c \<longrightarrow> has_cell s' c) \<and>
     cur_thread s' = cur_thread s \<and> max_loaded_segments s' = max_loaded_segments s \<and>
     segments_num s' \<le> Suc (segments_num s) \<and>
     ext_calls s' = ext_calls s @
       [SC_EVENT_EMIT b (el_access (el_at s b)) SC_EVENT_ADD_OUTPUT_ARC a e,
        SC_EVENT_EMIT e (el_access (el_at s e)) SC_EVENT_ADD_INPUT_ARC a b]"

lemma first_arcs_live:
  assumes "graph_ok s" and "b \<in> live s"
  shows "first_out_arc (el_at s b) = SC_ADDR_MAKE_EMPTY \<or> first_out_arc (el_at s b) \<in> live s"
    "first_in_arc (el_at s b) = SC_ADDR_MAKE_EMPTY \<or> first_in_arc (el_at s b) \<in> live s"
proof -
  obtain xs ys where "out_list s b xs" "in_list s b ys" using graph_ok_lists [OF assms(1)] by blast
  then have "set xs \<subseteq> live s" "first_out_arc (el_at s b) = head_addr xs"
    "set ys \<subseteq> live s" "first_in_arc (el_at s b) = head_addr ys"
    using assms(2) arcs_live [of s]
    by (auto simp: out_list_def in_list_def out.chain_def inn.chain_def)
  then show "first_out_arc (el_at s b) = SC_ADDR_MAKE_EMPTY \<or> first_out_arc (el_at s b) \<in> live s"
    "first_in_arc (el_at s b) = SC_ADDR_MAKE_EMPTY \<or> first_in_arc (el_at s b) \<in> live s"
    by (auto simp: head_addr_def split: list.splits)
qed

lemma same_but_locks_live: "same_but_locks s s' \<Longrightarrow> live s' = live s"
  by (simp add: same_but_locks_def live_def)

lemma linked_heap_cong:
  assumes "\<forall>x. x \<noteq> a \<longrightarrow> h' x = h x"
  shows "linked_heap a e b c h' = linked_heap a e b c h"
proof -
  have "h'(a := e) = h(a := e)" using assms by auto
  then show ?thesis by (simp only: linked_heap_def)
qed

lemma new_arc_access: "new_arc t b e al (x\<lparr>el_access := v\<rparr>) = new_arc t b e al x"
  by (simp add: new_arc_def)

lemma arc_new_round_ok:
  assumes ok: "graph_ok s" and cap: "max_loaded_segments s \<le> int SC_ADDR_SEG_MAX"
    "int (segments_num s) < max_loaded_segments s" and b: "b \<in> live s" and e: "e \<in> live s"
  shows "\<exists>a s'. arc_new_round ctx t b e al s = Some (False, a, s') \<and> arc_created t b e al s a s'"
proof -
  let ?N = SC_ADDR_MAKE_EMPTY
  define fo where "fo = first_out_arc (el_at s b)"
  define fi where "fi = first_in_arc (el_at s e)"
  note sok = graph_ok_storage [OF ok]
  have cells: "has_cell s b" "has_cell s e" "fo = ?N \<or> has_cell s fo" "fi = ?N \<or> has_cell s fi"
    using b e first_arcs_live [OF ok b] first_arcs_live [OF ok e]
    by (auto simp: fo_def fi_def live_def)
  obtain s1 where s1: "sc_storage_element_lock_try b s_max_storage_lock_attempts s = Some (SC_RESULT_OK, True, s1)"
    "same_but_locks s s1" "\<forall>k. held s1 k = held s k + of_bool (sec_of b = k)"
    using lock_try_ok [OF sok cells(1)] by blast
  then have ok1: "storage_ok s1" "has_cell s1 e" using cells by (auto simp: same_but_locks_def)
  obtain s2 where s2: "sc_storage_element_lock_try e s_max_storage_lock_attempts s1 = Some (SC_RESULT_OK, True, s2)"
    "same_but_locks s1 s2" "\<forall>k. held s2 k = held s1 k + of_bool (sec_of e = k)"
    using lock_try_ok [OF ok1] by blast
  then have ok2: "storage_ok s2" "fo = ?N \<or> has_cell s2 fo"
    using cells s1 by (auto simp: same_but_locks_def)
  obtain s3 where s3: "lock_try_if fo s2 = Some (fo \<noteq> ?N, s3)" "same_but_locks s2 s3"
    "\<forall>k. held s3 k = held s2 k + locks_of (if fo \<noteq> ?N then [fo] else []) k"
    using lock_try_if_ok [OF ok2] by blast
  then have ok3: "storage_ok s3" "fi = ?N \<or> has_cell s3 fi"
    using cells s1 s2 by (auto simp: same_but_locks_def)
  obtain s4 where s4: "lock_try_if fi s3 = Some (fi \<noteq> ?N, s4)" "same_but_locks s3 s4"
    "\<forall>k. held s4 k = held s3 k + locks_of (if fi \<noteq> ?N then [fi] else []) k"
    using lock_try_if_ok [OF ok3] by blast
  have L4: "same_but_locks s s4" using s1 s2 s3 s4 by (blast intro: same_but_locks_trans)
  then have ok4: "storage_ok s4" "max_loaded_segments s4 \<le> int SC_ADDR_SEG_MAX"
    "int (segments_num s4) < max_loaded_segments s4"
    using cap by (auto simp: same_but_locks_def)
  obtain a s5 where s5: "sc_storage_append_el_into_segments ctx s4 = Some (Some a, s5)"
    "allocated ctx s4 a s5" "segments_num s5 \<le> Suc (segments_num s4)"
    using append_el_into_segments_total [OF ok4(1,2), of ctx] ok4(3) by auto
  let ?us = "(if fo \<noteq> ?N then [fo] else []) @ [b] @ (if fi \<noteq> ?N then [fi] else []) @ [e] @ [a]"
  have h4: "held s4 k + of_bool (sec_of a = k) = held s k + locks_of ?us k" for k
    unfolding locks_of_simps
    using spec [OF s1(3), of k] spec [OF s2(3), of k] spec [OF s3(3), of k] spec [OF s4(3), of k]
    by linarith
  have eq4: "el_at s4 = el_at s" "refs s4 = refs s" "has_cell s4 = has_cell s"
    "ext_calls s4 = ext_calls s" "cur_thread s4 = cur_thread s"
    "max_loaded_segments s4 = max_loaded_segments s" "live s4 = live s"
    using L4 same_but_locks_live [OF L4] by (auto simp: same_but_locks_def)
  have al: "storage_ok s5" "reserved s5 a" "el_type (el_at s a) = 0" "has_cell s5 a" "a \<noteq> ?N"
    "\<forall>x. x \<noteq> a \<longrightarrow> el_at s5 x = el_at s x" "\<forall>c. has_cell s c \<longrightarrow> has_cell s5 c"
    "refs s5 = (refs s)(a := 1)" "ext_calls s5 = ext_calls s" "cur_thread s5 = cur_thread s"
    "max_loaded_segments s5 = max_loaded_segments s"
    "el_at s5 a = (el_at s a)\<lparr>el_access := el_access (el_at s5 a)\<rparr>"
    using s5(2) by (auto simp: allocated_def eq4 reserved_def)
  have h5: "held s5 k = held s k + locks_of ?us k" for k
    using s5(2) h4 [of k] by (auto simp: allocated_def)
  have L5: "x \<in> live s5 \<and> el_at s5 x = el_at s x" if "x \<in> live s" for x
    using that al(3,6,7) by (auto simp: live_def sc_element_is_valid_def)
  have fo5: "fo = first_out_arc (el_at s5 b)" "fi = first_in_arc (el_at s5 e)"
    "fo = ?N \<or> fo \<in> live s5" "fi = ?N \<or> fi \<in> live s5" "b \<in> live s5" "e \<in> live s5"
    using L5 b e first_arcs_live [OF ok b] first_arcs_live [OF ok e] by (auto simp: fo_def fi_def)
  have free5: "el_type (el_at s5 a) = 0" using al(3) by (subst al(12)) simp
  obtain s6 where s6: "arc_new_link t b e al (fo \<noteq> ?N) fo (fi \<noteq> ?N) fi a
      (el_access (el_at s b)) (el_access (el_at s e)) s5 = Some s6" "storage_ok s6"
    "el_at s6 = linked_heap a (new_arc t b e al (el_at s5 a)) b e (el_at s5)"
    "refs s6 = refs s5" "held s6 = held s5" "has_cell s6 = has_cell s5"
    "cur_thread s6 = cur_thread s5" "max_loaded_segments s6 = max_loaded_segments s5"
    "segments_num s6 = segments_num s5"
    "ext_calls s6 = ext_calls s5 @ [SC_EVENT_EMIT b (el_access (el_at s b)) SC_EVENT_ADD_OUTPUT_ARC a e,
        SC_EVENT_EMIT e (el_access (el_at s e)) SC_EVENT_ADD_INPUT_ARC a b]"
    using arc_new_link_ok [OF al(1,2) free5 fo5(5,6) fo5(1,3) fo5(2,4), of t al
        "el_access (el_at s b)" "el_access (el_at s e)"] by blast
  have "\<forall>x \<in> set ?us. has_cell s6 x" using cells al(4,7) s6(6) by auto
  moreover have "\<forall>x \<in> set ?us. held s6 (sec_of x) \<ge> locks_of ?us (sec_of x)"
    using h5 s6(5) held_nonneg_cell [OF sok] by simp
  ultimately obtain s7 where s7: "unlock_all ?us s6 = Some s7" "same_but_locks s6 s7"
    "\<forall>k. held s7 k = held s6 k - locks_of ?us k"
    using unlock_all_ok [OF s6(2)] by blast
  have "el_at s6 = linked_heap a (new_arc t b e al (el_at s a)) b e (el_at s)"
    using s6(3) al(6,12) linked_heap_cong [of a "el_at s5" "el_at s"]
      new_arc_access [where x = "el_at s a" and v = "el_access (el_at s5 a)"] by metis
  moreover have "held s7 = held s"
    using s7(3) s6(5) h5 by (intro ext) (simp only:)
  moreover have "segments_num s4 = segments_num s" using L4 by (simp add: same_but_locks_def)
  ultimately have "arc_created t b e al s a s7"
    using s7(2) s6 al s5(3) by (simp add: arc_created_def same_but_locks_def)
  moreover have "arc_new_round ctx t b e al s = Some (False, a, s7)"
  proof -
    have "el_at s1 = el_at s" "el_at s2 = el_at s" "el_at s3 = el_at s"
      using s1(2) s2(2) s3(2) by (simp_all add: same_but_locks_def)
    with s1(1) s2(1) s3(1) s4(1) s5(1) s6(1) s7(1) b e show ?thesis
      by (simp add: arc_new_round_def Let_def live_def arc_new_unlock_eq flip: fo_def fi_def)
  qed
  ultimately show ?thesis by blast
qed

lemma linked_heap_sel:
  "el_type (linked_heap a x b e h y) = el_type ((h(a := x)) y)"
  "el_access (linked_heap a x b e h y) = el_access ((h(a := x)) y)"
  "arc_begin (arc (linked_heap a x b e h y)) = arc_begin (arc ((h(a := x)) y))"
  "arc_end (arc (linked_heap a x b e h y)) = arc_end (arc ((h(a := x)) y))"
  by (simp_all add: linked_heap_def)

lemma arc_created_sets:
  assumes "storage_ok s" and cr: "arc_created t b e al s a s'"
  shows "a \<notin> live s" "a \<notin> arcs s" "live s' = insert a (live s)" "arcs s' = insert a (arcs s)"
proof -
  have c: "has_cell s' a" "el_type (el_at s a) = 0" "\<And>c. has_cell s c \<Longrightarrow> has_cell s' c"
    "\<And>y. el_type (el_at s' y) = (if y = a then arc_type t else el_type (el_at s y))"
    using cr by (auto simp: arc_created_def linked_heap_sel new_arc_def)
  show "a \<notin> live s" "a \<notin> arcs s" using c(2) by (auto simp: live_def arcs_def sc_element_is_valid_def)
  show L: "live s' = insert a (live s)"
    using c typed_has_cell [OF assms(1), of s'] arc_type_valid [of t]
    by (auto simp: live_def sc_element_is_valid_def split: if_splits)
  show "arcs s' = insert a (arcs s)"
    using c \<open>a \<notin> live s\<close> arc_type_valid [of t] by (auto simp: arcs_def L is_arc_def)
qed

lemma arc_created_lists:
  assumes ok: "graph_ok s" and cr: "arc_created t b e al s a s'" and be: "b \<in> live s" "e \<in> live s"
  shows "out_list s b xs \<Longrightarrow> out_list s' b (a # xs)"
    and "in_list s e ys \<Longrightarrow> in_list s' e (a # ys)"
    and "c \<noteq> b \<Longrightarrow> out_list s c us \<Longrightarrow> out_list s' c us"
    and "c \<noteq> e \<Longrightarrow> in_list s c us \<Longrightarrow> in_list s' c us"
proof -
  note sok = graph_ok_storage [OF ok]
  note S = arc_created_sets [OF sok cr]
  let ?x = "new_arc t b e al (el_at s a)"
  let ?hn = "(el_at s)(a := ?x)"
  have h: "el_at s' = inn.link_front a e (out.link_front a b ?hn)" and a: "a \<noteq> SC_ADDR_MAKE_EMPTY"
    using cr by (simp_all add: arc_created_def linked_heap_def)
  have new: "arc_begin (arc ?x) = b" "arc_end (arc ?x) = e" "prev_out_arc (arc ?x) = SC_ADDR_MAKE_EMPTY"
    "prev_in_arc (arc ?x) = SC_ADDR_MAKE_EMPTY" "first_out_arc ?x = SC_ADDR_MAKE_EMPTY"
    "first_in_arc ?x = SC_ADDR_MAKE_EMPTY"
    using cell_clean_el_at [OF sok, of a] cr
    by (simp_all add: new_arc_def zero_arc_info_def cell_clean_def arc_created_def)
  have O: "out.chain ?hn (arcs s) (live s) = out_list s"
    unfolding out_list_def using S(1,2) by (intro out.chain_cong) auto
  have I: "inn.chain (out.link_front a b ?hn) (arcs s) (live s) = in_list s"
    unfolding in_list_def using S(1,2) by (intro inn.chain_cong) auto
  have O': "out_list s' = out.chain (out.link_front a b ?hn) (insert a (arcs s)) (insert a (live s))"
    unfolding out_list_def h S by (intro out.chain_cong) auto
  have dang: "arc_begin (arc (?hn y)) \<noteq> a" "arc_end (arc (out.link_front a b ?hn y)) \<noteq> a"
    if "y \<in> arcs s" for y
    using ok that S(1,2) by (auto simp: graph_ok_def)
  show "out_list s b xs \<Longrightarrow> out_list s' b (a # xs)"
    unfolding O' O [symmetric] using be S a new sok
    by (intro out.chain_link_front) auto
  show "in_list s e ys \<Longrightarrow> in_list s' e (a # ys)"
    unfolding in_list_def [of s'] h S I [symmetric] using be S a new sok
    by (intro inn.chain_link_front) auto
  obtain zs ws where "out_list s b zs" "in_list s e ws" using graph_ok_lists [OF ok] by blast
  then show "c \<noteq> b \<Longrightarrow> out_list s c us \<Longrightarrow> out_list s' c us"
      "c \<noteq> e \<Longrightarrow> in_list s c us \<Longrightarrow> in_list s' c us"
    unfolding O' O [symmetric] in_list_def [of s'] h S I [symmetric]
    using be S(1,2) a new sok dang
    by (auto intro: out.chain_link_front_other inn.chain_link_front_other)
qed

lemma arc_created_graph:
  assumes ok: "graph_ok s" and cr: "arc_created t b e al s a s'" and be: "b \<in> live s" "e \<in> live s"
    and t: "t AND sc_type_link = 0"
  shows "graph_ok s'"
proof -
  note S = arc_created_sets [OF graph_ok_storage [OF ok] cr]
  note lists = arc_created_lists [OF ok cr be]
  have sel: "el_type (el_at s' y) = (if y = a then arc_type t else el_type (el_at s y))"
    "arc_begin (arc (el_at s' y)) = (if y = a then b else arc_begin (arc (el_at s y)))"
    "arc_end (arc (el_at s' y)) = (if y = a then e else arc_end (arc (el_at s y)))" for y
    using cr by (auto simp: arc_created_def linked_heap_sel new_arc_def)
  show ?thesis
    unfolding graph_ok_def
  proof (intro conjI allI ballI)
    fix c
    obtain us ws where "out_list s c us" "in_list s c ws" using graph_ok_lists [OF ok] by blast
    then show "\<exists>xs. out_list s' c xs" "\<exists>xs. in_list s' c xs"
      using lists by (metis, metis)
  next
    fix x assume "x \<in> arcs s'"
    then show "arc_begin (arc (el_at s' x)) \<in> live s'" "arc_end (arc (el_at s' x)) \<in> live s'"
        "el_type (el_at s' x) AND sc_type_link = 0"
      using ok be t arc_type_valid(4) [of t] by (auto simp: S sel graph_ok_def)
  next
    fix x assume "x \<in> live s'"
    then show "refs s' x > 0" using ok cr by (auto simp: S graph_ok_def arc_created_def)
  qed (use cr in \<open>simp add: arc_created_def\<close>)
qed

lemma arc_new_ext_spec:
  assumes ok: "graph_ok s" and cap: "max_loaded_segments s \<le> int SC_ADDR_SEG_MAX"
    "int (segments_num s) < max_loaded_segments s" and be: "b \<in> live s" "e \<in> live s"
    and t: "sc_type_node AND t = 0"
  shows "\<exists>a s'. sc_storage_arc_new_ext ctx t b e al s = Some (a, s') \<and> arc_created t b e al s a s'"
proof -
  obtain a s' where r: "arc_new_round ctx t b e al s = Some (False, a, s')"
    and cr: "arc_created t b e al s a s'"
    using arc_new_round_ok [OF ok cap be] by blast
  have "b \<noteq> SC_ADDR_MAKE_EMPTY" "e \<noteq> SC_ADDR_MAKE_EMPTY" "a \<noteq> SC_ADDR_MAKE_EMPTY"
    using be empty_not_live [OF graph_ok_storage [OF ok]] cr by (auto simp: arc_created_def)
  with r cr t show ?thesis
    by (simp add: sc_storage_arc_new_ext_def arc_new_loop.simps [of ctx t b e al s])
qed

end
