(* ===== verification/Sc_Sample.thy ===== *)
theory Sc_Sample
  imports Sc_Graph
begin

text \<open>
  A concrete storage for the applications of the theorems: one segment with two nodes, a
  link and a connector from the first node to the second. Its graph is sound.
\<close>

abbreviation sample_n1 :: sc_addr where "sample_n1 \<equiv> Addr 0 1"
abbreviation sample_n2 :: sc_addr where "sample_n2 \<equiv> Addr 0 2"
abbreviation sample_arc :: sc_addr where "sample_arc \<equiv> Addr 0 3"
abbreviation sample_link :: sc_addr where "sample_link \<equiv> Addr 0 4"

definition sample_element :: "nat \<Rightarrow> sc_element" where
  "sample_element n =
     (if n = 1 then zero_element\<lparr>el_type := sc_type_node OR sc_type_const, first_out_arc := sample_arc\<rparr>
      else if n = 2 then zero_element\<lparr>el_type := sc_type_node OR sc_type_const, first_in_arc := sample_arc\<rparr>
      else if n = 3 then zero_element\<lparr>el_type := sc_type_arc_pos_const_perm,
             arc := zero_arc_info\<lparr>arc_begin := sample_n1, arc_end := sample_n2\<rparr>\<rparr>
      else if n = 4 then zero_element\<lparr>el_type := sc_type_link OR sc_type_const\<rparr>
      else zero_element)"

definition sample_segment :: sc_segment where
  "sample_segment = (sc_segment_new 0)\<lparr>seg_elements := sample_element,
     seg_meta := (\<lambda>n. if 1 \<le> n \<and> n \<le> 4 then zero_meta\<lparr>ref_count := 1\<rparr> else zero_meta),
     seg_sections := (\<lambda>_. zero_section), elements_count := 4\<rparr>"

definition sample :: sc_storage where
  "sample = \<lparr>segments = [0 \<mapsto> sample_segment], segments_num = 1, segments_cache = (\<lambda>_. None),
     segments_cache_count = 0, max_loaded_segments = 1000, cur_thread = 0, ext_calls = []\<rparr>"

definition sample_ctx :: sc_memory_context where
  "sample_ctx = \<lparr>ctx_id = 1, ctx_access = sc_access_lvl_make_max\<rparr>"

lemma sample_cell_clean: "cell_clean (sample_element n)"
  by (simp add: sample_element_def cell_clean_def zero_element_def sc_bits)

lemma sample_reserved_cell: "el_type (sample_element 0) = 0"
  by (simp add: sample_element_def zero_element_def)

lemma sample_storage_ok: "storage_ok sample"
  by (auto simp: storage_ok_def sample_def segment_ok_def sample_segment_def sample_cell_clean
        sample_reserved_cell seg_ok_def zero_section_def seg_locks_ok_def section_ok_def sc_limits)

lemma sample_el_at: "el_at sample a = (if addr_seg a = 0 then sample_element (off_ix a) else zero_element)"
  by (auto simp: el_at_def sample_def sample_segment_def unat_eq_zero)

lemma sample_refs: "refs sample a = (if addr_seg a = 0 \<and> 1 \<le> off_ix a \<and> off_ix a \<le> 4 then 1 else 0)"
  by (auto simp: refs_def meta_at_def sample_def sample_segment_def zero_meta_def unat_eq_zero)

lemma sample_live: "live sample = {sample_n1, sample_n2, sample_arc, sample_link}"
proof -
  have "has_cell sample (Addr 0 n) \<longleftrightarrow> unat n < SC_SEGMENT_ELEMENTS_COUNT" for n
    by (simp add: has_cell_def sample_def sc_limits)
  moreover have "a \<in> live sample \<longleftrightarrow> has_cell sample a \<and> addr_seg a = 0 \<and> addr_offset a \<in> {1, 2, 3, 4}" for a
    by (auto simp: live_def sample_el_at sample_element_def sc_element_is_valid_def zero_element_def
          sc_bits word_unat_eq_iff split: if_splits)
  ultimately show ?thesis
    by (auto simp: sc_limits) (metis sc_addr.collapse)+
qed

lemma sample_arcs: "arcs sample = {sample_arc}"
  by (auto simp: arcs_def sample_live sample_el_at sample_element_def is_arc_def sc_bits zero_element_def)

lemma sample_out_list: "out_list sample b (if b = sample_n1 then [sample_arc] else [])"
  by (auto simp: out_list_def out.chain_def sample_live sample_arcs sample_el_at sample_element_def
        zero_element_def zero_arc_info_def)

lemma sample_in_list: "in_list sample b (if b = sample_n2 then [sample_arc] else [])"
  by (auto simp: in_list_def inn.chain_def sample_live sample_arcs sample_el_at sample_element_def
        zero_element_def zero_arc_info_def)

lemma sample_graph_ok: "graph_ok sample"
  unfolding graph_ok_def
proof (intro conjI)
  show "\<forall>b. \<exists>xs. out_list sample b xs" "\<forall>b. \<exists>xs. in_list sample b xs"
    using sample_out_list sample_in_list by blast+
qed (auto simp: sample_storage_ok sample_arcs sample_live sample_el_at sample_element_def sample_refs
       zero_element_def sc_bits)

lemma sample_room: "max_loaded_segments sample \<le> int SC_ADDR_SEG_MAX"
  "int (segments_num sample) < max_loaded_segments sample"
  by (simp_all add: sample_def sc_limits)

lemma sample_members: "sample_n1 \<in> live sample" "sample_n2 \<in> live sample" "sample_arc \<in> live sample"
  "sample_link \<in> live sample" "sample_arc \<in> arcs sample"
  by (simp_all add: sample_live sample_arcs)

lemma sample_types:
  "sc_type_arc_mask AND sc_type_const = 0" "sc_type_node AND sc_type_arc_pos_const_perm = 0"
  "sc_type_arc_pos_const_perm AND sc_type_link = 0"
  by (simp_all add: sc_bits)

lemma sample_access:
  "sc_access_lvl_check_read c (el_access (el_at sample a))"
  "sc_access_lvl_check_write c (el_access (el_at sample a))"
  by (simp_all add: sample_el_at sample_element_def zero_element_def sc_access_lvl_check_read_def
        sc_access_lvl_check_write_def sc_access_lvl_get_read_def sc_access_lvl_get_write_def)

end
