(* ===== verification/Sc_Graph_Props.thy ===== *)
theory Sc_Graph_Props
  imports Sc_Sample
begin

text \<open>
  What creating nodes, links and connectors does, on every branch, with applications to the
  sample storage.
\<close>

subsection \<open>Nodes and links\<close>

text \<open>
  \<^verbatim>\<open>sc_storage_node_new_ext\<close> with a free segment slot returns: the new address was a
  free cell, exactly that cell changes and becomes a live node with the given type bits and
  one reference, no lock stays behind, and the graph stays sound.
\<close>

theorem node_new_creates:
  assumes "graph_ok s" and "max_loaded_segments s \<le> int SC_ADDR_SEG_MAX"
    and "int (segments_num s) < max_loaded_segments s" and "sc_type_arc_mask AND t = 0"
  shows "\<exists>a s'. sc_storage_node_new_ext ctx t al s = Some (a, s') \<and> a \<notin> live s \<and> a \<noteq> SC_ADDR_MAKE_EMPTY \<and>
     el_at s' = (el_at s)(a := (el_at s a)\<lparr>el_type := sc_flags_remove (sc_type_node OR t), el_access := al\<rparr>) \<and>
     refs s' = (refs s)(a := 1) \<and> held s' = held s \<and> ext_calls s' = ext_calls s \<and>
     live s' = insert a (live s) \<and> arcs s' = arcs s \<and> graph_ok s'"
  using new_element_spec [OF assms(1-3) new_node_type(2) [OF assms(4)] flags_remove_and(1)
      new_node_type(3) [OF assms(4)], of ctx al] assms(4)
  by (fastforce simp: sc_storage_node_new_ext_def created_def live_def sc_element_is_valid_def)

theorem node_new_creates_witness:
  "\<exists>a s'. sc_storage_node_new_ext sample_ctx sc_type_const 0 sample = Some (a, s') \<and> a \<notin> live sample \<and>
     live s' = insert a (live sample) \<and> graph_ok s'"
  using node_new_creates [OF sample_graph_ok sample_room sample_types(1), of sample_ctx 0] by blast

lemma link_type:
  fixes c :: bool
  defines "t \<equiv> sc_type_link OR (if c then sc_type_const else sc_type_var)"
  shows "t \<noteq> 0" "t AND sc_flag_request_deletion = 0" "t AND sc_type_arc_mask = 0"
  by (simp_all add: t_def sc_bits)

text \<open>
  \<^verbatim>\<open>sc_storage_link_new_ext\<close> with a free segment slot returns a fresh live link, constant
  or variable as asked, and changes nothing else.
\<close>

theorem link_new_creates:
  assumes "graph_ok s" and "max_loaded_segments s \<le> int SC_ADDR_SEG_MAX"
    and "int (segments_num s) < max_loaded_segments s"
  shows "\<exists>a s'. sc_storage_link_new_ext ctx al is_const s = Some (a, s') \<and> a \<notin> live s \<and>
     el_at s' = (el_at s)(a := (el_at s a)
       \<lparr>el_type := sc_type_link OR (if is_const then sc_type_const else sc_type_var), el_access := al\<rparr>) \<and>
     refs s' = (refs s)(a := 1) \<and> held s' = held s \<and> ext_calls s' = ext_calls s \<and>
     live s' = insert a (live s) \<and> arcs s' = arcs s \<and> graph_ok s'"
  using new_element_spec [OF assms link_type [of is_const], of ctx al]
  by (fastforce simp: sc_storage_link_new_ext_def created_def live_def sc_element_is_valid_def)

theorem link_new_creates_witness:
  "\<exists>a s'. sc_storage_link_new_ext sample_ctx 0 True sample = Some (a, s') \<and> a \<notin> live sample \<and> graph_ok s'"
  using link_new_creates [OF sample_graph_ok sample_room, of sample_ctx 0 True] by blast

text \<open>
  When as many segments exist as may be loaded, creation refuses with the empty address and
  leaves the storage alone, even if those segments still have free cells.
\<close>

theorem creation_refused_when_full:
  assumes "int (segments_num s) \<ge> max_loaded_segments s" and "sc_type_arc_mask AND t = 0"
  shows "sc_storage_node_new_ext ctx t al s = Some (SC_ADDR_MAKE_EMPTY, s) \<and>
     sc_storage_link_new_ext ctx al is_const s = Some (SC_ADDR_MAKE_EMPTY, s)"
  using assms
  by (simp add: sc_storage_node_new_ext_def sc_storage_link_new_ext_def sc_storage_append_el_into_segments_def)

theorem creation_refused_when_full_witness:
  "sc_storage_node_new_ext sample_ctx 0 0 (sample\<lparr>max_loaded_segments := 1\<rparr>) =
     Some (SC_ADDR_MAKE_EMPTY, sample\<lparr>max_loaded_segments := 1\<rparr>)"
  using creation_refused_when_full [of "sample\<lparr>max_loaded_segments := 1\<rparr>" 0 sample_ctx 0 True]
  by (simp add: sample_def)

subsection \<open>Connectors\<close>



lemma arc_new_round_dead_begin:
  assumes ok: "storage_ok s" and b: "has_cell s b" "b \<notin> live s"
  shows "arc_new_round ctx t b e al s = Some (True, SC_ADDR_MAKE_EMPTY, s)"
proof -
  have "\<not> sc_element_is_valid (el_at s b)" using b by (simp add: live_def)
  moreover have "sc_storage_element_unlock b (lock_cell b s) = Some (SC_RESULT_OK, s)"
    using element_unlock_ok [of "lock_cell b s" b] ok b(1) held_nonneg [OF ok b(1)] unlock_lock_cell [OF ok b(1)]
    by (simp add: sc_state)
  ultimately show ?thesis
    using element_lock_try_ok [OF ok b(1), of s_max_storage_lock_attempts]
    by (simp add: arc_new_round_def Let_def sc_state arc_new_unlock_eq)
qed

text \<open>
  A connector from a free or dying cell is not created: \<^verbatim>\<open>sc_storage_arc_new_ext\<close> returns
  the empty address and the storage is exactly as before.
\<close>

theorem arc_new_from_dead:
  assumes "storage_ok s" and "has_cell s b" and "b \<notin> live s" and "b \<noteq> SC_ADDR_MAKE_EMPTY"
    and "sc_type_node AND t = 0"
  shows "sc_storage_arc_new_ext ctx t b e al s = Some (SC_ADDR_MAKE_EMPTY, s)"
  using arc_new_round_dead_begin [OF assms(1-3)] assms(4,5)
  by (auto simp: sc_storage_arc_new_ext_def arc_new_loop.simps [of ctx t b e al s])

theorem arc_new_from_dead_witness:
  "sc_storage_arc_new_ext sample_ctx sc_type_arc_pos_const_perm (Addr 0 9) sample_n1 0 sample =
     Some (SC_ADDR_MAKE_EMPTY, sample)"
proof -
  have "has_cell sample (Addr 0 9)" "Addr 0 9 \<notin> live sample" "Addr 0 9 \<noteq> SC_ADDR_MAKE_EMPTY"
    by (simp_all add: has_cell_def sample_live sc_limits SC_ADDR_MAKE_EMPTY_def) (simp add: sample_def)
  from arc_new_from_dead [OF sample_storage_ok this sample_types(2), of sample_ctx sample_n1 0]
  show ?thesis .
qed

lemma arc_new_round_no_segment:
  assumes "segments s (seg_ix b) = None"
  shows "arc_new_round ctx t b e al s = Some (False, SC_ADDR_MAKE_EMPTY, s)"
  using assms by (simp add: arc_new_round_def Let_def sc_storage_element_lock_try_def)

lemma arc_new_loop_no_segment:
  assumes "arc_new_loop ctx t b e al s = Some r"
  shows "segments s (seg_ix b) \<noteq> None"
proof (rule arc_new_loop.raw_induct [OF _ assms])
  fix loop ctx t b e al s r
  assume IH: "\<And>ctx t b e al s r. loop ctx t b e al s = Some r \<Longrightarrow> segments s (seg_ix b) \<noteq> None"
    and body: "arc_new_round ctx t b e al s \<bind> (\<lambda>(should_break, a, s1).
        if should_break \<or> \<not> SC_ADDR_IS_EMPTY a then Some (a, s1) else loop ctx t b e al s1) = Some r"
  show "segments s (seg_ix b) \<noteq> None"
  proof
    assume none: "segments s (seg_ix b) = None"
    then have "loop ctx t b e al s = Some r" using body arc_new_round_no_segment [OF none] by simp
    with IH [of ctx t b e al s r] none show False by blast
  qed
qed

text \<open>
  C39. A begin element in a segment that does not exist is never found and never given up:
  \<^verbatim>\<open>sc_storage_arc_new_ext\<close> does not return.
\<close>

theorem arc_new_diverges:
  assumes "segments s (seg_ix b) = None" and "b \<noteq> SC_ADDR_MAKE_EMPTY" and "e \<noteq> SC_ADDR_MAKE_EMPTY"
    and "sc_type_node AND t = 0"
  shows "sc_storage_arc_new_ext ctx t b e al s = None"
  using arc_new_loop_no_segment [of ctx t b e al s] assms
  by (cases "arc_new_loop ctx t b e al s") (auto simp: sc_storage_arc_new_ext_def)

theorem arc_new_diverges_witness:
  "sc_storage_arc_new_ext sample_ctx sc_type_arc_pos_const_perm (Addr 7 1) sample_n1 0 sample = None"
  using arc_new_diverges [of sample "Addr 7 1" sample_n1 sc_type_arc_pos_const_perm] sample_types(2)
  by (simp add: sample_def SC_ADDR_MAKE_EMPTY_def)

end
