(* ===== verification/Sc_Refs.thy ===== *)
theory Sc_Refs
  imports Sc_Sample
begin

text \<open>
  References (\<^verbatim>\<open>sc_storage_element_ref\<close>, \<^verbatim>\<open>sc_storage_element_unref\<close>): a cell is
  erased by the call that drops its last reference and by no other.
\<close>

lemma storage_get_meta_ok:
  assumes "storage_ok s" and "has_cell s a" and "held s (sec_of a) > 0"
  shows "sc_storage_get_element_meta a s = Some (meta_at s a)"
  using assms
  by (auto elim!: has_cellE simp: sc_storage_get_element_meta_def meta_at_def held_def sec_of_def
        segment_ok_def dest!: storage_ok_segment intro!: segment_get_meta_ok)

lemma seg_update_commute:
  "sg\<lparr>seg_meta := m, seg_sections := c\<rparr> = (sg :: sc_segment)\<lparr>seg_sections := c, seg_meta := m\<rparr>"
  by (cases sg) simp

lemma unlock_set_refs_lock:
  assumes "storage_ok s" and "has_cell s a"
  shows "sc_storage_element_unlock a (set_refs a n (lock_cell a s)) = Some (SC_RESULT_OK, set_refs a n s)"
proof -
  let ?s = "set_refs a n (lock_cell a s)"
  have "storage_ok ?s" "has_cell ?s a" "held ?s (sec_of a) > 0"
    using assms held_nonneg [OF assms] by (simp_all add: sc_state)
  then have "sc_storage_element_unlock a ?s = Some (SC_RESULT_OK, unlock_cell a ?s)"
    by (rule element_unlock_ok)
  moreover have "unlock_cell a ?s = set_refs a n (unlock_cell a (lock_cell a s))"
    using assms(2)
    by (auto elim!: has_cellE simp: unlock_cell_def set_refs_def lock_cell_def put_segment_def
          set_section_def Let_def seg_update_commute)
  ultimately show ?thesis using unlock_lock_cell [OF assms] by simp
qed

text \<open>One step of the counter, up or down.\<close>

lemma ref_common_ok:
  assumes ok: "storage_ok s" and cell: "has_cell s a" and a: "a \<noteq> SC_ADDR_MAKE_EMPTY"
    and r: "refs s a > 0" and dir: "dir = 1 \<or> dir = -1"
    and n: "n = refs s a + of_int dir" "n < 0xffffffff"
  shows "sc_storage_ref_common a dir s = Some (n = 0, set_refs a n s)"
proof -
  let ?s1 = "lock_cell a s"
  have "storage_ok ?s1" "has_cell ?s1 a" "held ?s1 (sec_of a) > 0"
    using ok cell held_nonneg [OF ok cell] by (simp_all add: sc_state)
  then have "sc_storage_get_element_meta a ?s1 = Some (meta_at s a)"
    by (simp add: storage_get_meta_ok lock_cell_frame)
  moreover have "ref_count (meta_at s a) = refs s a" by (simp add: refs_def)
  ultimately show ?thesis
    using a r dir n unlock_set_refs_lock [OF ok cell, of n]
    by (auto simp: sc_storage_ref_common_def element_lock_ok [OF ok cell] Let_def)
qed

lemma element_ref_ok:
  assumes "storage_ok s" "has_cell s a" "a \<noteq> SC_ADDR_MAKE_EMPTY" "refs s a > 0"
    "refs s a + 1 < 0xffffffff"
  shows "sc_storage_element_ref a s = Some (set_refs a (refs s a + 1) s)"
  using ref_common_ok [OF assms(1-4), of 1] assms(5) by (simp add: sc_storage_element_ref_def)

subsection \<open>The last reference\<close>

lemma storage_erase_ok:
  assumes ok: "storage_ok s" and cell: "has_cell s a" and a: "a \<noteq> SC_ADDR_MAKE_EMPTY"
    and h: "held s (sec_of a) > 0"
  shows "\<exists>s'. sc_storage_erase_element_from_segment a s = Some s' \<and> storage_ok s' \<and>
     el_at s' = (el_at s)(a := zero_element) \<and> refs s' = refs s \<and> held s' = held s \<and>
     has_cell s' = has_cell s \<and> ext_calls s' = ext_calls s \<and> cur_thread s' = cur_thread s \<and>
     segments s' (seg_ix a) \<noteq> None \<and> max_loaded_segments s' = max_loaded_segments s"
proof -
  obtain sg where sg: "segments s (seg_ix a) = Some sg" and off: "off_ix a < SC_SEGMENT_ELEMENTS_COUNT"
    using cell by (rule has_cellE)
  note sok = storage_ok_segment [OF ok sg]
  have "seg_num sg = 0 \<Longrightarrow> off_ix a \<noteq> 0"
    using a sok by (auto simp: segment_ok_def SC_ADDR_MAKE_EMPTY_def addr_eq_iff word_unat_eq_iff sc_limits)
  then obtain sg' where sg': "sc_segment_erase_element (off_ix a) sg = Some sg'"
    "seg_elements sg' = (seg_elements sg)(off_ix a := zero_element)" "seg_meta sg' = seg_meta sg"
    "seg_num sg' = seg_num sg" "seg_ok sg'" "seg_locks_ok (cur_thread s) sg'"
    "seg_lock_counts sg' = seg_lock_counts sg"
    using erase_element_ok [of sg "cur_thread s" "off_ix a"] sok off h sg
    by (auto simp: segment_ok_def held_def sec_of_def)
  have "segment_ok (cur_thread s) (seg_ix a) sg'"
    using sok sg' by (auto simp: segment_ok_def cell_clean_def zero_element_def)
  then have "storage_ok (put_segment (seg_ix a) sg' s)" by (rule storage_ok_put [OF ok sg])
  moreover have "el_at (put_segment (seg_ix a) sg' s) = (el_at s)(a := zero_element)"
    using sg sg'(2) by (auto simp: el_at_def fun_eq_iff addr_eq_iff)
  moreover have "refs (put_segment (seg_ix a) sg' s) = refs s"
    "held (put_segment (seg_ix a) sg' s) = held s" "has_cell (put_segment (seg_ix a) sg' s) = has_cell s"
    using sg sg'(3,7) by (auto simp: refs_def meta_at_def held_def has_cell_def fun_eq_iff split: option.splits)
  ultimately show ?thesis
    using sg sg'(1) by (simp add: sc_storage_erase_element_from_segment_def)
qed

lemma element_unref_ok:
  assumes ok: "storage_ok s" and cell: "has_cell s a" and a: "a \<noteq> SC_ADDR_MAKE_EMPTY"
    and r: "refs s a > 0"
  shows "\<exists>s'. sc_storage_element_unref a s = Some (refs s a = 1, s') \<and> storage_ok s' \<and>
     el_at s' = (if refs s a = 1 then (el_at s)(a := zero_element) else el_at s) \<and>
     refs s' = (refs s)(a := refs s a - 1) \<and> held s' = held s \<and> has_cell s' = has_cell s \<and>
     ext_calls s' = ext_calls s \<and> cur_thread s' = cur_thread s \<and>
     max_loaded_segments s' = max_loaded_segments s"
proof -
  let ?s1 = "set_refs a (refs s a - 1) s"
  have "unat (refs s a) < 2 ^ 32" using unsigned_less [of "refs s a"] by simp
  moreover have "refs s a \<noteq> 0" using r by auto
  then have "unat (refs s a - 1) = unat (refs s a) - 1" "unat (refs s a) > 0"
    by (simp_all add: unat_minus_one unat_gt_0)
  ultimately have "refs s a - 1 < 0xffffffff" by (simp add: word_less_nat_alt)
  then have c: "sc_storage_ref_common a (-1) s = Some (refs s a - 1 = 0, ?s1)"
    using ref_common_ok [OF ok cell a r, of "-1"] by simp
  have s1: "storage_ok ?s1" "el_at ?s1 = el_at s" "refs ?s1 = (refs s)(a := refs s a - 1)"
    "held ?s1 = held s" "has_cell ?s1 = has_cell s" "ext_calls ?s1 = ext_calls s"
    "cur_thread ?s1 = cur_thread s" "max_loaded_segments ?s1 = max_loaded_segments s"
    using ok cell by (auto simp: sc_state fun_eq_iff)
  show ?thesis
  proof (cases "refs s a = 1")
    case False
    with c s1 show ?thesis by (simp add: sc_storage_element_unref_def)
  next
    case True
    let ?s2 = "lock_cell a ?s1"
    have cell1: "has_cell ?s1 a" using cell s1 by simp
    have s2: "storage_ok ?s2" "has_cell ?s2 a" "held ?s2 (sec_of a) > 0"
      using s1(1) cell1 held_nonneg [OF s1(1) cell1] by (simp_all add: sc_state)
    obtain s3 where s3: "sc_storage_erase_element_from_segment a ?s2 = Some s3" "storage_ok s3"
      "el_at s3 = (el_at ?s2)(a := zero_element)" "refs s3 = refs ?s2" "held s3 = held ?s2"
      "has_cell s3 = has_cell ?s2" "ext_calls s3 = ext_calls ?s2" "cur_thread s3 = cur_thread ?s2"
      "segments s3 (seg_ix a) \<noteq> None" "max_loaded_segments s3 = max_loaded_segments ?s2"
      using storage_erase_ok [OF s2(1,2) a s2(3)] by blast
    let ?s4 = "sc_segment_cache_append (seg_ix a) s3"
    have v: "same_view s3 ?s4" by simp
    have ok4: "storage_ok ?s4" using s3(2,9) by simp
    have v4: "el_at ?s4 = el_at s3" "refs ?s4 = refs s3" "held ?s4 = held s3" "has_cell ?s4 = has_cell s3"
      "ext_calls ?s4 = ext_calls s3" "cur_thread ?s4 = cur_thread s3"
      "max_loaded_segments ?s4 = max_loaded_segments s3"
      using v by (simp_all add: same_view_def has_cell_def fun_eq_iff)
    have h4: "has_cell ?s4 a" "held ?s4 (sec_of a) > 0" using s2 s3 v4 by simp_all
    have "sc_storage_element_unlock a ?s4 = Some (SC_RESULT_OK, unlock_cell a ?s4)"
      by (rule element_unlock_ok [OF ok4 h4])
    moreover have "held (unlock_cell a ?s4) = held s"
      using h4(1) v4(3) s3(5) s1(4) cell1 by (simp add: sc_state)
    ultimately show ?thesis
      using True c s1 s3 v4 h4 storage_ok_unlock_cell [OF ok4 h4] element_lock_ok [OF s1(1) cell1]
      by (simp add: sc_storage_element_unref_def sc_state Let_def)
  qed
qed

subsection \<open>Properties\<close>

lemma set_refs_back: "has_cell s a \<Longrightarrow> set_refs a (refs s a) (set_refs a n s) = s"
  by (auto elim!: has_cellE simp: set_refs_def refs_def meta_at_def put_segment_def fun_upd_idem)

lemma ref_unref_back:
  assumes ok: "storage_ok s" and cell: "has_cell s a" and a: "a \<noteq> SC_ADDR_MAKE_EMPTY"
    and r: "refs s a > 0" "refs s a < 0xfffffffe"
  shows "sc_storage_element_ref a s = Some (set_refs a (refs s a + 1) s)"
    "sc_storage_element_unref a (set_refs a (refs s a + 1) s) = Some (False, s)"
proof -
  let ?s1 = "set_refs a (refs s a + 1) s"
  have lt: "unat (refs s a) < 0xfffffffe" using r(2) by (simp add: word_less_nat_alt)
  then have "unat (refs s a + 1) = unat (refs s a) + 1"
    by (simp add: unat_word_ariths)
  then have n: "refs s a + 1 < 0xffffffff" "refs s a + 1 > 0" "refs s a < 0xffffffff"
    using lt by (simp_all add: word_less_nat_alt)
  show "sc_storage_element_ref a s = Some ?s1" by (rule element_ref_ok [OF ok cell a r(1) n(1)])
  have s1: "storage_ok ?s1" "has_cell ?s1 a" "refs ?s1 a = refs s a + 1"
    using ok cell by (simp_all add: sc_state)
  have "sc_storage_ref_common a (-1) ?s1 = Some (refs s a = 0, set_refs a (refs s a) ?s1)"
    using ref_common_ok [OF s1(1,2) a, of "-1" "refs s a"] n s1(3) by simp
  moreover have "refs s a \<noteq> 0" using r(1) by auto
  ultimately show "sc_storage_element_unref a ?s1 = Some (False, s)"
    by (simp add: sc_storage_element_unref_def set_refs_back [OF cell])
qed

text \<open>
  Taking a reference and dropping it again gives the storage back exactly as it was, and
  the element is not erased.
\<close>

theorem ref_unref_roundtrip:
  assumes "storage_ok s" and "has_cell s a" and "a \<noteq> SC_ADDR_MAKE_EMPTY"
    and "refs s a > 0" "refs s a < 0xfffffffe"
  shows "\<exists>s1. sc_storage_element_ref a s = Some s1 \<and> refs s1 a = refs s a + 1 \<and>
     sc_storage_element_unref a s1 = Some (False, s)"
  using ref_unref_back [OF assms] assms(2) by (simp add: sc_state)

theorem ref_unref_roundtrip_witness:
  "\<exists>s1. sc_storage_element_ref sample_n1 sample = Some s1 \<and>
        sc_storage_element_unref sample_n1 s1 = Some (False, sample)"
  using ref_unref_roundtrip [OF sample_storage_ok conjunct1 [OF live_typed [OF sample_members(1)]]]
  by (auto simp: sample_refs SC_ADDR_MAKE_EMPTY_def)

text \<open>
  \<^verbatim>\<open>sc_storage_element_unref\<close> on a referenced cell returns; it erases the cell exactly
  when it dropped the last reference, touches no other cell or count and leaves no lock.
\<close>

theorem unref_erases_on_last:
  assumes "storage_ok s" and "has_cell s a" and "a \<noteq> SC_ADDR_MAKE_EMPTY" and "refs s a > 0"
  shows "\<exists>s'. sc_storage_element_unref a s = Some (refs s a = 1, s') \<and> storage_ok s' \<and>
     el_at s' = (if refs s a = 1 then (el_at s)(a := zero_element) else el_at s) \<and>
     refs s' = (refs s)(a := refs s a - 1) \<and> held s' = held s"
  using element_unref_ok [OF assms] by blast

theorem unref_erases_on_last_witness:
  "\<exists>s'. sc_storage_element_unref sample_link sample = Some (True, s') \<and>
        el_at s' sample_link = zero_element"
  using unref_erases_on_last [OF sample_storage_ok conjunct1 [OF live_typed [OF sample_members(4)]]]
  by (auto simp: sample_refs SC_ADDR_MAKE_EMPTY_def)

end
