(* ===== verification/Sc_Free.thy ===== *)
theory Sc_Free
  imports Sc_Refs "HOL-Library.Multiset"
begin

text \<open>
  Deletion (\<^verbatim>\<open>sc_storage_element_free\<close>): the element and, transitively, every connector
  that starts or ends at something deleted are collected and locked, then unlinked and
  erased in the order in which the hash table yields them, and at last all locks go.

  A hash table of the source maps an address to the pointer to its cell; it is modelled by
  the list of its keys in order of insertion, and a key yields a null pointer exactly when
  its segment does not exist. The order in which GLib iterates over a table is the
  parameter \<open>order\<close>, of which only the fact that it is a permutation is used. The
  checksum of a link that stores its content in itself is the parameter \<open>self_sum\<close>.
\<close>

subsection \<open>Model\<close>

definition seg_present :: "sc_storage \<Rightarrow> sc_addr \<Rightarrow> bool" where
  "seg_present s a \<longleftrightarrow> segments s (seg_ix a) \<noteq> None"

definition tbl_lookup :: "sc_storage \<Rightarrow> sc_addr list \<Rightarrow> sc_addr \<Rightarrow> bool" where
  "tbl_lookup s t a \<longleftrightarrow> a \<in> set t \<and> seg_present s a"

definition tbl_insert :: "sc_addr \<Rightarrow> sc_addr list \<Rightarrow> sc_addr list" where
  "tbl_insert a t = (if a \<in> set t then t else t @ [a])"

definition free_lock ::
    "sc_addr \<Rightarrow> sc_addr list \<Rightarrow> sc_storage \<Rightarrow> (sc_addr list \<times> sc_storage) option" where
  "free_lock a lock_table s =
     (if tbl_lookup s lock_table a then Some (lock_table, s)
      else do {
        (_, s1) \<leftarrow> sc_storage_element_lock a s;
        Some (tbl_insert a lock_table, s1)
      })"

text \<open>A neighbour in a list: skipped when empty, and the pointer is asserted.\<close>

definition free_lock_neighbour ::
    "sc_addr \<Rightarrow> sc_addr list \<times> sc_storage \<Rightarrow> (sc_addr list \<times> sc_storage) option" where
  "free_lock_neighbour a p =
     (if SC_ADDR_IS_EMPTY a then Some p
      else do {
        (lt, s) \<leftarrow> free_lock a (fst p) (snd p);
        g_assert (seg_present s a);
        Some (lt, s)
      })"

definition free_lock_arc ::
    "sc_element \<Rightarrow> sc_addr list \<Rightarrow> sc_storage \<Rightarrow> (sc_addr list \<times> sc_storage) option" where
  "free_lock_arc el lock_table s =
     (if el_type el AND sc_type_arc_mask \<noteq> 0 then do {
        p1 \<leftarrow> free_lock (arc_begin (arc el)) lock_table s;
        p2 \<leftarrow> free_lock (arc_end (arc el)) (fst p1) (snd p1);
        p3 \<leftarrow> free_lock_neighbour (prev_out_arc (arc el)) p2;
        p4 \<leftarrow> free_lock_neighbour (prev_in_arc (arc el)) p3;
        p5 \<leftarrow> free_lock_neighbour (next_out_arc (arc el)) p4;
        free_lock_neighbour (next_in_arc (arc el)) p5
      }
      else Some (lock_table, s))"

text \<open>
  One of the two inner loops: \<open>nxt\<close> is the field it follows (\<^verbatim>\<open>next_out_arc\<close> or
  \<^verbatim>\<open>next_in_arc\<close>). The state is the list still to do, the two tables and the storage.
\<close>

type_synonym free_state = "sc_addr list \<times> sc_addr list \<times> sc_addr list \<times> sc_storage"

partial_function (option) free_walk ::
    "(sc_element \<Rightarrow> sc_addr) \<Rightarrow> sc_addr \<Rightarrow> free_state \<Rightarrow> free_state option" where
  "free_walk nxt a st =
     (if SC_ADDR_IS_EMPTY a then Some st
      else case st of (remove_list, remove_table, lock_table, s) \<Rightarrow>
        if tbl_lookup s remove_table a then free_walk nxt (nxt (el_at s a)) st
        else do {
          (lt, s1) \<leftarrow> free_lock a lock_table s;
          g_assert (seg_present s1 a);
          free_walk nxt (nxt (el_at s1 a)) (remove_list @ [a], tbl_insert a remove_table, lt, s1)
        })"

text \<open>
  The collecting loop. \<open>el\<close> is the element pointer of the previous round; its access
  levels are the ones checked. \<open>Inl\<close> is the jump to the label \<^verbatim>\<open>unlock\<close> with
  \<^verbatim>\<open>SC_RESULT_ERROR_NO_WRITE_RIGHTS\<close>.
\<close>

partial_function (option) free_collect ::
    "sc_memory_context \<Rightarrow> sc_addr \<Rightarrow> free_state \<Rightarrow>
     ((sc_addr list \<times> sc_storage) + (sc_addr list \<times> sc_addr list \<times> sc_storage)) option" where
  "free_collect ctx el st =
     (case st of (remove_list, remove_table, lock_table, s) \<Rightarrow>
        (case remove_list of
           [] \<Rightarrow> Some (Inr (remove_table, lock_table, s))
         | a # rest \<Rightarrow>
             if \<not> sc_access_lvl_check_write (ctx_access ctx) (el_access (el_at s el))
             then Some (Inl (lock_table, s))
             else do {
               (rt1, lt1, s1) \<leftarrow>
                 (if tbl_lookup s lock_table a then Some (remove_table, lock_table, s)
                  else do {
                    (_, s1) \<leftarrow> sc_storage_element_lock a s;
                    g_assert (seg_present s1 a);
                    g_assert (el_type (el_at s1 a) \<noteq> 0);
                    Some (tbl_insert a remove_table, tbl_insert a lock_table, s1)
                  });
               (lt2, s2) \<leftarrow> free_lock_arc (el_at s1 a) lt1 s1;
               st1 \<leftarrow> free_walk (\<lambda>e. next_out_arc (arc e)) (first_out_arc (el_at s2 a)) (rest, rt1, lt2, s2);
               st2 \<leftarrow> free_walk (\<lambda>e. next_in_arc (arc e)) (first_in_arc (el_at (snd (snd (snd st1))) a)) st1;
               free_collect ctx a st2
             }))"

text \<open>Taking a connector out of the list of its begin and of the list of its end.\<close>

definition free_relink :: "sc_addr list \<Rightarrow> sc_addr \<Rightarrow> (sc_element \<Rightarrow> sc_element) \<Rightarrow> sc_storage \<Rightarrow> sc_storage option" where
  "free_relink lock_table a f s =
     (if SC_ADDR_IS_EMPTY a then Some s
      else do { g_assert (tbl_lookup s lock_table a); Some (set_el a f s) })"

definition free_unlink_out :: "sc_addr list \<Rightarrow> sc_addr \<Rightarrow> sc_storage \<Rightarrow> sc_storage option" where
  "free_unlink_out lock_table a s = do {
     let el = el_at s a;
     let prev_arc = prev_out_arc (arc el);
     let next_arc = next_out_arc (arc el);
     let b = arc_begin (arc el);
     s1 \<leftarrow> free_relink lock_table prev_arc (\<lambda>e. e\<lparr>arc := (arc e)\<lparr>next_out_arc := next_arc\<rparr>\<rparr>) s;
     s2 \<leftarrow> free_relink lock_table next_arc (\<lambda>e. e\<lparr>arc := (arc e)\<lparr>prev_out_arc := prev_arc\<rparr>\<rparr>) s1;
     let need_unlock = \<not> tbl_lookup s2 lock_table b;
     s3 \<leftarrow> (if need_unlock then do { (_, s3) \<leftarrow> sc_storage_element_lock b s2; Some s3 } else Some s2);
     g_assert (seg_present s3 b);
     let s4 = (if a = first_out_arc (el_at s3 b)
               then set_el b (\<lambda>e. e\<lparr>first_out_arc := next_arc\<rparr>) s3 else s3);
     let s5 = ext_call (SC_EVENT_EMIT b (el_access (el_at s4 b)) SC_EVENT_REMOVE_OUTPUT_ARC a
                         (arc_end (arc (el_at s4 a)))) s4;
     unlock_if need_unlock b s5
   }"

definition free_unlink_in :: "sc_addr list \<Rightarrow> sc_addr \<Rightarrow> sc_storage \<Rightarrow> sc_storage option" where
  "free_unlink_in lock_table a s = do {
     let el = el_at s a;
     let prev_arc = prev_in_arc (arc el);
     let next_arc = next_in_arc (arc el);
     let b = arc_end (arc el);
     s1 \<leftarrow> free_relink lock_table prev_arc (\<lambda>e. e\<lparr>arc := (arc e)\<lparr>next_in_arc := next_arc\<rparr>\<rparr>) s;
     s2 \<leftarrow> free_relink lock_table next_arc (\<lambda>e. e\<lparr>arc := (arc e)\<lparr>prev_in_arc := prev_arc\<rparr>\<rparr>) s1;
     let need_unlock = \<not> tbl_lookup s2 lock_table b;
     s3 \<leftarrow> (if need_unlock then do { (_, s3) \<leftarrow> sc_storage_element_lock b s2; Some s3 } else Some s2);
     g_assert (seg_present s3 b);
     let s4 = (if a = first_in_arc (el_at s3 b)
               then set_el b (\<lambda>e. e\<lparr>first_in_arc := next_arc\<rparr>) s3 else s3);
     let s5 = ext_call (SC_EVENT_EMIT b (el_access (el_at s4 b)) SC_EVENT_REMOVE_INPUT_ARC a
                         (arc_begin (arc (el_at s4 a)))) s4;
     unlock_if need_unlock b s5
   }"

definition free_detach ::
    "(sc_element \<Rightarrow> u8 list) \<Rightarrow> sc_addr list \<Rightarrow> sc_addr \<Rightarrow> sc_storage \<Rightarrow> sc_storage option" where
  "free_detach self_sum lock_table a s =
     (let el = el_at s a in
      if el_type el AND sc_type_link \<noteq> 0 then do {
        let sum = (if el_type el AND sc_flag_link_self_container \<noteq> 0 then self_sum el
                   else take SC_CHECKSUM_LEN (content el));
        empty_sum \<leftarrow> sc_element_is_checksum_empty el;
        Some (if empty_sum then s else ext_call (SC_FS_STORAGE_REMOVE_CONTENT_ADDR a sum) s)
      }
      else if el_type el AND sc_type_arc_mask \<noteq> 0 then do {
        s1 \<leftarrow> free_unlink_out lock_table a s;
        free_unlink_in lock_table a s1
      }
      else Some s)"

definition free_erase ::
    "(sc_element \<Rightarrow> u8 list) \<Rightarrow> sc_addr list \<Rightarrow> sc_addr \<Rightarrow> sc_storage \<Rightarrow> sc_storage option" where
  "free_erase self_sum lock_table a s =
     (let el = el_at s a; acc = el_access el in
      if el_type el AND sc_flag_request_deletion \<noteq> 0 then Some s
      else do {
        s1 \<leftarrow> free_detach self_sum lock_table a s;
        let s2 = set_el a (\<lambda>e. e\<lparr>el_type := el_type e OR sc_flag_request_deletion\<rparr>) s1;
        (_, s3) \<leftarrow> sc_storage_element_unref a s2;
        let s4 = ext_call (SC_EVENT_EMIT a acc SC_EVENT_REMOVE_ELEMENT
                            SC_ADDR_MAKE_EMPTY SC_ADDR_MAKE_EMPTY) s3;
        Some (ext_call (SC_EVENT_NOTIFY_ELEMENT_DELETED a) s4)
      })"

fun free_erase_all ::
    "(sc_element \<Rightarrow> u8 list) \<Rightarrow> sc_addr list \<Rightarrow> sc_addr list \<Rightarrow> sc_storage \<Rightarrow> sc_storage option" where
  "free_erase_all self_sum lock_table [] s = Some s"
| "free_erase_all self_sum lock_table (a # as) s = do {
     s1 \<leftarrow> free_erase self_sum lock_table a s;
     free_erase_all self_sum lock_table as s1
   }"

definition sc_storage_element_free ::
    "(sc_addr list \<Rightarrow> sc_addr list) \<Rightarrow> (sc_element \<Rightarrow> u8 list) \<Rightarrow> sc_memory_context \<Rightarrow> sc_addr \<Rightarrow>
     sc_storage \<Rightarrow> (sc_result \<times> sc_storage) option" where
  "sc_storage_element_free order self_sum ctx a s = do {
     (r, s1) \<leftarrow> sc_storage_element_lock a s;
     if r \<noteq> SC_RESULT_OK then Some (SC_RESULT_ERROR, s1)
     else if el_type (el_at s1 a) = 0 \<or> el_type (el_at s1 a) AND sc_flag_request_deletion \<noteq> 0
     then do {
       (_, s2) \<leftarrow> sc_storage_element_unlock a s1;
       Some (SC_RESULT_ERROR, s2)
     }
     else do {
       c \<leftarrow> free_collect ctx a ([a], [a], [a], s1);
       (case c of
          Inl (lock_table, s2) \<Rightarrow> do {
            s3 \<leftarrow> unlock_all (order lock_table) s2;
            Some (SC_RESULT_ERROR_NO_WRITE_RIGHTS, s3)
          }
        | Inr (remove_table, lock_table, s2) \<Rightarrow> do {
            s3 \<leftarrow> free_erase_all self_sum lock_table (order remove_table) s2;
            s4 \<leftarrow> unlock_all (order lock_table) s3;
            Some (SC_RESULT_OK, s4)
          })
     }
   }"

subsection \<open>Collecting\<close>

definition incident :: "sc_storage \<Rightarrow> sc_addr \<Rightarrow> sc_addr set" where
  "incident s x = {y \<in> arcs s. arc_begin (arc (el_at s y)) = x \<or> arc_end (arc (el_at s y)) = x}"

inductive doomed :: "sc_storage \<Rightarrow> sc_addr \<Rightarrow> sc_addr \<Rightarrow> bool" for s a where
  doomed_root: "doomed s a a"
| doomed_arc: "doomed s a x \<Longrightarrow> y \<in> incident s x \<Longrightarrow> doomed s a y"

definition neighbours :: "sc_storage \<Rightarrow> sc_addr \<Rightarrow> sc_addr set" where
  "neighbours s x =
     (let r = arc (el_at s x) in
      {arc_begin r, arc_end r} \<union>
      ({prev_out_arc r, prev_in_arc r, next_out_arc r, next_in_arc r} - {SC_ADDR_MAKE_EMPTY}))"

definition locked_as :: "sc_storage \<Rightarrow> sc_addr list \<Rightarrow> sc_storage \<Rightarrow> bool" where
  "locked_as s lt s' \<longleftrightarrow> same_but_locks s s' \<and> (\<forall>k. held s' k = held s k + locks_of lt k) \<and>
     distinct lt \<and> set lt \<subseteq> live s"

lemma doomed_live: "doomed s a x \<Longrightarrow> a \<in> live s \<Longrightarrow> x \<in> live s"
  by (cases rule: doomed.cases) (use arcs_live in \<open>auto simp: incident_def\<close>)

lemma locked_as_cells:
  assumes "locked_as s lt s'" and "b \<in> live s"
  shows "storage_ok s'" "has_cell s' b" "seg_present s' b" "el_at s' = el_at s"
proof -
  show "storage_ok s'" "el_at s' = el_at s" and c: "has_cell s' b"
    using assms by (simp_all add: locked_as_def same_but_locks_def live_def)
  from c show "seg_present s' b" by (simp add: seg_present_def has_cell_def)
qed

lemma free_lock_ok:
  assumes l: "locked_as s lt s'" and b: "b \<in> live s"
  shows "\<exists>lt' s''. free_lock b lt s' = Some (lt', s'') \<and> locked_as s lt' s'' \<and>
                   set lt' = insert b (set lt)"
proof -
  note c = locked_as_cells [OF l b]
  show ?thesis
  proof (cases "b \<in> set lt")
    case True
    with l c show ?thesis by (auto simp: free_lock_def tbl_lookup_def)
  next
    case False
    have "locked_as s (lt @ [b]) (lock_cell b s')"
      using l b False same_but_locks_lock [OF c(1), of b] held_lock [OF c(2)]
      by (auto simp: locked_as_def intro: same_but_locks_trans)
    with False show ?thesis
      by (simp add: free_lock_def tbl_lookup_def tbl_insert_def element_lock_ok [OF c(1,2)])
  qed
qed

lemma free_lock_neighbour_ok:
  assumes l: "locked_as s lt s'" and b: "b = SC_ADDR_MAKE_EMPTY \<or> b \<in> live s"
  shows "\<exists>lt' s''. free_lock_neighbour b (lt, s') = Some (lt', s'') \<and> locked_as s lt' s'' \<and>
                   set lt' = set lt \<union> ({b} - {SC_ADDR_MAKE_EMPTY})"
proof (cases "b = SC_ADDR_MAKE_EMPTY")
  case False
  with b have b: "b \<in> live s" by simp
  obtain lt' s'' where "free_lock b lt s' = Some (lt', s'')" "locked_as s lt' s''"
    "set lt' = insert b (set lt)" using free_lock_ok [OF l b] by blast
  with False locked_as_cells [of s lt' s'', OF _ b] show ?thesis
    by (auto simp: free_lock_neighbour_def)
qed (use l in \<open>auto simp: free_lock_neighbour_def\<close>)

lemma neighbours_live:
  assumes "graph_ok s" and "x \<in> arcs s"
  shows "neighbours s x \<subseteq> live s"
proof -
  obtain xs ys where "out_list s (arc_begin (arc (el_at s x))) xs" "in_list s (arc_end (arc (el_at s x))) ys"
    using graph_ok_lists [OF assms(1)] by blast
  from this [unfolded out_list_def in_list_def]
  show ?thesis
    using out.chain_neighbours [OF _ assms(2)] inn.chain_neighbours [OF _ assms(2)] assms arcs_live [of s]
    unfolding graph_ok_def neighbours_def Let_def by blast
qed

lemma free_lock_arc_ok:
  assumes ok: "graph_ok s" and l: "locked_as s lt s'" and x: "x \<in> live s"
  shows "\<exists>lt' s''. free_lock_arc (el_at s x) lt s' = Some (lt', s'') \<and> locked_as s lt' s'' \<and>
     set lt' = set lt \<union> (if x \<in> arcs s then neighbours s x else {})"
proof (cases "x \<in> arcs s")
  case False
  with l x show ?thesis by (auto simp: free_lock_arc_def arcs_def is_arc_def)
next
  case True
  let ?r = "arc (el_at s x)" and ?N = "SC_ADDR_MAKE_EMPTY"
  have n: "arc_begin ?r \<in> live s" "arc_end ?r \<in> live s"
    "prev_out_arc ?r = ?N \<or> prev_out_arc ?r \<in> live s" "prev_in_arc ?r = ?N \<or> prev_in_arc ?r \<in> live s"
    "next_out_arc ?r = ?N \<or> next_out_arc ?r \<in> live s" "next_in_arc ?r = ?N \<or> next_in_arc ?r \<in> live s"
    using neighbours_live [OF ok True] by (auto simp: neighbours_def Let_def)
  obtain l1 s1 where 1: "free_lock (arc_begin ?r) lt s' = Some (l1, s1)" "locked_as s l1 s1"
    "set l1 = insert (arc_begin ?r) (set lt)" using free_lock_ok [OF l n(1)] by blast
  obtain l2 s2 where 2: "free_lock (arc_end ?r) l1 s1 = Some (l2, s2)" "locked_as s l2 s2"
    "set l2 = insert (arc_end ?r) (set l1)" using free_lock_ok [OF 1(2) n(2)] by blast
  obtain l3 s3 where 3: "free_lock_neighbour (prev_out_arc ?r) (l2, s2) = Some (l3, s3)" "locked_as s l3 s3"
    "set l3 = set l2 \<union> ({prev_out_arc ?r} - {?N})" using free_lock_neighbour_ok [OF 2(2) n(3)] by blast
  obtain l4 s4 where 4: "free_lock_neighbour (prev_in_arc ?r) (l3, s3) = Some (l4, s4)" "locked_as s l4 s4"
    "set l4 = set l3 \<union> ({prev_in_arc ?r} - {?N})" using free_lock_neighbour_ok [OF 3(2) n(4)] by blast
  obtain l5 s5 where 5: "free_lock_neighbour (next_out_arc ?r) (l4, s4) = Some (l5, s5)" "locked_as s l5 s5"
    "set l5 = set l4 \<union> ({next_out_arc ?r} - {?N})" using free_lock_neighbour_ok [OF 4(2) n(5)] by blast
  obtain l6 s6 where 6: "free_lock_neighbour (next_in_arc ?r) (l5, s5) = Some (l6, s6)" "locked_as s l6 s6"
    "set l6 = set l5 \<union> ({next_in_arc ?r} - {?N})" using free_lock_neighbour_ok [OF 5(2) n(6)] by blast
  have "el_type (el_at s x) AND sc_type_arc_mask \<noteq> 0" using True by (simp add: arcs_def is_arc_def)
  with 1(1) 2(1) 3(1) 4(1) 5(1) 6(1) have "free_lock_arc (el_at s x) lt s' = Some (l6, s6)"
    by (simp add: free_lock_arc_def)
  moreover have "set l6 = set lt \<union> neighbours s x"
    using 1(3) 2(3) 3(3) 4(3) 5(3) 6(3) by (auto simp: neighbours_def Let_def)
  ultimately show ?thesis using 6(2) True by simp
qed

text \<open>
  The inner loop walks a list \<open>xs\<close> from its head: everything on it ends up in both tables,
  and what was not yet in the table of doomed elements is queued.
\<close>

lemma free_walk_ok:
  assumes "locked_as s lt s'" and "dll (\<lambda>x. nxt (el_at s x)) pv q xs" and "set xs \<subseteq> live s"
    and "SC_ADDR_MAKE_EMPTY \<notin> set xs" and "distinct rt" and "set rt \<subseteq> set lt"
  shows "\<exists>new lt' s''. free_walk nxt (head_addr xs) (rl, rt, lt, s') = Some (rl @ new, rt @ new, lt', s'') \<and>
     locked_as s lt' s'' \<and> set lt \<subseteq> set lt' \<and> set new = set xs - set rt \<and> distinct (rt @ new) \<and>
     set (rt @ new) \<subseteq> set lt'"
  using assms
proof (induction xs arbitrary: lt s' rt rl q)
  case Nil
  then show ?case by (auto simp: free_walk.simps [of nxt "SC_ADDR_MAKE_EMPTY"])
next
  case (Cons x xs)
  have x: "x \<in> live s" "x \<noteq> SC_ADDR_MAKE_EMPTY" and nx: "nxt (el_at s x) = head_addr xs"
    and dll: "dll (\<lambda>x. nxt (el_at s x)) pv x xs" and rest: "set xs \<subseteq> live s" "SC_ADDR_MAKE_EMPTY \<notin> set xs"
    using Cons.prems by auto
  note c = locked_as_cells [OF Cons.prems(1) x(1)]
  show ?case
  proof (cases "x \<in> set rt")
    case True
    then have "tbl_lookup s' rt x" using c by (simp add: tbl_lookup_def)
    then have "free_walk nxt x (rl, rt, lt, s') = free_walk nxt (head_addr xs) (rl, rt, lt, s')"
      using x nx c(4) by (simp add: free_walk.simps [of nxt x])
    with Cons.IH [OF Cons.prems(1) dll rest Cons.prems(5,6), of rl] True show ?thesis by auto
  next
    case False
    obtain lt1 s1 where 1: "free_lock x lt s' = Some (lt1, s1)" "locked_as s lt1 s1"
      "set lt1 = insert x (set lt)" using free_lock_ok [OF Cons.prems(1) x(1)] by blast
    note c1 = locked_as_cells [OF 1(2) x(1)]
    have "distinct (rt @ [x])" "set (rt @ [x]) \<subseteq> set lt1" using Cons.prems(5,6) False 1(3) by auto
    from Cons.IH [OF 1(2) dll rest this, of "rl @ [x]"] obtain new lt' s'' where
      IH: "free_walk nxt (head_addr xs) (rl @ [x], rt @ [x], lt1, s1) =
             Some ((rl @ [x]) @ new, (rt @ [x]) @ new, lt', s'')" "locked_as s lt' s''"
        "set lt1 \<subseteq> set lt'" "set new = set xs - set (rt @ [x])" "distinct ((rt @ [x]) @ new)"
        "set ((rt @ [x]) @ new) \<subseteq> set lt'" by blast
    have "free_walk nxt x (rl, rt, lt, s') = Some (rl @ x # new, rt @ x # new, lt', s'')"
      using x nx c1(3,4) 1(1) IH(1) False
      by (simp add: free_walk.simps [of nxt x] tbl_lookup_def tbl_insert_def)
    moreover have "set (x # new) = set (x # xs) - set rt" using IH(4) False by auto
    moreover have "set lt \<subseteq> set lt'" using IH(3) 1(3) by auto
    moreover have "distinct (rt @ x # new)" "set (rt @ x # new) \<subseteq> set lt'" using IH(5,6) by simp_all
    ultimately show ?thesis using IH(2) by (metis head_addr_simps(2))
  qed
qed

text \<open>What holds at the head of the collecting loop.\<close>

definition collecting :: "sc_storage \<Rightarrow> sc_addr \<Rightarrow> free_state \<Rightarrow> bool" where
  "collecting s a st \<longleftrightarrow> (case st of (rl, rt, lt, s') \<Rightarrow>
     locked_as s lt s' \<and> distinct rl \<and> distinct rt \<and> set rl \<subseteq> set rt \<and> set rt \<subseteq> set lt \<and>
     a \<in> set rt \<and> (\<forall>x \<in> set rt. doomed s a x) \<and>
     (\<forall>x \<in> set rt - set rl. (x \<in> arcs s \<longrightarrow> neighbours s x \<subseteq> set lt) \<and> incident s x \<subseteq> set rt))"

lemma collecting_closed:
  assumes "collecting s a ([], rt, lt, s')"
  shows "set rt = {x. doomed s a x}"
proof -
  have "x \<in> set rt" if "doomed s a x" for x
    using that
  proof (induction rule: doomed.induct)
    case doomed_root
    then show ?case using assms by (simp add: collecting_def)
  next
    case (doomed_arc x y)
    then show ?case using assms unfolding collecting_def by auto
  qed
  then show ?thesis using assms by (auto simp: collecting_def)
qed

lemma collectingI:
  assumes old: "collecting s a (x # rest, rt, lt, s')"
    and new: "locked_as s lt' s''" "distinct (rt @ new)" "set (rt @ new) \<subseteq> set lt'" "set lt \<subseteq> set lt'"
      "\<And>y. y \<in> set new \<Longrightarrow> doomed s a y"
    and x: "x \<in> arcs s \<Longrightarrow> neighbours s x \<subseteq> set lt'"
      "incident s x \<subseteq> set rt \<union> set new"
  shows "collecting s a (rest @ new, rt @ new, lt', s'')"
proof -
  have rest: "set rest \<subseteq> set rt" "distinct rest" "\<forall>z \<in> set rt. doomed s a z" "a \<in> set rt"
    and fin: "\<And>z. z \<in> set rt \<Longrightarrow> z \<noteq> x \<Longrightarrow> z \<notin> set rest \<Longrightarrow>
      (z \<in> arcs s \<longrightarrow> neighbours s z \<subseteq> set lt) \<and> incident s z \<subseteq> set rt"
    using old by (simp_all add: collecting_def)
  have "(z \<in> arcs s \<longrightarrow> neighbours s z \<subseteq> set lt') \<and> incident s z \<subseteq> set (rt @ new)"
    if z: "z \<in> set (rt @ new) - set (rest @ new)" for z
  proof (cases "z = x")
    case True
    then show ?thesis using x by auto
  next
    case False
    with z fin [of z] new(4) show ?thesis by auto
  qed
  then have "\<forall>z \<in> set (rt @ new) - set (rest @ new). (z \<in> arcs s \<longrightarrow> neighbours s z \<subseteq> set lt') \<and>
      incident s z \<subseteq> set (rt @ new)" by blast
  moreover have "\<forall>z \<in> set (rt @ new). doomed s a z" using rest(3) new(5) by auto
  moreover have "distinct (rest @ new)" "set (rest @ new) \<subseteq> set (rt @ new)" "a \<in> set (rt @ new)"
    using rest new(2) by auto
  ultimately show ?thesis using new(1-3) unfolding collecting_def by (simp only: prod.case)
qed

text \<open>One round of the collecting loop.\<close>

lemma free_collect_round:
  assumes ok: "graph_ok s" and a: "a \<in> live s" and st: "collecting s a (x # rest, rt, lt, s')"
    and w: "sc_access_lvl_check_write (ctx_access ctx) (el_access (el_at s el))"
  shows "\<exists>new lt' s''. free_collect ctx el (x # rest, rt, lt, s') =
       free_collect ctx x (rest @ new, rt @ new, lt', s'') \<and>
     collecting s a (rest @ new, rt @ new, lt', s'') \<and> set new \<inter> set rt = {}"
proof -
  have l: "locked_as s lt s'" and x: "x \<in> set rt" "x \<in> set lt" "doomed s a x" "x \<notin> set rest"
    and d: "distinct rt" "set rt \<subseteq> set lt" "distinct rest" "set rest \<subseteq> set rt"
    using st by (auto simp: collecting_def)
  have xl: "x \<in> live s" by (rule doomed_live [OF x(3) a])
  note c = locked_as_cells [OF l xl]
  obtain lt2 s2 where 2: "free_lock_arc (el_at s x) lt s' = Some (lt2, s2)" "locked_as s lt2 s2"
    "set lt2 = set lt \<union> (if x \<in> arcs s then neighbours s x else {})"
    using free_lock_arc_ok [OF ok l xl] by blast
  obtain xs ys where xs: "out_list s x xs" and ys: "in_list s x ys" using graph_ok_lists [OF ok] by blast
  have fo: "first_out_arc (el_at s x) = head_addr xs" "first_in_arc (el_at s x) = head_addr ys"
    and S: "set xs = {y \<in> arcs s. arc_begin (arc (el_at s y)) = x}"
      "set ys = {y \<in> arcs s. arc_end (arc (el_at s y)) = x}"
    and dl: "dll (\<lambda>x. next_out_arc (arc (el_at s x))) (\<lambda>x. prev_out_arc (arc (el_at s x))) SC_ADDR_MAKE_EMPTY xs"
      "dll (\<lambda>x. next_in_arc (arc (el_at s x))) (\<lambda>x. prev_in_arc (arc (el_at s x))) SC_ADDR_MAKE_EMPTY ys"
    using xs ys xl by (auto simp: out_list_def in_list_def out.chain_def inn.chain_def)
  have sub: "set xs \<subseteq> live s" "set ys \<subseteq> live s" "SC_ADDR_MAKE_EMPTY \<notin> set xs" "SC_ADDR_MAKE_EMPTY \<notin> set ys"
    using S arcs_live [of s] empty_not_arc [OF graph_ok_storage [OF ok]] by auto
  have "set rt \<subseteq> set lt2" using d 2(3) by auto
  from free_walk_ok [OF 2(2) dl(1) sub(1,3) d(1) this, of rest] obtain n1 lt3 s3 where
    3: "free_walk (\<lambda>e. next_out_arc (arc e)) (head_addr xs) (rest, rt, lt2, s2) = Some (rest @ n1, rt @ n1, lt3, s3)"
      "locked_as s lt3 s3" "set lt2 \<subseteq> set lt3" "set n1 = set xs - set rt" "distinct (rt @ n1)"
      "set (rt @ n1) \<subseteq> set lt3" by blast
  from free_walk_ok [OF 3(2) dl(2) sub(2,4) 3(5,6), of "rest @ n1"] obtain n2 lt4 s4 where
    4: "free_walk (\<lambda>e. next_in_arc (arc e)) (head_addr ys) (rest @ n1, rt @ n1, lt3, s3) =
          Some ((rest @ n1) @ n2, (rt @ n1) @ n2, lt4, s4)"
      "locked_as s lt4 s4" "set lt3 \<subseteq> set lt4" "set n2 = set ys - set (rt @ n1)"
      "distinct ((rt @ n1) @ n2)" "set ((rt @ n1) @ n2) \<subseteq> set lt4" by blast
  let ?new = "n1 @ n2"
  have e2: "el_at s2 = el_at s" "el_at s3 = el_at s"
    using locked_as_cells [OF 2(2) xl] locked_as_cells [OF 3(2) xl] by simp_all
  have "free_collect ctx el (x # rest, rt, lt, s') = free_collect ctx x (rest @ ?new, rt @ ?new, lt4, s4)"
    using w c x(2) 2(1) 3(1) 4(1) fo e2
    by (simp add: free_collect.simps [of ctx el] tbl_lookup_def)
  moreover have "collecting s a (rest @ ?new, rt @ ?new, lt4, s4)"
  proof -
    have N: "set ?new = (set xs \<union> set ys) - set rt" using 3(4) 4(4) by auto
    have "doomed s a y" if "y \<in> set ?new" for y
      using that N S by (auto intro!: doomed_arc [OF x(3)] simp: incident_def)
    moreover have "neighbours s x \<subseteq> set lt4" if "x \<in> arcs s" using that 2(3) 3(3) 4(3) by auto
    moreover have "set lt \<subseteq> set lt4" using 2(3) 3(3) 4(3) by auto
    moreover have "set rest \<inter> set ?new = {}" using d(4) 4(5) by auto
    moreover have "incident s x \<subseteq> set rt \<union> set ?new" using N S by (auto simp: incident_def)
    ultimately show ?thesis
      using st 4(2,5,6) d
      by (intro collectingI [OF st]) auto
  qed
  moreover have "set ?new \<inter> set rt = {}" using 4(5) by auto
  ultimately show ?thesis by blast
qed

text \<open>
  The collecting loop ends: either it met an element that must not be written, or the table
  holds exactly the doomed elements, all locked together with their neighbours.
\<close>

definition collected ::
    "sc_memory_context \<Rightarrow> sc_storage \<Rightarrow> sc_addr \<Rightarrow>
     (sc_addr list \<times> sc_storage) + (sc_addr list \<times> sc_addr list \<times> sc_storage) \<Rightarrow> bool" where
  "collected ctx s a c \<longleftrightarrow> (case c of
      Inl (lt, s') \<Rightarrow> locked_as s lt s' \<and>
        (\<exists>x. doomed s a x \<and> \<not> sc_access_lvl_check_write (ctx_access ctx) (el_access (el_at s x)))
    | Inr (rt, lt, s') \<Rightarrow> locked_as s lt s' \<and> distinct rt \<and> set rt = {x. doomed s a x} \<and>
        set rt \<subseteq> set lt \<and> (\<forall>x \<in> set rt \<inter> arcs s. neighbours s x \<subseteq> set lt))"

lemma free_collect_total:
  assumes ok: "graph_ok s" and a: "a \<in> live s"
  shows "collecting s a (rl, rt, lt, s') \<Longrightarrow> el \<in> set rt \<Longrightarrow>
    \<exists>c. free_collect ctx el (rl, rt, lt, s') = Some c \<and> collected ctx s a c"
proof (induction "card (UNIV - (set rt - set rl))" arbitrary: rl rt lt s' el rule: less_induct)
  case less
  have l: "locked_as s lt s'" and el: "doomed s a el" using less.prems by (auto simp: collecting_def)
  have e: "el_at s' = el_at s" using locked_as_cells [OF l a] by simp
  show ?case
  proof (cases rl)
    case Nil
    have "free_collect ctx el ([], rt, lt, s') = Some (Inr (rt, lt, s'))"
      by (simp add: free_collect.simps [of ctx el])
    moreover have "set rt = {x. doomed s a x}"
      using collecting_closed less.prems(1) Nil by blast
    moreover have "distinct rt" "set rt \<subseteq> set lt" "\<forall>x \<in> set rt \<inter> arcs s. neighbours s x \<subseteq> set lt"
      using less.prems(1) Nil by (simp_all add: collecting_def)
    ultimately show ?thesis using l Nil by (simp add: collected_def)
  next
    case (Cons x rest)
    show ?thesis
    proof (cases "sc_access_lvl_check_write (ctx_access ctx) (el_access (el_at s el))")
      case False
      with Cons l el e show ?thesis
        by (auto simp: free_collect.simps [of ctx el] collected_def)
    next
      case True
      from free_collect_round [OF ok a less.prems(1) [unfolded Cons] True] obtain new lt' s'' where
        r: "free_collect ctx el (x # rest, rt, lt, s') = free_collect ctx x (rest @ new, rt @ new, lt', s'')"
          "collecting s a (rest @ new, rt @ new, lt', s'')" "set new \<inter> set rt = {}" by blast
      have x: "x \<in> set rt" "x \<notin> set rest" using less.prems(1) Cons by (auto simp: collecting_def)
      have "set (rt @ new) - set (rest @ new) = insert x (set rt - set rl)"
        using x r(3) Cons by auto
      moreover have "x \<notin> set rt - set rl" using Cons by simp
      ultimately have "UNIV - (set (rt @ new) - set (rest @ new)) \<subset> UNIV - (set rt - set rl)" by auto
      then have "card (UNIV - (set (rt @ new) - set (rest @ new))) < card (UNIV - (set rt - set rl))"
        by (rule psubset_card_mono [OF finite_sc_addr])
      from less.hyps [OF this r(2), of x] x(1) r(1) Cons show ?thesis by simp
    qed
  qed
qed

subsection \<open>Unlinking\<close>

text \<open>\<open>rewired s h cs s'\<close>: from \<open>s\<close> only elements were rewritten, to \<open>h\<close>, and the calls \<open>cs\<close> made.\<close>

definition rewired ::
    "sc_storage \<Rightarrow> (sc_addr \<Rightarrow> sc_element) \<Rightarrow> ext_call list \<Rightarrow> sc_storage \<Rightarrow> bool" where
  "rewired s h cs s' \<longleftrightarrow> storage_ok s' \<and> el_at s' = h \<and> refs s' = refs s \<and> held s' = held s \<and>
     has_cell s' = has_cell s \<and> cur_thread s' = cur_thread s \<and>
     max_loaded_segments s' = max_loaded_segments s \<and> ext_calls s' = ext_calls s @ cs"

lemma rewired_refl: "storage_ok s \<Longrightarrow> rewired s (el_at s) [] s"
  by (simp add: rewired_def)

lemma rewired_trans: "rewired s h cs s1 \<Longrightarrow> rewired s1 h' cs' s2 \<Longrightarrow> rewired s h' (cs @ cs') s2"
  by (simp add: rewired_def)

lemma rewired_set_el:
  assumes "rewired s h cs s'" and "has_cell s a" and "el_type (h a) \<noteq> 0" and "el_type (f (h a)) \<noteq> 0"
  shows "rewired s (upd a f h) cs (set_el a f s')"
  using assms
  by (auto simp: rewired_def el_at_set_el_fun upd_def set_el_frame intro!: storage_ok_set_typed)

lemma rewired_ext_call: "rewired s h cs s' \<Longrightarrow> rewired s h (cs @ [c]) (ext_call c s')"
  by (simp add: rewired_def sc_state)

lemma has_cell_present: "has_cell s a \<Longrightarrow> seg_present s a"
  by (simp add: has_cell_def seg_present_def)

lemma free_relink_ok:
  assumes r: "rewired s h cs s'" and a: "a = SC_ADDR_MAKE_EMPTY \<or> a \<in> set lt \<and> a \<in> live s"
    and h: "\<And>y. el_type (h y) = el_type (el_at s y)" and f: "\<And>e. el_type (f e) = el_type e"
  shows "\<exists>s''. free_relink lt a f s' = Some s'' \<and>
     rewired s (if a = SC_ADDR_MAKE_EMPTY then h else upd a f h) cs s''"
proof (cases "a = SC_ADDR_MAKE_EMPTY")
  case False
  with a have al: "a \<in> set lt" "has_cell s a" "el_type (el_at s a) \<noteq> 0" by (auto dest: live_typed)
  then have "tbl_lookup s' lt a" using r by (simp add: tbl_lookup_def rewired_def has_cell_present)
  with False rewired_set_el [OF r al(2), of f] al(3) h f show ?thesis
    by (simp add: free_relink_def)
qed (use r in \<open>simp add: free_relink_def\<close>)

lemma first_arc_typed:
  assumes "storage_ok s"
  shows "first_out_arc (el_at s b) \<noteq> SC_ADDR_MAKE_EMPTY \<Longrightarrow> el_type (el_at s b) \<noteq> 0"
    "first_in_arc (el_at s b) \<noteq> SC_ADDR_MAKE_EMPTY \<Longrightarrow> el_type (el_at s b) \<noteq> 0"
  using cell_clean_el_at [OF assms, of b] by (auto simp: cell_clean_def)

lemma free_unlink_out_ok:
  assumes ok: "storage_ok s" and x: "x \<noteq> SC_ADDR_MAKE_EMPTY"
    and p: "prev_out_arc (arc (el_at s x)) = SC_ADDR_MAKE_EMPTY \<or>
      prev_out_arc (arc (el_at s x)) \<in> set lt \<and> prev_out_arc (arc (el_at s x)) \<in> live s"
    and n: "next_out_arc (arc (el_at s x)) = SC_ADDR_MAKE_EMPTY \<or>
      next_out_arc (arc (el_at s x)) \<in> set lt \<and> next_out_arc (arc (el_at s x)) \<in> live s"
    and b: "arc_begin (arc (el_at s x)) \<in> set lt" "has_cell s (arc_begin (arc (el_at s x)))"
  shows "\<exists>s' cs. free_unlink_out lt x s = Some s' \<and> rewired s (out.unlink x (el_at s)) cs s'"
proof -
  let ?N = SC_ADDR_MAKE_EMPTY and ?h = "el_at s"
  define pa where "pa = prev_out_arc (arc (?h x))"
  define na where "na = next_out_arc (arc (?h x))"
  define b' where "b' = arc_begin (arc (?h x))"
  let ?fp = "\<lambda>e. e\<lparr>arc := (arc e)\<lparr>next_out_arc := na\<rparr>\<rparr>" and ?fn = "\<lambda>e. e\<lparr>arc := (arc e)\<lparr>prev_out_arc := pa\<rparr>\<rparr>"
    and ?fb = "\<lambda>e. e\<lparr>first_out_arc := na\<rparr>"
  define h1 where "h1 = (if pa = ?N then ?h else upd pa ?fp ?h)"
  define h2 where "h2 = (if na = ?N then h1 else upd na ?fn h1)"
  define h3 where "h3 = (if first_out_arc (h2 b') = x then upd b' ?fb h2 else h2)"
  have ty: "el_type (h1 y) = el_type (?h y)" "el_type (h2 y) = el_type (?h y)"
    "first_out_arc (h2 y) = first_out_arc (?h y)" for y
    by (simp_all add: h1_def h2_def upd_def)
  obtain s1 where 1: "free_relink lt pa ?fp s = Some s1" "rewired s h1 [] s1"
    using free_relink_ok [OF rewired_refl [OF ok], of pa lt ?fp] p by (auto simp: h1_def pa_def)
  obtain s2 where 2: "free_relink lt na ?fn s1 = Some s2" "rewired s h2 [] s2"
    using free_relink_ok [OF 1(2), of na lt ?fn] n ty(1) by (auto simp: h2_def na_def)
  have look: "tbl_lookup s2 lt b'" "seg_present s2 b'" "el_at s2 = h2"
    using 2(2) b by (auto simp: tbl_lookup_def rewired_def has_cell_present b'_def)
  let ?s3 = "if x = first_out_arc (h2 b') then set_el b' ?fb s2 else s2"
  have "first_out_arc (h2 b') = x \<Longrightarrow> el_type (?h b') \<noteq> 0"
    using first_arc_typed(1) [OF ok, of b'] x ty(3) by simp
  then have 3: "rewired s h3 [] ?s3"
    using 2(2) rewired_set_el [OF 2(2) b(2) [folded b'_def], of ?fb] ty(2) by (simp add: h3_def)
  have "free_unlink_out lt x s = Some (ext_call (SC_EVENT_EMIT b' (el_access (el_at ?s3 b'))
      SC_EVENT_REMOVE_OUTPUT_ARC x (arc_end (arc (el_at ?s3 x)))) ?s3)"
    using 1(1) 2(1) look
    unfolding free_unlink_out_def Let_def pa_def [symmetric] na_def [symmetric] b'_def [symmetric]
    by (simp add: unlock_if_def split del: if_split)
  moreover have "h3 = out.unlink x ?h"
    by (simp add: out.unlink_def Let_def h3_def h2_def h1_def flip: pa_def na_def b'_def)
  ultimately show ?thesis using rewired_ext_call [OF 3] by (simp split del: if_split) blast
qed

lemma free_unlink_in_ok:
  assumes ok: "storage_ok s" and x: "x \<noteq> SC_ADDR_MAKE_EMPTY"
    and p: "prev_in_arc (arc (el_at s x)) = SC_ADDR_MAKE_EMPTY \<or>
      prev_in_arc (arc (el_at s x)) \<in> set lt \<and> prev_in_arc (arc (el_at s x)) \<in> live s"
    and n: "next_in_arc (arc (el_at s x)) = SC_ADDR_MAKE_EMPTY \<or>
      next_in_arc (arc (el_at s x)) \<in> set lt \<and> next_in_arc (arc (el_at s x)) \<in> live s"
    and b: "arc_end (arc (el_at s x)) \<in> set lt" "has_cell s (arc_end (arc (el_at s x)))"
  shows "\<exists>s' cs. free_unlink_in lt x s = Some s' \<and> rewired s (inn.unlink x (el_at s)) cs s'"
proof -
  let ?N = SC_ADDR_MAKE_EMPTY and ?h = "el_at s"
  define pa where "pa = prev_in_arc (arc (?h x))"
  define na where "na = next_in_arc (arc (?h x))"
  define b' where "b' = arc_end (arc (?h x))"
  let ?fp = "\<lambda>e. e\<lparr>arc := (arc e)\<lparr>next_in_arc := na\<rparr>\<rparr>" and ?fn = "\<lambda>e. e\<lparr>arc := (arc e)\<lparr>prev_in_arc := pa\<rparr>\<rparr>"
    and ?fb = "\<lambda>e. e\<lparr>first_in_arc := na\<rparr>"
  define h1 where "h1 = (if pa = ?N then ?h else upd pa ?fp ?h)"
  define h2 where "h2 = (if na = ?N then h1 else upd na ?fn h1)"
  define h3 where "h3 = (if first_in_arc (h2 b') = x then upd b' ?fb h2 else h2)"
  have ty: "el_type (h1 y) = el_type (?h y)" "el_type (h2 y) = el_type (?h y)"
    "first_in_arc (h2 y) = first_in_arc (?h y)" for y
    by (simp_all add: h1_def h2_def upd_def)
  obtain s1 where 1: "free_relink lt pa ?fp s = Some s1" "rewired s h1 [] s1"
    using free_relink_ok [OF rewired_refl [OF ok], of pa lt ?fp] p by (auto simp: h1_def pa_def)
  obtain s2 where 2: "free_relink lt na ?fn s1 = Some s2" "rewired s h2 [] s2"
    using free_relink_ok [OF 1(2), of na lt ?fn] n ty(1) by (auto simp: h2_def na_def)
  have look: "tbl_lookup s2 lt b'" "seg_present s2 b'" "el_at s2 = h2"
    using 2(2) b by (auto simp: tbl_lookup_def rewired_def has_cell_present b'_def)
  let ?s3 = "if x = first_in_arc (h2 b') then set_el b' ?fb s2 else s2"
  have "first_in_arc (h2 b') = x \<Longrightarrow> el_type (?h b') \<noteq> 0"
    using first_arc_typed(2) [OF ok, of b'] x ty(3) by simp
  then have 3: "rewired s h3 [] ?s3"
    using 2(2) rewired_set_el [OF 2(2) b(2) [folded b'_def], of ?fb] ty(2) by (simp add: h3_def)
  have "free_unlink_in lt x s = Some (ext_call (SC_EVENT_EMIT b' (el_access (el_at ?s3 b'))
      SC_EVENT_REMOVE_INPUT_ARC x (arc_begin (arc (el_at ?s3 x)))) ?s3)"
    using 1(1) 2(1) look
    unfolding free_unlink_in_def Let_def pa_def [symmetric] na_def [symmetric] b'_def [symmetric]
    by (simp add: unlock_if_def split del: if_split)
  moreover have "h3 = inn.unlink x ?h"
    by (simp add: inn.unlink_def Let_def h3_def h2_def h1_def flip: pa_def na_def b'_def)
  ultimately show ?thesis using rewired_ext_call [OF 3] by (simp split del: if_split) blast
qed

subsection \<open>Erasing\<close>

text \<open>The part of an element that unlinking its neighbours leaves alone.\<close>

definition same_core :: "sc_element \<Rightarrow> sc_element \<Rightarrow> bool" where
  "same_core e e' \<longleftrightarrow> el_type e' = el_type e \<and> el_access e' = el_access e \<and> content e' = content e \<and>
     arc_begin (arc e') = arc_begin (arc e) \<and> arc_end (arc e') = arc_end (arc e)"

lemma same_core_refl [simp]: "same_core e e"
  by (simp add: same_core_def)

lemma same_core_trans: "same_core e e1 \<Longrightarrow> same_core e1 e2 \<Longrightarrow> same_core e e2"
  by (simp add: same_core_def)

lemma same_core_unlink: "same_core (h y) (inn.unlink x (out.unlink x h) y)"
  by (simp add: same_core_def out.unlink_sel(1) inn.unlink_sel(1))

text \<open>
  \<open>erased s D lt E s'\<close>: of the doomed elements \<open>D\<close> of \<open>s\<close> those in \<open>E\<close> are gone from
  \<open>s'\<close>; every list is the old list without them, and what is still to be unlinked has its
  neighbours in the lock table.
\<close>

definition erased ::
    "sc_storage \<Rightarrow> sc_addr set \<Rightarrow> sc_addr list \<Rightarrow> sc_addr set \<Rightarrow> sc_storage \<Rightarrow> bool" where
  "erased s D lt E s' \<longleftrightarrow>
     storage_ok s' \<and> has_cell s' = has_cell s \<and> cur_thread s' = cur_thread s \<and>
     max_loaded_segments s' = max_loaded_segments s \<and>
     (\<forall>k. held s' k = held s k + locks_of lt k) \<and>
     live s' = live s - E \<and>
     (\<forall>y \<in> live s - E. same_core (el_at s y) (el_at s' y) \<and> refs s' y = refs s y) \<and>
     (\<forall>b xs. out_list s b xs \<longrightarrow>
        out.chain (el_at s') (arcs s - E) (live s - E) b (filter (\<lambda>y. y \<notin> E) xs)) \<and>
     (\<forall>b xs. in_list s b xs \<longrightarrow>
        inn.chain (el_at s') (arcs s - E) (live s - E) b (filter (\<lambda>y. y \<notin> E) xs)) \<and>
     (\<forall>x \<in> (D - E) \<inter> arcs s. neighbours s' x \<subseteq> set lt)"

lemma erased_arcs:
  assumes "erased s D lt E s'"
  shows "arcs s' = arcs s - E"
  using assms arcs_live [of s]
  by (auto simp: arcs_def erased_def same_core_def is_arc_def)

text \<open>A heap that differs from the unlinked one only at \<open>x\<close>.\<close>

lemma chain_after_unlink:
  assumes ok: "storage_ok s" and ch: "out.chains h A L" "inn.chains h A L"
    and h': "\<And>y. y \<noteq> x \<Longrightarrow> h' y = (if x \<in> A then inn.unlink x (out.unlink x h) y else h y)"
  shows "out.chain h A L b xs \<Longrightarrow> out.chain h' (A - {x}) (L - {x}) b (filter (\<lambda>y. y \<noteq> x) xs)"
    and "inn.chain h A L b xs \<Longrightarrow> inn.chain h' (A - {x}) (L - {x}) b (filter (\<lambda>y. y \<noteq> x) xs)"
proof -
  let ?f = "filter (\<lambda>y. y \<noteq> x) xs" and ?u = "if x \<in> A then inn.unlink x (out.unlink x h) else h"
  have eq: "h' y = ?u y" if "y \<noteq> x" for y using h' [OF that] by simp
  have cong: "out.chain h' (A - {x}) (L - {x}) = out.chain ?u (A - {x}) (L - {x})"
    "inn.chain h' (A - {x}) (L - {x}) = inn.chain ?u (A - {x}) (L - {x})"
    using eq by (intro out.chain_cong inn.chain_cong; simp)+
  have skip: "?f = xs" if "x \<notin> A" "set xs \<subseteq> A" using that by (auto simp: filter_id_conv)
  show "out.chain h' (A - {x}) (L - {x}) b ?f" if c: "out.chain h A L b xs"
  proof (cases "x \<in> A")
    case True
    have "out.chain (out.unlink x h) (A - {x}) L b ?f"
      by (rule out.chain_unlink_filter [OF ch(1) True c])
    then have "out.chain (inn.unlink x (out.unlink x h)) (A - {x}) L b ?f"
      by (subst out.chain_cong) simp_all
    with True show ?thesis by (simp add: cong out.chain_drop_owner)
  next
    case False
    then have f: "?f = xs" using c by (intro skip) (auto simp: out.chain_def)
    have "out.chain ?u (A - {x}) (L - {x}) b xs"
      using False c by (simp add: out.chain_drop_owner)
    then show ?thesis by (simp only: cong f)
  qed
  show "inn.chain h' (A - {x}) (L - {x}) b ?f" if c: "inn.chain h A L b xs"
  proof (cases "x \<in> A")
    case True
    have eq: "inn.chain (out.unlink x h) A L = inn.chain h A L" by (rule inn.chain_cong) simp_all
    have "inn.chain (inn.unlink x (out.unlink x h)) (A - {x}) L b ?f"
      using ch(2) c True by (intro inn.chain_unlink_filter) (simp_all add: eq inn.chains_def)
    with True show ?thesis by (simp add: cong inn.chain_drop_owner)
  next
    case False
    then have f: "?f = xs" using c by (intro skip) (auto simp: inn.chain_def)
    have "inn.chain ?u (A - {x}) (L - {x}) b xs"
      using False c by (simp add: inn.chain_drop_owner)
    then show ?thesis by (simp only: cong f)
  qed
qed

lemma live_same_types:
  "has_cell s' = has_cell s \<Longrightarrow> (\<And>y. el_type (el_at s' y) = el_type (el_at s y)) \<Longrightarrow> live s' = live s"
  by (simp add: live_def sc_element_is_valid_def)

lemma free_detach_ok:
  assumes ok: "storage_ok s" and ch: "out.chains (el_at s) (arcs s) (live s)"
      "inn.chains (el_at s) (arcs s) (live s)"
    and x: "x \<in> live s"
    and arc: "x \<in> arcs s \<Longrightarrow> el_type (el_at s x) AND sc_type_link = 0 \<and> neighbours s x \<subseteq> set lt \<and>
      has_cell s (arc_begin (arc (el_at s x))) \<and> has_cell s (arc_end (arc (el_at s x)))"
  shows "\<exists>s' cs. free_detach self_sum lt x s = Some s' \<and>
    rewired s (if x \<in> arcs s then inn.unlink x (out.unlink x (el_at s)) else el_at s) cs s'"
proof (cases "x \<in> arcs s")
  case False
  then have na: "el_type (el_at s x) AND sc_type_arc_mask = 0" using x by (simp add: arcs_def is_arc_def)
  show ?thesis
    using False na rewired_refl [OF ok] rewired_ext_call [OF rewired_refl [OF ok]]
    by (auto simp: free_detach_def Let_def sc_element_is_checksum_empty_def)
next
  case True
  let ?r = "arc (el_at s x)" and ?N = SC_ADDR_MAKE_EMPTY
  note nb = arc [OF True]
  obtain xs ys where "out.chain (el_at s) (arcs s) (live s) (arc_begin ?r) xs"
    "inn.chain (el_at s) (arcs s) (live s) (arc_end ?r) ys"
    using ch unfolding out.chains_def inn.chains_def by blast
  note cn = out.chain_neighbours [OF this(1) True] inn.chain_neighbours [OF this(2) True]
  have xN: "x \<noteq> ?N" using x empty_not_live [OF ok] by auto
  have "prev_out_arc ?r = ?N \<or> prev_out_arc ?r \<in> set lt \<and> prev_out_arc ?r \<in> live s"
    "next_out_arc ?r = ?N \<or> next_out_arc ?r \<in> set lt \<and> next_out_arc ?r \<in> live s"
    "arc_begin ?r \<in> set lt"
    using nb cn arcs_live [of s] by (auto simp: neighbours_def Let_def)
  from free_unlink_out_ok [OF ok xN this] nb obtain s1 cs1 where
    1: "free_unlink_out lt x s = Some s1" "rewired s (out.unlink x (el_at s)) cs1 s1" by blast
  have e1: "el_at s1 = out.unlink x (el_at s)" "storage_ok s1" "has_cell s1 = has_cell s"
    using 1(2) by (simp_all add: rewired_def)
  have L1: "live s1 = live s" using e1 by (intro live_same_types) simp_all
  have "prev_in_arc (arc (el_at s1 x)) = ?N \<or>
      prev_in_arc (arc (el_at s1 x)) \<in> set lt \<and> prev_in_arc (arc (el_at s1 x)) \<in> live s1"
    "next_in_arc (arc (el_at s1 x)) = ?N \<or>
      next_in_arc (arc (el_at s1 x)) \<in> set lt \<and> next_in_arc (arc (el_at s1 x)) \<in> live s1"
    "arc_end (arc (el_at s1 x)) \<in> set lt" "has_cell s1 (arc_end (arc (el_at s1 x)))"
    using nb cn arcs_live [of s] by (auto simp: neighbours_def Let_def L1 e1)
  from free_unlink_in_ok [OF e1(2) xN this] obtain s2 cs2 where
    2: "free_unlink_in lt x s1 = Some s2" "rewired s1 (inn.unlink x (el_at s1)) cs2 s2" by blast
  have "el_type (el_at s x) AND sc_type_arc_mask \<noteq> 0" using True by (simp add: arcs_def is_arc_def)
  with 1(1) 2(1) nb have "free_detach self_sum lt x s = Some s2"
    by (simp add: free_detach_def Let_def)
  with rewired_trans [OF 1(2) 2(2)] True e1(1) show ?thesis by auto
qed

text \<open>The deletion flag and the reference: afterwards \<open>x\<close> is not live, whatever happens to its cell.\<close>

lemma free_mark_ok:
  assumes r: "rewired s h cs s1" and x: "has_cell s x" "x \<noteq> SC_ADDR_MAKE_EMPTY" "refs s x > 0"
    and h: "el_type (h x) \<noteq> 0"
  defines "s2 \<equiv> set_el x (\<lambda>e. e\<lparr>el_type := el_type e OR sc_flag_request_deletion\<rparr>) s1"
  shows "\<exists>n s3. sc_storage_element_unref x s2 = Some (n, s3) \<and> storage_ok s3 \<and>
     (\<forall>y. y \<noteq> x \<longrightarrow> el_at s3 y = h y \<and> refs s3 y = refs s y) \<and> \<not> sc_element_is_valid (el_at s3 x) \<and>
     held s3 = held s \<and> has_cell s3 = has_cell s \<and> cur_thread s3 = cur_thread s \<and>
     max_loaded_segments s3 = max_loaded_segments s"
proof -
  let ?f = "\<lambda>e. e\<lparr>el_type := el_type e OR sc_flag_request_deletion\<rparr>"
  have "el_type (h x) OR sc_flag_request_deletion \<noteq> 0" using h by (simp add: or_eq_0_iff)
  then have 2: "rewired s (upd x ?f h) cs s2"
    unfolding s2_def using rewired_set_el [OF r x(1), of ?f] h by simp
  then have s2: "storage_ok s2" "has_cell s2 x" "refs s2 x > 0" using x by (simp_all add: rewired_def)
  have fl: "(t OR sc_flag_request_deletion) AND sc_flag_request_deletion \<noteq> 0" for t :: sc_type
    by simp (simp add: sc_flag_request_deletion_def)
  from element_unref_ok [OF s2(1,2) x(2) s2(3)] 2 fl [of "el_type (h x)"] show ?thesis
    by (auto simp: rewired_def upd_def sc_element_is_valid_def zero_element_def)
qed

lemma neighbours_after_unlink:
  assumes y: "y \<noteq> x" "el_at s' y = inn.unlink x (out.unlink x (el_at s)) y"
    and n: "neighbours s x \<subseteq> S" "neighbours s y \<subseteq> S"
  shows "neighbours s' y \<subseteq> S"
proof -
  have "arc_begin (arc (el_at s' y)) = arc_begin (arc (el_at s y))"
    "arc_end (arc (el_at s' y)) = arc_end (arc (el_at s y))"
    "next_out_arc (arc (el_at s' y)) \<in> {next_out_arc (arc (el_at s y)), next_out_arc (arc (el_at s x))}"
    "prev_out_arc (arc (el_at s' y)) \<in> {prev_out_arc (arc (el_at s y)), prev_out_arc (arc (el_at s x))}"
    "next_in_arc (arc (el_at s' y)) \<in> {next_in_arc (arc (el_at s y)), next_in_arc (arc (el_at s x))}"
    "prev_in_arc (arc (el_at s' y)) \<in> {prev_in_arc (arc (el_at s y)), prev_in_arc (arc (el_at s x))}"
    by (simp_all add: y(2) out.unlink_sel inn.unlink_sel)
  moreover have "neighbours u z = {arc_begin (arc (el_at u z)), arc_end (arc (el_at u z))} \<union>
      ({prev_out_arc (arc (el_at u z))} - {SC_ADDR_MAKE_EMPTY}) \<union> ({prev_in_arc (arc (el_at u z))} - {SC_ADDR_MAKE_EMPTY}) \<union>
      ({next_out_arc (arc (el_at u z))} - {SC_ADDR_MAKE_EMPTY}) \<union> ({next_in_arc (arc (el_at u z))} - {SC_ADDR_MAKE_EMPTY})" for u z
    by (auto simp: neighbours_def Let_def)
  ultimately have "neighbours s' y \<subseteq> neighbours s x \<union> neighbours s y" by (simp only:) blast
  with n show ?thesis by blast
qed

lemma erased_chains:
  assumes ok: "graph_ok s" and er: "erased s D lt E s'"
  shows "out.chains (el_at s') (arcs s') (live s')" "inn.chains (el_at s') (arcs s') (live s')"
proof -
  have "live s' = live s - E" "storage_ok s'" using er by (simp_all add: erased_def)
  with erased_arcs [OF er] er graph_ok_lists [OF ok]
  show "out.chains (el_at s') (arcs s') (live s')" "inn.chains (el_at s') (arcs s') (live s')"
    unfolding out.chains_def inn.chains_def erased_def by (metis empty_not_arc)+
qed

lemma free_erase_ok:
  assumes ok: "graph_ok s" and er: "erased s D lt E s'" and x: "x \<in> D" "x \<notin> E" "x \<in> live s"
    and lt: "\<And>b. b \<in> live s \<Longrightarrow> has_cell s b"
  shows "\<exists>s''. free_erase self_sum lt x s' = Some s'' \<and> erased s D lt (insert x E) s''"
proof -
  let ?h = "el_at s'"
  have e: "storage_ok s'" "has_cell s' = has_cell s" "live s' = live s - E" "x \<in> live s'"
    "\<forall>y \<in> live s - E. same_core (el_at s y) (?h y) \<and> refs s' y = refs s y"
    using er x by (simp_all add: erased_def)
  note A = erased_arcs [OF er] and ch = erased_chains [OF ok er]
  have c: "same_core (el_at s x) (?h x)" "refs s' x > 0" using e(5) x ok by (auto simp: graph_ok_def)
  have arc: "el_type (?h x) AND sc_type_link = 0 \<and> neighbours s' x \<subseteq> set lt \<and>
      has_cell s' (arc_begin (arc (?h x))) \<and> has_cell s' (arc_end (arc (?h x)))" if "x \<in> arcs s'"
  proof -
    have "x \<in> arcs s" using that A by simp
    then show ?thesis using ok er x c(1) e(2) lt by (auto simp: graph_ok_def erased_def same_core_def)
  qed
  let ?u = "if x \<in> arcs s' then inn.unlink x (out.unlink x ?h) else ?h"
  obtain s1 cs where 1: "free_detach self_sum lt x s' = Some s1" "rewired s' ?u cs s1"
    using free_detach_ok [OF e(1) ch e(4) arc, of self_sum] by blast
  have xs: "has_cell s' x" "x \<noteq> SC_ADDR_MAKE_EMPTY" "sc_element_is_valid (?h x)"
    using e(4) empty_not_live [OF e(1)] by (auto simp: live_def)
  have core: "same_core (?h y) (?u y)" for y by (simp add: same_core_unlink)
  then have "el_type (?u x) \<noteq> 0" using xs(3) by (simp add: same_core_def sc_element_is_valid_def)
  from free_mark_ok [where h = ?u, OF 1(2) xs(1,2) c(2) this] obtain n s3 where
    3: "sc_storage_element_unref x (set_el x (\<lambda>e. e\<lparr>el_type := el_type e OR sc_flag_request_deletion\<rparr>) s1) =
          Some (n, s3)" "storage_ok s3"
      "\<forall>y. y \<noteq> x \<longrightarrow> el_at s3 y = ?u y \<and> refs s3 y = refs s' y" "\<not> sc_element_is_valid (el_at s3 x)"
      "held s3 = held s'" "has_cell s3 = has_cell s'" "cur_thread s3 = cur_thread s'"
      "max_loaded_segments s3 = max_loaded_segments s'" by blast
  define s4 where "s4 = ext_call (SC_EVENT_NOTIFY_ELEMENT_DELETED x)
      (ext_call (SC_EVENT_EMIT x (el_access (?h x)) SC_EVENT_REMOVE_ELEMENT
         SC_ADDR_MAKE_EMPTY SC_ADDR_MAKE_EMPTY) s3)"
  have "free_erase self_sum lt x s' = Some s4"
    using 1(1) 3(1) xs(3) by (simp add: free_erase_def Let_def s4_def sc_element_is_valid_def)
  moreover have "erased s D lt (insert x E) s4"
    unfolding erased_def
  proof (intro conjI allI ballI impI)
    have e4: "el_at s4 = el_at s3" "has_cell s4 = has_cell s" "refs s4 = refs s3"
      using 3(6) e(2) by (simp_all add: s4_def sc_state)
    have ty: "el_type (el_at s4 y) = el_type (?h y)" if "y \<noteq> x" for y
      using 3(3) core [of y] that by (simp add: e4 same_core_def)
    have "y \<in> live s4 \<longleftrightarrow> y \<in> live s' \<and> y \<noteq> x" for y
      using ty [of y] 3(4) by (cases "y = x") (auto simp: live_def e4 e(2) sc_element_is_valid_def)
    then show L: "live s4 = live s - insert x E" using e(3) by auto
    have f: "filter (\<lambda>y. y \<notin> insert x E) ys = filter (\<lambda>y. y \<noteq> x) (filter (\<lambda>y. y \<notin> E) ys)" for ys
      by (simp add: conj_commute)
    have dif: "arcs s - insert x E = arcs s' - {x}" "live s - insert x E = live s' - {x}"
      using A e(3) by auto
    have h4: "el_at s4 y = (if x \<in> arcs s' then inn.unlink x (out.unlink x ?h) y else ?h y)" if "y \<noteq> x" for y
      using 3(3) that by (simp add: e4)
    fix b ys
    show "out.chain (el_at s4) (arcs s - insert x E) (live s - insert x E) b (filter (\<lambda>y. y \<notin> insert x E) ys)"
      if "out_list s b ys"
      unfolding dif f using er that A e(3)
      by (intro chain_after_unlink(1) [OF e(1) ch h4]) (simp_all add: erased_def)
    show "inn.chain (el_at s4) (arcs s - insert x E) (live s - insert x E) b (filter (\<lambda>y. y \<notin> insert x E) ys)"
      if "in_list s b ys"
      unfolding dif f using er that A e(3)
      by (intro chain_after_unlink(2) [OF e(1) ch h4]) (simp_all add: erased_def)
    fix y
    show "same_core (el_at s y) (el_at s4 y)" if "y \<in> live s - insert x E"
      using e(5) 3(3) core [of y] that by (auto simp: e4 intro: same_core_trans)
    show "refs s4 y = refs s y" if "y \<in> live s - insert x E"
      using e(5) 3(3) that by (auto simp: e4)
    show "neighbours s4 y \<subseteq> set lt" if "y \<in> (D - insert x E) \<inter> arcs s"
    proof -
      have y: "neighbours s' y \<subseteq> set lt" "y \<noteq> x" using that er by (auto simp: erased_def)
      show ?thesis
      proof (cases "x \<in> arcs s'")
        case True
        then have "el_at s4 y = inn.unlink x (out.unlink x ?h) y" using h4 [OF y(2)] by simp
        from neighbours_after_unlink [OF y(2) this _ y(1)] arc [OF True] show ?thesis by blast
      next
        case False
        with y h4 [OF y(2)] show ?thesis by (simp add: neighbours_def)
      qed
    qed
  qed (use er 3(2,5-8) in \<open>simp_all add: s4_def sc_state erased_def del: split_paired_All\<close>)
  ultimately show ?thesis by blast
qed

lemma free_erase_all_ok:
  assumes ok: "graph_ok s" and D: "D \<subseteq> live s"
  shows "erased s D lt E s' \<Longrightarrow> distinct xs \<Longrightarrow> set xs \<subseteq> D - E \<Longrightarrow>
    \<exists>s''. free_erase_all self_sum lt xs s' = Some s'' \<and> erased s D lt (E \<union> set xs) s''"
proof (induction xs arbitrary: E s')
  case (Cons x xs)
  have "\<exists>s1. free_erase self_sum lt x s' = Some s1 \<and> erased s D lt (insert x E) s1"
    using Cons.prems D by (intro free_erase_ok [OF ok]) (auto simp: live_def)
  then obtain s1 where 1: "free_erase self_sum lt x s' = Some s1" "erased s D lt (insert x E) s1" by blast
  have "distinct xs" "set xs \<subseteq> D - insert x E" using Cons.prems(2,3) by auto
  from Cons.IH [OF 1(2) this] 1(1) show ?case by auto
qed simp

text \<open>What is left when all of \<open>D\<close> is gone.\<close>

definition deleted :: "sc_storage \<Rightarrow> sc_addr set \<Rightarrow> sc_storage \<Rightarrow> bool" where
  "deleted s D s' \<longleftrightarrow>
     graph_ok s' \<and> live s' = live s - D \<and> held s' = held s \<and> has_cell s' = has_cell s \<and>
     max_loaded_segments s' = max_loaded_segments s \<and>
     (\<forall>y \<in> live s - D. same_core (el_at s y) (el_at s' y) \<and> refs s' y = refs s y) \<and>
     (\<forall>b \<in> live s - D. \<forall>xs. out_list s b xs \<longrightarrow> out_list s' b (filter (\<lambda>y. y \<notin> D) xs)) \<and>
     (\<forall>b \<in> live s - D. \<forall>xs. in_list s b xs \<longrightarrow> in_list s' b (filter (\<lambda>y. y \<notin> D) xs))"

lemma erased_deleted:
  assumes ok: "graph_ok s" and er: "erased s D lt D s1" and sb: "same_but_locks s1 s'"
    and h: "\<forall>k. held s' k = held s1 k - locks_of lt k"
    and D: "\<And>x y. x \<in> D \<Longrightarrow> y \<in> incident s x \<Longrightarrow> y \<in> D"
  shows "deleted s D s'"
proof -
  have eq: "el_at s' = el_at s1" "refs s' = refs s1" "has_cell s' = has_cell s1" "storage_ok s'"
    using sb by (simp_all add: same_but_locks_def)
  have L: "live s' = live s - D" "live s' = live s1" and A: "arcs s' = arcs s - D"
    using er live_cong [OF eq(1,3)] arcs_cong [OF eq(1,3)] erased_arcs [OF er] by (simp_all add: erased_def)
  have core: "\<forall>y \<in> live s - D. same_core (el_at s y) (el_at s' y) \<and> refs s' y = refs s y"
    using er eq by (simp add: erased_def)
  have lists: "out_list s b xs \<Longrightarrow> out_list s' b (filter (\<lambda>y. y \<notin> D) xs)"
    "in_list s b xs \<Longrightarrow> in_list s' b (filter (\<lambda>y. y \<notin> D) xs)" for b xs
    using er unfolding out_list_def [of s'] in_list_def [of s'] A L(1) eq(1) by (simp_all add: erased_def)
  have "graph_ok s'"
    unfolding graph_ok_def
  proof (intro conjI allI ballI)
    show "\<exists>xs. out_list s' b xs" "\<exists>xs. in_list s' b xs" for b
      using graph_ok_lists [OF ok] lists by blast+
  next
    fix x assume "x \<in> arcs s'"
    then have x: "x \<in> arcs s" "x \<notin> D" "x \<in> live s" using A arcs_live by auto
    have "same_core (el_at s x) (el_at s' x)" using core x by auto
    moreover have "arc_begin (arc (el_at s x)) \<notin> D" "arc_end (arc (el_at s x)) \<notin> D"
      using D [of _ x] x by (auto simp: incident_def)
    ultimately show "arc_begin (arc (el_at s' x)) \<in> live s'" "arc_end (arc (el_at s' x)) \<in> live s'"
        "el_type (el_at s' x) AND sc_type_link = 0"
      using ok x by (auto simp: L(1) graph_ok_def same_core_def)
  next
    show "refs s' x > 0" if "x \<in> live s'" for x using ok core that by (auto simp: L(1) graph_ok_def)
  qed (rule eq(4))
  moreover have "held s' = held s" using h er by (auto simp: erased_def fun_eq_iff)
  moreover have "has_cell s' = has_cell s" "max_loaded_segments s' = max_loaded_segments s"
    using eq(3) er sb by (simp_all add: erased_def same_but_locks_def)
  ultimately show ?thesis using L(1) core lists by (simp add: deleted_def)
qed

lemma locks_of_mset: "mset xs = mset ys \<Longrightarrow> locks_of xs = locks_of ys"
  by (simp add: locks_of_def fun_eq_iff flip: count_mset)

lemma unlock_locked:
  assumes sok: "storage_ok s" and s': "storage_ok s'" "has_cell s' = has_cell s"
      "\<forall>k. held s' k = held s k + locks_of lt k"
    and lt: "set lt \<subseteq> live s" and ord: "mset xs = mset lt"
  shows "\<exists>s''. unlock_all xs s' = Some s'' \<and> same_but_locks s' s'' \<and> (\<forall>k. held s'' k = held s' k - locks_of lt k)"
proof -
  have "set xs = set lt" using ord by (metis set_mset_mset)
  then have "\<forall>x \<in> set xs. has_cell s' x" using lt s'(2) by (auto simp: live_def)
  moreover have "\<forall>x \<in> set xs. held s' (sec_of x) \<ge> locks_of xs (sec_of x)"
    using s'(3) held_nonneg_cell [OF sok] by (simp add: locks_of_mset [OF ord] del: split_paired_All)
  ultimately show ?thesis using unlock_all_ok [OF s'(1), of xs] locks_of_mset [OF ord] by simp
qed

lemma collecting_start:
  assumes "graph_ok s" and "a \<in> live s"
  shows "collecting s a ([a], [a], [a], lock_cell a s)"
proof -
  have "has_cell s a" using assms(2) by (simp add: live_def)
  then show ?thesis
    using same_but_locks_lock [OF graph_ok_storage [OF assms(1)], of a] assms(2)
    by (simp add: collecting_def doomed_root locked_as_def held_lock)
qed

text \<open>After the collecting loop the call ends as the loop did.\<close>

lemma element_free_finish:
  assumes ok: "graph_ok s" and a: "a \<in> live s" and ord: "\<And>xs. mset (order xs) = mset xs"
    and c: "free_collect ctx a ([a], [a], [a], lock_cell a s) = Some c" "collected ctx s a c"
  shows "\<exists>s'. sc_storage_element_free order self_sum ctx a s =
      Some (if isl c then SC_RESULT_ERROR_NO_WRITE_RIGHTS else SC_RESULT_OK, s') \<and>
    (if isl c then same_but_locks s s' \<and> held s' = held s else deleted s {x. doomed s a x} s')"
proof -
  let ?D = "{x. doomed s a x}"
  note sok = graph_ok_storage [OF ok]
  have D: "?D \<subseteq> live s" using doomed_live [OF _ a] by blast
  have cell: "has_cell s a" and valid: "sc_element_is_valid (el_at s a)" using a by (simp_all add: live_def)
  have start: "sc_storage_element_free order self_sum ctx a s =
      (case c of Inl (lt, s2) \<Rightarrow> do { s3 \<leftarrow> unlock_all (order lt) s2; Some (SC_RESULT_ERROR_NO_WRITE_RIGHTS, s3) }
        | Inr (rt, lt, s2) \<Rightarrow> do {
            s3 \<leftarrow> free_erase_all self_sum lt (order rt) s2;
            s4 \<leftarrow> unlock_all (order lt) s3;
            Some (SC_RESULT_OK, s4) })"
    using c(1) valid
    by (simp add: sc_storage_element_free_def element_lock_ok [OF sok cell] sc_state sc_element_is_valid_def)
  show ?thesis
  proof (cases c)
    case (Inl p)
    obtain lt s2 where p: "p = (lt, s2)" by (cases p)
    have l: "locked_as s lt s2" using c(2) Inl p by (auto simp: collected_def)
    have "\<exists>s3. unlock_all (order lt) s2 = Some s3 \<and> same_but_locks s2 s3 \<and>
        (\<forall>k. held s3 k = held s2 k - locks_of lt k)"
      using l ord by (intro unlock_locked [OF sok]) (auto simp: locked_as_def same_but_locks_def)
    then obtain s3 where 3: "unlock_all (order lt) s2 = Some s3" "same_but_locks s2 s3"
      "\<forall>k. held s3 k = held s2 k - locks_of lt k" by blast
    have "same_but_locks s s3" "held s3 = held s"
      using l 3(2,3) by (auto simp: locked_as_def fun_eq_iff intro: same_but_locks_trans)
    with start Inl p 3(1) show ?thesis by auto
  next
    case (Inr q)
    obtain rt lt s2 where q: "q = (rt, lt, s2)" by (cases q)
    have l: "locked_as s lt s2" and rt: "distinct rt" "set rt = ?D" "set rt \<subseteq> set lt"
        "\<forall>x \<in> set rt \<inter> arcs s. neighbours s x \<subseteq> set lt"
      using c(2) Inr q by (auto simp: collected_def)
    have e0: "erased s ?D lt {} s2"
      using l rt same_but_locks_live [of s s2]
      by (auto simp: locked_as_def erased_def same_but_locks_def out_list_def in_list_def neighbours_def)
    have o: "distinct (order rt)" "set (order rt) = ?D"
      using ord rt(1,2) by (metis mset_eq_imp_distinct_iff, metis set_mset_mset)
    obtain s3 where 3: "free_erase_all self_sum lt (order rt) s2 = Some s3" "erased s ?D lt ?D s3"
      using free_erase_all_ok [OF ok D e0 o(1), of self_sum] o(2) by auto
    have "\<exists>s4. unlock_all (order lt) s3 = Some s4 \<and> same_but_locks s3 s4 \<and>
        (\<forall>k. held s4 k = held s3 k - locks_of lt k)"
      using l 3(2) ord by (intro unlock_locked [OF sok]) (auto simp: locked_as_def erased_def)
    then obtain s4 where 4: "unlock_all (order lt) s3 = Some s4" "same_but_locks s3 s4"
      "\<forall>k. held s4 k = held s3 k - locks_of lt k" by blast
    have "deleted s ?D s4"
      by (rule erased_deleted [OF ok 3(2) 4(2,3)]) (auto intro: doomed_arc)
    with start Inr q 3(1) 4(1) show ?thesis by auto
  qed
qed

lemma element_free_spec:
  assumes ok: "graph_ok s" and a: "a \<in> live s" and ord: "\<And>xs. mset (order xs) = mset xs"
  shows "\<exists>r s'. sc_storage_element_free order self_sum ctx a s = Some (r, s') \<and>
    (r = SC_RESULT_OK \<and> deleted s {x. doomed s a x} s' \<or>
     r = SC_RESULT_ERROR_NO_WRITE_RIGHTS \<and> same_but_locks s s' \<and> held s' = held s \<and>
     (\<exists>x. doomed s a x \<and> \<not> sc_access_lvl_check_write (ctx_access ctx) (el_access (el_at s x))))"
proof -
  obtain c where c: "free_collect ctx a ([a], [a], [a], lock_cell a s) = Some c" "collected ctx s a c"
    using free_collect_total [OF ok a collecting_start [OF ok a], of a ctx] by auto
  from element_free_finish [OF ok a ord c] c(2) show ?thesis
    by (cases c) (fastforce simp: collected_def)+
qed

subsection \<open>Properties\<close>

text \<open>
  C30. \<^verbatim>\<open>sc_storage_element_free\<close> on a live element returns, for every order in which the
  hash tables may be iterated. With write rights on everything involved it deletes exactly
  the element and, transitively, the connectors that start or end at something deleted: all
  other elements keep their data and references, their lists are the old ones without the
  deleted connectors, no lock stays behind and the graph is sound again.
\<close>

theorem element_free_deletes_closure:
  assumes "graph_ok s" and "a \<in> live s" and "\<And>xs. mset (order xs) = mset xs"
    and "\<And>x. doomed s a x \<Longrightarrow> sc_access_lvl_check_write (ctx_access ctx) (el_access (el_at s x))"
  shows "\<exists>s'. sc_storage_element_free order self_sum ctx a s = Some (SC_RESULT_OK, s') \<and>
     graph_ok s' \<and> live s' = live s - {x. doomed s a x} \<and> held s' = held s \<and>
     (\<forall>y \<in> live s'. same_core (el_at s y) (el_at s' y) \<and> refs s' y = refs s y) \<and>
     (\<forall>b \<in> live s'. \<forall>xs. out_list s b xs \<longrightarrow> out_list s' b (filter (\<lambda>y. \<not> doomed s a y) xs)) \<and>
     (\<forall>b \<in> live s'. \<forall>xs. in_list s b xs \<longrightarrow> in_list s' b (filter (\<lambda>y. \<not> doomed s a y) xs))"
  using element_free_spec [OF assms(1-3), of self_sum ctx] assms(4)
  by (auto simp: deleted_def)

lemma sample_doomed: "doomed sample sample_n1 x \<longleftrightarrow> x = sample_n1 \<or> x = sample_arc"
proof
  assume "doomed sample sample_n1 x"
  then show "x = sample_n1 \<or> x = sample_arc"
    by (induction rule: doomed.induct) (auto simp: incident_def sample_arcs)
next
  have "sample_arc \<in> incident sample sample_n1"
    by (simp add: incident_def sample_arcs sample_el_at sample_element_def)
  then show "x = sample_n1 \<or> x = sample_arc \<Longrightarrow> doomed sample sample_n1 x"
    by (auto intro: doomed_root doomed_arc [OF doomed_root])
qed

theorem element_free_deletes_closure_witness:
  "\<exists>s'. sc_storage_element_free rev (\<lambda>_. []) sample_ctx sample_n1 sample = Some (SC_RESULT_OK, s') \<and>
     graph_ok s' \<and> live s' = {sample_n2, sample_link} \<and> in_list s' sample_n2 []"
proof -
  have in2: "in_list sample sample_n2 [sample_arc]" using sample_in_list [of sample_n2] by simp
  obtain s' where s': "sc_storage_element_free rev (\<lambda>_. []) sample_ctx sample_n1 sample = Some (SC_RESULT_OK, s')"
    "graph_ok s'" "live s' = live sample - {x. doomed sample sample_n1 x}"
    "\<forall>b \<in> live s'. \<forall>xs. in_list sample b xs \<longrightarrow> in_list s' b (filter (\<lambda>y. \<not> doomed sample sample_n1 y) xs)"
    using element_free_deletes_closure [where s = sample and a = sample_n1 and order = rev and
        ctx = sample_ctx and self_sum = "\<lambda>_. []",
        OF sample_graph_ok sample_members(1) mset_rev sample_access(2)] by blast
  have "{x. doomed sample sample_n1 x} = {sample_n1, sample_arc}" by (auto simp only: sample_doomed)
  then have L: "live s' = {sample_n2, sample_link}" using s'(3) by (simp add: sample_live insert_Diff_if)
  then have "in_list s' sample_n2 (filter (\<lambda>y. \<not> doomed sample sample_n1 y) [sample_arc])"
    using s'(4) in2 by blast
  with s' L show ?thesis by (auto simp: sample_doomed)
qed

text \<open>
  Without write rights on the element itself \<^verbatim>\<open>sc_storage_element_free\<close> refuses and the
  storage is exactly as before.
\<close>

theorem element_free_refused:
  assumes ok: "storage_ok s" and a: "a \<in> live s" and ord: "\<And>xs. mset (order xs) = mset xs"
    and w: "\<not> sc_access_lvl_check_write (ctx_access ctx) (el_access (el_at s a))"
  shows "sc_storage_element_free order self_sum ctx a s = Some (SC_RESULT_ERROR_NO_WRITE_RIGHTS, s)"
proof -
  have cell: "has_cell s a" "sc_element_is_valid (el_at s a)" using a by (simp_all add: live_def)
  have "free_collect ctx a ([a], [a], [a], lock_cell a s) = Some (Inl ([a], lock_cell a s))"
    using w by (simp add: free_collect.simps [of ctx a] sc_state)
  moreover have "mset (order [a]) = {#a#}" using ord [of "[a]"] by simp
  then have "order [a] = [a]" by (simp add: mset_single_iff)
  moreover have "sc_storage_element_unlock a (lock_cell a s) = Some (SC_RESULT_OK, s)"
    using element_unlock_ok [of "lock_cell a s" a] ok cell(1) held_nonneg [OF ok cell(1)]
      unlock_lock_cell [OF ok cell(1)] by (simp add: sc_state)
  ultimately show ?thesis
    using cell(2) by (simp add: sc_storage_element_free_def element_lock_ok [OF ok cell(1)] sc_state
        sc_element_is_valid_def)
qed

definition guarded_sample :: sc_storage where
  "guarded_sample = set_el sample_link (\<lambda>e. e\<lparr>el_access := 0x0f\<rparr>) sample"

theorem element_free_refused_witness:
  "sc_storage_element_free rev (\<lambda>_. []) (sample_ctx\<lparr>ctx_access := 0\<rparr>) sample_link guarded_sample =
     Some (SC_RESULT_ERROR_NO_WRITE_RIGHTS, guarded_sample)"
proof -
  have c: "has_cell sample sample_link" "el_type (el_at sample sample_link) \<noteq> 0"
    using live_typed [OF sample_members(4)] by simp_all
  have "storage_ok guarded_sample"
    unfolding guarded_sample_def using sample_storage_ok c(2) by (intro storage_ok_set_typed) simp_all
  moreover have "sample_link \<in> live guarded_sample"
    using sample_members(4) c(1) by (simp add: guarded_sample_def live_def sc_state sc_element_is_valid_def)
  moreover have "\<not> sc_access_lvl_check_write (ctx_access (sample_ctx\<lparr>ctx_access := 0\<rparr>))
      (el_access (el_at guarded_sample sample_link))"
    using c(1) by (simp add: guarded_sample_def sc_state sc_access_lvl_check_write_def
        sc_access_lvl_get_write_def SC_ACCESS_LVL_WMASK_def)
  ultimately show ?thesis using mset_rev by (intro element_free_refused) simp_all
qed

end
