(* ===== verification/Sc_Abstract.thy ===== *)
theory Sc_Abstract
  imports Sc_Graph_Props Sc_Free
begin

text \<open>
  The contract of the store towards its users: a finite graph whose elements have a type and
  whose connectors have two ends. Cells, sections, locks, segments and the doubly linked lists
  of connectors are not visible in it. The requests of a user are served by the storage
  functions; each of them is one step of the graph.
\<close>

subsection \<open>The graph a user sees\<close>

type_synonym graph = "sc_addr \<rightharpoonup> sc_type \<times> (sc_addr \<times> sc_addr) option"

datatype request = New_Node sc_type | New_Link bool | New_Arc sc_type sc_addr sc_addr | Delete sc_addr

datatype reply = Address sc_addr | Result sc_result

text \<open>An element takes the connectors at its ends with it, and these take theirs.\<close>

inductive perish :: "graph \<Rightarrow> sc_addr \<Rightarrow> sc_addr \<Rightarrow> bool" for g a where
  self: "perish g a a"
| connector: "perish g a x \<Longrightarrow> g y = Some (t, Some (b, e)) \<Longrightarrow> b = x \<or> e = x \<Longrightarrow> perish g a y"

inductive graph_step :: "request \<Rightarrow> reply \<Rightarrow> graph \<Rightarrow> graph \<Rightarrow> bool" where
  node: "a \<notin> dom g \<Longrightarrow> a \<noteq> SC_ADDR_MAKE_EMPTY \<Longrightarrow>
    graph_step (New_Node t) (Address a) g (g(a \<mapsto> (sc_flags_remove (sc_type_node OR t), None)))"
| link: "a \<notin> dom g \<Longrightarrow> a \<noteq> SC_ADDR_MAKE_EMPTY \<Longrightarrow>
    graph_step (New_Link c) (Address a) g (g(a \<mapsto> (sc_type_link OR (if c then sc_type_const else sc_type_var), None)))"
| full: "q \<in> range New_Node \<union> range New_Link \<Longrightarrow> graph_step q (Address SC_ADDR_MAKE_EMPTY) g g"
| arc: "a \<notin> dom g \<Longrightarrow> a \<noteq> SC_ADDR_MAKE_EMPTY \<Longrightarrow> b \<in> dom g \<Longrightarrow> e \<in> dom g \<Longrightarrow>
    graph_step (New_Arc t b e) (Address a) g (g(a \<mapsto> (arc_type t, Some (b, e))))"
| delete: "a \<in> dom g \<Longrightarrow> graph_step (Delete a) (Result SC_RESULT_OK) g (g |` {x. \<not> perish g a x})"
| denied: "graph_step (Delete a) (Result SC_RESULT_ERROR_NO_WRITE_RIGHTS) g g"

text \<open>No connector points into the void.\<close>

definition closed :: "graph \<Rightarrow> bool" where
  "closed g \<longleftrightarrow> (\<forall>x t b e. g x = Some (t, Some (b, e)) \<longrightarrow> b \<in> dom g \<and> e \<in> dom g)"

lemma graph_step_closed:
  assumes "graph_step q r g g'" and "closed g"
  shows "closed g'"
  using assms
proof (induction rule: graph_step.induct)
  case (delete a g)
  have "perish g a x" if "g x = Some (t, Some (b, e))" "perish g a b \<or> perish g a e" for x t b e
    using that perish.connector by blast
  with delete.prems show ?case unfolding closed_def restrict_map_def by (fastforce split: if_splits)
qed (auto simp: closed_def)

subsection \<open>Requests served by the storage\<close>

definition serve ::
    "(sc_addr list \<Rightarrow> sc_addr list) \<Rightarrow> (sc_element \<Rightarrow> u8 list) \<Rightarrow> sc_memory_context \<Rightarrow> sc_access_levels \<Rightarrow>
     request \<Rightarrow> sc_storage \<Rightarrow> (reply \<times> sc_storage) option" where
  "serve order self_sum ctx al q s = (case q of
       New_Node t \<Rightarrow> map_option (map_prod Address id) (sc_storage_node_new_ext ctx t al s)
     | New_Link c \<Rightarrow> map_option (map_prod Address id) (sc_storage_link_new_ext ctx al c s)
     | New_Arc t b e \<Rightarrow> map_option (map_prod Address id) (sc_storage_arc_new_ext ctx t b e al s)
     | Delete a \<Rightarrow> map_option (map_prod Result id) (sc_storage_element_free order self_sum ctx a s))"

definition view :: "sc_storage \<Rightarrow> graph" where
  "view s a = (if a \<in> live s
     then Some (el_type (el_at s a), if a \<in> arcs s then Some (arc_begin (arc (el_at s a)), arc_end (arc (el_at s a))) else None)
     else None)"

lemma dom_view: "dom (view s) = live s"
  by (auto simp: view_def split: if_splits)

lemma view_closed: "graph_ok s \<Longrightarrow> closed (view s)"
  unfolding closed_def dom_view by (auto simp: view_def graph_ok_def split: if_splits)

text \<open>What the functions of the store assert of their arguments, and what a client must know.\<close>

definition proper :: "request \<Rightarrow> sc_storage \<Rightarrow> bool" where
  "proper q s = (case q of
       New_Node t \<Rightarrow> sc_type_arc_mask AND t = 0
     | New_Link c \<Rightarrow> True
     | New_Arc t b e \<Rightarrow> b \<in> live s \<and> e \<in> live s \<and> sc_type_node AND t = 0 \<and> t AND sc_type_link = 0 \<and>
         int (segments_num s) < max_loaded_segments s
     | Delete a \<Rightarrow> a \<in> live s)"

subsection \<open>Each function is a step of the graph\<close>

lemma view_created:
  assumes "created s a e s'" and "live s' = insert a (live s)" and "arcs s' = arcs s"
  shows "view s' = (view s)(a \<mapsto> (el_type e, None))"
proof -
  have "a \<notin> arcs s" using created_not_live [OF assms(1)] arcs_live by blast
  then show ?thesis using assms by (auto simp: view_def created_def fun_eq_iff)
qed

lemma new_address: "created s a e s' \<Longrightarrow> a \<notin> dom (view s)" "created s a e s' \<Longrightarrow> a \<noteq> SC_ADDR_MAKE_EMPTY"
  using created_not_live dom_view by (auto simp: created_def)

lemma new_node_step:
  assumes "graph_ok s" and "max_loaded_segments s \<le> int SC_ADDR_SEG_MAX" and "sc_type_arc_mask AND t = 0"
  shows "\<exists>a s'. sc_storage_node_new_ext ctx t al s = Some (a, s') \<and> graph_ok s' \<and> held s' = held s \<and> max_loaded_segments s' = max_loaded_segments s \<and>
     segments_num s' \<le> Suc (segments_num s) \<and>
     (int (segments_num s) < max_loaded_segments s \<longrightarrow> a \<noteq> SC_ADDR_MAKE_EMPTY) \<and>
     graph_step (New_Node t) (Address a) (view s) (view s')"
proof (cases "int (segments_num s) < max_loaded_segments s")
  case True
  obtain a s1 s' where c: "sc_storage_append_el_into_segments ctx s = Some (Some a, s1)"
    "sc_storage_element_unlock a (set_el a (\<lambda>e. e\<lparr>el_type := sc_flags_remove (sc_type_node OR t), el_access := al\<rparr>) s1) =
       Some (SC_RESULT_OK, s')"
    "created s a ((el_at s a)\<lparr>el_type := sc_flags_remove (sc_type_node OR t), el_access := al\<rparr>) s'"
    "graph_ok s'" "live s' = insert a (live s)" "arcs s' = arcs s"
    using new_element_spec [OF assms(1,2) True new_node_type(2) [OF assms(3)] flags_remove_and(1)
        new_node_type(3) [OF assms(3)], of ctx al] by blast
  have "graph_step (New_Node t) (Address a) (view s) (view s')"
    unfolding view_created [OF c(3,5,6)] using graph_step.node [OF new_address [OF c(3)], of t] by simp
  then show ?thesis using c assms(3) by (auto simp: sc_storage_node_new_ext_def created_def)
next
  case False
  then show ?thesis using assms
    by (auto simp: sc_storage_node_new_ext_def sc_storage_append_el_into_segments_def intro: graph_step.full)
qed

lemma new_link_step:
  assumes "graph_ok s" and "max_loaded_segments s \<le> int SC_ADDR_SEG_MAX"
  shows "\<exists>a s'. sc_storage_link_new_ext ctx al c s = Some (a, s') \<and> graph_ok s' \<and> held s' = held s \<and> max_loaded_segments s' = max_loaded_segments s \<and>
     segments_num s' \<le> Suc (segments_num s) \<and>
     (int (segments_num s) < max_loaded_segments s \<longrightarrow> a \<noteq> SC_ADDR_MAKE_EMPTY) \<and>
     graph_step (New_Link c) (Address a) (view s) (view s')"
proof (cases "int (segments_num s) < max_loaded_segments s")
  case True
  let ?t = "sc_type_link OR (if c then sc_type_const else sc_type_var)"
  obtain a s1 s' where n: "sc_storage_append_el_into_segments ctx s = Some (Some a, s1)"
    "sc_storage_element_unlock a (set_el a (\<lambda>e. e\<lparr>el_type := ?t, el_access := al\<rparr>) s1) = Some (SC_RESULT_OK, s')"
    "created s a ((el_at s a)\<lparr>el_type := ?t, el_access := al\<rparr>) s'"
    "graph_ok s'" "live s' = insert a (live s)" "arcs s' = arcs s"
    using new_element_spec [OF assms True link_type [of c], of ctx al] by blast
  have "graph_step (New_Link c) (Address a) (view s) (view s')"
    unfolding view_created [OF n(3,5,6)] using graph_step.link [OF new_address [OF n(3)], of c] by simp
  then show ?thesis using n by (auto simp: sc_storage_link_new_ext_def created_def)
next
  case False
  then show ?thesis using assms
    by (auto simp: sc_storage_link_new_ext_def sc_storage_append_el_into_segments_def intro: graph_step.full)
qed

lemma new_arc_step:
  assumes "graph_ok s" and "max_loaded_segments s \<le> int SC_ADDR_SEG_MAX" and "int (segments_num s) < max_loaded_segments s"
    and "b \<in> live s" "e \<in> live s" and "sc_type_node AND t = 0" and "t AND sc_type_link = 0"
  shows "\<exists>a s'. sc_storage_arc_new_ext ctx t b e al s = Some (a, s') \<and> graph_ok s' \<and> held s' = held s \<and> max_loaded_segments s' = max_loaded_segments s \<and>
     segments_num s' \<le> Suc (segments_num s) \<and>
     graph_step (New_Arc t b e) (Address a) (view s) (view s')"
proof -
  obtain a s' where r: "sc_storage_arc_new_ext ctx t b e al s = Some (a, s')" and cr: "arc_created t b e al s a s'"
    using arc_new_ext_spec [OF assms(1-6)] by blast
  note sets = arc_created_sets [OF graph_ok_storage [OF assms(1)] cr]
  have "view s' = (view s)(a \<mapsto> (arc_type t, Some (b, e)))"
    using cr sets by (auto simp: view_def arc_created_def linked_heap_sel new_arc_def fun_eq_iff)
  then have "graph_step (New_Arc t b e) (Address a) (view s) (view s')"
    using graph_step.arc [of a "view s" b e t] assms(4,5) sets(1) cr by (simp only: dom_view arc_created_def) simp
  then show ?thesis using r cr arc_created_graph [OF assms(1) cr assms(4,5,7)] by (auto simp: arc_created_def)
qed

lemma perish_doomed: "perish (view s) a x \<longleftrightarrow> doomed s a x"
proof
  show "perish (view s) a x \<Longrightarrow> doomed s a x"
  proof (induction rule: perish.induct)
    case (connector x y t b e)
    then have "y \<in> incident s x" by (auto simp: incident_def view_def split: if_splits)
    then show ?case using connector.IH doomed_arc by blast
  qed (rule doomed_root)
  show "doomed s a x \<Longrightarrow> perish (view s) a x"
  proof (induction rule: doomed.induct)
    case (doomed_arc x y)
    then have "y \<in> arcs s" "arc_begin (arc (el_at s y)) = x \<or> arc_end (arc (el_at s y)) = x"
      by (auto simp: incident_def)
    moreover from this have "y \<in> live s" using arcs_live by blast
    ultimately show ?case using perish.connector [OF doomed_arc.IH, of y] by (simp add: view_def)
  qed (rule perish.self)
qed

lemma view_deleted: "deleted s D s' \<Longrightarrow> view s' = view s |` (- D)"
  by (auto simp: view_def deleted_def same_core_def restrict_map_def fun_eq_iff arcs_def is_arc_def)

lemma same_but_locks_view:
  assumes "same_but_locks s s'"
  shows "view s' = view s" "graph_ok s \<Longrightarrow> graph_ok s'" "max_loaded_segments s' = max_loaded_segments s"
proof -
  show "max_loaded_segments s' = max_loaded_segments s" using assms by (simp add: same_but_locks_def)
  have eq: "el_at s' = el_at s" "live s' = live s" "refs s' = refs s" "storage_ok s'"
    using assms by (simp_all add: same_but_locks_def live_def)
  then have "arcs s' = arcs s" by (simp add: arcs_def)
  with eq show "view s' = view s" "graph_ok s \<Longrightarrow> graph_ok s'"
    by (simp_all add: view_def [abs_def] graph_ok_def out_list_def in_list_def cong del: if_weak_cong)
qed

lemma delete_step:
  assumes "graph_ok s" and "a \<in> live s" and "\<And>xs. mset (order xs) = mset xs"
  shows "\<exists>r s'. sc_storage_element_free order self_sum ctx a s = Some (r, s') \<and> graph_ok s' \<and> held s' = held s \<and> max_loaded_segments s' = max_loaded_segments s \<and>
     graph_step (Delete a) (Result r) (view s) (view s')"
proof -
  obtain r s' where r: "sc_storage_element_free order self_sum ctx a s = Some (r, s')"
    and cases: "r = SC_RESULT_OK \<and> deleted s {x. doomed s a x} s' \<or>
      r = SC_RESULT_ERROR_NO_WRITE_RIGHTS \<and> same_but_locks s s' \<and> held s' = held s"
    using element_free_spec [OF assms, of self_sum ctx] by blast
  from cases show ?thesis
  proof
    assume d: "r = SC_RESULT_OK \<and> deleted s {x. doomed s a x} s'"
    have "graph_step (Delete a) (Result SC_RESULT_OK) (view s) (view s |` {x. \<not> perish (view s) a x})"
      using assms(2) by (intro graph_step.delete) (simp add: dom_view)
    then have "graph_step (Delete a) (Result r) (view s) (view s')"
      using d view_deleted [of s "{x. doomed s a x}" s'] by (simp add: perish_doomed Compl_eq)
    then show ?thesis using r d by (auto simp: deleted_def)
  next
    assume d: "r = SC_RESULT_ERROR_NO_WRITE_RIGHTS \<and> same_but_locks s s' \<and> held s' = held s"
    then show ?thesis using r same_but_locks_view [of s s'] assms(1) graph_step.denied by fastforce
  qed
qed

lemma serve_step:
  assumes ok: "graph_ok s" and cap: "max_loaded_segments s \<le> int SC_ADDR_SEG_MAX"
    and ord: "\<And>xs. mset (order xs) = mset xs" and q: "proper q s"
  shows "\<exists>r s'. serve order self_sum ctx al q s = Some (r, s') \<and> graph_ok s' \<and> held s' = held s \<and> max_loaded_segments s' = max_loaded_segments s \<and>
     graph_step q r (view s) (view s')"
proof (cases q)
  case (New_Node t)
  then show ?thesis using new_node_step [OF ok cap, of t ctx al] q by (auto simp: serve_def proper_def)
next
  case (New_Link c)
  then show ?thesis using new_link_step [OF ok cap, of ctx al c] by (auto simp: serve_def)
next
  case (New_Arc t b e)
  then show ?thesis using new_arc_step [OF ok cap, of b e t ctx al] q by (auto simp: serve_def proper_def)
next
  case (Delete a)
  then show ?thesis using delete_step [OF ok _ ord, of a self_sum ctx] q by (auto simp: serve_def proper_def)
qed

subsection \<open>Sequences of requests\<close>

fun serve_all ::
    "(sc_addr list \<Rightarrow> sc_addr list) \<Rightarrow> (sc_element \<Rightarrow> u8 list) \<Rightarrow> sc_memory_context \<Rightarrow> sc_access_levels \<Rightarrow>
     request list \<Rightarrow> sc_storage \<Rightarrow> (reply list \<times> sc_storage) option" where
  "serve_all order self_sum ctx al [] s = Some ([], s)"
| "serve_all order self_sum ctx al (q # qs) s = do {
     (r, s1) \<leftarrow> serve order self_sum ctx al q s;
     (rs, s2) \<leftarrow> serve_all order self_sum ctx al qs s1;
     Some (r # rs, s2)
   }"

fun all_proper ::
    "(sc_addr list \<Rightarrow> sc_addr list) \<Rightarrow> (sc_element \<Rightarrow> u8 list) \<Rightarrow> sc_memory_context \<Rightarrow> sc_access_levels \<Rightarrow>
     request list \<Rightarrow> sc_storage \<Rightarrow> bool" where
  "all_proper order self_sum ctx al [] s = True"
| "all_proper order self_sum ctx al (q # qs) s = (proper q s \<and>
     (case serve order self_sum ctx al q s of Some (r, s1) \<Rightarrow> all_proper order self_sum ctx al qs s1 | None \<Rightarrow> True))"

inductive graph_run :: "request list \<Rightarrow> reply list \<Rightarrow> graph \<Rightarrow> graph \<Rightarrow> bool" where
  run_end: "graph_run [] [] g g"
| run_step: "graph_step q r g g1 \<Longrightarrow> graph_run qs rs g1 g2 \<Longrightarrow> graph_run (q # qs) (r # rs) g g2"

inductive_cases graph_step_nodeE: "graph_step (New_Node t) r g g'"

lemma graph_run_closed: "graph_run qs rs g g' \<Longrightarrow> closed g \<Longrightarrow> closed g'"
  by (induction rule: graph_run.induct) (auto dest: graph_step_closed)

lemma serve_all_run:
  assumes "graph_ok s" and "max_loaded_segments s \<le> int SC_ADDR_SEG_MAX" and "\<And>xs. mset (order xs) = mset xs"
    and "all_proper order self_sum ctx al qs s"
  shows "\<exists>rs s'. serve_all order self_sum ctx al qs s = Some (rs, s') \<and> graph_ok s' \<and> held s' = held s \<and>
     graph_run qs rs (view s) (view s')"
  using assms
proof (induction qs arbitrary: s)
  case Nil
  then show ?case by (auto intro: run_end)
next
  case (Cons q qs)
  from serve_step [OF Cons.prems(1-3), of q self_sum ctx al] Cons.prems(4) obtain r s1 where
    1: "serve order self_sum ctx al q s = Some (r, s1)" "graph_ok s1" "held s1 = held s"
    "max_loaded_segments s1 = max_loaded_segments s" "graph_step q r (view s) (view s1)" by auto
  from Cons.IH [OF 1(2) _ Cons.prems(3)] Cons.prems(2,4) 1(1,4) obtain rs s2 where
    "serve_all order self_sum ctx al qs s1 = Some (rs, s2)" "graph_ok s2" "held s2 = held s1"
    "graph_run qs rs (view s1) (view s2)" by auto
  then show ?case using 1 by (auto intro: run_step)
qed

end
