(* ===== verification/Sc_Segment_File_Laws.thy ===== *)
theory Sc_Segment_File_Laws
  imports Sc_Segment_File Sc_Abstract
begin

text \<open>
  What was written to the segment file is what is read from it: element by element, segment
  by segment, and for the whole store over a restart.
\<close>

subsection \<open>Elements\<close>

text \<open>A cell uses one side of the union only.\<close>

definition union_ok :: "sc_element \<Rightarrow> bool" where
  "union_ok e \<longleftrightarrow> (if el_type e AND sc_type_link \<noteq> 0
     then arc e = zero_arc_info \<and> length (content e) = SC_CHECKSUM_LEN
     else content e = replicate SC_CHECKSUM_LEN 0)"

lemma arc_back: "bytes_arc (arc_bytes r @ bs) = r"
  by (simp add: bytes_arc_def arc_bytes_def)

lemma length_element_bytes: "union_ok e \<Longrightarrow> length (element_bytes e) = SC_ELEMENT_SIZE"
  by (auto simp: element_bytes_def union_bytes_def union_ok_def arc_bytes_def SC_ELEMENT_SIZE_def SC_CHECKSUM_LEN_def)

lemma element_back: "union_ok e \<Longrightarrow> bytes_element (element_bytes e) = e"
proof -
  assume ok: "union_ok e"
  have 2: "le_nat (le_bytes 2 (unat (el_type e))) = unat (el_type e)"
    by (rule le_nat_le_bytes) (use unat_u16_less [of "el_type e"] in simp)
  then have "bytes_element (element_bytes e) = \<lparr>el_type = el_type e, el_access = el_access e,
      first_out_arc = first_out_arc e, first_in_arc = first_in_arc e,
      content = (if el_type e AND sc_type_link \<noteq> 0 then union_bytes e else replicate SC_CHECKSUM_LEN 0),
      arc = (if el_type e AND sc_type_link \<noteq> 0 then zero_arc_info else bytes_arc (union_bytes e))\<rparr>"
    by (simp add: bytes_element_def element_bytes_def Let_def nth_append)
  also have "\<dots> = e" using ok by (cases e) (auto simp: union_ok_def union_bytes_def arc_back)
  finally show ?thesis .
qed

subsection \<open>Segments\<close>

lemma concat_chunks:
  assumes "\<And>x. x \<in> set xs \<Longrightarrow> length (f x) = n"
  shows "length (concat (map f xs)) = n * length xs"
    and "i < length xs \<Longrightarrow> take n (drop (n * i) (concat (map f xs))) = f (xs ! i)"
proof -
  show "length (concat (map f xs)) = n * length xs" using assms by (induction xs) auto
  show "i < length xs \<Longrightarrow> take n (drop (n * i) (concat (map f xs))) = f (xs ! i)"
    using assms
  proof (induction xs arbitrary: i)
    case (Cons x xs)
    then show ?case by (cases i) (auto simp: drop_append)
  qed simp
qed

definition cells_ok :: "sc_segment \<Rightarrow> bool" where
  "cells_ok sg \<longleftrightarrow> (\<forall>i < SC_SEGMENT_ELEMENTS_COUNT. union_ok (seg_elements sg i))"

lemma segment_back:
  assumes "cells_ok sg"
  shows "length (segment_bytes sg) = SC_SEG_ELEMENTS_SIZE_BYTE"
    and "i < SC_SEGMENT_ELEMENTS_COUNT \<Longrightarrow> bytes_elements (segment_bytes sg) i = seg_elements sg i"
proof -
  have l: "length (element_bytes (seg_elements sg j)) = SC_ELEMENT_SIZE" if "j \<in> set [0..<SC_SEGMENT_ELEMENTS_COUNT]" for j
    using assms that length_element_bytes by (auto simp: cells_ok_def)
  note c = concat_chunks [where f = "\<lambda>j. element_bytes (seg_elements sg j)" and xs = "[0..<SC_SEGMENT_ELEMENTS_COUNT]", OF l]
  show "length (segment_bytes sg) = SC_SEG_ELEMENTS_SIZE_BYTE"
    using c(1) by (simp add: segment_bytes_def SC_SEG_ELEMENTS_SIZE_BYTE_def)
  assume i: "i < SC_SEGMENT_ELEMENTS_COUNT"
  then have "take SC_ELEMENT_SIZE (drop (SC_ELEMENT_SIZE * i) (segment_bytes sg)) = element_bytes (seg_elements sg i)"
    using c(2) [of i] by (simp add: segment_bytes_def)
  then show "bytes_elements (segment_bytes sg) i = seg_elements sg i"
    using i assms element_back by (simp add: bytes_elements_def cells_ok_def)
qed

lemma leading_all:
  assumes "\<And>i. segs i \<noteq> None \<longleftrightarrow> i < n" and "n \<le> m"
  shows "k \<le> n \<Longrightarrow> leading [k..<m] segs = map (\<lambda>i. the (segs i)) [k..<n]"
proof (induction "n - k" arbitrary: k)
  case 0
  then have "segs k = None" using assms(1) [of k] by auto
  then show ?case using 0 by (cases "k < m") (auto simp: upt_conv_Cons)
next
  case (Suc d)
  then have "k < n" by simp
  then obtain sg where "segs k = Some sg" using assms(1) [of k] by auto
  then show ?case using Suc.hyps(1) [of "Suc k"] Suc.hyps(2) \<open>k < n\<close> assms(2) by (simp add: upt_conv_Cons)
qed

lemma read_back:
  assumes "\<And>sg. sg \<in> set sgs \<Longrightarrow> cells_ok sg"
  shows "read_segments [k..<k + length sgs] (concat (map segment_bytes sgs)) acc segs =
     Some (acc @ concat (map segment_bytes sgs),
       \<lambda>i. if k \<le> i \<and> i < k + length sgs then Some (loaded_segment i (segment_bytes (sgs ! (i - k)))) else segs i)"
  using assms
proof (induction sgs arbitrary: k acc segs)
  case (Cons sg sgs)
  have l: "length (segment_bytes sg) = SC_SEG_ELEMENTS_SIZE_BYTE" using Cons.prems segment_back(1) by simp
  have r: "[k..<k + length (sg # sgs)] = k # [Suc k..<Suc k + length sgs]"
    by (simp add: upt_conv_Cons del: upt_Suc)
  have "read_segments [k..<k + length (sg # sgs)] (concat (map segment_bytes (sg # sgs))) acc segs =
      read_segments [Suc k..<Suc k + length sgs] (concat (map segment_bytes sgs)) (acc @ segment_bytes sg)
        (segs(k \<mapsto> loaded_segment k (segment_bytes sg)))"
    unfolding r using l by (simp add: Let_def del: upt_Suc)
  also have "\<dots> = Some ((acc @ segment_bytes sg) @ concat (map segment_bytes sgs),
      \<lambda>i. if Suc k \<le> i \<and> i < Suc k + length sgs then Some (loaded_segment i (segment_bytes (sgs ! (i - Suc k))))
          else (segs(k \<mapsto> loaded_segment k (segment_bytes sg))) i)"
    using Cons.prems by (intro Cons.IH) simp
  finally show ?case by (auto simp: fun_eq_iff nth_Cons' simp del: upt_Suc)
qed (auto simp: fun_eq_iff)

subsection \<open>The header\<close>

lemma header_back:
  assumes "length (hd_checksum h) = SC_STORAGE_SEG_CHECKSUM_SIZE"
  shows "bytes_header (header_bytes h) = h" "length (header_bytes h) = SC_HEADER_SIZE"
proof -
  have "le_nat (le_bytes 4 (unat (hd_version h))) = unat (hd_version h)"
    by (rule le_nat_le_bytes) (use unsigned_less [of "hd_version h", where ?'a = nat] in simp)
  moreover have "le_nat (le_bytes 2 (unat (hd_segments_num h))) = unat (hd_segments_num h)"
    by (rule le_nat_le_bytes) (use unat_u16_less [of "hd_segments_num h"] in simp)
  moreover have "le_nat (le_bytes 8 (unat (hd_timestamp h))) = unat (hd_timestamp h)"
    by (rule le_nat_le_bytes) (use unsigned_less [of "hd_timestamp h", where ?'a = nat] in simp)
  ultimately show "bytes_header (header_bytes h) = h"
    using assms by (cases h) (simp add: bytes_header_def header_bytes_def SC_STORAGE_SEG_CHECKSUM_SIZE_def)
  show "length (header_bytes h) = SC_HEADER_SIZE"
    using assms by (simp add: header_bytes_def SC_HEADER_SIZE_def SC_STORAGE_SEG_CHECKSUM_SIZE_def)
qed

lemma write_all_ok: "(\<And>k. io_write io k) \<Longrightarrow> write_all io k cs out = (True, out @ concat cs)"
  by (induction cs arbitrary: k out) simp_all

lemma write_all_True: "write_all io k cs out = (True, out') \<Longrightarrow> out' = out @ concat cs"
  by (induction cs arbitrary: k out) (force split: if_splits)+

text \<open>The bytes of the file for a list of segments.\<close>

definition file_image :: "u64 \<Rightarrow> (bytes \<Rightarrow> bytes) \<Rightarrow> sc_segment list \<Rightarrow> bytes" where
  "file_image time sha sgs = (let data = concat (map segment_bytes sgs) in
     le_bytes 4 SC_HEADER_SIZE @ header_bytes \<lparr>hd_version = sc_version_to_int SC_VERSION,
       hd_segments_num = of_nat (length sgs), hd_timestamp = time, hd_checksum = sha data\<rparr> @ data)"

lemma read_image:
  assumes cells: "\<And>sg. sg \<in> set sgs \<Longrightarrow> cells_ok sg" and n: "length sgs \<le> SC_ADDR_SEG_MAX"
    and sha: "\<And>d. length (sha d) = SC_STORAGE_SEG_CHECKSUM_SIZE"
    and io: "io_dir io" "io_open io" and bytes: "fs path = Some (file_image time sha sgs)"
  shows "sc_fs_storage_read_from_path io sha path fs (\<lambda>_. None) num =
     Some (True, \<lambda>i. if i < length sgs then Some (loaded_segment i (segment_bytes (sgs ! i))) else None, length sgs)"
proof -
  let ?d = "concat (map segment_bytes sgs)"
  let ?h = "\<lparr>hd_version = sc_version_to_int SC_VERSION, hd_segments_num = of_nat (length sgs),
      hd_timestamp = time, hd_checksum = sha ?d\<rparr>"
  have f: "file_image time sha sgs = le_bytes 4 SC_HEADER_SIZE @ header_bytes ?h @ ?d"
    by (simp add: file_image_def Let_def)
  note h = header_back [of ?h, simplified, OF sha]
  have 4: "le_nat (le_bytes 4 SC_HEADER_SIZE) = SC_HEADER_SIZE"
    by (rule le_nat_le_bytes) (simp add: SC_HEADER_SIZE_def)
  have u: "unat (of_nat (length sgs) :: u16) = length sgs" using n by (simp add: sc_limits)
  have "read_segments [0..<length sgs] ?d [] (\<lambda>_. None) =
      Some (?d, \<lambda>i. if i < length sgs then Some (loaded_segment i (segment_bytes (sgs ! i))) else None)"
    using read_back [of sgs 0 "[]" "\<lambda>_. None", OF cells] by (simp cong del: if_weak_cong)
  then show ?thesis
    using io bytes h u 4 by (simp add: sc_fs_storage_read_from_path_def f Let_def sc_fm_clean_state_def)
qed

lemma write_image:
  assumes "\<And>i. segs i \<noteq> None \<longleftrightarrow> i < n" and "n \<le> SC_ADDR_SEG_MAX"
    and "io_dir io \<or> io_mkdir io" "io_open io" "\<And>k. io_write io k" "io_regular io" "io_rename io"
    and "adm_flush adm d"
  shows "sc_fs_storage_write_to_path adm io sha path segs (True, d) fs =
     (Some True, fs(io_tmp io := None, path \<mapsto> file_image (io_time io) sha (map (\<lambda>i. the (segs i)) [0..<n])))"
proof -
  have "leading [0..<SC_ADDR_SEG_MAX] segs = map (\<lambda>i. the (segs i)) [0..<n]"
    using leading_all [OF assms(1,2), of 0] by simp
  then show ?thesis
    using assms(3-) by (simp add: sc_fs_storage_write_to_path_def write_all_ok file_image_def Let_def
        sc_fm_save_def SC_RES_def fun_upd_twist del: upt_Suc)
qed

subsection \<open>The store after it was read again\<close>

definition stored_ok :: "sc_storage \<Rightarrow> bool" where
  "stored_ok s \<longleftrightarrow> storage_ok s \<and> (\<forall>a. has_cell s a \<longrightarrow> union_ok (el_at s a))"

definition reloaded :: "sc_storage \<Rightarrow> sc_storage \<Rightarrow> bool" where
  "reloaded s s' \<longleftrightarrow> (\<forall>i. segments s' i = map_option (\<lambda>sg. loaded_segment i (segment_bytes sg)) (segments s i)) \<and>
     segments_num s' = segments_num s \<and> segments_cache s' = (\<lambda>_. None)"

lemma stored_segment:
  assumes "stored_ok s" and "segments s n = Some sg"
  shows "cells_ok sg" "n < SC_ADDR_SEG_MAX"
proof -
  show n: "n < SC_ADDR_SEG_MAX"
    using assms storage_ok_segment [of s n sg] by (simp add: stored_ok_def segment_ok_def)
  have "union_ok (seg_elements sg i)" if "i < SC_SEGMENT_ELEMENTS_COUNT" for i
  proof -
    let ?a = "Addr (of_nat n) (of_nat i)"
    have ix: "seg_ix ?a = n" "off_ix ?a = i" using n that by (simp_all add: sc_limits)
    then have "has_cell s ?a" using assms(2) n that by (simp add: has_cell_def)
    then have "union_ok (el_at s ?a)" using assms(1) by (simp add: stored_ok_def)
    then show ?thesis using ix assms(2) by (simp add: el_at_def)
  qed
  then show "cells_ok sg" by (simp add: cells_ok_def)
qed

lemma loaded_segment_sel:
  "seg_elements (loaded_segment i bs) = bytes_elements bs" "seg_num (loaded_segment i bs) = of_nat i"
  "seg_meta (loaded_segment i bs) = (\<lambda>k. if k < SC_SEGMENT_ELEMENTS_COUNT \<and> el_type (bytes_elements bs k) \<noteq> 0
     then zero_meta\<lparr>ref_count := 1\<rparr> else zero_meta)"
  by (simp_all add: loaded_segment_def segment_loaded cong del: if_weak_cong)

lemma loaded_segment_sections:
  "k < SC_CONCURRENCY_LEVEL \<Longrightarrow> seg_sections (loaded_segment i bs) k =
     section_loaded (bytes_elements bs) k (seg_sections (sc_segment_new (of_nat i)) k)"
  by (simp add: loaded_segment_def segment_loaded)

lemma reloaded_cells:
  assumes "stored_ok s" and "reloaded s s'"
  shows "has_cell s' = has_cell s" "has_cell s a \<Longrightarrow> el_at s' a = el_at s a"
    "has_cell s a \<Longrightarrow> refs s' a = (if el_type (el_at s a) \<noteq> 0 then 1 else 0)" "held s' (sec_of a) = 0"
proof -
  have seg: "segments s' i = map_option (\<lambda>sg. loaded_segment i (segment_bytes sg)) (segments s i)" for i
    using assms(2) by (simp add: reloaded_def)
  show c: "has_cell s' = has_cell s" by (auto simp: has_cell_def seg fun_eq_iff)
  show "held s' (sec_of a) = 0"
  proof -
    have "off_ix a mod SC_CONCURRENCY_LEVEL < SC_CONCURRENCY_LEVEL" by (simp add: sc_limits)
    then show ?thesis using seg_lock_counts_new [of "off_ix a mod SC_CONCURRENCY_LEVEL", unfolded seg_lock_counts_def]
      by (auto simp: held_def sec_of_def seg seg_lock_counts_def loaded_segment_sections section_loaded_def
          split: option.split)
  qed
  assume "has_cell s a"
  then obtain sg where sg: "segments s (seg_ix a) = Some sg" and o: "off_ix a < SC_SEGMENT_ELEMENTS_COUNT"
    by (rule has_cellE)
  have b: "bytes_elements (segment_bytes sg) (off_ix a) = seg_elements sg (off_ix a)"
    using segment_back(2) [OF stored_segment(1) [OF assms(1) sg] o] .
  then show "el_at s' a = el_at s a" using sg by (simp add: el_at_def seg loaded_segment_sel)
  show "refs s' a = (if el_type (el_at s a) \<noteq> 0 then 1 else 0)"
    using sg o b by (simp add: refs_def meta_at_def el_at_def seg loaded_segment_sel zero_meta_def)
qed

lemma reloaded_graph:
  assumes "stored_ok s" and "reloaded s s'"
  shows "live s' = live s" "arcs s' = arcs s" "view s' = view s" "out_list s' = out_list s" "in_list s' = in_list s"
proof -
  note c = reloaded_cells [OF assms]
  show L: "live s' = live s" using c(1,2) by (auto simp: live_def)
  have el: "el_at s' a = el_at s a" if "a \<in> live s" for a using c(2) that by (simp add: live_def)
  show A: "arcs s' = arcs s" using el by (auto simp: arcs_def L)
  then show "view s' = view s" using el by (auto simp: view_def L fun_eq_iff)
  have ar: "el_at s' a = el_at s a" if "a \<in> arcs s" for a using el that arcs_live by blast
  have d: "dll (\<lambda>x. f (el_at s' x)) (\<lambda>x. g (el_at s' x)) q xs = dll (\<lambda>x. f (el_at s x)) (\<lambda>x. g (el_at s x)) q xs"
    if "set xs \<subseteq> arcs s" for f g q xs
    using that ar by (intro dll_cong) auto
  have "out_list s' b xs = out_list s b xs" "in_list s' b xs = in_list s b xs" for b xs
    using ar el [of b] d [of xs "\<lambda>e. next_out_arc (arc e)" "\<lambda>e. prev_out_arc (arc e)"]
      d [of xs "\<lambda>e. next_in_arc (arc e)" "\<lambda>e. prev_in_arc (arc e)"]
    unfolding out_list_def in_list_def out.chain_def inn.chain_def L A by (auto cong: conj_cong)
  then show "out_list s' = out_list s" "in_list s' = in_list s" by (simp_all add: fun_eq_iff)
qed

text \<open>
  Reading counts the reserved first cell of the first segment as free. The bookkeeping is
  sound as long as its section has another free cell.
\<close>

definition spare_cell :: "sc_storage \<Rightarrow> bool" where
  "spare_cell s \<longleftrightarrow> (\<forall>sg. segments s 0 = Some sg \<longrightarrow> (\<exists>i \<in> free_in (seg_elements sg) 0. i > 0))"

lemma loaded_seg_ok:
  assumes n: "n < SC_ADDR_SEG_MAX" and cells: "cells_ok sg"
    and spare: "n = 0 \<Longrightarrow> \<exists>i \<in> free_in (seg_elements sg) 0. i > 0"
  shows "seg_ok (loaded_segment n (segment_bytes sg))"
proof -
  let ?b = "bytes_elements (segment_bytes sg)"
  have F: "free_in ?b k = free_in (seg_elements sg) k" for k
    using segment_back(2) [OF cells] by (auto simp: free_in_def)
  have "section_free_ok (loaded_segment n (segment_bytes sg)) k"
    if k: "k < SC_CONCURRENCY_LEVEL" and e: "empty_count (seg_sections (loaded_segment n (segment_bytes sg)) k) > 0" for k
  proof -
    have ne: "free_in ?b k \<noteq> {}" using e k by (auto simp: loaded_segment_sections section_loaded_def)
    define M where "M = Max (free_in ?b k)"
    have "M \<in> free_in ?b k" unfolding M_def using ne by (intro Max_in) simp_all
    then have m: "M < SC_SEGMENT_ELEMENTS_COUNT" "M mod SC_CONCURRENCY_LEVEL = k" "el_type (?b M) = 0"
      by (auto simp: free_in_def)
    have "M \<noteq> 0" if "n = 0"
    proof (cases "k = 0")
      case True
      then obtain i where "i \<in> free_in ?b k" "i > 0" using spare [OF \<open>n = 0\<close>] F by auto
      then have "i \<le> M" unfolding M_def by (intro Max_ge finite_free_in)
      then show ?thesis using \<open>i > 0\<close> by simp
    qed (use m(2) mod_0 in metis)
    moreover have "(of_nat n :: u16) = 0 \<longleftrightarrow> n = 0" using n by (simp add: sc_limits unat_eq_zero [symmetric])
    moreover have "empty_offset (seg_sections (loaded_segment n (segment_bytes sg)) k) = int M"
      using k ne by (simp add: loaded_segment_sections section_loaded_def M_def)
    ultimately show ?thesis using m by (simp add: section_free_ok_def Let_def loaded_segment_sel)
  qed
  then show ?thesis by (simp add: seg_ok_def)
qed

lemma reloaded_graph_ok:
  assumes ok: "stored_ok s" "graph_ok s" and re: "reloaded s s'" and spare: "spare_cell s"
  shows "graph_ok s'"
proof -
  note c = reloaded_cells [OF ok(1) re] and g = reloaded_graph [OF ok(1) re]
  have seg: "segments s' i = map_option (\<lambda>sg. loaded_segment i (segment_bytes sg)) (segments s i)" for i
    using re by (simp add: reloaded_def)
  have "segment_ok (cur_thread s') n sg'" if "segments s' n = Some sg'" for n sg'
  proof -
    from that seg obtain sg where sg: "segments s n = Some sg" and sg': "sg' = loaded_segment n (segment_bytes sg)" by auto
    have s: "segment_ok (cur_thread s) n sg" using ok sg storage_ok_segment by (simp add: stored_ok_def)
    have b: "bytes_elements (segment_bytes sg) k =
        (if k < SC_SEGMENT_ELEMENTS_COUNT then seg_elements sg k else zero_element)" for k
      using segment_back(2) [OF stored_segment(1) [OF ok(1) sg]] by (auto simp: bytes_elements_def)
    have "seg_locks_ok (cur_thread s') sg'"
      using seg_locks_ok_new [of "cur_thread s'" "of_nat n"] by (simp add: seg_locks_ok_def sg' loaded_segment_sections section_loaded_def section_ok_def)
    moreover have "seg_ok sg'" unfolding sg'
      using stored_segment [OF ok(1) sg] spare sg by (intro loaded_seg_ok) (auto simp: spare_cell_def)
    ultimately show ?thesis
      using s by (auto simp: segment_ok_def sg' loaded_segment_sel b cell_clean_def zero_element_def sc_limits)
  qed
  moreover have "segments s' n \<noteq> None \<longleftrightarrow> n < segments_num s'" for n
    using ok(1) re seg by (simp add: stored_ok_def storage_ok_def reloaded_def)
  moreover have "segments_cache s' k = None" for k using re by (simp add: reloaded_def)
  ultimately have "storage_ok s'" by (simp add: storage_ok_def)
  moreover have el: "el_at s' a = el_at s a" "refs s' a = 1" if "a \<in> live s" for a
    using c(2,3) [of a] that by (auto simp: live_def sc_element_is_valid_def)
  ultimately show ?thesis
    using ok(2) arcs_live [of s] by (auto simp: graph_ok_def g)
qed

subsection \<open>Restarting\<close>

definition io_good :: "glib_io \<Rightarrow> bool" where
  "io_good io \<longleftrightarrow> io_dir io \<and> io_open io \<and> (\<forall>k. io_write io k) \<and> io_regular io \<and> io_rename io"

definition adm_good :: "'db rocks_admin \<Rightarrow> bool" where
  "adm_good adm \<longleftrightarrow> (\<forall>d. adm_open adm d \<and> adm_flush adm d)"

definition running :: "string \<Rightarrow> 'db repository \<Rightarrow> bool" where
  "running path r \<longleftrightarrow> rep_allocated r \<and> rep_initialized r \<and> rep_db_open r \<and>
     rep_segments_path r = take (MAX_PATH_LENGTH - 1) (path @ ''/segments.scdb'')"

lemma storage_segments:
  assumes "stored_ok s"
  shows "segments s i \<noteq> None \<longleftrightarrow> i < segments_num s" "segments_num s \<le> SC_ADDR_SEG_MAX"
proof -
  show n: "segments s i \<noteq> None \<longleftrightarrow> i < segments_num s" for i using assms by (simp add: stored_ok_def storage_ok_def)
  show "segments_num s \<le> SC_ADDR_SEG_MAX"
  proof (rule ccontr)
    assume "\<not> segments_num s \<le> SC_ADDR_SEG_MAX"
    then obtain sg where "segments s SC_ADDR_SEG_MAX = Some sg" using n [of SC_ADDR_SEG_MAX] by auto
    then show False using stored_segment(2) [OF assms] by blast
  qed
qed

lemma shutdown_saves:
  assumes "stored_ok (rep_storage r)" and "running path r" and "io_good io" and "adm_good adm"
  shows "\<exists>r'. sc_storage_shutdown adm io sha True r = Some r' \<and> \<not> rep_allocated r' \<and> \<not> rep_initialized r' \<and>
     rep_db r' = rep_db r \<and>
     rep_files r' (rep_segments_path r) = Some (file_image (io_time io) sha
       (map (\<lambda>i. the (segments (rep_storage r) i)) [0..<segments_num (rep_storage r)])) \<and>
     segments_num (rep_storage r') = 0 \<and>
     max_loaded_segments (rep_storage r') = max_loaded_segments (rep_storage r)"
  using write_image [OF storage_segments [OF assms(1)], of io adm "rep_db r" sha "rep_segments_path r" "rep_files r"] assms(2-)
  by (simp add: sc_storage_shutdown_def sc_fs_storage_shutdown_def sc_fm_free_def running_def io_good_def adm_good_def
        sc_segment_cache_clear_def Let_def)

lemma initialize_loads:
  assumes "\<not> rep_allocated r" "\<not> rep_initialized r" and "io_good io" and "adm_good adm"
    and sha: "\<And>d. length (sha d) = SC_STORAGE_SEG_CHECKSUM_SIZE"
    and sgs: "\<And>sg. sg \<in> set sgs \<Longrightarrow> cells_ok sg" "length sgs \<le> SC_ADDR_SEG_MAX"
    and bytes: "rep_files r (take (MAX_PATH_LENGTH - 1) (path @ ''/segments.scdb'')) = Some (file_image time sha sgs)"
  shows "\<exists>r'. sc_storage_initialize adm io sha path False r = Some (True, r') \<and> running path r' \<and> rep_db r' = rep_db r \<and>
     segments (rep_storage r') = (\<lambda>i. if i < length sgs then Some (loaded_segment i (segment_bytes (sgs ! i))) else None) \<and>
     segments_num (rep_storage r') = length sgs \<and> segments_cache (rep_storage r') = (\<lambda>_. None) \<and>
     max_loaded_segments (rep_storage r') = max_loaded_segments (rep_storage r)"
  using read_image [where sgs = sgs and sha = sha and io = io and fs = "rep_files r", OF sgs sha _ _ bytes] assms(1-4)
  by (simp add: sc_storage_initialize_def sc_fs_storage_initialize_def sc_fm_init_def running_def io_good_def adm_good_def
        Let_def)

lemma restart:
  assumes ok: "stored_ok (rep_storage r)" and run: "running path r" and io: "io_good io" "io_good io'" and adm: "adm_good adm"
    and sha: "\<And>d. length (sha d) = SC_STORAGE_SEG_CHECKSUM_SIZE"
  shows "\<exists>r1 r2. sc_storage_shutdown adm io sha True r = Some r1 \<and>
     sc_storage_initialize adm io' sha path False r1 = Some (True, r2) \<and> running path r2 \<and> rep_db r2 = rep_db r \<and>
     reloaded (rep_storage r) (rep_storage r2) \<and>
     max_loaded_segments (rep_storage r2) = max_loaded_segments (rep_storage r)"
proof -
  let ?s = "rep_storage r" and ?p = "take (MAX_PATH_LENGTH - 1) (path @ ''/segments.scdb'')"
  let ?sgs = "map (\<lambda>i. the (segments ?s i)) [0..<segments_num ?s]"
  note seg = storage_segments [OF ok]
  from shutdown_saves [OF ok run io(1) adm, of sha] obtain r1 where
    r1: "sc_storage_shutdown adm io sha True r = Some r1" "\<not> rep_allocated r1" "\<not> rep_initialized r1"
      "rep_db r1 = rep_db r" "max_loaded_segments (rep_storage r1) = max_loaded_segments ?s"
      "rep_files r1 ?p = Some (file_image (io_time io) sha ?sgs)"
    using run by (auto simp: running_def)
  have c: "cells_ok sg" if "sg \<in> set ?sgs" for sg
  proof -
    from that obtain i where "i < segments_num ?s" "sg = the (segments ?s i)" by auto
    then obtain "segments ?s i = Some sg" using seg(1) [of i] by auto
    then show ?thesis using stored_segment(1) [OF ok] by blast
  qed
  have l: "length ?sgs \<le> SC_ADDR_SEG_MAX" using seg(2) by simp
  from initialize_loads [OF r1(2,3) io(2) adm sha c l r1(6)] obtain r2 where
    r2: "sc_storage_initialize adm io' sha path False r1 = Some (True, r2)" "running path r2" "rep_db r2 = rep_db r1"
      "segments (rep_storage r2) = (\<lambda>i. if i < length ?sgs then Some (loaded_segment i (segment_bytes (?sgs ! i))) else None)"
      "segments_num (rep_storage r2) = length ?sgs" "segments_cache (rep_storage r2) = (\<lambda>_. None)"
      "max_loaded_segments (rep_storage r2) = max_loaded_segments (rep_storage r1)" by blast
  have "segments (rep_storage r2) i = map_option (\<lambda>sg. loaded_segment i (segment_bytes sg)) (segments ?s i)" for i
    using seg(1) [of i] by (cases "segments ?s i") (simp_all add: r2(4))
  then have "reloaded ?s (rep_storage r2)" using r2(5,6) by (simp add: reloaded_def)
  then show ?thesis using r1 r2 by auto
qed

end
