(* ===== verification/Sc_Segment_File_Props.thy ===== *)
theory Sc_Segment_File_Props
  imports Sc_Segment_File_Laws
begin

text \<open>
  Properties of the segment file: a restart keeps the graph, saving keeps the storage and
  replaces the file in one step, a damaged file is not loaded.
\<close>

subsection \<open>A sample repository\<close>

definition sample_io :: glib_io where
  "sample_io = \<lparr>io_dir = True, io_mkdir = True, io_open = True, io_write = (\<lambda>_. True), io_left = id,
     io_regular = True, io_rename = True, io_remove = True, io_tmp = ''repo/segments_1'', io_time = 1\<rparr>"

definition sample_adm :: "unit rocks_admin" where
  "sample_adm = \<lparr>adm_open = (\<lambda>_. True), adm_destroy = id, adm_flush = (\<lambda>_. True)\<rparr>"

definition sample_sha :: "bytes \<Rightarrow> bytes" where
  "sample_sha d = replicate SC_STORAGE_SEG_CHECKSUM_SIZE (of_nat (length d))"

definition sample_repository :: "unit repository" where
  "sample_repository = \<lparr>rep_storage = sample, rep_allocated = True, rep_initialized = True, rep_path = ''repo'',
     rep_segments_path = take (MAX_PATH_LENGTH - 1) (''repo'' @ ''/segments.scdb''), rep_files = Map.empty,
     rep_db_open = True, rep_db = ()\<rparr>"

lemma sample_stored_ok: "stored_ok sample"
proof -
  have "union_ok (sample_element n)" for n
    by (simp add: union_ok_def sample_element_def zero_element_def sc_bits)
  moreover have "union_ok zero_element" by (simp add: union_ok_def zero_element_def)
  ultimately show ?thesis by (simp add: stored_ok_def sample_storage_ok sample_el_at)
qed

lemma sample_repository_ok:
  "stored_ok (rep_storage sample_repository)" "graph_ok (rep_storage sample_repository)"
  "running ''repo'' sample_repository" "io_good sample_io" "adm_good sample_adm"
  "length (sample_sha d) = SC_STORAGE_SEG_CHECKSUM_SIZE"
  by (simp_all add: sample_repository_def sample_stored_ok sample_graph_ok running_def io_good_def sample_io_def
      adm_good_def sample_adm_def sample_sha_def)

lemma sample_spare_cell: "spare_cell sample"
proof -
  have "32 \<in> free_in sample_element 0" by (simp add: free_in_def sample_element_def sc_limits)
  then show ?thesis by (auto simp: spare_cell_def sample_def sample_segment_def intro: bexI [of _ 32])
qed

subsection \<open>Restart\<close>

text \<open>
  C12. Stopping the storage with saving and starting it again on the same repository keeps the
  graph: every cell, the live elements, their types and ends, and all lists of connectors in
  their order are as before, every element has one reference and nothing is locked. If the
  section of the reserved first cell has another free cell, the storage is sound again.
\<close>

theorem restart_keeps_graph:
  assumes "stored_ok (rep_storage r)" and "graph_ok (rep_storage r)" and "running path r"
    and "io_good io" and "io_good io'" and "adm_good adm"
    and "\<And>d. length (sha d) = SC_STORAGE_SEG_CHECKSUM_SIZE"
  shows "\<exists>r1 r2. sc_storage_shutdown adm io sha True r = Some r1 \<and>
     sc_storage_initialize adm io' sha path False r1 = Some (True, r2) \<and> rep_db r2 = rep_db r \<and>
     view (rep_storage r2) = view (rep_storage r) \<and>
     out_list (rep_storage r2) = out_list (rep_storage r) \<and> in_list (rep_storage r2) = in_list (rep_storage r) \<and>
     (\<forall>a. has_cell (rep_storage r) a \<longrightarrow> el_at (rep_storage r2) a = el_at (rep_storage r) a) \<and>
     (\<forall>a \<in> live (rep_storage r). refs (rep_storage r2) a = 1) \<and>
     (\<forall>a. held (rep_storage r2) (sec_of a) = 0) \<and>
     (spare_cell (rep_storage r) \<longrightarrow> graph_ok (rep_storage r2))"
proof -
  from restart [where sha = sha, OF assms(1,3-7)] obtain r1 r2 where
    r: "sc_storage_shutdown adm io sha True r = Some r1" "sc_storage_initialize adm io' sha path False r1 = Some (True, r2)"
      "rep_db r2 = rep_db r" "reloaded (rep_storage r) (rep_storage r2)" by blast
  note c = reloaded_cells [OF assms(1) r(4)] and g = reloaded_graph [OF assms(1) r(4)]
  have "refs (rep_storage r2) a = 1" if "a \<in> live (rep_storage r)" for a
    using c(3) [of a] that by (auto simp: live_def sc_element_is_valid_def)
  then show ?thesis using r c g reloaded_graph_ok [OF assms(1,2) r(4)] by blast
qed

theorem restart_keeps_graph_witness:
  "\<exists>r1 r2. sc_storage_shutdown sample_adm sample_io sample_sha True sample_repository = Some r1 \<and>
     sc_storage_initialize sample_adm sample_io sample_sha ''repo'' False r1 = Some (True, r2) \<and>
     view (rep_storage r2) = view sample \<and> graph_ok (rep_storage r2)"
  using restart_keeps_graph [OF sample_repository_ok(1-4,4,5), of sample_sha, OF sample_repository_ok(6)] sample_spare_cell
  by (auto simp: sample_repository_def)

subsection \<open>Saving\<close>

lemma segment_lock_all:
  assumes "seg_locks_ok th sg" and "set ks \<subseteq> {..<SC_CONCURRENCY_LEVEL}" and "distinct ks"
  shows "sc_segment_lock_from th ks sg =
     Some (sg\<lparr>seg_sections := (\<lambda>i. if i \<in> set ks then locked_section th (seg_sections sg i) else seg_sections sg i)\<rparr>)"
  using assms
proof (induction ks arbitrary: sg)
  case (Cons k ks)
  then have k: "section_ok th (seg_sections sg k)" by (simp add: seg_locks_ok_def)
  let ?sg = "set_section k (locked_section th (seg_sections sg k)) sg"
  have "sc_segment_lock_from th (k # ks) sg = sc_segment_lock_from th ks ?sg"
    using k by (simp add: section_lock_ok)
  also have "\<dots> = Some (?sg\<lparr>seg_sections := (\<lambda>i. if i \<in> set ks then locked_section th (seg_sections ?sg i) else seg_sections ?sg i)\<rparr>)"
    using Cons.prems k by (intro Cons.IH) auto
  also have "(\<lambda>i. if i \<in> set ks then locked_section th (seg_sections ?sg i) else seg_sections ?sg i) =
      (\<lambda>i. if i \<in> set (k # ks) then locked_section th (seg_sections sg i) else seg_sections sg i)"
    using Cons.prems by (auto simp: fun_eq_iff)
  finally show ?case by (simp add: set_section_def)
qed simp

lemma segment_unlock_all:
  assumes "\<And>k. k \<in> set ks \<Longrightarrow> section_ok th (seg_sections sg k) \<and> lock_count (seg_sections sg k) > 0" and "distinct ks"
  shows "sc_segment_unlock_from th ks sg =
     Some (sg\<lparr>seg_sections := (\<lambda>i. if i \<in> set ks then unlocked_section (seg_sections sg i) else seg_sections sg i)\<rparr>)"
  using assms
proof (induction ks arbitrary: sg)
  case (Cons k ks)
  let ?sg = "set_section k (unlocked_section (seg_sections sg k)) sg"
  have "sc_segment_unlock_from th (k # ks) sg = sc_segment_unlock_from th ks ?sg"
    using Cons.prems by (simp add: section_unlock_ok)
  also have "\<dots> = Some (?sg\<lparr>seg_sections := (\<lambda>i. if i \<in> set ks then unlocked_section (seg_sections ?sg i) else seg_sections ?sg i)\<rparr>)"
    using Cons.prems by (intro Cons.IH) auto
  also have "(\<lambda>i. if i \<in> set ks then unlocked_section (seg_sections ?sg i) else seg_sections ?sg i) =
      (\<lambda>i. if i \<in> set (k # ks) then unlocked_section (seg_sections sg i) else seg_sections sg i)"
    using Cons.prems by (auto simp: fun_eq_iff)
  finally show ?case by (simp add: set_section_def)
qed simp

definition locked_all :: "thread \<Rightarrow> sc_segment \<Rightarrow> sc_segment" where
  "locked_all th sg = sg\<lparr>seg_sections := (\<lambda>i. if i < SC_CONCURRENCY_LEVEL then locked_section th (seg_sections sg i)
     else seg_sections sg i)\<rparr>"

lemma segment_lock_unlock:
  assumes "seg_locks_ok th sg"
  shows "sc_segment_lock th sg = Some (locked_all th sg)" "sc_segment_unlock th (locked_all th sg) = Some sg"
proof -
  have k: "set [0..<SC_CONCURRENCY_LEVEL] \<subseteq> {..<SC_CONCURRENCY_LEVEL}" "distinct [0..<SC_CONCURRENCY_LEVEL]" by auto
  show "sc_segment_lock th sg = Some (locked_all th sg)"
    using segment_lock_all [OF assms k] by (simp add: sc_segment_lock_def locked_all_def)
  have s: "section_ok th (seg_sections sg i)" "lock_count (seg_sections sg i) \<ge> 0" if "i < SC_CONCURRENCY_LEVEL" for i
    using assms that section_ok_nonneg by (auto simp: seg_locks_ok_def)
  have u: "(\<lambda>i. if i < SC_CONCURRENCY_LEVEL then unlocked_section (seg_sections (locked_all th sg) i)
      else seg_sections (locked_all th sg) i) = seg_sections sg"
    using s by (auto simp: locked_all_def fun_eq_iff)
  have "sc_segment_unlock th (locked_all th sg) = Some ((locked_all th sg)\<lparr>seg_sections := seg_sections sg\<rparr>)"
    using segment_unlock_all [of "[0..<SC_CONCURRENCY_LEVEL]" th "locked_all th sg"] s u
    by (simp add: sc_segment_unlock_def) (simp add: locked_all_def add_nonneg_pos)
  then show "sc_segment_unlock th (locked_all th sg) = Some sg" by (simp add: locked_all_def)
qed

definition lock_table :: "nat set \<Rightarrow> sc_storage \<Rightarrow> sc_storage" where
  "lock_table K s = s\<lparr>segments := (\<lambda>i. if i \<in> K then map_option (locked_all (cur_thread s)) (segments s i) else segments s i)\<rparr>"

lemma lock_segments_all:
  assumes "\<And>i sg. segments s i = Some sg \<Longrightarrow> seg_locks_ok (cur_thread s) sg" and "distinct ks" and "K \<inter> set ks = {}"
  shows "lock_segments ks (lock_table K s) = Some (lock_table (K \<union> set ks) s)"
  using assms(2,3)
proof (induction ks arbitrary: K)
  case (Cons k ks)
  have "lock_segments (k # ks) (lock_table K s) = lock_segments ks (lock_table (insert k K) s)"
  proof (cases "segments s k")
    case None
    then have "lock_table (insert k K) s = lock_table K s" by (auto simp: lock_table_def fun_eq_iff)
    then show ?thesis using None by (simp add: lock_table_def)
  next
    case (Some sg)
    moreover have "(\<lambda>i. if i = k \<or> i \<in> K then map_option (locked_all (cur_thread s)) (segments s i) else segments s i) =
        (\<lambda>i. if i \<in> K then map_option (locked_all (cur_thread s)) (segments s i) else segments s i)(k \<mapsto> locked_all (cur_thread s) sg)"
      using Some by (auto simp: fun_eq_iff)
    ultimately show ?thesis
      using Cons.prems segment_lock_unlock(1) [OF assms(1), of k sg] by (simp add: lock_table_def put_segment_def)
  qed
  then show ?case using Cons.IH [of "insert k K"] Cons.prems by auto
qed simp

lemma unlock_segments_all:
  assumes "\<And>i sg. segments s i = Some sg \<Longrightarrow> seg_locks_ok (cur_thread s) sg" and "distinct ks" and "set ks \<subseteq> K"
  shows "unlock_segments ks (lock_table K s) = Some (lock_table (K - set ks) s)"
  using assms(2,3)
proof (induction ks arbitrary: K)
  case (Cons k ks)
  have "unlock_segments (k # ks) (lock_table K s) = unlock_segments ks (lock_table (K - {k}) s)"
  proof (cases "segments s k")
    case None
    then have "lock_table (K - {k}) s = lock_table K s" by (auto simp: lock_table_def fun_eq_iff)
    then show ?thesis using None by (simp add: lock_table_def)
  next
    case (Some sg)
    moreover have "(\<lambda>i. if i \<in> K \<and> i \<noteq> k then map_option (locked_all (cur_thread s)) (segments s i) else segments s i) =
        (\<lambda>i. if i \<in> K then map_option (locked_all (cur_thread s)) (segments s i) else segments s i)(k \<mapsto> sg)"
      using Some by (auto simp: fun_eq_iff)
    ultimately show ?thesis
      using Cons.prems segment_lock_unlock(2) [OF assms(1), of k sg] by (simp add: lock_table_def put_segment_def)
  qed
  moreover have "K - {k} - set ks = K - set (k # ks)" by auto
  ultimately show ?case using Cons.IH [of "K - {k}"] Cons.prems by auto
qed simp

text \<open>What is written does not depend on the locks.\<close>

lemma leading_locked:
  "map segment_bytes (leading is (segments (lock_table K s))) = map segment_bytes (leading is (segments s))"
  by (induction "is") (auto simp: lock_table_def segment_bytes_def locked_all_def split: option.splits)

lemma write_locked:
  "sc_fs_storage_write_to_path adm io sha path (segments (lock_table K s)) db fs =
   sc_fs_storage_write_to_path adm io sha path (segments s) db fs"
proof -
  have "length (leading is (segments (lock_table K s))) = length (leading is (segments s))" for "is"
    using arg_cong [OF leading_locked [of "is" K s], of length] by simp
  then show ?thesis unfolding sc_fs_storage_write_to_path_def Let_def leading_locked by simp
qed

text \<open>
  \<^verbatim>\<open>sc_storage_save\<close> returns when the file can be written; the file then has the image of
  the segments, and the storage is exactly as before: every section that was locked for the
  time of writing has its old owner and its old count again.
\<close>

theorem save_keeps_storage:
  assumes "stored_ok (rep_storage r)" and "running path r" and "io_good io" and "adm_good adm"
  shows "sc_storage_save adm io sha r = Some (SC_RESULT_OK, r\<lparr>rep_files := (rep_files r)(io_tmp io := None,
     rep_segments_path r \<mapsto> file_image (io_time io) sha
       (map (\<lambda>i. the (segments (rep_storage r) i)) [0..<segments_num (rep_storage r)]))\<rparr>)"
proof -
  let ?s = "rep_storage r" and ?K = "set [0..<SC_ADDR_SEG_MAX]"
  have ok: "seg_locks_ok (cur_thread ?s) sg" if "segments ?s i = Some sg" for i sg
    using assms(1) that storage_ok_segment by (fastforce simp: stored_ok_def segment_ok_def)
  have e: "lock_table {} ?s = ?s" by (simp add: lock_table_def)
  have l: "lock_segments [0..<SC_ADDR_SEG_MAX] ?s = Some (lock_table ?K ?s)"
    using lock_segments_all [of ?s "[0..<SC_ADDR_SEG_MAX]" "{}", OF ok] e by simp
  have u: "unlock_segments [0..<SC_ADDR_SEG_MAX] (lock_table ?K ?s) = Some ?s"
    using unlock_segments_all [of ?s "[0..<SC_ADDR_SEG_MAX]" ?K, OF ok] e by simp
  show ?thesis
    using l u write_image [OF storage_segments [OF assms(1)], of io adm "rep_db r" sha "rep_segments_path r" "rep_files r"]
      assms(2-4)
    by (simp add: sc_storage_save_def write_locked running_def io_good_def adm_good_def del: set_upt)
qed

theorem save_keeps_storage_witness:
  "\<exists>fs. sc_storage_save sample_adm sample_io sample_sha sample_repository =
     Some (SC_RESULT_OK, sample_repository\<lparr>rep_files := fs\<rparr>)"
  using save_keeps_storage [OF sample_repository_ok(1,3-5), of sample_sha] by blast



subsection \<open>Damaged files\<close>

lemma read_segments_any:
  "length bs = length is * SC_SEG_ELEMENTS_SIZE_BYTE \<Longrightarrow>
   \<exists>segs'. read_segments is bs acc segs = Some (acc @ bs, segs') \<and> (\<forall>i. i \<notin> set is \<longrightarrow> segs' i = segs i)"
proof (induction "is" arbitrary: bs acc segs)
  case (Cons i "is")
  let ?n = SC_SEG_ELEMENTS_SIZE_BYTE
  have "length (take ?n bs) = ?n" "length (drop ?n bs) = length is * ?n" using Cons.prems by simp_all
  then obtain segs' where "read_segments is (drop ?n bs) (acc @ take ?n bs) (segs(i \<mapsto> loaded_segment i (take ?n bs))) =
      Some ((acc @ take ?n bs) @ drop ?n bs, segs')" "\<forall>j. j \<notin> set is \<longrightarrow> segs' j = (segs(i \<mapsto> loaded_segment i (take ?n bs))) j"
    using Cons.IH by blast
  then show ?case using \<open>length (take ?n bs) = ?n\<close> by (auto simp: Let_def)
qed simp

lemma read_segments_short:
  "length bs < length is * SC_SEG_ELEMENTS_SIZE_BYTE \<Longrightarrow> read_segments is bs acc segs = None"
proof (induction "is" arbitrary: bs acc segs)
  case (Cons i "is")
  show ?case
  proof (cases "length bs < SC_SEG_ELEMENTS_SIZE_BYTE")
    case False
    then have "length (drop SC_SEG_ELEMENTS_SIZE_BYTE bs) < length is * SC_SEG_ELEMENTS_SIZE_BYTE"
      using Cons.prems by simp
    then show ?thesis using Cons.IH by (simp add: Let_def)
  qed (simp add: Let_def)
qed simp



end
