(* ===== verification/Sc_Element_Ops.thy ===== *)
theory Sc_Element_Ops
  imports Sc_Refs
begin

text \<open>
  Reading and changing one element. Every accessor of the storage locks the section of the
  element, looks at or rewrites the cell and unlocks it; the locale \<open>locked_cells\<close> is this
  bracket as an interface, and its interpretation on the storage carries the proofs of all
  accessors. An accessor that succeeds or fails gives the storage back as it found it, up
  to the field it writes, with one exception: \<^verbatim>\<open>sc_storage_change_element_subtype\<close>
  returns with the section locked when the new type is of another kind.
\<close>

subsection \<open>The bracket\<close>

locale locked_cells =
  fixes ok :: "'s \<Rightarrow> bool" and has :: "'s \<Rightarrow> 'a \<Rightarrow> bool"
    and lock unlock :: "'a \<Rightarrow> 's \<Rightarrow> ('r \<times> 's) option" and good :: 'r
    and read :: "'s \<Rightarrow> 'a \<Rightarrow> 'e" and update :: "'a \<Rightarrow> ('e \<Rightarrow> 'e) \<Rightarrow> 's \<Rightarrow> 's"
    and locked :: "'a \<Rightarrow> 's \<Rightarrow> 's"
  assumes lock_succeeds: "ok s \<Longrightarrow> has s a \<Longrightarrow> lock a s = Some (good, locked a s)"
    and read_locked: "ok s \<Longrightarrow> has s a \<Longrightarrow> read (locked a s) a = read s a"
    and unlock_locked: "ok s \<Longrightarrow> has s a \<Longrightarrow> unlock a (locked a s) = Some (good, s)"
    and unlock_updated: "ok s \<Longrightarrow> has s a \<Longrightarrow> unlock a (update a f (locked a s)) = Some (good, update a f s)"
begin

lemma read_bracket:
  assumes "ok s" and "has s a"
  shows "(do { (r, s1) \<leftarrow> lock a s;
               if r \<noteq> good then bad s1
               else (case f (read s1 a) of (x, y) \<Rightarrow> do { (_, s2) \<leftarrow> unlock a s1; Some (x, y, s2) }) }) =
         (case f (read s a) of (x, y) \<Rightarrow> Some (x, y, s))"
  using assms by (simp add: lock_succeeds read_locked unlock_locked split: prod.split)

lemma update_bracket:
  assumes "ok s" and "has s a"
  shows "(do { (r, s1) \<leftarrow> lock a s;
               if r \<noteq> good then bad s1
               else if P (read s1 a) then do { (_, s2) \<leftarrow> unlock a (update a f s1); yes s2 }
               else do { (_, s2) \<leftarrow> unlock a s1; no s2 } }) =
         (if P (read s a) then yes (update a f s) else no s)"
  using assms by (simp add: lock_succeeds read_locked unlock_locked unlock_updated)

end

lemma unlock_set_el_lock:
  assumes ok: "storage_ok s" and cell: "has_cell s a"
  shows "sc_storage_element_unlock a (set_el a f (lock_cell a s)) = Some (SC_RESULT_OK, set_el a f s)"
proof -
  obtain sg where sg: "segments s (seg_ix a) = Some sg" and "off_ix a < SC_SEGMENT_ELEMENTS_COUNT"
    "seg_ix a < SC_ADDR_SEG_MAX"
    using cell by (rule has_cellE)
  moreover let ?i = "off_ix a mod SC_CONCURRENCY_LEVEL"
  have "section_ok (cur_thread s) (seg_sections sg ?i)" by (rule seg_section_ok [OF ok sg]) simp
  then have "sc_segment_section_unlock (cur_thread s) (locked_section (cur_thread s) (seg_sections sg ?i)) =
      Some (seg_sections sg ?i)"
    using section_unlock_ok [OF section_ok_locked, of "cur_thread s" "seg_sections sg ?i"]
      section_ok_nonneg [of "cur_thread s" "seg_sections sg ?i"] by simp
  ultimately show ?thesis
    by (simp add: sc_storage_element_unlock_def sc_segment_unlock_element_def lock_cell_def set_el_def
          Let_def put_segment_def set_section_def fun_upd_idem)
qed

interpretation cell: locked_cells storage_ok has_cell sc_storage_element_lock sc_storage_element_unlock
    SC_RESULT_OK el_at set_el lock_cell
proof
  fix s a f
  assume s: "storage_ok s" "has_cell s a"
  show "sc_storage_element_lock a s = Some (SC_RESULT_OK, lock_cell a s)"
    by (rule element_lock_ok [OF s])
  show "el_at (lock_cell a s) a = el_at s a" by (simp add: sc_state)
  have "storage_ok (lock_cell a s)" "has_cell (lock_cell a s) a" "held (lock_cell a s) (sec_of a) > 0"
    using s held_nonneg [OF s] by (simp_all add: sc_state)
  then show "sc_storage_element_unlock a (lock_cell a s) = Some (SC_RESULT_OK, s)"
    by (simp add: element_unlock_ok unlock_lock_cell [OF s])
  show "sc_storage_element_unlock a (set_el a f (lock_cell a s)) = Some (SC_RESULT_OK, set_el a f s)"
    by (rule unlock_set_el_lock [OF s])
qed

lemmas bracket = cell.lock_succeeds cell.read_locked cell.unlock_locked cell.unlock_updated

lemma lock_no_segment:
  assumes "segments s (seg_ix a) = None"
  shows "sc_storage_element_lock a s = Some (SC_RESULT_ERROR, s)"
  using assms by (simp add: sc_storage_element_lock_def)

lemma lock_no_cell:
  assumes "off_ix a < SC_SEGMENT_ELEMENTS_COUNT" and "\<not> has_cell s a"
  shows "sc_storage_element_lock a s = Some (SC_RESULT_ERROR, s)"
  using assms by (auto simp: sc_storage_element_lock_def has_cell_def)

lemma sample_offsets:
  "off_ix sample_n1 < SC_SEGMENT_ELEMENTS_COUNT" "off_ix sample_link < SC_SEGMENT_ELEMENTS_COUNT"
  "off_ix sample_arc < SC_SEGMENT_ELEMENTS_COUNT"
  by (simp_all add: sc_limits)

lemma sample_valid:
  "has_cell sample sample_n1" "sc_element_is_valid (el_at sample sample_n1)"
  "has_cell sample sample_link" "el_type (el_at sample sample_n1) = sc_type_node OR sc_type_const"
  using sample_members(1,4)
  by (simp_all add: live_def) (simp add: sample_el_at sample_element_def)


subsection \<open>Accessors on every branch\<close>

text \<open>
  \<^verbatim>\<open>sc_storage_get_element_type\<close>: outside the storage it fails, on a free or dying
  cell it reports an invalid state, without read rights it refuses, and else it yields the
  type without the internal flags; the storage is unchanged in every case.
\<close>

theorem get_element_type_correct:
  assumes "storage_ok s" and "off_ix a < SC_SEGMENT_ELEMENTS_COUNT"
  shows "sc_storage_get_element_type ctx a s = Some (
     if \<not> has_cell s a then (SC_RESULT_ERROR, None, s)
     else if \<not> sc_element_is_valid (el_at s a) then (SC_RESULT_ERROR_INVALID_STATE, None, s)
     else if \<not> sc_access_lvl_check_read (ctx_access ctx) (el_access (el_at s a))
     then (SC_RESULT_ERROR_NO_READ_RIGHTS, None, s)
     else (SC_RESULT_OK, Some (sc_flags_remove (el_type (el_at s a))), s))"
  using assms
  by (cases "has_cell s a")
     (simp_all add: sc_storage_get_element_type_def bracket lock_no_cell Let_def)

theorem get_element_type_correct_witness:
  "sc_storage_get_element_type sample_ctx sample_n1 sample =
     Some (SC_RESULT_OK, Some (sc_flags_remove (sc_type_node OR sc_type_const)), sample)"
  using get_element_type_correct [OF sample_storage_ok sample_offsets(1), of sample_ctx]
  by (simp add: sample_valid sample_access)

lemma arc_reader_correct:
  assumes "storage_ok s" and "off_ix a < SC_SEGMENT_ELEMENTS_COUNT"
  shows "arc_reader out ctx a s = Some (
     if \<not> has_cell s a then (SC_RESULT_ERROR, None, s)
     else if \<not> sc_element_is_valid (el_at s a) then (SC_RESULT_ERROR_INVALID_STATE, None, s)
     else if \<not> sc_access_lvl_check_read (ctx_access ctx) (el_access (el_at s a))
     then (SC_RESULT_ERROR_NO_READ_RIGHTS, None, s)
     else if \<not> is_arc (el_at s a) then (SC_RESULT_ERROR_INVALID_TYPE, None, s)
     else (SC_RESULT_OK, Some (out (el_at s a)), s))"
  using assms
  by (cases "has_cell s a") (simp_all add: arc_reader_def bracket lock_no_cell Let_def is_arc_def)

text \<open>
  In a sound graph the three readers of a connector agree: on a readable connector
  \<^verbatim>\<open>sc_storage_get_arc_info\<close> yields what \<^verbatim>\<open>sc_storage_get_arc_begin\<close> and
  \<^verbatim>\<open>sc_storage_get_arc_end\<close> yield, both are live elements, and nothing changes.
\<close>

theorem get_arc_info_correct:
  assumes "graph_ok s" and "a \<in> arcs s"
    and "sc_access_lvl_check_read (ctx_access ctx) (el_access (el_at s a))"
  shows "\<exists>b \<in> live s. \<exists>e \<in> live s.
     sc_storage_get_arc_begin ctx a s = Some (SC_RESULT_OK, Some b, s) \<and>
     sc_storage_get_arc_end ctx a s = Some (SC_RESULT_OK, Some e, s) \<and>
     sc_storage_get_arc_info ctx a s = Some (SC_RESULT_OK, Some (b, e), s)"
proof -
  have a: "storage_ok s" "has_cell s a" "sc_element_is_valid (el_at s a)" "is_arc (el_at s a)"
    using assms by (auto simp: graph_ok_def arcs_def live_def)
  have off: "off_ix a < SC_SEGMENT_ELEMENTS_COUNT" using a(2) by (simp add: has_cell_def)
  have "arc_begin (arc (el_at s a)) \<in> live s" "arc_end (arc (el_at s a)) \<in> live s"
    using assms by (auto simp: graph_ok_def)
  with a assms(3) show ?thesis
    unfolding sc_storage_get_arc_begin_def sc_storage_get_arc_end_def sc_storage_get_arc_info_def
    by (simp add: arc_reader_correct [OF a(1) off])
qed

theorem get_arc_info_correct_witness:
  "\<exists>b \<in> live sample. \<exists>e \<in> live sample.
     sc_storage_get_arc_info sample_ctx sample_arc sample = Some (SC_RESULT_OK, Some (b, e), sample)"
  using get_arc_info_correct [OF sample_graph_ok sample_members(5) sample_access(1), of sample_ctx] by blast

text \<open>
  \<^verbatim>\<open>sc_storage_set_access_levels\<close> lowers the levels of a writable element to those
  the caller has, refuses otherwise, and changes nothing else. It does not look at the
  type: a free cell is accepted.
\<close>

theorem set_access_levels_correct:
  assumes "storage_ok s" and "off_ix a < SC_SEGMENT_ELEMENTS_COUNT"
  shows "sc_storage_set_access_levels ctx a al s = Some (
     if \<not> has_cell s a then (SC_RESULT_ERROR, None, s)
     else if sc_access_lvl_check_write (ctx_access ctx) (el_access (el_at s a))
     then (let v = sc_access_lvl_min (ctx_access ctx) al
           in (SC_RESULT_OK, Some v, set_el a (\<lambda>e. e\<lparr>el_access := v\<rparr>) s))
     else (SC_RESULT_ERROR_NO_WRITE_RIGHTS, None, s))"
  using assms
  by (cases "has_cell s a")
     (simp_all add: sc_storage_set_access_levels_def bracket lock_no_cell Let_def)

theorem set_access_levels_correct_witness:
  "sc_storage_set_access_levels sample_ctx sample_link 0x11 sample =
     Some (SC_RESULT_OK, Some (sc_access_lvl_min (ctx_access sample_ctx) 0x11),
       set_el sample_link (\<lambda>e. e\<lparr>el_access := sc_access_lvl_min (ctx_access sample_ctx) 0x11\<rparr>) sample)"
  using set_access_levels_correct [OF sample_storage_ok sample_offsets(2), of sample_ctx "0x11"]
  by (simp add: sample_valid sample_access Let_def)

lemma change_subtype_cases:
  assumes "storage_ok s" and "has_cell s a"
  shows "sc_storage_change_element_subtype ctx a t s = Some (
     if \<not> sc_element_is_valid (el_at s a) then (SC_RESULT_ERROR_INVALID_STATE, s)
     else if el_type (el_at s a) AND sc_type_element_mask \<noteq> t AND sc_type_element_mask
     then (SC_RESULT_ERROR_INVALID_PARAMS, lock_cell a s)
     else if sc_access_lvl_check_write (ctx_access ctx) (el_access (el_at s a))
     then (SC_RESULT_OK, set_el a (\<lambda>e. e\<lparr>el_type := t\<rparr>) s)
     else (SC_RESULT_ERROR_NO_WRITE_RIGHTS, s))"
  using assms
  by (simp add: sc_storage_change_element_subtype_def bracket Let_def)

text \<open>
  \<^verbatim>\<open>sc_storage_change_element_subtype\<close> leaks a lock: when the new type is of another
  kind than the element, it returns \<^verbatim>\<open>SC_RESULT_ERROR_INVALID_PARAMS\<close> and the section
  of the element stays locked once more than before, while the elements are untouched.
\<close>

theorem change_subtype_leaks_lock:
  assumes "storage_ok s" and "a \<in> live s"
    and "el_type (el_at s a) AND sc_type_element_mask \<noteq> t AND sc_type_element_mask"
  shows "\<exists>s'. sc_storage_change_element_subtype ctx a t s = Some (SC_RESULT_ERROR_INVALID_PARAMS, s') \<and>
     held s' (sec_of a) = held s (sec_of a) + 1 \<and> el_at s' = el_at s"
  using assms change_subtype_cases [of s a ctx t]
  by (simp add: live_def sc_state)

theorem change_subtype_leaks_lock_witness:
  "\<exists>s'. sc_storage_change_element_subtype sample_ctx sample_n1 sc_type_link sample =
       Some (SC_RESULT_ERROR_INVALID_PARAMS, s') \<and> held s' (sec_of sample_n1) = held sample (sec_of sample_n1) + 1"
  using change_subtype_leaks_lock [OF sample_storage_ok sample_members(1), of sc_type_link sample_ctx]
  by (simp add: sample_valid(4)) (auto simp: sc_bits)

lemma element_mask_parts:
  assumes "(x :: sc_type) AND sc_type_element_mask = y AND sc_type_element_mask"
  shows "x AND sc_type_arc_mask = y AND sc_type_arc_mask" "x AND sc_type_link = y AND sc_type_link"
proof -
  have m: "sc_type_arc_mask = sc_type_element_mask AND sc_type_arc_mask"
    "sc_type_link = sc_type_element_mask AND sc_type_link"
    by (simp_all add: sc_bits)
  show "x AND sc_type_arc_mask = y AND sc_type_arc_mask"
    by (subst (1 2) m(1)) (simp only: assms flip: and.assoc)
  show "x AND sc_type_link = y AND sc_type_link"
    by (subst (1 2) m(2)) (simp only: assms flip: and.assoc)
qed

text \<open>
  A successful \<^verbatim>\<open>sc_storage_change_element_subtype\<close> gives the element the new type
  and keeps the graph: the same elements are live, the same ones are connectors, and every
  adjacency list is the same.
\<close>

theorem change_subtype_keeps_graph:
  assumes ok: "graph_ok s" and a: "a \<in> live s"
    and t: "el_type (el_at s a) AND sc_type_element_mask = t AND sc_type_element_mask"
      "t AND sc_flag_request_deletion = 0" "t \<noteq> 0"
    and w: "sc_access_lvl_check_write (ctx_access ctx) (el_access (el_at s a))"
  shows "\<exists>s'. sc_storage_change_element_subtype ctx a t s = Some (SC_RESULT_OK, s') \<and> graph_ok s' \<and>
     el_type (el_at s' a) = t \<and> live s' = live s \<and> arcs s' = arcs s \<and> held s' = held s \<and>
     out_list s' = out_list s \<and> in_list s' = in_list s"
proof -
  let ?s = "set_el a (\<lambda>e. e\<lparr>el_type := t\<rparr>) s"
  note sok = graph_ok_storage [OF ok]
  have c: "has_cell s a" "sc_element_is_valid (el_at s a)" "el_type (el_at s a) \<noteq> 0"
    using a live_typed [OF a] by (auto simp: live_def)
  have h: "el_at ?s = (el_at s)(a := (el_at s a)\<lparr>el_type := t\<rparr>)" by (rule el_at_set_el_fun [OF c(1)])
  have s': "storage_ok ?s" using sok c(3) t(3) by (intro storage_ok_set_typed) simp_all
  have L: "live ?s = live s" using c t(2,3) by (auto simp: live_def h set_el_frame sc_element_is_valid_def)
  have A: "arcs ?s = arcs s"
    using element_mask_parts(1) [OF t(1)] by (auto simp: arcs_def L h is_arc_def)
  have out: "out_list ?s = out_list s" and inn: "in_list ?s = in_list s"
    unfolding out_list_def in_list_def A L by (rule out.chain_cong inn.chain_cong; simp add: h)+
  have "graph_ok ?s"
    using ok s' element_mask_parts(2) [OF t(1)]
    by (auto simp: graph_ok_def A L out inn h set_el_frame)
  then show ?thesis
    using change_subtype_cases [OF sok c(1), of ctx t] c t w L A out inn
    by (simp add: h set_el_frame)
qed

theorem change_subtype_keeps_graph_witness:
  "\<exists>s'. sc_storage_change_element_subtype sample_ctx sample_n1 (sc_type_node OR sc_type_var) sample =
       Some (SC_RESULT_OK, s') \<and> graph_ok s' \<and> live s' = live sample"
proof -
  have "el_type (el_at sample sample_n1) AND sc_type_element_mask =
      (sc_type_node OR sc_type_var) AND sc_type_element_mask"
    "(sc_type_node OR sc_type_var) AND sc_flag_request_deletion = 0" "sc_type_node OR sc_type_var \<noteq> 0"
    by (simp_all add: sample_valid(4)) (simp_all add: sc_bits)
  from change_subtype_keeps_graph [OF sample_graph_ok sample_members(1) this sample_access(2), of sample_ctx]
  show ?thesis by blast
qed

text \<open>\<^verbatim>\<open>sc_storage_is_element\<close> decides liveness and changes nothing.\<close>

theorem is_element_correct:
  assumes "storage_ok s" and "off_ix a < SC_SEGMENT_ELEMENTS_COUNT"
  shows "sc_storage_is_element a s = Some (a \<in> live s, s)"
  using assms
  by (cases "has_cell s a")
     (simp_all add: sc_storage_is_element_def bracket lock_no_cell Let_def live_def sc_element_is_valid_def)

theorem is_element_correct_witness:
  "sc_storage_is_element sample_n1 sample = Some (True, sample)"
  using is_element_correct [OF sample_storage_ok sample_offsets(1)] sample_members(1) by simp

text \<open>
  An address with the offset \<^verbatim>\<open>0xffff\<close> in an existing segment makes
  \<^verbatim>\<open>sc_storage_is_element\<close> abort instead of answering no.
\<close>

theorem is_element_aborts:
  assumes "segments s (seg_ix a) = Some sg" and "seg_ix a < SC_ADDR_SEG_MAX"
    and "addr_offset a = 0xffff"
  shows "sc_storage_is_element a s = None"
  using assms
  by (simp add: sc_storage_is_element_def sc_storage_element_lock_def sc_segment_lock_element_def sc_limits)

theorem is_element_aborts_witness: "sc_storage_is_element (Addr 0 0xffff) sample = None"
  by (rule is_element_aborts [where sg = sample_segment]) (simp_all add: sample_def sc_limits)

end
