(* ===== verification/Sc_Iterator3.thy ===== *)
theory Sc_Iterator3
  imports Sc_Element_Ops
begin

text \<open>
  Iterators over triples (\<^verbatim>\<open>sc-store/sc_iterator3.h\<close>, \<^verbatim>\<open>sc-store/sc_iterator3.c\<close>):
  creation, the seven kinds of \<^verbatim>\<open>next\<close>, and destruction, over the storage model.

  An element pointer that stays null makes the source loop forever (the \<^verbatim>\<open>while\<close> around
  \<^verbatim>\<open>lock_try\<close>) or dereference it; both are \<open>None\<close>. The variable \<^verbatim>\<open>el_type\<close> of
  \<^verbatim>\<open>_sc_iterator3_f_a_a_next\<close> is not initialised in the source; its initial value is
  the argument \<open>uninit\<close>.
\<close>

subsection \<open>Iterators\<close>

definition s_max_iterator_lock_attempts :: nat where "s_max_iterator_lock_attempts = 10"

datatype sc_iterator3_type =
    sc_iterator3_f_a_a | sc_iterator3_a_a_f | sc_iterator3_f_a_f | sc_iterator3_a_f_a
  | sc_iterator3_f_f_a | sc_iterator3_a_f_f | sc_iterator3_f_f_f

datatype sc_iterator_param = ParamType (param_type: sc_type) | ParamAddr (param_addr: sc_addr)

record sc_iterator3 =
  it_type :: sc_iterator3_type
  param0 :: sc_iterator_param
  param1 :: sc_iterator_param
  param2 :: sc_iterator_param
  result0 :: sc_addr
  result1 :: sc_addr
  result2 :: sc_addr
  it_ctx :: sc_memory_context
  finished :: bool

definition is_type :: "sc_iterator_param \<Rightarrow> bool" where
  "is_type p \<longleftrightarrow> (case p of ParamType _ \<Rightarrow> True | ParamAddr _ \<Rightarrow> False)"

definition sc_iterator_compare_type :: "sc_type \<Rightarrow> sc_type \<Rightarrow> bool" where
  "sc_iterator_compare_type el_ty it_ty \<longleftrightarrow> it_ty AND sc_flags_remove el_ty = it_ty"

definition sc_iterator_param_compare :: "sc_element \<Rightarrow> sc_addr \<Rightarrow> sc_iterator_param \<Rightarrow> bool" where
  "sc_iterator_param_compare el a p = (case p of
      ParamType t \<Rightarrow> el_type el AND t \<noteq> 0
    | ParamAddr b \<Rightarrow> SC_ADDR_IS_EQUAL a b)"

subsection \<open>Creation\<close>

text \<open>A lock that fails leaves the pointer null and is retried, a thousand times in all.\<close>

fun iterator_ref_attempts :: "nat \<Rightarrow> sc_addr \<Rightarrow> sc_storage \<Rightarrow> (bool \<times> sc_storage) option" where
  "iterator_ref_attempts 0 a s = Some (False, s)"
| "iterator_ref_attempts (Suc n) a s = do {
     (r, s1) \<leftarrow> sc_storage_element_lock a s;
     if r = SC_RESULT_OK \<and> \<not> sc_element_is_request_deletion (el_at s1 a) \<and> el_type (el_at s1 a) \<noteq> 0
     then do {
       s2 \<leftarrow> sc_storage_element_ref a s1;
       (_, s3) \<leftarrow> sc_storage_element_unlock a s2;
       Some (True, s3)
     }
     else do {
       (_, s2) \<leftarrow> sc_storage_element_unlock a s1;
       iterator_ref_attempts n a s2
     }
   }"

definition sc_iterator_ref_element :: "sc_addr \<Rightarrow> sc_storage \<Rightarrow> (bool \<times> sc_storage) option" where
  "sc_iterator_ref_element a s = iterator_ref_attempts 1000 a s"

text \<open>The conditions of one \<^verbatim>\<open>case\<close>: the shape of the parameters, then the references, left to right.\<close>

fun ref_params :: "sc_iterator_param list \<Rightarrow> sc_storage \<Rightarrow> (bool \<times> sc_storage) option" where
  "ref_params [] s = Some (True, s)"
| "ref_params (p # ps) s = do {
     (ok, s1) \<leftarrow> sc_iterator_ref_element (param_addr p) s;
     if ok then ref_params ps s1 else Some (False, s1)
   }"

definition check_shape ::
    "sc_iterator3_type \<Rightarrow> sc_iterator_param \<Rightarrow> sc_iterator_param \<Rightarrow> sc_iterator_param \<Rightarrow> bool" where
  "check_shape t p1 p2 p3 = (case t of
      sc_iterator3_f_a_a \<Rightarrow> \<not> is_type p1 \<and> is_type p2 \<and> is_type p3
    | sc_iterator3_a_a_f \<Rightarrow> is_type p1 \<and> is_type p2 \<and> \<not> is_type p3
    | sc_iterator3_f_a_f \<Rightarrow> \<not> is_type p1 \<and> is_type p2 \<and> \<not> is_type p3
    | sc_iterator3_a_f_a \<Rightarrow> is_type p1 \<and> \<not> is_type p2 \<and> is_type p3
    | sc_iterator3_f_f_a \<Rightarrow> \<not> is_type p1 \<and> \<not> is_type p2 \<and> is_type p3
    | sc_iterator3_a_f_f \<Rightarrow> is_type p1 \<and> \<not> is_type p2 \<and> \<not> is_type p3
    | sc_iterator3_f_f_f \<Rightarrow> \<not> is_type p1 \<and> \<not> is_type p2 \<and> \<not> is_type p3)"

definition sc_iterator3_new ::
    "sc_memory_context \<Rightarrow> sc_iterator3_type \<Rightarrow> sc_iterator_param \<Rightarrow> sc_iterator_param \<Rightarrow>
     sc_iterator_param \<Rightarrow> sc_storage \<Rightarrow> (sc_iterator3 option \<times> sc_storage) option" where
  "sc_iterator3_new ctx t p1 p2 p3 s =
     (if \<not> check_shape t p1 p2 p3 then Some (None, s)
      else do {
        (ok, s1) \<leftarrow> ref_params (filter (\<lambda>p. \<not> is_type p) [p1, p2, p3]) s;
        if \<not> ok then Some (None, s1)
        else Some (Some \<lparr>it_type = t, param0 = p1, param1 = p2, param2 = p3,
               result0 = SC_ADDR_MAKE_EMPTY, result1 = SC_ADDR_MAKE_EMPTY, result2 = SC_ADDR_MAKE_EMPTY,
               it_ctx = ctx, finished = False\<rparr>, s1)
      })"

text \<open>The guard of the constructors below: every fixed element must be readable.\<close>

fun fixed_readable :: "sc_memory_context \<Rightarrow> sc_addr list \<Rightarrow> sc_storage \<Rightarrow> (bool \<times> sc_storage) option" where
  "fixed_readable ctx [] s = Some (True, s)"
| "fixed_readable ctx (a # as) s = do {
     (r, levels, s1) \<leftarrow> sc_storage_get_access_levels ctx a s;
     (case levels of
        Some l \<Rightarrow> if r \<noteq> SC_RESULT_OK \<or> \<not> sc_access_lvl_check_read (ctx_access ctx) l
                  then Some (False, s1) else fixed_readable ctx as s1
      | None \<Rightarrow> Some (False, s1))
   }"

definition guarded_new ::
    "sc_memory_context \<Rightarrow> sc_addr list \<Rightarrow> sc_iterator3_type \<Rightarrow> sc_iterator_param \<Rightarrow> sc_iterator_param \<Rightarrow>
     sc_iterator_param \<Rightarrow> sc_storage \<Rightarrow> (sc_iterator3 option \<times> sc_storage) option" where
  "guarded_new ctx as t p1 p2 p3 s = do {
     (ok, s1) \<leftarrow> fixed_readable ctx as s;
     if ok then sc_iterator3_new ctx t p1 p2 p3 s1 else Some (None, s1)
   }"

definition sc_iterator3_f_a_a_new ::
    "sc_memory_context \<Rightarrow> sc_addr \<Rightarrow> sc_type \<Rightarrow> sc_type \<Rightarrow> sc_storage \<Rightarrow> (sc_iterator3 option \<times> sc_storage) option" where
  "sc_iterator3_f_a_a_new ctx el arc_ty end_ty =
     guarded_new ctx [el] sc_iterator3_f_a_a (ParamAddr el) (ParamType arc_ty) (ParamType end_ty)"

definition sc_iterator3_a_a_f_new ::
    "sc_memory_context \<Rightarrow> sc_type \<Rightarrow> sc_type \<Rightarrow> sc_addr \<Rightarrow> sc_storage \<Rightarrow> (sc_iterator3 option \<times> sc_storage) option" where
  "sc_iterator3_a_a_f_new ctx beg_ty arc_ty el =
     guarded_new ctx [el] sc_iterator3_a_a_f (ParamType beg_ty) (ParamType arc_ty) (ParamAddr el)"

definition sc_iterator3_f_a_f_new ::
    "sc_memory_context \<Rightarrow> sc_addr \<Rightarrow> sc_type \<Rightarrow> sc_addr \<Rightarrow> sc_storage \<Rightarrow> (sc_iterator3 option \<times> sc_storage) option" where
  "sc_iterator3_f_a_f_new ctx el_beg arc_ty el_end =
     guarded_new ctx [el_beg, el_end] sc_iterator3_f_a_f (ParamAddr el_beg) (ParamType arc_ty) (ParamAddr el_end)"

definition sc_iterator3_a_f_a_new ::
    "sc_memory_context \<Rightarrow> sc_type \<Rightarrow> sc_addr \<Rightarrow> sc_type \<Rightarrow> sc_storage \<Rightarrow> (sc_iterator3 option \<times> sc_storage) option" where
  "sc_iterator3_a_f_a_new ctx beg_ty arc_addr end_ty =
     guarded_new ctx [arc_addr] sc_iterator3_a_f_a (ParamType beg_ty) (ParamAddr arc_addr) (ParamType end_ty)"

definition sc_iterator3_f_f_a_new ::
    "sc_memory_context \<Rightarrow> sc_addr \<Rightarrow> sc_addr \<Rightarrow> sc_type \<Rightarrow> sc_storage \<Rightarrow> (sc_iterator3 option \<times> sc_storage) option" where
  "sc_iterator3_f_f_a_new ctx beg_addr edge_addr end_ty =
     guarded_new ctx [beg_addr, edge_addr] sc_iterator3_f_f_a
       (ParamAddr beg_addr) (ParamAddr edge_addr) (ParamType end_ty)"

definition sc_iterator3_a_f_f_new ::
    "sc_memory_context \<Rightarrow> sc_type \<Rightarrow> sc_addr \<Rightarrow> sc_addr \<Rightarrow> sc_storage \<Rightarrow> (sc_iterator3 option \<times> sc_storage) option" where
  "sc_iterator3_a_f_f_new ctx beg_ty edge_addr end_addr =
     guarded_new ctx [end_addr, edge_addr] sc_iterator3_a_f_f
       (ParamType beg_ty) (ParamAddr edge_addr) (ParamAddr end_addr)"

definition sc_iterator3_f_f_f_new ::
    "sc_memory_context \<Rightarrow> sc_addr \<Rightarrow> sc_addr \<Rightarrow> sc_addr \<Rightarrow> sc_storage \<Rightarrow> (sc_iterator3 option \<times> sc_storage) option" where
  "sc_iterator3_f_f_f_new ctx beg_addr edge_addr end_addr =
     guarded_new ctx [beg_addr, end_addr, edge_addr] sc_iterator3_f_f_f
       (ParamAddr beg_addr) (ParamAddr edge_addr) (ParamAddr end_addr)"

subsection \<open>Destruction\<close>

fun unref_all :: "sc_addr list \<Rightarrow> sc_storage \<Rightarrow> sc_storage option" where
  "unref_all [] s = Some s"
| "unref_all (a # as) s = do { (_, s1) \<leftarrow> sc_storage_element_unref a s; unref_all as s1 }"

definition sc_iterator3_free :: "sc_iterator3 \<Rightarrow> sc_storage \<Rightarrow> sc_storage option" where
  "sc_iterator3_free it s = do {
     s1 \<leftarrow> (if \<not> finished it \<and> \<not> SC_ADDR_IS_EMPTY (result1 it) then do {
              (r, s1) \<leftarrow> sc_storage_element_lock (result1 it) s;
              g_assert (r = SC_RESULT_OK);
              (_, s2) \<leftarrow> sc_storage_element_unref (result1 it) s1;
              (_, s3) \<leftarrow> sc_storage_element_unlock (result1 it) s2;
              Some s3
            } else Some s);
     unref_all (map param_addr (filter (\<lambda>p. \<not> is_type p) [param0 it, param1 it, param2 it])) s1
   }"

subsection \<open>Going on\<close>

text \<open>
  Where the scan starts: at the head of the list of the fixed element, or behind the last
  result, whose reference is dropped.
\<close>

definition scan_start ::
    "(sc_element \<Rightarrow> sc_addr) \<Rightarrow> (sc_element \<Rightarrow> sc_addr) \<Rightarrow> sc_addr \<Rightarrow> sc_iterator3 \<Rightarrow> sc_storage \<Rightarrow>
     (sc_addr \<times> sc_storage) option" where
  "scan_start first nxt owner it s =
     (if SC_ADDR_IS_EMPTY (result1 it) then do {
        (r, s1) \<leftarrow> sc_storage_element_lock owner s;
        g_assert (r = SC_RESULT_OK);
        let a = first (el_at s1 owner);
        (_, s2) \<leftarrow> sc_storage_element_unlock owner s1;
        Some (a, s2)
      }
      else do {
        (r, s1) \<leftarrow> sc_storage_element_lock (result1 it) s;
        g_assert (r = SC_RESULT_OK);
        let a = nxt (el_at s1 (result1 it));
        (_, s2) \<leftarrow> sc_storage_element_unref (result1 it) s1;
        (_, s3) \<leftarrow> sc_storage_element_unlock (result1 it) s2;
        Some (a, s3)
      })"

definition access_or_max :: "sc_result \<times> sc_access_levels option \<times> 'a \<Rightarrow> sc_access_levels" where
  "access_or_max r = (case r of (res, levels, _) \<Rightarrow>
     if res = SC_RESULT_OK then (case levels of Some l \<Rightarrow> l | None \<Rightarrow> sc_access_lvl_make_max)
     else sc_access_lvl_make_max)"

partial_function (option) f_a_a_loop ::
    "sc_type \<Rightarrow> sc_iterator3 \<Rightarrow> sc_addr \<Rightarrow> sc_storage \<Rightarrow> (bool \<times> sc_iterator3 \<times> sc_storage) option" where
  "f_a_a_loop uninit it arc_addr s =
     (if SC_ADDR_IS_EMPTY arc_addr then Some (False, it\<lparr>finished := True\<rparr>, s)
      else do {
        (_, locked, s1) \<leftarrow> sc_storage_element_lock_try arc_addr s_max_iterator_lock_attempts s;
        if \<not> locked then None
        else do {
          s2 \<leftarrow> sc_storage_element_ref arc_addr s1;
          let el = el_at s2 arc_addr;
          let next_out = next_out_arc (arc el);
          if \<not> sc_element_is_request_deletion el then do {
            let a_end = arc_end (arc el);
            acc \<leftarrow> sc_storage_get_access_levels (it_ctx it) a_end s2;
            (_, s4) \<leftarrow> sc_storage_element_unlock arc_addr (snd (snd acc));
            (_, ty, s5) \<leftarrow> sc_storage_get_element_type (it_ctx it) a_end s4;
            let ty' = (case ty of Some t \<Rightarrow> t | None \<Rightarrow> uninit);
            if sc_iterator_compare_type (el_type el) (param_type (param1 it)) \<and>
               sc_iterator_compare_type ty' (param_type (param2 it)) \<and>
               sc_access_lvl_check_read (ctx_access (it_ctx it)) (el_access el) \<and>
               sc_access_lvl_check_read (ctx_access (it_ctx it)) (access_or_max acc)
            then Some (True, it\<lparr>result1 := arc_addr, result2 := a_end\<rparr>, s5)
            else f_a_a_loop uninit it next_out s5
          }
          else do {
            (_, s3) \<leftarrow> sc_storage_element_unref arc_addr s2;
            (_, s4) \<leftarrow> sc_storage_element_unlock arc_addr s3;
            f_a_a_loop uninit it next_out s4
          }
        }
      })"

definition sc_iterator3_f_a_a_next ::
    "sc_type \<Rightarrow> sc_iterator3 \<Rightarrow> sc_storage \<Rightarrow> (bool \<times> sc_iterator3 \<times> sc_storage) option" where
  "sc_iterator3_f_a_a_next uninit it s = do {
     let it1 = it\<lparr>result0 := param_addr (param0 it)\<rparr>;
     (a, s1) \<leftarrow> scan_start first_out_arc (\<lambda>e. next_out_arc (arc e)) (param_addr (param0 it)) it1 s;
     f_a_a_loop uninit it1 a s1
   }"

partial_function (option) f_a_f_loop ::
    "sc_iterator3 \<Rightarrow> sc_addr \<Rightarrow> sc_storage \<Rightarrow> (bool \<times> sc_iterator3 \<times> sc_storage) option" where
  "f_a_f_loop it arc_addr s =
     (if SC_ADDR_IS_EMPTY arc_addr then Some (False, it\<lparr>finished := True\<rparr>, s)
      else do {
        (_, locked, s1) \<leftarrow> sc_storage_element_lock_try arc_addr s_max_iterator_lock_attempts s;
        if \<not> locked then None
        else do {
          s2 \<leftarrow> sc_storage_element_ref arc_addr s1;
          let el = el_at s2 arc_addr;
          let next_in = next_in_arc (arc el);
          if \<not> sc_element_is_request_deletion el then do {
            (_, s3) \<leftarrow> sc_storage_element_unlock arc_addr s2;
            if SC_ADDR_IS_EQUAL (param_addr (param0 it)) (arc_begin (arc el)) \<and>
               sc_iterator_compare_type (el_type el) (param_type (param1 it)) \<and>
               sc_access_lvl_check_read (ctx_access (it_ctx it)) (el_access el)
            then Some (True, it\<lparr>result1 := arc_addr\<rparr>, s3)
            else f_a_f_loop it next_in s3
          }
          else do {
            (_, s3) \<leftarrow> sc_storage_element_unref arc_addr s2;
            (_, s4) \<leftarrow> sc_storage_element_unlock arc_addr s3;
            f_a_f_loop it next_in s4
          }
        }
      })"

definition sc_iterator3_f_a_f_next ::
    "sc_iterator3 \<Rightarrow> sc_storage \<Rightarrow> (bool \<times> sc_iterator3 \<times> sc_storage) option" where
  "sc_iterator3_f_a_f_next it s = do {
     let it1 = it\<lparr>result0 := param_addr (param0 it), result2 := param_addr (param2 it)\<rparr>;
     (a, s1) \<leftarrow> scan_start first_in_arc (\<lambda>e. next_in_arc (arc e)) (param_addr (param2 it)) it1 s;
     f_a_f_loop it1 a s1
   }"

partial_function (option) a_a_f_loop ::
    "sc_iterator3 \<Rightarrow> sc_addr \<Rightarrow> sc_storage \<Rightarrow> (bool \<times> sc_iterator3 \<times> sc_storage) option" where
  "a_a_f_loop it arc_addr s =
     (if SC_ADDR_IS_EMPTY arc_addr then Some (False, it\<lparr>finished := True\<rparr>, s)
      else do {
        (_, locked, s1) \<leftarrow> sc_storage_element_lock_try arc_addr s_max_iterator_lock_attempts s;
        if \<not> locked then None
        else do {
          s2 \<leftarrow> sc_storage_element_ref arc_addr s1;
          let el = el_at s2 arc_addr;
          let next_in = next_in_arc (arc el);
          if \<not> sc_element_is_request_deletion el then do {
            let a_beg = arc_begin (arc el);
            acc \<leftarrow> sc_storage_get_access_levels (it_ctx it) a_beg s2;
            (_, s4) \<leftarrow> sc_storage_element_unlock arc_addr (snd (snd acc));
            (_, ty, s5) \<leftarrow> sc_storage_get_element_type (it_ctx it) a_beg s4;
            let ty' = (case ty of Some t \<Rightarrow> t | None \<Rightarrow> 0);
            if sc_iterator_compare_type (el_type el) (param_type (param1 it)) \<and>
               sc_iterator_compare_type ty' (param_type (param0 it)) \<and>
               sc_access_lvl_check_read (ctx_access (it_ctx it)) (el_access el) \<and>
               sc_access_lvl_check_read (ctx_access (it_ctx it)) (access_or_max acc)
            then Some (True, it\<lparr>result1 := arc_addr, result0 := a_beg\<rparr>, s5)
            else a_a_f_loop it next_in s5
          }
          else do {
            (_, s3) \<leftarrow> sc_storage_element_unref arc_addr s2;
            (_, s4) \<leftarrow> sc_storage_element_unlock arc_addr s3;
            a_a_f_loop it next_in s4
          }
        }
      })"

definition sc_iterator3_a_a_f_next ::
    "sc_iterator3 \<Rightarrow> sc_storage \<Rightarrow> (bool \<times> sc_iterator3 \<times> sc_storage) option" where
  "sc_iterator3_a_a_f_next it s = do {
     let it1 = it\<lparr>result2 := param_addr (param2 it)\<rparr>;
     (a, s1) \<leftarrow> scan_start first_in_arc (\<lambda>e. next_in_arc (arc e)) (param_addr (param2 it)) it1 s;
     a_a_f_loop it1 a s1
   }"

text \<open>The four kinds with a fixed connector deliver at most one result.\<close>

definition fixed_arc_next ::
    "(sc_arc_info \<Rightarrow> bool) \<Rightarrow> sc_iterator3 \<Rightarrow> sc_storage \<Rightarrow> (bool \<times> sc_iterator3 \<times> sc_storage) option" where
  "fixed_arc_next cond it s =
     (if finished it then Some (False, it, s)
      else do {
        let it1 = it\<lparr>finished := True\<rparr>;
        let a = param_addr (param1 it);
        (r, s1) \<leftarrow> sc_storage_element_lock a s;
        g_assert (r = SC_RESULT_OK);
        let info = arc (el_at s1 a);
        let (res, it2) = (if cond info
          then (True, it1\<lparr>result0 := arc_begin info, result1 := a, result2 := arc_end info\<rparr>)
          else (False, it1));
        (_, s2) \<leftarrow> sc_storage_element_unlock a s1;
        Some (res, it2, s2)
      })"

definition sc_iterator3_a_f_a_next ::
    "sc_iterator3 \<Rightarrow> sc_storage \<Rightarrow> (bool \<times> sc_iterator3 \<times> sc_storage) option" where
  "sc_iterator3_a_f_a_next = fixed_arc_next (\<lambda>_. True)"

definition sc_iterator3_f_f_a_next ::
    "sc_iterator3 \<Rightarrow> sc_storage \<Rightarrow> (bool \<times> sc_iterator3 \<times> sc_storage) option" where
  "sc_iterator3_f_f_a_next it =
     fixed_arc_next (\<lambda>info. SC_ADDR_IS_EQUAL (param_addr (param0 it)) (arc_begin info)) it"

definition sc_iterator3_a_f_f_next ::
    "sc_iterator3 \<Rightarrow> sc_storage \<Rightarrow> (bool \<times> sc_iterator3 \<times> sc_storage) option" where
  "sc_iterator3_a_f_f_next it =
     fixed_arc_next (\<lambda>info. SC_ADDR_IS_EQUAL (param_addr (param2 it)) (arc_end info)) it"

definition sc_iterator3_f_f_f_next ::
    "sc_iterator3 \<Rightarrow> sc_storage \<Rightarrow> (bool \<times> sc_iterator3 \<times> sc_storage) option" where
  "sc_iterator3_f_f_f_next it =
     fixed_arc_next (\<lambda>info. SC_ADDR_IS_EQUAL (param_addr (param0 it)) (arc_begin info) \<and>
                            SC_ADDR_IS_EQUAL (param_addr (param2 it)) (arc_end info)) it"

definition sc_iterator3_next ::
    "sc_type \<Rightarrow> sc_iterator3 \<Rightarrow> sc_storage \<Rightarrow> (bool \<times> sc_iterator3 \<times> sc_storage) option" where
  "sc_iterator3_next uninit it s =
     (if finished it then Some (False, it, s)
      else case it_type it of
        sc_iterator3_f_a_a \<Rightarrow> sc_iterator3_f_a_a_next uninit it s
      | sc_iterator3_f_a_f \<Rightarrow> sc_iterator3_f_a_f_next it s
      | sc_iterator3_a_a_f \<Rightarrow> sc_iterator3_a_a_f_next it s
      | sc_iterator3_a_f_a \<Rightarrow> sc_iterator3_a_f_a_next it s
      | sc_iterator3_f_f_a \<Rightarrow> sc_iterator3_f_f_a_next it s
      | sc_iterator3_a_f_f \<Rightarrow> sc_iterator3_a_f_f_next it s
      | sc_iterator3_f_f_f \<Rightarrow> sc_iterator3_f_f_f_next it s)"

definition sc_iterator3_value :: "sc_iterator3 \<Rightarrow> nat \<Rightarrow> sc_addr option" where
  "sc_iterator3_value it vid =
     (if vid = 0 then Some (result0 it) else if vid = 1 then Some (result1 it)
      else if vid = 2 then Some (result2 it) else None)"

text \<open>The loop a caller writes: \<^verbatim>\<open>while (sc_iterator3_next(it)) ...\<close>, collecting the triples.\<close>

partial_function (option) iterate3 ::
    "sc_type \<Rightarrow> sc_iterator3 \<Rightarrow> sc_storage \<Rightarrow>
     ((sc_addr \<times> sc_addr \<times> sc_addr) list \<times> sc_iterator3 \<times> sc_storage) option" where
  "iterate3 uninit it s = do {
     (more, it1, s1) \<leftarrow> sc_iterator3_next uninit it s;
     if more then do {
       (rs, it2, s2) \<leftarrow> iterate3 uninit it1 s1;
       Some ((result0 it1, result1 it1, result2 it1) # rs, it2, s2)
     }
     else Some ([], it1, s1)
   }"

end
