(* ===== verification/Sc_Iterator3_Laws.thy ===== *)
theory Sc_Iterator3_Laws
  imports Sc_Iterator3
begin

text \<open>
  What a triple iterator delivers. The three scanning kinds walk one adjacency list; the
  locale \<open>arc_scan\<close> is the contract of one scanning loop and \<open>arc_enum\<close> adds the
  \<^verbatim>\<open>next\<close> function around it. Both are interpreted for the three kinds, so that the
  walk is proved once.
\<close>

subsection \<open>References taken on the way\<close>

definition bump :: "sc_addr \<Rightarrow> sc_storage \<Rightarrow> sc_storage" where
  "bump a s = set_refs a (refs s a + 1) s"

definition may_ref :: "sc_storage \<Rightarrow> sc_addr \<Rightarrow> bool" where
  "may_ref s a \<longleftrightarrow> refs s a > 0 \<and> refs s a < 0xfffffffe"

lemma may_ref_next:
  assumes "may_ref s a"
  shows "refs s a + 1 < 0xffffffff" "refs s a + 1 > 0"
proof -
  have lt: "unat (refs s a) < 0xfffffffe" using assms by (simp add: may_ref_def word_less_nat_alt)
  then have "unat (refs s a + 1) = unat (refs s a) + 1" by (simp add: unat_word_ariths)
  then show "refs s a + 1 < 0xffffffff" "refs s a + 1 > 0" using lt by (simp_all add: word_less_nat_alt)
qed

lemma bump_frame [sc_state]:
  "el_at (bump a s) = el_at s" "has_cell (bump a s) = has_cell s" "held (bump a s) = held s"
  "live (bump a s) = live s" "arcs (bump a s) = arcs s"
  "out_list (bump a s) = out_list s" "in_list (bump a s) = in_list s"
  "max_loaded_segments (bump a s) = max_loaded_segments s"
proof -
  show "max_loaded_segments (bump a s) = max_loaded_segments s" by (simp add: bump_def sc_state)
  show e: "el_at (bump a s) = el_at s" and c: "has_cell (bump a s) = has_cell s"
    "held (bump a s) = held s" by (simp_all add: bump_def sc_state)
  show l: "live (bump a s) = live s" and r: "arcs (bump a s) = arcs s"
    using live_cong [OF e c(1)] arcs_cong [OF e c(1)] by simp_all
  show "out_list (bump a s) = out_list s" "in_list (bump a s) = in_list s"
    by (simp_all add: out_list_def in_list_def e l r)
qed

lemma refs_bump [sc_state]:
  "has_cell s a \<Longrightarrow> refs (bump a s) b = (if b = a then refs s a + 1 else refs s b)"
  by (simp add: bump_def sc_state)

lemma graph_ok_bump:
  assumes ok: "graph_ok s" and a: "a \<in> live s" "may_ref s a"
  shows "graph_ok (bump a s)"
proof -
  have c: "has_cell s a" using live_typed [OF a(1)] by simp
  have "storage_ok (bump a s)" using graph_ok_storage [OF ok] by (simp add: bump_def sc_state)
  with ok show ?thesis
    using may_ref_next(2) [OF a(2)] by (simp add: graph_ok_def bump_frame refs_bump [OF c])
qed

fun bumps :: "sc_addr list \<Rightarrow> sc_storage \<Rightarrow> sc_storage" where
  "bumps [] s = s"
| "bumps (x # xs) s = bumps xs (bump x s)"

lemma bumps_append: "bumps (xs @ ys) s = bumps ys (bumps xs s)"
  by (induction xs arbitrary: s) simp_all

lemma bumps_frame [sc_state]:
  "el_at (bumps xs s) = el_at s" "has_cell (bumps xs s) = has_cell s" "held (bumps xs s) = held s"
  "live (bumps xs s) = live s" "arcs (bumps xs s) = arcs s"
  "out_list (bumps xs s) = out_list s" "in_list (bumps xs s) = in_list s"
  "max_loaded_segments (bumps xs s) = max_loaded_segments s"
  by (induction xs arbitrary: s) (simp_all add: bump_frame)

lemma refs_bumps:
  "distinct xs \<Longrightarrow> (\<And>x. x \<in> set xs \<Longrightarrow> has_cell s x) \<Longrightarrow>
     refs (bumps xs s) b = (if b \<in> set xs then refs s b + 1 else refs s b)"
  by (induction xs arbitrary: s) (auto simp: bump_frame refs_bump)

lemma graph_ok_bumps:
  assumes "graph_ok s" "set xs \<subseteq> live s" "distinct xs" "\<And>x. x \<in> set xs \<Longrightarrow> may_ref s x"
  shows "graph_ok (bumps xs s)"
  using assms
proof (induction xs arbitrary: s)
  case (Cons x xs)
  have c: "has_cell s x" using Cons.prems(2) live_typed by auto
  have "graph_ok (bump x s)" using Cons.prems by (intro graph_ok_bump) auto
  moreover have "may_ref (bump x s) y" if "y \<in> set xs" for y
    using that Cons.prems(3,4) refs_bump [OF c] by (auto simp: may_ref_def)
  ultimately show ?case using Cons by (simp add: bump_frame)
qed simp

text \<open>A reference taken and dropped under the lock.\<close>

lemma set_refs_lock_cell:
  "has_cell s a \<Longrightarrow> set_refs a n (lock_cell a s) = lock_cell a (set_refs a n s)"
  by (erule has_cellE)
     (simp add: set_refs_def lock_cell_def put_segment_def set_section_def Let_def seg_update_commute)

lemma ref_locked:
  assumes "storage_ok s" "has_cell s a" "a \<noteq> SC_ADDR_MAKE_EMPTY" "may_ref s a"
  shows "sc_storage_element_ref a (lock_cell a s) = Some (set_refs a (refs s a + 1) (lock_cell a s))"
  using assms may_ref_next [OF assms(4)] element_ref_ok [of "lock_cell a s" a]
  by (simp add: sc_state may_ref_def)

lemma unref_locked:
  assumes ok: "storage_ok s" and cell: "has_cell s a" and a: "a \<noteq> SC_ADDR_MAKE_EMPTY" and r: "may_ref s a"
  shows "sc_storage_element_unref a (lock_cell a (bump a s)) = Some (False, lock_cell a s)"
proof -
  let ?s = "lock_cell a (bump a s)"
  have "refs s a \<noteq> 0" using r by (auto simp: may_ref_def)
  have "refs s a < 0xfffffffe" using r by (simp add: may_ref_def)
  then have lt: "refs s a < 0xffffffff" by (simp add: word_less_nat_alt)
  have s: "storage_ok ?s" "has_cell ?s a" and R: "refs ?s a = refs s a + 1"
    using ok cell by (simp_all add: sc_state bump_def)
  have "refs ?s a > 0" using may_ref_next(2) [OF r] by (simp only: R)
  moreover have "refs s a = refs ?s a + of_int (-1)" by (simp only: R) simp
  ultimately have "sc_storage_ref_common a (-1) ?s = Some (refs s a = 0, set_refs a (refs s a) ?s)"
    using ref_common_ok [OF s a _ disjI2 [OF refl] _ lt] by blast
  moreover have "set_refs a (refs s a) ?s = lock_cell a s"
    using set_refs_lock_cell [of "bump a s" a "refs s a"] set_refs_back [OF cell, of "refs s a + 1"] cell
    by (simp add: bump_def set_refs_frame)
  ultimately show ?thesis using \<open>refs s a \<noteq> 0\<close> by (simp add: sc_storage_element_unref_def)
qed

subsection \<open>One round of each loop\<close>

definition readable :: "sc_memory_context \<Rightarrow> sc_storage \<Rightarrow> sc_addr \<Rightarrow> bool" where
  "readable ctx s a \<longleftrightarrow> sc_access_lvl_check_read (ctx_access ctx) (el_access (el_at s a))"

lemma check_read_max: "sc_access_lvl_check_read c sc_access_lvl_make_max \<Longrightarrow> sc_access_lvl_check_read c e"
proof -
  have "sc_access_lvl_get_read e \<le> 15"
    using unsigned_less [of "e AND SC_ACCESS_LVL_RMASK", where ?'a = nat]
    by (simp add: sc_access_lvl_get_read_def word_le_nat_alt drop_bit_eq_div unat_div)
  moreover have "sc_access_lvl_get_read sc_access_lvl_make_max = 15"
    by (simp add: sc_access_lvl_get_read_def sc_access_lvl_make_max_def sc_access_lvl_make_def
          SC_ACCESS_LVL_RMASK_def sc_bits)
  moreover assume "sc_access_lvl_check_read c sc_access_lvl_make_max"
  ultimately show ?thesis by (simp add: sc_access_lvl_check_read_def)
qed

lemma get_access_levels_eq:
  assumes "storage_ok s" "has_cell s a"
  shows "sc_storage_get_access_levels ctx a s = Some (
     if readable ctx s a then (SC_RESULT_OK, Some (el_access (el_at s a)), s)
     else (SC_RESULT_ERROR_NO_READ_RIGHTS, None, s))"
  using assms by (simp add: sc_storage_get_access_levels_def bracket readable_def Let_def)

lemma get_element_type_eq:
  assumes "storage_ok s" "a \<in> live s"
  shows "sc_storage_get_element_type ctx a s = Some (
     if readable ctx s a then (SC_RESULT_OK, Some (sc_flags_remove (el_type (el_at s a))), s)
     else (SC_RESULT_ERROR_NO_READ_RIGHTS, None, s))"
  using assms
  by (simp add: sc_storage_get_element_type_def bracket readable_def Let_def live_def)

definition f_a_a_match :: "sc_iterator3 \<Rightarrow> sc_storage \<Rightarrow> sc_addr \<Rightarrow> bool" where
  "f_a_a_match it s x \<longleftrightarrow> (let b = arc_end (arc (el_at s x)) in
     sc_iterator_compare_type (el_type (el_at s x)) (param_type (param1 it)) \<and>
     sc_iterator_compare_type (el_type (el_at s b)) (param_type (param2 it)) \<and>
     readable (it_ctx it) s x \<and> readable (it_ctx it) s b)"

definition a_a_f_match :: "sc_iterator3 \<Rightarrow> sc_storage \<Rightarrow> sc_addr \<Rightarrow> bool" where
  "a_a_f_match it s x \<longleftrightarrow> (let b = arc_begin (arc (el_at s x)) in
     sc_iterator_compare_type (el_type (el_at s x)) (param_type (param1 it)) \<and>
     sc_iterator_compare_type (el_type (el_at s b)) (param_type (param0 it)) \<and>
     readable (it_ctx it) s x \<and> readable (it_ctx it) s b)"

definition f_a_f_match :: "sc_iterator3 \<Rightarrow> sc_storage \<Rightarrow> sc_addr \<Rightarrow> bool" where
  "f_a_f_match it s x \<longleftrightarrow>
     param_addr (param0 it) = arc_begin (arc (el_at s x)) \<and>
     sc_iterator_compare_type (el_type (el_at s x)) (param_type (param1 it)) \<and>
     readable (it_ctx it) s x"

lemma flags_remove_idem [simp]: "sc_flags_remove (sc_flags_remove t) = sc_flags_remove t"
  by (simp add: sc_flags_remove_def and.assoc)

lemma compare_type_flags [simp]:
  "sc_iterator_compare_type (sc_flags_remove t) u = sc_iterator_compare_type t u"
  by (simp add: sc_iterator_compare_type_def)

lemma round_start:
  assumes ok: "graph_ok s" and x: "x \<in> arcs s" and r: "may_ref s x"
  shows "x \<noteq> SC_ADDR_MAKE_EMPTY" "storage_ok s" "has_cell s x"
    "sc_storage_element_lock_try x m s = Some (SC_RESULT_OK, True, lock_cell x s)"
    "sc_storage_element_ref x (lock_cell x s) = Some (set_refs x (refs s x + 1) (lock_cell x s))"
    "sc_storage_element_unlock x (set_refs x (refs s x + 1) (lock_cell x s)) = Some (SC_RESULT_OK, bump x s)"
    "\<not> sc_element_is_request_deletion (el_at s x)"
proof -
  show sok: "storage_ok s" by (rule graph_ok_storage [OF ok])
  show c: "has_cell s x" and v: "\<not> sc_element_is_request_deletion (el_at s x)"
    using x by (auto simp: arcs_def live_def sc_element_is_valid_def sc_element_is_request_deletion_def)
  show ne: "x \<noteq> SC_ADDR_MAKE_EMPTY" using x sok by auto
  show "sc_storage_element_ref x (lock_cell x s) = Some (set_refs x (refs s x + 1) (lock_cell x s))"
    by (rule ref_locked [OF sok c ne r])
  show "sc_storage_element_lock_try x m s = Some (SC_RESULT_OK, True, lock_cell x s)"
    by (rule element_lock_try_ok [OF sok c])
  show "sc_storage_element_unlock x (set_refs x (refs s x + 1) (lock_cell x s)) = Some (SC_RESULT_OK, bump x s)"
    unfolding bump_def by (rule unlock_set_refs_lock [OF sok c])
qed

lemma readable_cong: "el_at s' = el_at s \<Longrightarrow> readable ctx s' a = readable ctx s a"
  by (simp add: readable_def)

text \<open>The other end of the connector, read while the connector is locked and after.\<close>

lemma far_end:
  fixes x n
  assumes ok: "storage_ok s" and b: "b \<in> live s"
  defines "s' \<equiv> set_refs x n (lock_cell x s)"
  shows "el_at s' = el_at s"
    "sc_storage_get_access_levels ctx b s' = Some (
       if readable ctx s b then (SC_RESULT_OK, Some (el_access (el_at s b)), s')
       else (SC_RESULT_ERROR_NO_READ_RIGHTS, None, s'))"
    "sc_storage_get_element_type ctx b (bump x s) = Some (
       if readable ctx s b then (SC_RESULT_OK, Some (sc_flags_remove (el_type (el_at s b))), bump x s)
       else (SC_RESULT_ERROR_NO_READ_RIGHTS, None, bump x s))"
    "sc_access_lvl_check_read (ctx_access ctx) sc_access_lvl_make_max \<Longrightarrow> readable ctx s b"
proof -
  show e: "el_at s' = el_at s" by (simp add: s'_def sc_state)
  have "storage_ok s'" "has_cell s' b" using ok live_typed [OF b] by (simp_all add: s'_def sc_state)
  from get_access_levels_eq [OF this] show "sc_storage_get_access_levels ctx b s' = Some (
     if readable ctx s b then (SC_RESULT_OK, Some (el_access (el_at s b)), s')
     else (SC_RESULT_ERROR_NO_READ_RIGHTS, None, s'))"
    by (simp add: readable_cong [OF e] e)
  have "storage_ok (bump x s)" "b \<in> live (bump x s)"
    using ok b by (simp_all add: bump_frame) (simp add: bump_def sc_state)
  from get_element_type_eq [OF this] show "sc_storage_get_element_type ctx b (bump x s) = Some (
     if readable ctx s b then (SC_RESULT_OK, Some (sc_flags_remove (el_type (el_at s b))), bump x s)
     else (SC_RESULT_ERROR_NO_READ_RIGHTS, None, bump x s))"
    by (simp add: readable_cong [OF bump_frame(1)] bump_frame)
  show "sc_access_lvl_check_read (ctx_access ctx) sc_access_lvl_make_max \<Longrightarrow> readable ctx s b"
    unfolding readable_def by (rule check_read_max)
qed

lemma f_a_a_step:
  assumes ok: "graph_ok s" and x: "x \<in> arcs s" and r: "may_ref s x"
  shows "f_a_a_loop u it x s =
     (if f_a_a_match it s x
      then Some (True, it\<lparr>result1 := x, result2 := arc_end (arc (el_at s x))\<rparr>, bump x s)
      else f_a_a_loop u it (next_out_arc (arc (el_at s x))) (bump x s))"
proof -
  note R = round_start [OF ok x r]
  have b: "arc_end (arc (el_at s x)) \<in> live s" using ok x by (auto simp: graph_ok_def)
  note F = far_end [OF R(2) b]
  show ?thesis
    by (subst f_a_a_loop.simps)
       (cases "readable (it_ctx it) s (arc_end (arc (el_at s x)))";
        auto simp: R(1,4-) F(1-3) Let_def access_or_max_def f_a_a_match_def readable_def [symmetric]
          dest: F(4))
qed

lemma a_a_f_step:
  assumes ok: "graph_ok s" and x: "x \<in> arcs s" and r: "may_ref s x"
  shows "a_a_f_loop it x s =
     (if a_a_f_match it s x
      then Some (True, it\<lparr>result1 := x, result0 := arc_begin (arc (el_at s x))\<rparr>, bump x s)
      else a_a_f_loop it (next_in_arc (arc (el_at s x))) (bump x s))"
proof -
  note R = round_start [OF ok x r]
  have b: "arc_begin (arc (el_at s x)) \<in> live s" using ok x by (auto simp: graph_ok_def)
  note F = far_end [OF R(2) b]
  show ?thesis
    by (subst a_a_f_loop.simps)
       (cases "readable (it_ctx it) s (arc_begin (arc (el_at s x)))";
        auto simp: R(1,4-) F(1-3) Let_def access_or_max_def a_a_f_match_def readable_def [symmetric]
          dest: F(4))
qed

lemma f_a_f_step:
  assumes ok: "graph_ok s" and x: "x \<in> arcs s" and r: "may_ref s x"
  shows "f_a_f_loop it x s =
     (if f_a_f_match it s x then Some (True, it\<lparr>result1 := x\<rparr>, bump x s)
      else f_a_f_loop it (next_in_arc (arc (el_at s x))) (bump x s))"
proof -
  note R = round_start [OF ok x r]
  show ?thesis
    by (subst f_a_f_loop.simps)
       (auto simp: R(1,4-) sc_state Let_def f_a_f_match_def readable_def [symmetric])
qed


subsection \<open>The walk along one list\<close>

locale arc_scan =
  fixes loop :: "sc_iterator3 \<Rightarrow> sc_addr \<Rightarrow> sc_storage \<Rightarrow> (bool \<times> sc_iterator3 \<times> sc_storage) option"
    and nxt prv :: "sc_element \<Rightarrow> sc_addr"
    and hit :: "sc_iterator3 \<Rightarrow> sc_storage \<Rightarrow> sc_addr \<Rightarrow> bool"
    and found :: "sc_iterator3 \<Rightarrow> sc_storage \<Rightarrow> sc_addr \<Rightarrow> sc_iterator3"
  assumes loop_end: "loop it SC_ADDR_MAKE_EMPTY s = Some (False, it\<lparr>finished := True\<rparr>, s)"
    and loop_step: "graph_ok s \<Longrightarrow> x \<in> arcs s \<Longrightarrow> may_ref s x \<Longrightarrow> loop it x s =
      (if hit it s x then Some (True, found it s x, bump x s) else loop it (nxt (el_at s x)) (bump x s))"
    and view: "el_at s' = el_at s \<Longrightarrow> hit it s' x = hit it s x \<and> found it s' x = found it s x"
begin

definition walk :: "sc_storage \<Rightarrow> sc_addr \<Rightarrow> sc_addr list \<Rightarrow> bool" where
  "walk s p xs \<longleftrightarrow> graph_ok s \<and> distinct xs \<and> set xs \<subseteq> arcs s \<and> (\<forall>x \<in> set xs. may_ref s x) \<and>
     dll (\<lambda>x. nxt (el_at s x)) (\<lambda>x. prv (el_at s x)) p xs"

lemma walk_Cons:
  assumes "walk s p (x # xs)"
  shows "walk s x xs" "walk (bump x s) x xs" "nxt (el_at s x) = head_addr xs"
    "graph_ok s" "x \<in> arcs s" "may_ref s x"
proof -
  from assms show g: "graph_ok s" and x: "x \<in> arcs s" "may_ref s x" and "nxt (el_at s x) = head_addr xs"
    and "walk s x xs" by (auto simp: walk_def)
  moreover have l: "x \<in> live s" using x(1) arcs_live by blast
  then have c: "has_cell s x" using live_typed by blast
  have "\<forall>y \<in> set xs. may_ref (bump x s) y"
    using assms refs_bump [OF c] by (auto simp: walk_def may_ref_def)
  ultimately show "walk (bump x s) x xs"
    using graph_ok_bump [OF g l x(2)] by (simp add: walk_def bump_frame)
qed

lemma walk_append: "walk s p (ys @ zs) \<Longrightarrow> \<exists>q. walk (bumps ys s) q zs"
proof (induction ys arbitrary: s p)
  case (Cons y ys)
  then show ?case using walk_Cons(2) [of s p y "ys @ zs"] by auto
qed auto

text \<open>The loop stops at the first connector that matches; those before it keep a reference.\<close>

lemma loop_finds:
  assumes "walk s p xs"
  shows "loop it (head_addr xs) s = Some (case dropWhile (\<lambda>x. \<not> hit it s x) xs of
       [] \<Rightarrow> (False, it\<lparr>finished := True\<rparr>, bumps xs s)
     | y # ys \<Rightarrow> (True, found it s y, bump y (bumps (takeWhile (\<lambda>x. \<not> hit it s x) xs) s)))"
  using assms
proof (induction xs arbitrary: s p)
  case Nil
  then show ?case by (simp add: loop_end)
next
  case (Cons x xs)
  note w = walk_Cons [OF Cons.prems]
  have v: "hit it (bump x s) = hit it s" "found it (bump x s) = found it s"
    using view [OF bump_frame(1)] by (auto simp: fun_eq_iff)
  show ?case
  proof (cases "hit it s x")
    case True
    then show ?thesis using loop_step [OF w(4,5,6)] by simp
  next
    case False
    then have "loop it x s = loop it (head_addr xs) (bump x s)"
      using loop_step [OF w(4,5,6)] w(3) by simp
    with False show ?thesis by (simp add: Cons.IH [OF w(2)] v split: list.split del: dropWhile_eq_Nil_conv)
  qed
qed

end

definition pars :: "sc_iterator3 \<Rightarrow> sc_iterator_param list" where
  "pars it = [param0 it, param1 it, param2 it]"

locale arc_enum = arc_scan +
  fixes kind :: sc_iterator3_type and first :: "sc_element \<Rightarrow> sc_addr"
    and owner :: "sc_iterator3 \<Rightarrow> sc_addr" and prep :: "sc_iterator3 \<Rightarrow> sc_iterator3"
    and triple :: "sc_iterator3 \<Rightarrow> sc_storage \<Rightarrow> sc_addr \<Rightarrow> sc_addr \<times> sc_addr \<times> sc_addr"
    and u :: sc_type
  assumes next_scan: "it_type it = kind \<Longrightarrow> \<not> finished it \<Longrightarrow> sc_iterator3_next u it s =
      do { (a, s1) \<leftarrow> scan_start first nxt (owner it) (prep it) s; loop (prep it) a s1 }"
    and prep: "result1 (prep it) = result1 it" "it_type (prep it) = it_type it"
      "owner (prep it) = owner it" "finished (prep it) = finished it" "prep (prep it) = prep it"
      "pars (prep it) = pars it"
    and found: "result1 (found it s x) = x" "it_type (found it s x) = it_type it"
      "finished (found it s x) = finished it" "pars (found it s x) = pars it"
      "owner (found it s x) = owner it" "hit (prep (found it s x)) s = hit (prep it) s"
      "triple (prep (found it s x)) s = triple (prep it) s"
    and found_triple: "(result0 (found (prep it) s x), result1 (found (prep it) s x), result2 (found (prep it) s x)) =
      triple (prep it) s x"
    and triple_view: "el_at s' = el_at s \<Longrightarrow> triple it s' = triple it s"
begin

text \<open>
  \<open>ahead it s s0 xs\<close>: the iterator stands before \<open>xs\<close>; in \<open>s\<close> it holds a reference to its
  last result, \<open>s0\<close> is the storage without it.
\<close>

definition ahead :: "sc_iterator3 \<Rightarrow> sc_storage \<Rightarrow> sc_storage \<Rightarrow> sc_addr list \<Rightarrow> bool" where
  "ahead it s s0 xs \<longleftrightarrow> it_type it = kind \<and> \<not> finished it \<and> graph_ok s0 \<and>
     (\<exists>p. walk s0 p xs) \<and>
     (if result1 it = SC_ADDR_MAKE_EMPTY
      then s = s0 \<and> owner it \<in> live s \<and> first (el_at s (owner it)) = head_addr xs
      else s = bump (result1 it) s0 \<and> result1 it \<in> arcs s0 \<and> may_ref s0 (result1 it) \<and>
        nxt (el_at s0 (result1 it)) = head_addr xs)"

lemma scan_start_ahead:
  assumes "ahead it s s0 xs"
  shows "scan_start first nxt (owner it) (prep it) s = Some (head_addr xs, s0)"
proof (cases "result1 it = SC_ADDR_MAKE_EMPTY")
  case True
  with assms have "storage_ok s" "has_cell s (owner it)" "s = s0" "first (el_at s (owner it)) = head_addr xs"
    using live_typed graph_ok_storage by (auto simp: ahead_def)
  with True show ?thesis by (simp add: scan_start_def prep bracket Let_def)
next
  case False
  let ?r = "result1 it"
  from False assms have s: "s = bump ?r s0" and r: "?r \<in> arcs s0" "may_ref s0 ?r"
    and n: "nxt (el_at s0 ?r) = head_addr xs" and g: "graph_ok s0" by (auto simp: ahead_def)
  have c: "has_cell s0 ?r" "storage_ok s0"
    using live_typed r(1) arcs_live graph_ok_storage [OF g] by blast+
  have "storage_ok s" "has_cell s ?r" using c by (simp_all add: s bump_def sc_state)
  moreover have "sc_storage_element_unref ?r (lock_cell ?r s) = Some (False, lock_cell ?r s0)"
    unfolding s by (rule unref_locked [OF c(2,1) False r(2)])
  ultimately show ?thesis
    using False c n by (simp add: scan_start_def prep bracket Let_def s bump_frame)
qed

lemma next_ahead:
  assumes a: "ahead it s s0 xs"
  shows "sc_iterator3_next u it s = loop (prep it) (head_addr xs) s0"
proof -
  have "it_type it = kind" "\<not> finished it" using a by (simp_all add: ahead_def)
  then show ?thesis by (simp add: next_scan scan_start_ahead [OF a])
qed

text \<open>After a result the iterator stands before the rest of the list.\<close>

lemma ahead_found:
  assumes a: "ahead it s s0 (zs @ y # ys)"
  defines "s1 \<equiv> bumps zs s0"
  shows "ahead (found (prep it) s0 y) (bump y s1) s1 ys"
proof -
  obtain p where w: "walk s0 p (zs @ y # ys)" using a by (auto simp: ahead_def)
  then obtain q where q: "walk s1 q (y # ys)" unfolding s1_def by (blast dest: walk_append)
  note W = walk_Cons [OF q]
  have "y \<noteq> SC_ADDR_MAKE_EMPTY" using W(4,5) graph_ok_storage by auto
  with a W show ?thesis by (auto simp: ahead_def found prep)
qed

lemma iterate_ahead:
  assumes "ahead it s s0 xs"
  shows "\<exists>it'. finished it' \<and> pars it' = pars it \<and> iterate3 u it s =
     Some (map (triple (prep it) s0) (filter (hit (prep it) s0) xs), it',
           bumps (filter (\<lambda>x. \<not> hit (prep it) s0 x) xs) s0)"
  using assms
proof (induction xs arbitrary: it s s0 rule: length_induct)
  case (1 xs)
  let ?it = "prep it" and ?n = "\<lambda>x. \<not> hit (prep it) s0 x"
  obtain p where w: "walk s0 p xs" using "1.prems" by (auto simp: ahead_def)
  note nx = next_ahead [OF "1.prems"] loop_finds [OF w, of ?it]
  show ?case
  proof (cases "dropWhile ?n xs")
    case Nil
    then have "\<forall>x \<in> set xs. ?n x" by simp
    then have "filter (hit ?it s0) xs = []" "filter ?n xs = xs" by (simp_all add: filter_empty_conv)
    moreover have "sc_iterator3_next u it s = Some (False, ?it\<lparr>finished := True\<rparr>, bumps xs s0)"
      unfolding nx Nil by simp
    ultimately show ?thesis using prep(6) [of it] by (subst iterate3.simps) (simp add: pars_def)
  next
    case (Cons y ys)
    let ?zs = "takeWhile ?n xs" and ?it1 = "found ?it s0 y"
    let ?s1 = "bumps ?zs s0"
    have xs: "xs = ?zs @ y # ys" using takeWhile_dropWhile_id [of ?n xs] Cons by simp
    have hy: "hit ?it s0 y" using hd_dropWhile [of ?n xs] Cons by auto
    have fz: "filter (hit ?it s0) ?zs = []" "filter ?n ?zs = ?zs"
      by (auto simp: filter_empty_conv filter_id_conv dest: set_takeWhileD)
    have a1: "ahead ?it1 (bump y ?s1) ?s1 ys"
      using "1.prems" xs by (metis ahead_found)
    have v: "hit (prep ?it1) ?s1 = hit ?it s0" "triple (prep ?it1) ?s1 = triple ?it s0"
      using view [OF bumps_frame(1)] triple_view [OF bumps_frame(1)] found(6,7) [of ?it s0 y]
      by (auto simp: prep fun_eq_iff)
    have "length ys < length xs" by (subst xs) simp
    with "1.IH" a1 have "\<exists>it'. finished it' \<and> pars it' = pars ?it1 \<and> iterate3 u ?it1 (bump y ?s1) =
        Some (map (triple (prep ?it1) ?s1) (filter (hit (prep ?it1) ?s1) ys), it',
              bumps (filter (\<lambda>x. \<not> hit (prep ?it1) ?s1 x) ys) ?s1)" by blast
    then obtain it' where it': "finished it'" "pars it' = pars it" "iterate3 u ?it1 (bump y ?s1) =
        Some (map (triple ?it s0) (filter (hit ?it s0) ys), it', bumps (filter ?n ys) ?s1)"
      by (auto simp only: v found(4) prep(6))
    have "sc_iterator3_next u it s = Some (True, ?it1, bump y ?s1)" using nx Cons by simp
    then have "iterate3 u it s = Some (triple ?it s0 y # map (triple ?it s0) (filter (hit ?it s0) ys), it',
        bumps (filter ?n ys) ?s1)"
      using it'(3) found_triple [of it s0 y] by (subst iterate3.simps) simp
    moreover have "filter (hit ?it s0) xs = y # filter (hit ?it s0) ys" "filter ?n xs = ?zs @ filter ?n ys"
      using xs hy fz by (metis filter_append append_Nil filter.simps(2))+
    ultimately show ?thesis using it'(1,2) by (simp add: bumps_append)
  qed
qed

end

interpretation f_a_a: arc_scan "f_a_a_loop u" "\<lambda>e. next_out_arc (arc e)" "\<lambda>e. prev_out_arc (arc e)"
    f_a_a_match "\<lambda>it s x. it\<lparr>result1 := x, result2 := arc_end (arc (el_at s x))\<rparr>" for u
  by unfold_locales
     (simp_all add: f_a_a_loop.simps [of _ _ SC_ADDR_MAKE_EMPTY] f_a_a_step f_a_a_match_def readable_def Let_def)

interpretation a_a_f: arc_scan a_a_f_loop "\<lambda>e. next_in_arc (arc e)" "\<lambda>e. prev_in_arc (arc e)"
    a_a_f_match "\<lambda>it s x. it\<lparr>result1 := x, result0 := arc_begin (arc (el_at s x))\<rparr>"
  by unfold_locales
     (simp_all add: a_a_f_loop.simps [of _ SC_ADDR_MAKE_EMPTY] a_a_f_step a_a_f_match_def readable_def Let_def)

interpretation f_a_f: arc_scan f_a_f_loop "\<lambda>e. next_in_arc (arc e)" "\<lambda>e. prev_in_arc (arc e)"
    f_a_f_match "\<lambda>it s x. it\<lparr>result1 := x\<rparr>"
  by unfold_locales
     (simp_all add: f_a_f_loop.simps [of _ SC_ADDR_MAKE_EMPTY] f_a_f_step f_a_f_match_def readable_def Let_def)

interpretation f_a_a: arc_enum "f_a_a_loop u" "\<lambda>e. next_out_arc (arc e)" "\<lambda>e. prev_out_arc (arc e)"
    f_a_a_match "\<lambda>it s x. it\<lparr>result1 := x, result2 := arc_end (arc (el_at s x))\<rparr>"
    sc_iterator3_f_a_a first_out_arc "\<lambda>it. param_addr (param0 it)"
    "\<lambda>it. it\<lparr>result0 := param_addr (param0 it)\<rparr>"
    "\<lambda>it s x. (param_addr (param0 it), x, arc_end (arc (el_at s x)))" u for u
  by unfold_locales
     (simp_all add: sc_iterator3_next_def sc_iterator3_f_a_a_next_def f_a_a_match_def readable_def Let_def fun_eq_iff pars_def)

interpretation a_a_f: arc_enum a_a_f_loop "\<lambda>e. next_in_arc (arc e)" "\<lambda>e. prev_in_arc (arc e)"
    a_a_f_match "\<lambda>it s x. it\<lparr>result1 := x, result0 := arc_begin (arc (el_at s x))\<rparr>"
    sc_iterator3_a_a_f first_in_arc "\<lambda>it. param_addr (param2 it)"
    "\<lambda>it. it\<lparr>result2 := param_addr (param2 it)\<rparr>"
    "\<lambda>it s x. (arc_begin (arc (el_at s x)), x, param_addr (param2 it))" u for u
  by unfold_locales
     (simp_all add: sc_iterator3_next_def sc_iterator3_a_a_f_next_def a_a_f_match_def readable_def Let_def fun_eq_iff pars_def)

interpretation f_a_f: arc_enum f_a_f_loop "\<lambda>e. next_in_arc (arc e)" "\<lambda>e. prev_in_arc (arc e)"
    f_a_f_match "\<lambda>it s x. it\<lparr>result1 := x\<rparr>"
    sc_iterator3_f_a_f first_in_arc "\<lambda>it. param_addr (param2 it)"
    "\<lambda>it. it\<lparr>result0 := param_addr (param0 it), result2 := param_addr (param2 it)\<rparr>"
    "\<lambda>it s x. (param_addr (param0 it), x, param_addr (param2 it))" u for u
  by unfold_locales
     (simp_all add: sc_iterator3_next_def sc_iterator3_f_a_f_next_def f_a_f_match_def readable_def Let_def fun_eq_iff pars_def)

subsection \<open>Creation and destruction\<close>

text \<open>\<open>room n s x\<close>: the counter of \<open>x\<close> can still take \<open>n\<close> references.\<close>

definition room :: "nat \<Rightarrow> sc_storage \<Rightarrow> sc_addr \<Rightarrow> bool" where
  "room n s x \<longleftrightarrow> refs s x > 0 \<and> unat (refs s x) + n < 0xffffffff"

lemma room_mono: "room n s x \<Longrightarrow> m \<le> n \<Longrightarrow> room m s x"
  by (auto simp: room_def)

lemma room_may_ref: "room (Suc n) s x \<Longrightarrow> may_ref s x"
  by (auto simp: room_def may_ref_def word_less_nat_alt)

lemma unat_bump:
  assumes "has_cell s y" and "room (Suc n) s y"
  shows "unat (refs (bump y s) x) = unat (refs s x) + of_bool (x = y)"
  using assms by (simp add: refs_bump room_def unat_word_ariths)

lemma room_bump:
  assumes c: "has_cell s y" and y: "room (Suc n) s y" and x: "room (Suc n) s x"
  shows "room n (bump y s) x"
  using unat_bump [OF c y, of x] x by (auto simp: room_def word_less_nat_alt)

lemma iterator_ref_ok:
  assumes ok: "storage_ok s" and a: "a \<in> live s" and r: "may_ref s a"
  shows "sc_iterator_ref_element a s = Some (True, bump a s)"
proof -
  have c: "has_cell s a" "\<not> sc_element_is_request_deletion (el_at s a)" "el_type (el_at s a) \<noteq> 0"
    using a by (auto simp: live_def sc_element_is_valid_def sc_element_is_request_deletion_def)
  have ne: "a \<noteq> SC_ADDR_MAKE_EMPTY" using a ok by auto
  have "iterator_ref_attempts (Suc n) a s = Some (True, bump a s)" for n
    using c element_lock_ok [OF ok c(1)] ref_locked [OF ok c(1) ne r]
      unlock_set_refs_lock [OF ok c(1), of "refs s a + 1"]
    by (simp add: sc_state bump_def)
  from this [of 999] show ?thesis by (simp only: sc_iterator_ref_element_def) simp
qed

abbreviation fixed :: "sc_iterator_param list \<Rightarrow> sc_addr list" where
  "fixed ps \<equiv> map param_addr (filter (\<lambda>p. \<not> is_type p) ps)"

lemma ref_params_ok:
  assumes "graph_ok s" and "param_addr ` set ps \<subseteq> live s" and "\<And>x. x \<in> live s \<Longrightarrow> room (length ps + n) s x"
  shows "ref_params ps s = Some (True, bumps (map param_addr ps) s) \<and>
     graph_ok (bumps (map param_addr ps) s) \<and>
     (\<forall>x \<in> live s. room n (bumps (map param_addr ps) s) x) \<and>
     (\<forall>x. unat (refs (bumps (map param_addr ps) s) x) = unat (refs s x) + count_list (map param_addr ps) x)"
  using assms
proof (induction ps arbitrary: s)
  case (Cons p ps)
  let ?a = "param_addr p"
  let ?s = "bump ?a s"
  have a: "?a \<in> live s" "storage_ok s" using Cons.prems(1,2) by (auto simp: graph_ok_storage)
  have c: "has_cell s ?a" using live_typed [OF a(1)] by simp
  have r: "room (Suc (length ps + n)) s x" if "x \<in> live s" for x using Cons.prems(3) [OF that] by simp
  note m = room_may_ref [OF r [OF a(1)]]
  have "graph_ok ?s" by (rule graph_ok_bump [OF Cons.prems(1) a(1) m])
  moreover have "param_addr ` set ps \<subseteq> live ?s" using Cons.prems(2) by (simp add: bump_frame)
  moreover have "\<And>x. x \<in> live ?s \<Longrightarrow> room (length ps + n) ?s x"
    using room_bump [OF c r [OF a(1)] r] by (simp add: bump_frame)
  ultimately show ?case
    using Cons.IH [of ?s] unat_bump [OF c r [OF a(1)]] iterator_ref_ok [OF a(2,1) m]
    by (simp add: bump_frame)
qed simp

lemma unref_all_ok:
  assumes "storage_ok s" and "\<And>x. x \<in> set as \<Longrightarrow> has_cell s x \<and> x \<noteq> SC_ADDR_MAKE_EMPTY"
    and "\<And>x. x \<in> set as \<Longrightarrow> count_list as x < unat (refs s x)"
  shows "\<exists>s'. unref_all as s = Some s' \<and> storage_ok s' \<and> el_at s' = el_at s \<and> has_cell s' = has_cell s \<and>
     held s' = held s \<and> max_loaded_segments s' = max_loaded_segments s \<and> (\<forall>x. unat (refs s' x) = unat (refs s x) - count_list as x)"
  using assms
proof (induction as arbitrary: s)
  case (Cons a as)
  have a: "has_cell s a" "a \<noteq> SC_ADDR_MAKE_EMPTY" "count_list as a + 1 < unat (refs s a)"
    using Cons.prems(2,3) [of a] by auto
  then have r: "refs s a > 0" "refs s a \<noteq> 1" "refs s a \<noteq> 0" by (auto simp: word_less_nat_alt)
  obtain s1 where s1: "sc_storage_element_unref a s = Some (False, s1)" "storage_ok s1" "el_at s1 = el_at s"
    "refs s1 = (refs s)(a := refs s a - 1)" "held s1 = held s" "has_cell s1 = has_cell s"
    "max_loaded_segments s1 = max_loaded_segments s"
    using element_unref_ok [OF Cons.prems(1) a(1,2) r(1)] r(2) by auto
  have u: "unat (refs s1 x) = unat (refs s x) - of_bool (x = a)" for x
    using r(3) by (simp add: s1(4) unat_minus_one)
  have "count_list as x < unat (refs s1 x)" if "x \<in> set as" for x
    using a(3) that Cons.prems(3) [of x] by (cases "x = a") (auto simp: u split: if_splits)
  then obtain s2 where "unref_all as s1 = Some s2" "storage_ok s2" "el_at s2 = el_at s1"
    "has_cell s2 = has_cell s1" "held s2 = held s1" "max_loaded_segments s2 = max_loaded_segments s1"
    "\<forall>x. unat (refs s2 x) = unat (refs s1 x) - count_list as x"
    using Cons.IH [OF s1(2)] Cons.prems(2) s1(6) by auto
  then show ?case using s1 u by auto
qed simp

text \<open>The fields of a new iterator.\<close>

definition fresh ::
    "sc_memory_context \<Rightarrow> sc_iterator3_type \<Rightarrow> sc_iterator_param \<Rightarrow> sc_iterator_param \<Rightarrow> sc_iterator_param \<Rightarrow>
     sc_iterator3" where
  "fresh ctx t p1 p2 p3 = \<lparr>it_type = t, param0 = p1, param1 = p2, param2 = p3,
     result0 = SC_ADDR_MAKE_EMPTY, result1 = SC_ADDR_MAKE_EMPTY, result2 = SC_ADDR_MAKE_EMPTY,
     it_ctx = ctx, finished = False\<rparr>"

lemma fixed_readable_ok:
  assumes "storage_ok s" and "\<And>a. a \<in> set as \<Longrightarrow> has_cell s a \<and> readable ctx s a"
  shows "fixed_readable ctx as s = Some (True, s)"
  using assms
  by (induction as) (simp_all add: get_access_levels_eq readable_def)

lemma guarded_new_room:
  assumes ok: "graph_ok s" and sh: "check_shape t p1 p2 p3"
    and as: "set as = set (fixed [p1, p2, p3])" "set as \<subseteq> live s"
      "\<And>a. a \<in> set as \<Longrightarrow> readable ctx s a"
    and r: "\<And>x. x \<in> live s \<Longrightarrow> room (n + 3) s x"
  defines "s1 \<equiv> bumps (fixed [p1, p2, p3]) s"
  shows "guarded_new ctx as t p1 p2 p3 s = Some (Some (fresh ctx t p1 p2 p3), s1) \<and> graph_ok s1 \<and>
     (\<forall>x \<in> live s. room n s1 x) \<and>
     (\<forall>x. unat (refs s1 x) = unat (refs s x) + count_list (fixed [p1, p2, p3]) x)"
proof -
  let ?ps = "filter (\<lambda>p. \<not> is_type p) [p1, p2, p3]"
  have "length ?ps \<le> 3" using length_filter_le [of "\<lambda>p. \<not> is_type p" "[p1, p2, p3]"] by simp
  then have "\<And>x. x \<in> live s \<Longrightarrow> room (length ?ps + n) s x"
    using room_mono [OF r] by (simp add: add.commute)
  moreover have "param_addr ` set ?ps \<subseteq> live s" using as(1,2) by (simp only: set_map)
  ultimately have R: "ref_params ?ps s = Some (True, s1) \<and> graph_ok s1 \<and> (\<forall>x \<in> live s. room n s1 x) \<and>
     (\<forall>x. unat (refs s1 x) = unat (refs s x) + count_list (fixed [p1, p2, p3]) x)"
    unfolding s1_def by (rule ref_params_ok [OF ok, rotated])
  have "fixed_readable ctx as s = Some (True, s)"
    using as graph_ok_storage [OF ok] live_typed by (intro fixed_readable_ok) auto
  with R sh show ?thesis
    by (simp del: filter.simps add: guarded_new_def sc_iterator3_new_def fresh_def)
qed

lemma one_plus_three: "1 + 3 = (4 :: nat)"
  by simp

lemmas guarded_new_ok = guarded_new_room [where n = 1, unfolded one_plus_three]

lemma free_finished:
  assumes "finished it" and "storage_ok s"
    and "\<And>x. x \<in> set (fixed (pars it)) \<Longrightarrow> has_cell s x \<and> x \<noteq> SC_ADDR_MAKE_EMPTY"
    and "\<And>x. x \<in> set (fixed (pars it)) \<Longrightarrow> count_list (fixed (pars it)) x < unat (refs s x)"
  shows "\<exists>s'. sc_iterator3_free it s = Some s' \<and> storage_ok s' \<and> el_at s' = el_at s \<and> has_cell s' = has_cell s \<and>
     held s' = held s \<and> (\<forall>x. unat (refs s' x) = unat (refs s x) - count_list (fixed (pars it)) x)"
  using unref_all_ok [OF assms(2-4)] assms(1)
  by (auto simp del: filter.simps simp: sc_iterator3_free_def pars_def)

context arc_enum
begin

lemma enumerates:
  assumes ok: "graph_ok s1" and fr: "it_type it = kind" "\<not> finished it" "result1 it = SC_ADDR_MAKE_EMPTY"
    and own: "owner it \<in> live s1" "first (el_at s1 (owner it)) = head_addr xs"
    and xs: "distinct xs" "set xs \<subseteq> arcs s1"
      "dll (\<lambda>x. nxt (el_at s1 x)) (\<lambda>x. prv (el_at s1 x)) SC_ADDR_MAKE_EMPTY xs"
    and r: "\<And>x. x \<in> live s1 \<Longrightarrow> room 1 s1 x"
    and fx': "set (fixed (pars it)) \<subseteq> live s1" "\<And>x. x \<in> live s1 \<Longrightarrow> refs s x > 0"
      "\<And>x. unat (refs s1 x) = unat (refs s x) + count_list (fixed (pars it)) x"
  shows "\<exists>it' s2 s3. iterate3 u it s1 =
       Some (map (triple (prep it) s1) (filter (hit (prep it) s1) xs), it', s2) \<and>
     sc_iterator3_free it' s2 = Some s3 \<and> graph_ok s3 \<and>
     el_at s3 = el_at s1 \<and> has_cell s3 = has_cell s1 \<and> held s3 = held s1 \<and>
     (\<forall>x. unat (refs s3 x) =
        unat (refs s x) + of_bool (x \<in> set xs \<and> \<not> hit (prep it) s1 x))"
proof -
  have fx: "set (fixed (pars it)) \<subseteq> live s1"
      "\<And>x. x \<in> live s1 \<Longrightarrow> count_list (fixed (pars it)) x < unat (refs s1 x)"
    using fx' by (auto simp: word_less_nat_alt)
  let ?n = "\<lambda>x. \<not> hit (prep it) s1 x"
  let ?s2 = "bumps (filter ?n xs) s1" and ?F = "fixed (pars it)"
  have m: "may_ref s1 x" if "x \<in> live s1" for x using r [OF that] room_may_ref [of 0] by simp
  have lx: "set xs \<subseteq> live s1" using xs(2) arcs_live by blast
  have "ahead it s1 s1 xs"
    using ok fr own xs m lx by (auto simp: ahead_def walk_def)
  from iterate_ahead [OF this] obtain it' where it': "finished it'" "pars it' = pars it"
    "iterate3 u it s1 = Some (map (triple (prep it) s1) (filter (hit (prep it) s1) xs), it', ?s2)" by blast
  have g2: "graph_ok ?s2" using ok xs(1) m lx by (intro graph_ok_bumps) auto
  have cells: "has_cell s1 x" if "x \<in> live s1" for x using live_typed [OF that] by simp
  have "has_cell s1 x" if "x \<in> set (filter ?n xs)" for x using that lx cells by auto
  then have rb: "refs ?s2 x = (if x \<in> set (filter ?n xs) then refs s1 x + 1 else refs s1 x)" for x
    using xs(1) by (intro refs_bumps) simp_all
  have r2: "unat (refs ?s2 x) = unat (refs s1 x) + of_bool (x \<in> set xs \<and> ?n x)" for x
    using r [of x] lx by (auto simp: rb room_def unat_word_ariths)
  have lt: "count_list ?F x < unat (refs s1 x)" if "x \<in> set ?F" for x
    using fx(1) that by (intro fx(2)) blast
  have "\<exists>s3. sc_iterator3_free it' ?s2 = Some s3 \<and> storage_ok s3 \<and> el_at s3 = el_at ?s2 \<and>
      has_cell s3 = has_cell ?s2 \<and> held s3 = held ?s2 \<and>
      (\<forall>x. unat (refs s3 x) = unat (refs ?s2 x) - count_list (fixed (pars it')) x)"
  proof (rule free_finished [OF it'(1) graph_ok_storage [OF g2]], unfold it'(2))
    fix x assume x: "x \<in> set ?F"
    then have "x \<in> live s1" using fx(1) by blast
    then show "has_cell ?s2 x \<and> x \<noteq> SC_ADDR_MAKE_EMPTY"
      using cells graph_ok_storage [OF ok] by (auto simp: bumps_frame)
    show "count_list ?F x < unat (refs ?s2 x)" using lt [OF x] by (simp add: r2)
  qed
  then obtain s3 where s3: "sc_iterator3_free it' ?s2 = Some s3" "storage_ok s3" "el_at s3 = el_at s1"
    "has_cell s3 = has_cell s1" "held s3 = held s1"
    "\<forall>x. unat (refs s3 x) = unat (refs ?s2 x) - count_list ?F x"
    by (auto simp: bumps_frame it'(2))
  have cnt: "count_list ?F x \<le> unat (refs s1 x)" for x
    using lt [of x] count_notin [of x ?F] by (cases "x \<in> set ?F") linarith+
  have "refs s3 x > 0" if "x \<in> live s1" for x
    using fx(2) [OF that] s3(6) r2 [of x] by (simp add: word_less_nat_alt)
  then have "graph_ok s3"
    using ok s3(2-4) live_cong [OF s3(3,4)] arcs_cong [OF s3(3,4)]
    by (simp add: graph_ok_def out_list_def in_list_def)
  then show ?thesis using it'(3) s3 r2 cnt fx'(3) by (auto intro!: exI)
qed

lemma delivers:
  assumes ok: "graph_ok s" and it: "it = fresh ctx kind p1 p2 p3" and sh: "check_shape kind p1 p2 p3"
    and as: "set as = set (fixed [p1, p2, p3])" "set as \<subseteq> live s" "\<And>a. a \<in> set as \<Longrightarrow> readable ctx s a"
    and r: "\<And>x. x \<in> live s \<Longrightarrow> room 4 s x"
    and own: "owner it \<in> live s" "first (el_at s (owner it)) = head_addr xs"
    and xs: "distinct xs" "set xs \<subseteq> arcs s"
      "dll (\<lambda>x. nxt (el_at s x)) (\<lambda>x. prv (el_at s x)) SC_ADDR_MAKE_EMPTY xs"
    and h: "hit (prep it) s = h" "triple (prep it) s = tr"
  shows "\<exists>it s1 it' s2 s3. guarded_new ctx as kind p1 p2 p3 s = Some (Some it, s1) \<and>
     iterate3 u it s1 = Some (map tr (filter h xs), it', s2) \<and>
     sc_iterator3_free it' s2 = Some s3 \<and> graph_ok s3 \<and> el_at s3 = el_at s \<and> held s3 = held s \<and>
     (\<forall>x. unat (refs s3 x) = unat (refs s x) + of_bool (x \<in> set xs \<and> \<not> h x))"
proof -
  let ?F = "fixed [p1, p2, p3]"
  let ?s1 = "bumps ?F s"
  have n: "guarded_new ctx as kind p1 p2 p3 s = Some (Some it, ?s1)" "graph_ok ?s1"
    "\<And>x. x \<in> live s \<Longrightarrow> room 1 ?s1 x" "\<And>x. unat (refs ?s1 x) = unat (refs s x) + count_list ?F x"
    using guarded_new_ok [OF ok sh as r] it by blast+
  have F: "fixed (pars it) = ?F" by (simp only: it pars_def fresh_def sc_iterator3.simps)
  have v: "hit (prep it) ?s1 = h" "triple (prep it) ?s1 = tr"
    using view [OF bumps_frame(1)] triple_view [OF bumps_frame(1)] h by (auto simp: fun_eq_iff)
  have f: "it_type it = kind" "\<not> finished it" "result1 it = SC_ADDR_MAKE_EMPTY" by (simp_all add: it fresh_def)
  have "\<exists>it' s2 s3. iterate3 u it ?s1 = Some (map (triple (prep it) ?s1) (filter (hit (prep it) ?s1) xs), it', s2) \<and>
     sc_iterator3_free it' s2 = Some s3 \<and> graph_ok s3 \<and>
     el_at s3 = el_at ?s1 \<and> has_cell s3 = has_cell ?s1 \<and> held s3 = held ?s1 \<and>
     (\<forall>x. unat (refs s3 x) = unat (refs s x) + of_bool (x \<in> set xs \<and> \<not> hit (prep it) ?s1 x))"
  proof (rule enumerates [OF n(2) f], unfold F bumps_frame)
    show "0 < refs s x" if "x \<in> live s" for x using ok that by (simp add: graph_ok_def)
    show "set ?F \<subseteq> live s" using as by blast
  qed (fact own xs n)+
  with n(1) show ?thesis unfolding v bumps_frame by blast
qed

end

subsection \<open>What an iterator delivers\<close>

lemmas iterator_fields = fresh_def pars_def is_type_def check_shape_def

definition fits :: "sc_memory_context \<Rightarrow> sc_storage \<Rightarrow> sc_type \<Rightarrow> sc_addr \<Rightarrow> bool" where
  "fits ctx s t a \<longleftrightarrow> sc_iterator_compare_type (el_type (el_at s a)) t \<and> readable ctx s a"

lemma room_4: "room 4 s x \<Longrightarrow> unat (refs s x) > 0"
  by (simp add: room_def unat_gt_0 word_neq_0_conv)

lemmas iterator_matches = f_a_a_match_def a_a_f_match_def f_a_f_match_def fits_def readable_def
  out.chain_def inn.chain_def bump_frame Let_def

text \<open>
  C28. The iterator \<^verbatim>\<open>sc_iterator3_f_a_a\<close> over a readable element of a sound graph, created,
  run to its end and freed: it delivers, in the order of the list of outgoing connectors,
  exactly the connectors that the caller may read, whose type has the bits of \<open>arc_ty\<close> and
  whose end has the bits of \<open>end_ty\<close> and is readable; elements and locks are as before. It
  leaves one reference too many on every connector it passed over.
\<close>

theorem f_a_a_enumerates:
  assumes ok: "graph_ok s" and el: "el \<in> live s" "readable ctx s el" and xs: "out_list s el xs"
    and r: "\<And>x. x \<in> live s \<Longrightarrow> room 4 s x"
    and hit: "hit = (\<lambda>x. fits ctx s arc_ty x \<and> fits ctx s end_ty (arc_end (arc (el_at s x))))"
  shows "\<exists>it s1 it' s2 s3. sc_iterator3_f_a_a_new ctx el arc_ty end_ty s = Some (Some it, s1) \<and>
     iterate3 u it s1 = Some (map (\<lambda>x. (el, x, arc_end (arc (el_at s x)))) (filter hit xs), it', s2) \<and>
     sc_iterator3_free it' s2 = Some s3 \<and> graph_ok s3 \<and> el_at s3 = el_at s \<and> held s3 = held s \<and>
     (\<forall>x. unat (refs s3 x) = unat (refs s x) + of_bool (x \<in> set xs \<and> \<not> hit x))"
  unfolding sc_iterator3_f_a_a_new_def
  using el xs
  by (intro f_a_a.delivers [OF ok refl _ _ _ _ r])
     (auto simp: hit iterator_matches iterator_fields fun_eq_iff out_list_def)

text \<open>All counters of the sample storage are low.\<close>

lemma sample_counters: "x \<in> live sample \<Longrightarrow> room 4 sample x"
  by (auto simp: sample_live room_def sample_refs)

lemma sample_readable: "readable sample_ctx sample a"
  by (simp add: readable_def sample_access)

lemma sample_fits:
  "fits sample_ctx sample sc_type_arc_pos_const_perm sample_arc"
  "fits sample_ctx sample (sc_type_node OR sc_type_const) sample_n1"
  "fits sample_ctx sample (sc_type_node OR sc_type_const) sample_n2"
  by (simp_all add: fits_def sample_readable sc_iterator_compare_type_def sample_el_at sample_element_def
        sc_flags_remove_def sc_bits)

theorem f_a_a_enumerates_witness:
  "\<exists>it s1 it' s2 s3.
     sc_iterator3_f_a_a_new sample_ctx sample_n1 sc_type_arc_pos_const_perm (sc_type_node OR sc_type_const) sample =
       Some (Some it, s1) \<and>
     iterate3 0 it s1 = Some ([(sample_n1, sample_arc, sample_n2)], it', s2) \<and>
     sc_iterator3_free it' s2 = Some s3 \<and> graph_ok s3"
proof -
  have n2: "arc_end (arc (el_at sample sample_arc)) = sample_n2"
    by (simp add: sample_el_at sample_element_def)
  have "out_list sample sample_n1 [sample_arc]" using sample_out_list [of sample_n1] by simp
  from f_a_a_enumerates [OF sample_graph_ok sample_members(1) sample_readable this sample_counters refl,
      of sc_type_arc_pos_const_perm "sc_type_node OR sc_type_const" 0]
  show ?thesis by (auto simp: sample_fits n2)
qed

text \<open>
  The iterator \<^verbatim>\<open>sc_iterator3_a_a_f\<close> delivers, in the order of the list of incoming
  connectors, exactly the readable connectors of the asked type whose begin is readable and
  of the asked type, with the same effect on the storage as \<^verbatim>\<open>sc_iterator3_f_a_a\<close>.
\<close>

theorem a_a_f_enumerates:
  assumes ok: "graph_ok s" and el: "el \<in> live s" "readable ctx s el" and xs: "in_list s el xs"
    and r: "\<And>x. x \<in> live s \<Longrightarrow> room 4 s x"
    and hit: "hit = (\<lambda>x. fits ctx s arc_ty x \<and> fits ctx s beg_ty (arc_begin (arc (el_at s x))))"
  shows "\<exists>it s1 it' s2 s3. sc_iterator3_a_a_f_new ctx beg_ty arc_ty el s = Some (Some it, s1) \<and>
     iterate3 u it s1 = Some (map (\<lambda>x. (arc_begin (arc (el_at s x)), x, el)) (filter hit xs), it', s2) \<and>
     sc_iterator3_free it' s2 = Some s3 \<and> graph_ok s3 \<and> el_at s3 = el_at s \<and> held s3 = held s \<and>
     (\<forall>x. unat (refs s3 x) = unat (refs s x) + of_bool (x \<in> set xs \<and> \<not> hit x))"
  unfolding sc_iterator3_a_a_f_new_def
  using el xs
  by (intro a_a_f.delivers [OF ok refl _ _ _ _ r])
     (auto simp: hit iterator_matches iterator_fields fun_eq_iff in_list_def)

theorem a_a_f_enumerates_witness:
  "\<exists>it s1 it' s2 s3.
     sc_iterator3_a_a_f_new sample_ctx (sc_type_node OR sc_type_const) sc_type_arc_pos_const_perm sample_n2 sample =
       Some (Some it, s1) \<and>
     iterate3 0 it s1 = Some ([(sample_n1, sample_arc, sample_n2)], it', s2) \<and>
     sc_iterator3_free it' s2 = Some s3 \<and> graph_ok s3"
proof -
  have n1: "arc_begin (arc (el_at sample sample_arc)) = sample_n1"
    by (simp add: sample_el_at sample_element_def)
  have "in_list sample sample_n2 [sample_arc]" using sample_in_list [of sample_n2] by simp
  from a_a_f_enumerates [OF sample_graph_ok sample_members(2) sample_readable this sample_counters refl,
      of "sc_type_node OR sc_type_const" sc_type_arc_pos_const_perm 0]
  show ?thesis by (auto simp: sample_fits n1)
qed

text \<open>
  The iterator \<^verbatim>\<open>sc_iterator3_f_a_f\<close> between two readable elements delivers exactly the
  readable connectors of the asked type from the first to the second, in the order of the
  incoming list of the second, and gives back the references it took on the two elements.
\<close>

theorem f_a_f_enumerates:
  assumes ok: "graph_ok s" and b: "b \<in> live s" "readable ctx s b" and e: "e \<in> live s" "readable ctx s e"
    and xs: "in_list s e xs" and r: "\<And>x. x \<in> live s \<Longrightarrow> room 4 s x"
    and hit: "hit = (\<lambda>x. arc_begin (arc (el_at s x)) = b \<and> fits ctx s arc_ty x)"
  shows "\<exists>it s1 it' s2 s3. sc_iterator3_f_a_f_new ctx b arc_ty e s = Some (Some it, s1) \<and>
     iterate3 u it s1 = Some (map (\<lambda>x. (b, x, e)) (filter hit xs), it', s2) \<and>
     sc_iterator3_free it' s2 = Some s3 \<and> graph_ok s3 \<and> el_at s3 = el_at s \<and> held s3 = held s \<and>
     (\<forall>x. unat (refs s3 x) = unat (refs s x) + of_bool (x \<in> set xs \<and> \<not> hit x))"
  unfolding sc_iterator3_f_a_f_new_def
  using b e xs
  by (intro f_a_f.delivers [OF ok refl _ _ _ _ r])
     (auto simp: hit iterator_matches iterator_fields fun_eq_iff in_list_def)

theorem f_a_f_enumerates_witness:
  "\<exists>it s1 it' s2 s3.
     sc_iterator3_f_a_f_new sample_ctx sample_n1 sc_type_arc_pos_const_perm sample_n2 sample = Some (Some it, s1) \<and>
     iterate3 0 it s1 = Some ([(sample_n1, sample_arc, sample_n2)], it', s2) \<and>
     sc_iterator3_free it' s2 = Some s3 \<and> graph_ok s3"
proof -
  have n1: "arc_begin (arc (el_at sample sample_arc)) = sample_n1"
    by (simp add: sample_el_at sample_element_def)
  have "in_list sample sample_n2 [sample_arc]" using sample_in_list [of sample_n2] by simp
  from f_a_f_enumerates [OF sample_graph_ok sample_members(1) sample_readable sample_members(2) sample_readable
      this sample_counters refl, of sc_type_arc_pos_const_perm 0]
  show ?thesis by (auto simp: sample_fits n1)
qed

subsection \<open>The kinds with a fixed connector\<close>

lemma fixed_arc_next_ok:
  assumes "storage_ok s" and "has_cell s (param_addr (param1 it))" and "\<not> finished it"
  shows "fixed_arc_next cond it s = (let a = param_addr (param1 it); info = arc (el_at s a) in
     Some (if cond info
       then (True, it\<lparr>finished := True, result0 := arc_begin info, result1 := a, result2 := arc_end info\<rparr>, s)
       else (False, it\<lparr>finished := True\<rparr>, s)))"
  using assms by (simp add: fixed_arc_next_def bracket Let_def)

text \<open>
  The iterator \<^verbatim>\<open>sc_iterator3_f_f_f\<close> decides whether a connector joins two elements: it
  delivers the triple exactly when the connector starts at the first and ends at the second
  element, once, and the storage is as before after it is freed, references included.
\<close>

theorem f_f_f_decides:
  assumes ok: "graph_ok s" and b: "b \<in> live s" "readable ctx s b" and e: "e \<in> live s" "readable ctx s e"
    and c: "c \<in> arcs s" "readable ctx s c" and r: "\<And>x. x \<in> live s \<Longrightarrow> room 4 s x"
  shows "\<exists>it s1 it' s2. sc_iterator3_f_f_f_new ctx b c e s = Some (Some it, s1) \<and>
     iterate3 u it s1 = Some (
       if arc_begin (arc (el_at s c)) = b \<and> arc_end (arc (el_at s c)) = e then [(b, c, e)] else [], it', s1) \<and>
     sc_iterator3_free it' s1 = Some s2 \<and> el_at s2 = el_at s \<and> held s2 = held s \<and> refs s2 = refs s"
proof -
  let ?it = "fresh ctx sc_iterator3_f_f_f (ParamAddr b) (ParamAddr c) (ParamAddr e)"
  let ?s1 = "bumps (fixed (pars ?it)) s"
  have l: "set [b, e, c] \<subseteq> live s" using b e c arcs_live by auto
  have eq: "set [b, e, c] = set (fixed [ParamAddr b, ParamAddr c, ParamAddr e])"
    by (auto simp: is_type_def)
  have rd: "readable ctx s a" if "a \<in> set [b, e, c]" for a using that b e c by auto
  have n: "sc_iterator3_f_f_f_new ctx b c e s = Some (Some ?it, ?s1)" "graph_ok ?s1"
    "\<And>x. unat (refs ?s1 x) = unat (refs s x) + count_list (fixed (pars ?it)) x"
    using guarded_new_ok [OF ok _ eq l rd r, of sc_iterator3_f_f_f]
    by (simp_all add: sc_iterator3_f_f_f_new_def iterator_fields)
  have cells: "has_cell s x" if "x \<in> live s" for x using live_typed [OF that] by simp
  define it' where "it' = (if arc_begin (arc (el_at s c)) = b \<and> arc_end (arc (el_at s c)) = e
      then ?it\<lparr>finished := True, result0 := b, result1 := c, result2 := e\<rparr> else ?it\<lparr>finished := True\<rparr>)"
  have sc: "storage_ok ?s1" "has_cell ?s1 c" using graph_ok_storage [OF n(2)] cells l by (auto simp: bumps_frame)
  then have "sc_iterator3_next u ?it ?s1 =
      Some (arc_begin (arc (el_at s c)) = b \<and> arc_end (arc (el_at s c)) = e, it', ?s1)"
    by (auto simp: sc_iterator3_next_def sc_iterator3_f_f_f_next_def fixed_arc_next_ok fresh_def it'_def
          bumps_frame Let_def)
  moreover have f: "finished it'" by (simp add: it'_def)
  then have "iterate3 u it' ?s1 = Some ([], it', ?s1)"
    by (subst iterate3.simps) (simp add: sc_iterator3_next_def)
  ultimately have i: "iterate3 u ?it ?s1 = Some (
       if arc_begin (arc (el_at s c)) = b \<and> arc_end (arc (el_at s c)) = e then [(b, c, e)] else [], it', ?s1)"
    by (subst iterate3.simps) (auto simp: it'_def)
  have F: "fixed (pars it') = [b, c, e]" by (simp add: it'_def iterator_fields)
  have R: "unat (refs ?s1 x) = unat (refs s x) + count_list [b, c, e] x" for x
    using n(3) [of x] by (simp add: iterator_fields)
  have X: "has_cell ?s1 x \<and> x \<noteq> SC_ADDR_MAKE_EMPTY" "count_list [b, c, e] x < unat (refs ?s1 x)"
    if "x \<in> set [b, c, e]" for x
  proof -
    have x: "x \<in> live s" using l that by auto
    then have "refs s x > 0" using ok by (simp add: graph_ok_def)
    then show "count_list [b, c, e] x < unat (refs ?s1 x)" unfolding R by (simp add: word_less_nat_alt)
    show "has_cell ?s1 x \<and> x \<noteq> SC_ADDR_MAKE_EMPTY"
      using cells [OF x] x graph_ok_storage [OF ok] by (auto simp: bumps_frame)
  qed
  from free_finished [OF f sc(1), unfolded F, OF X]
  obtain s2 where "sc_iterator3_free it' ?s1 = Some s2" "el_at s2 = el_at s" "held s2 = held s"
    and r2: "\<forall>x. unat (refs s2 x) = unat (refs ?s1 x) - count_list [b, c, e] x"
    unfolding bumps_frame by blast
  moreover have "refs s2 = refs s" using r2 unfolding R by (simp add: fun_eq_iff word_unat_eq_iff)
  ultimately show ?thesis using n(1) i by blast
qed

theorem f_f_f_decides_witness:
  "\<exists>it s1 it'. sc_iterator3_f_f_f_new sample_ctx sample_n1 sample_arc sample_n2 sample = Some (Some it, s1) \<and>
     iterate3 0 it s1 = Some ([(sample_n1, sample_arc, sample_n2)], it', s1)"
proof -
  have "arc_begin (arc (el_at sample sample_arc)) = sample_n1" "arc_end (arc (el_at sample sample_arc)) = sample_n2"
    by (simp_all add: sample_el_at sample_element_def)
  with f_f_f_decides [OF sample_graph_ok sample_members(1) sample_readable sample_members(2) sample_readable
      sample_members(5) sample_readable sample_counters, of 0]
  show ?thesis by auto
qed

end
