(* ===== verification/Sc_Iterator5.thy ===== *)
theory Sc_Iterator5
  imports Sc_Iterator3_Laws
begin

text \<open>
  Iterators over five-element constructions (\<^verbatim>\<open>sc-store/sc_iterator5.h\<close>,
  \<^verbatim>\<open>sc-store/sc_iterator5.c\<close>): a main triple iterator, and for each of its connectors
  an attribute iterator over the connectors that end in it. The pointer \<^verbatim>\<open>it_attr\<close> is
  an option; \<^verbatim>\<open>it_main\<close> is never null in an iterator that creation returns.
\<close>

subsection \<open>Iterators\<close>

datatype sc_iterator5_type =
    sc_iterator5_f_a_a_a_f | sc_iterator5_a_a_f_a_f | sc_iterator5_f_a_f_a_f
  | sc_iterator5_f_a_f_a_a | sc_iterator5_f_a_a_a_a | sc_iterator5_a_a_f_a_a

record sc_iterator5 =
  it5_type :: sc_iterator5_type
  q0 :: sc_iterator_param
  q1 :: sc_iterator_param
  q2 :: sc_iterator_param
  q3 :: sc_iterator_param
  q4 :: sc_iterator_param
  r0 :: sc_addr
  r1 :: sc_addr
  r2 :: sc_addr
  r3 :: sc_addr
  r4 :: sc_addr
  it_main :: sc_iterator3
  it_attr :: "sc_iterator3 option"
  it5_ctx :: sc_memory_context

subsection \<open>Creation and destruction\<close>

definition check_shape5 ::
    "sc_iterator5_type \<Rightarrow> sc_iterator_param \<Rightarrow> sc_iterator_param \<Rightarrow> sc_iterator_param \<Rightarrow>
     sc_iterator_param \<Rightarrow> sc_iterator_param \<Rightarrow> bool" where
  "check_shape5 t p1 p2 p3 p4 p5 = (case t of
      sc_iterator5_f_a_a_a_f \<Rightarrow> \<not> is_type p1 \<and> is_type p2 \<and> is_type p3 \<and> is_type p4 \<and> \<not> is_type p5
    | sc_iterator5_a_a_f_a_f \<Rightarrow> is_type p1 \<and> is_type p2 \<and> \<not> is_type p3 \<and> is_type p4 \<and> \<not> is_type p5
    | sc_iterator5_f_a_f_a_f \<Rightarrow> \<not> is_type p1 \<and> is_type p2 \<and> \<not> is_type p3 \<and> is_type p4 \<and> \<not> is_type p5
    | sc_iterator5_f_a_f_a_a \<Rightarrow> \<not> is_type p1 \<and> is_type p2 \<and> \<not> is_type p3 \<and> is_type p4 \<and> is_type p5
    | sc_iterator5_f_a_a_a_a \<Rightarrow> \<not> is_type p1 \<and> is_type p2 \<and> is_type p3 \<and> is_type p4 \<and> is_type p5
    | sc_iterator5_a_a_f_a_a \<Rightarrow> is_type p1 \<and> is_type p2 \<and> \<not> is_type p3 \<and> is_type p4 \<and> is_type p5)"

text \<open>The second \<^verbatim>\<open>switch\<close>: the main iterator, and the results that are fixed.\<close>

definition main_new ::
    "sc_memory_context \<Rightarrow> sc_iterator5_type \<Rightarrow> sc_iterator_param \<Rightarrow> sc_iterator_param \<Rightarrow> sc_iterator_param \<Rightarrow>
     sc_storage \<Rightarrow> (sc_iterator3 option \<times> sc_storage) option" where
  "main_new ctx t p1 p2 p3 = (case t of
      sc_iterator5_f_a_a_a_f \<Rightarrow> sc_iterator3_f_a_a_new ctx (param_addr p1) (param_type p2) (param_type p3)
    | sc_iterator5_a_a_f_a_f \<Rightarrow> sc_iterator3_a_a_f_new ctx (param_type p1) (param_type p2) (param_addr p3)
    | sc_iterator5_f_a_f_a_f \<Rightarrow> sc_iterator3_f_a_f_new ctx (param_addr p1) (param_type p2) (param_addr p3)
    | sc_iterator5_f_a_f_a_a \<Rightarrow> sc_iterator3_f_a_f_new ctx (param_addr p1) (param_type p2) (param_addr p3)
    | sc_iterator5_a_a_f_a_a \<Rightarrow> sc_iterator3_a_a_f_new ctx (param_type p1) (param_type p2) (param_addr p3)
    | sc_iterator5_f_a_a_a_a \<Rightarrow> sc_iterator3_f_a_a_new ctx (param_addr p1) (param_type p2) (param_type p3))"

definition fixed_results :: "sc_iterator5 \<Rightarrow> sc_iterator5" where
  "fixed_results it = (case it5_type it of
      sc_iterator5_f_a_a_a_f \<Rightarrow> it\<lparr>r0 := param_addr (q0 it), r4 := param_addr (q4 it)\<rparr>
    | sc_iterator5_a_a_f_a_f \<Rightarrow> it\<lparr>r2 := param_addr (q2 it), r4 := param_addr (q4 it)\<rparr>
    | sc_iterator5_f_a_f_a_f \<Rightarrow>
        it\<lparr>r0 := param_addr (q0 it), r2 := param_addr (q2 it), r4 := param_addr (q4 it)\<rparr>
    | sc_iterator5_f_a_f_a_a \<Rightarrow> it\<lparr>r0 := param_addr (q0 it), r2 := param_addr (q2 it)\<rparr>
    | sc_iterator5_a_a_f_a_a \<Rightarrow> it\<lparr>r2 := param_addr (q2 it)\<rparr>
    | sc_iterator5_f_a_a_a_a \<Rightarrow> it\<lparr>r0 := param_addr (q0 it)\<rparr>)"

definition sc_iterator5_new ::
    "sc_memory_context \<Rightarrow> sc_iterator5_type \<Rightarrow> sc_iterator_param \<Rightarrow> sc_iterator_param \<Rightarrow> sc_iterator_param \<Rightarrow>
     sc_iterator_param \<Rightarrow> sc_iterator_param \<Rightarrow> sc_storage \<Rightarrow> (sc_iterator5 option \<times> sc_storage) option" where
  "sc_iterator5_new ctx t p1 p2 p3 p4 p5 s =
     (if \<not> check_shape5 t p1 p2 p3 p4 p5 then Some (None, s)
      else do {
        (main, s1) \<leftarrow> main_new ctx t p1 p2 p3 s;
        (case main of None \<Rightarrow> Some (None, s1)
         | Some m \<Rightarrow> Some (Some (fixed_results
             \<lparr>it5_type = t, q0 = p1, q1 = p2, q2 = p3, q3 = p4, q4 = p5,
              r0 = SC_ADDR_MAKE_EMPTY, r1 = SC_ADDR_MAKE_EMPTY, r2 = SC_ADDR_MAKE_EMPTY,
              r3 = SC_ADDR_MAKE_EMPTY, r4 = SC_ADDR_MAKE_EMPTY,
              it_main = m, it_attr = None, it5_ctx = ctx\<rparr>), s1))
      })"

definition sc_iterator5_f_a_a_a_f_new ::
    "sc_memory_context \<Rightarrow> sc_addr \<Rightarrow> sc_type \<Rightarrow> sc_type \<Rightarrow> sc_type \<Rightarrow> sc_addr \<Rightarrow> sc_storage \<Rightarrow>
     (sc_iterator5 option \<times> sc_storage) option" where
  "sc_iterator5_f_a_a_a_f_new ctx p1 p2 p3 p4 p5 = sc_iterator5_new ctx sc_iterator5_f_a_a_a_f
     (ParamAddr p1) (ParamType p2) (ParamType p3) (ParamType p4) (ParamAddr p5)"

definition sc_iterator5_a_a_f_a_f_new ::
    "sc_memory_context \<Rightarrow> sc_type \<Rightarrow> sc_type \<Rightarrow> sc_addr \<Rightarrow> sc_type \<Rightarrow> sc_addr \<Rightarrow> sc_storage \<Rightarrow>
     (sc_iterator5 option \<times> sc_storage) option" where
  "sc_iterator5_a_a_f_a_f_new ctx p1 p2 p3 p4 p5 = sc_iterator5_new ctx sc_iterator5_a_a_f_a_f
     (ParamType p1) (ParamType p2) (ParamAddr p3) (ParamType p4) (ParamAddr p5)"

definition sc_iterator5_f_a_f_a_f_new ::
    "sc_memory_context \<Rightarrow> sc_addr \<Rightarrow> sc_type \<Rightarrow> sc_addr \<Rightarrow> sc_type \<Rightarrow> sc_addr \<Rightarrow> sc_storage \<Rightarrow>
     (sc_iterator5 option \<times> sc_storage) option" where
  "sc_iterator5_f_a_f_a_f_new ctx p1 p2 p3 p4 p5 = sc_iterator5_new ctx sc_iterator5_f_a_f_a_f
     (ParamAddr p1) (ParamType p2) (ParamAddr p3) (ParamType p4) (ParamAddr p5)"

definition sc_iterator5_f_a_f_a_a_new ::
    "sc_memory_context \<Rightarrow> sc_addr \<Rightarrow> sc_type \<Rightarrow> sc_addr \<Rightarrow> sc_type \<Rightarrow> sc_type \<Rightarrow> sc_storage \<Rightarrow>
     (sc_iterator5 option \<times> sc_storage) option" where
  "sc_iterator5_f_a_f_a_a_new ctx p1 p2 p3 p4 p5 = sc_iterator5_new ctx sc_iterator5_f_a_f_a_a
     (ParamAddr p1) (ParamType p2) (ParamAddr p3) (ParamType p4) (ParamType p5)"

definition sc_iterator5_f_a_a_a_a_new ::
    "sc_memory_context \<Rightarrow> sc_addr \<Rightarrow> sc_type \<Rightarrow> sc_type \<Rightarrow> sc_type \<Rightarrow> sc_type \<Rightarrow> sc_storage \<Rightarrow>
     (sc_iterator5 option \<times> sc_storage) option" where
  "sc_iterator5_f_a_a_a_a_new ctx p1 p2 p3 p4 p5 = sc_iterator5_new ctx sc_iterator5_f_a_a_a_a
     (ParamAddr p1) (ParamType p2) (ParamType p3) (ParamType p4) (ParamType p5)"

definition sc_iterator5_a_a_f_a_a_new ::
    "sc_memory_context \<Rightarrow> sc_type \<Rightarrow> sc_type \<Rightarrow> sc_addr \<Rightarrow> sc_type \<Rightarrow> sc_type \<Rightarrow> sc_storage \<Rightarrow>
     (sc_iterator5 option \<times> sc_storage) option" where
  "sc_iterator5_a_a_f_a_a_new ctx p1 p2 p3 p4 p5 = sc_iterator5_new ctx sc_iterator5_a_a_f_a_a
     (ParamType p1) (ParamType p2) (ParamAddr p3) (ParamType p4) (ParamType p5)"

definition free_attr :: "sc_iterator3 option \<Rightarrow> sc_storage \<Rightarrow> sc_storage option" where
  "free_attr attr s = (case attr of Some a \<Rightarrow> sc_iterator3_free a s | None \<Rightarrow> Some s)"

definition sc_iterator5_free :: "sc_iterator5 \<Rightarrow> sc_storage \<Rightarrow> sc_storage option" where
  "sc_iterator5_free it s = do {
     s1 \<leftarrow> free_attr (it_attr it) s;
     sc_iterator3_free (it_main it) s1
   }"

subsection \<open>Going on\<close>

text \<open>
  The six \<^verbatim>\<open>next\<close> functions share one body: go on with the attribute iterator, and when it
  is exhausted advance the main iterator until an attribute iterator yields. They differ in
  the constructor of the attribute iterator (\<open>attr_new\<close>), in the results they clear and in
  those they store. An attribute iterator that cannot be created ends the iteration.
\<close>

partial_function (option) attr_loop ::
    "sc_type \<Rightarrow> (sc_iterator5 \<Rightarrow> sc_storage \<Rightarrow> (sc_iterator3 option \<times> sc_storage) option) \<Rightarrow>
     sc_iterator5 \<Rightarrow> sc_storage \<Rightarrow> (bool \<times> sc_iterator5 \<times> sc_storage) option" where
  "attr_loop uninit attr_new it s = do {
     (more, it1, s1) \<leftarrow> (case it_attr it of
         None \<Rightarrow> Some (False, it, s)
       | Some a \<Rightarrow> do { (m, a1, s1) \<leftarrow> sc_iterator3_next uninit a s; Some (m, it\<lparr>it_attr := Some a1\<rparr>, s1) });
     if more then Some (True, it1, s1)
     else do {
       s2 \<leftarrow> free_attr (it_attr it1) s1;
       let it2 = it1\<lparr>it_attr := None\<rparr>;
       (m, main, s3) \<leftarrow> sc_iterator3_next uninit (it_main it2) s2;
       let it3 = it2\<lparr>it_main := main\<rparr>;
       if \<not> m then Some (False, it3, s3)
       else do {
         (attr, s4) \<leftarrow> attr_new it3 s3;
         let it4 = it3\<lparr>it_attr := attr\<rparr>;
         if attr = None then Some (False, it4, s4) else attr_loop uninit attr_new it4 s4
       }
     }
   }"

definition next5 ::
    "sc_type \<Rightarrow> (sc_iterator5 \<Rightarrow> sc_storage \<Rightarrow> (sc_iterator3 option \<times> sc_storage) option) \<Rightarrow>
     (sc_iterator5 \<Rightarrow> sc_iterator5) \<Rightarrow> (sc_iterator3 \<Rightarrow> sc_iterator5 \<Rightarrow> sc_iterator5) \<Rightarrow>
     sc_iterator5 \<Rightarrow> sc_storage \<Rightarrow> (bool \<times> sc_iterator5 \<times> sc_storage) option" where
  "next5 uninit attr_new clear store it s = do {
     let it1 = clear it;
     (more, it2, s1) \<leftarrow> (case it_attr it1 of
         None \<Rightarrow> Some (False, it1, s)
       | Some a \<Rightarrow> do { (m, a1, s1) \<leftarrow> sc_iterator3_next uninit a s; Some (m, it1\<lparr>it_attr := Some a1\<rparr>, s1) });
     if more then Some (True, store (the (it_attr it2)) it2, s1)
     else do {
       s2 \<leftarrow> free_attr (it_attr it2) s1;
       (found, it3, s3) \<leftarrow> attr_loop uninit attr_new (it2\<lparr>it_attr := None\<rparr>) s2;
       if found then Some (True, store (the (it_attr it3)) it3, s3) else Some (False, it3, s3)
     }
   }"

definition attr_fixed :: "sc_iterator5 \<Rightarrow> sc_storage \<Rightarrow> (sc_iterator3 option \<times> sc_storage) option" where
  "attr_fixed it = sc_iterator3_f_a_f_new (it5_ctx it) (param_addr (q4 it)) (param_type (q3 it)) (result1 (it_main it))"

definition attr_any :: "sc_iterator5 \<Rightarrow> sc_storage \<Rightarrow> (sc_iterator3 option \<times> sc_storage) option" where
  "attr_any it = sc_iterator3_a_a_f_new (it5_ctx it) (param_type (q4 it)) (param_type (q3 it)) (result1 (it_main it))"

abbreviation NULL :: sc_addr where "NULL \<equiv> SC_ADDR_MAKE_EMPTY"

definition sc_iterator5_a_a_f_a_f_next ::
    "sc_type \<Rightarrow> sc_iterator5 \<Rightarrow> sc_storage \<Rightarrow> (bool \<times> sc_iterator5 \<times> sc_storage) option" where
  "sc_iterator5_a_a_f_a_f_next u = next5 u attr_fixed
     (\<lambda>it. it\<lparr>r0 := NULL, r1 := NULL, r3 := NULL\<rparr>)
     (\<lambda>a it. it\<lparr>r0 := result0 (it_main it), r1 := result1 (it_main it), r3 := result1 a\<rparr>)"

definition sc_iterator5_f_a_a_a_f_next ::
    "sc_type \<Rightarrow> sc_iterator5 \<Rightarrow> sc_storage \<Rightarrow> (bool \<times> sc_iterator5 \<times> sc_storage) option" where
  "sc_iterator5_f_a_a_a_f_next u = next5 u attr_fixed
     (\<lambda>it. it\<lparr>r1 := NULL, r2 := NULL, r3 := NULL\<rparr>)
     (\<lambda>a it. it\<lparr>r1 := result1 (it_main it), r2 := result2 (it_main it), r3 := result1 a\<rparr>)"

definition sc_iterator5_f_a_f_a_f_next ::
    "sc_type \<Rightarrow> sc_iterator5 \<Rightarrow> sc_storage \<Rightarrow> (bool \<times> sc_iterator5 \<times> sc_storage) option" where
  "sc_iterator5_f_a_f_a_f_next u = next5 u attr_fixed
     (\<lambda>it. it\<lparr>r1 := NULL, r3 := NULL\<rparr>)
     (\<lambda>a it. it\<lparr>r1 := result1 (it_main it), r3 := result1 a\<rparr>)"

definition sc_iterator5_f_a_f_a_a_next ::
    "sc_type \<Rightarrow> sc_iterator5 \<Rightarrow> sc_storage \<Rightarrow> (bool \<times> sc_iterator5 \<times> sc_storage) option" where
  "sc_iterator5_f_a_f_a_a_next u = next5 u attr_any
     (\<lambda>it. it\<lparr>r1 := NULL, r3 := NULL, r4 := NULL\<rparr>)
     (\<lambda>a it. it\<lparr>r1 := result1 (it_main it), r3 := result1 a, r4 := result0 a\<rparr>)"

definition sc_iterator5_f_a_a_a_a_next ::
    "sc_type \<Rightarrow> sc_iterator5 \<Rightarrow> sc_storage \<Rightarrow> (bool \<times> sc_iterator5 \<times> sc_storage) option" where
  "sc_iterator5_f_a_a_a_a_next u = next5 u attr_any
     (\<lambda>it. it\<lparr>r1 := NULL, r2 := NULL, r3 := NULL, r4 := NULL\<rparr>)
     (\<lambda>a it. it\<lparr>r1 := result1 (it_main it), r2 := result2 (it_main it), r3 := result1 a, r4 := result0 a\<rparr>)"

definition sc_iterator5_a_a_f_a_a_next ::
    "sc_type \<Rightarrow> sc_iterator5 \<Rightarrow> sc_storage \<Rightarrow> (bool \<times> sc_iterator5 \<times> sc_storage) option" where
  "sc_iterator5_a_a_f_a_a_next u = next5 u attr_any
     (\<lambda>it. it\<lparr>r1 := NULL, r0 := NULL, r3 := NULL, r4 := NULL\<rparr>)
     (\<lambda>a it. it\<lparr>r0 := result0 (it_main it), r1 := result1 (it_main it), r3 := result1 a, r4 := result0 a\<rparr>)"

definition sc_iterator5_next ::
    "sc_type \<Rightarrow> sc_iterator5 \<Rightarrow> sc_storage \<Rightarrow> (bool \<times> sc_iterator5 \<times> sc_storage) option" where
  "sc_iterator5_next u it = (case it5_type it of
      sc_iterator5_f_a_a_a_f \<Rightarrow> sc_iterator5_f_a_a_a_f_next u it
    | sc_iterator5_a_a_f_a_f \<Rightarrow> sc_iterator5_a_a_f_a_f_next u it
    | sc_iterator5_f_a_f_a_f \<Rightarrow> sc_iterator5_f_a_f_a_f_next u it
    | sc_iterator5_f_a_f_a_a \<Rightarrow> sc_iterator5_f_a_f_a_a_next u it
    | sc_iterator5_f_a_a_a_a \<Rightarrow> sc_iterator5_f_a_a_a_a_next u it
    | sc_iterator5_a_a_f_a_a \<Rightarrow> sc_iterator5_a_a_f_a_a_next u it)"

definition sc_iterator5_value :: "sc_iterator5 \<Rightarrow> nat \<Rightarrow> sc_addr option" where
  "sc_iterator5_value it vid =
     (if vid = 0 then Some (r0 it) else if vid = 1 then Some (r1 it) else if vid = 2 then Some (r2 it)
      else if vid = 3 then Some (r3 it) else if vid = 4 then Some (r4 it) else None)"

text \<open>The loop a caller writes, collecting the results.\<close>

definition results5 :: "sc_iterator5 \<Rightarrow> sc_addr list" where
  "results5 it = [r0 it, r1 it, r2 it, r3 it, r4 it]"

partial_function (option) iterate5 ::
    "sc_type \<Rightarrow> sc_iterator5 \<Rightarrow> sc_storage \<Rightarrow> (sc_addr list list \<times> sc_iterator5 \<times> sc_storage) option" where
  "iterate5 u it s = do {
     (more, it1, s1) \<leftarrow> sc_iterator5_next u it s;
     if more then do {
       (rs, it2, s2) \<leftarrow> iterate5 u it1 s1;
       Some (results5 it1 # rs, it2, s2)
     }
     else Some ([], it1, s1)
   }"

end
