(* ===== verification/Sc_Sample_Role.thy ===== *)
theory Sc_Sample_Role
  imports Sc_Sample
begin

text \<open>
  A second concrete storage: the sample with a role node and a connector from it to the
  connector between the two nodes, the shape that five-element iterators look for.
\<close>

abbreviation role_node :: sc_addr where "role_node \<equiv> Addr 0 5"
abbreviation role_arc :: sc_addr where "role_arc \<equiv> Addr 0 6"

definition role_element :: "nat \<Rightarrow> sc_element" where
  "role_element n =
     (if n = 3 then (sample_element 3)\<lparr>first_in_arc := role_arc\<rparr>
      else if n = 5 then zero_element\<lparr>el_type := sc_type_node OR sc_type_node_role, first_out_arc := role_arc\<rparr>
      else if n = 6 then zero_element\<lparr>el_type := sc_type_arc_pos_const_perm,
             arc := zero_arc_info\<lparr>arc_begin := role_node, arc_end := sample_arc\<rparr>\<rparr>
      else sample_element n)"

definition role_segment :: sc_segment where
  "role_segment = (sc_segment_new 0)\<lparr>seg_elements := role_element,
     seg_meta := (\<lambda>n. if 1 \<le> n \<and> n \<le> 6 then zero_meta\<lparr>ref_count := 1\<rparr> else zero_meta),
     seg_sections := (\<lambda>_. zero_section), elements_count := 6\<rparr>"

definition role_sample :: sc_storage where
  "role_sample = sample\<lparr>segments := [0 \<mapsto> role_segment]\<rparr>"

lemmas role_defs = role_element_def sample_element_def zero_element_def zero_arc_info_def

lemma role_storage_ok: "storage_ok role_sample"
proof -
  have "cell_clean (role_element n)" for n
    by (simp add: role_defs cell_clean_def sc_bits)
  moreover have "el_type (role_element 0) = 0" by (simp add: role_defs)
  ultimately show ?thesis
    by (auto simp: storage_ok_def role_sample_def sample_def segment_ok_def role_segment_def
          seg_ok_def zero_section_def seg_locks_ok_def section_ok_def sc_limits)
qed

lemma role_el_at: "el_at role_sample a = (if addr_seg a = 0 then role_element (off_ix a) else zero_element)"
  by (auto simp: el_at_def role_sample_def role_segment_def unat_eq_zero)

lemma role_refs: "refs role_sample a = (if addr_seg a = 0 \<and> 1 \<le> off_ix a \<and> off_ix a \<le> 6 then 1 else 0)"
  by (auto simp: refs_def meta_at_def role_sample_def role_segment_def zero_meta_def unat_eq_zero)

lemma role_live:
  "live role_sample = {sample_n1, sample_n2, sample_arc, sample_link, role_node, role_arc}"
proof -
  have "has_cell role_sample (Addr 0 n) \<longleftrightarrow> unat n < SC_SEGMENT_ELEMENTS_COUNT" for n
    by (simp add: has_cell_def role_sample_def sc_limits)
  moreover have "a \<in> live role_sample \<longleftrightarrow>
      has_cell role_sample a \<and> addr_seg a = 0 \<and> addr_offset a \<in> {1, 2, 3, 4, 5, 6}" for a
    by (auto simp: live_def role_el_at role_defs sc_element_is_valid_def sc_bits word_unat_eq_iff split: if_splits)
  ultimately show ?thesis
    by (auto simp: sc_limits) (metis sc_addr.collapse)+
qed

lemma role_arcs: "arcs role_sample = {sample_arc, role_arc}"
  by (auto simp: arcs_def role_live role_el_at role_defs is_arc_def sc_bits)

lemma role_cells:
  "first_out_arc (el_at role_sample sample_n1) = sample_arc" "first_in_arc (el_at role_sample sample_n1) = SC_ADDR_MAKE_EMPTY"
  "first_out_arc (el_at role_sample sample_n2) = SC_ADDR_MAKE_EMPTY" "first_in_arc (el_at role_sample sample_n2) = sample_arc"
  "first_out_arc (el_at role_sample sample_arc) = SC_ADDR_MAKE_EMPTY" "first_in_arc (el_at role_sample sample_arc) = role_arc"
  "first_out_arc (el_at role_sample sample_link) = SC_ADDR_MAKE_EMPTY" "first_in_arc (el_at role_sample sample_link) = SC_ADDR_MAKE_EMPTY"
  "first_out_arc (el_at role_sample role_node) = role_arc" "first_in_arc (el_at role_sample role_node) = SC_ADDR_MAKE_EMPTY"
  "first_out_arc (el_at role_sample role_arc) = SC_ADDR_MAKE_EMPTY" "first_in_arc (el_at role_sample role_arc) = SC_ADDR_MAKE_EMPTY"
  "arc (el_at role_sample sample_arc) = zero_arc_info\<lparr>arc_begin := sample_n1, arc_end := sample_n2\<rparr>"
  "arc (el_at role_sample role_arc) = zero_arc_info\<lparr>arc_begin := role_node, arc_end := sample_arc\<rparr>"
  by (simp_all add: role_el_at role_defs)

lemma role_out_list:
  "out_list role_sample b (if b = sample_n1 then [sample_arc] else if b = role_node then [role_arc] else [])"
  unfolding out_list_def out.chain_def role_live role_arcs
  by (auto simp: role_cells zero_arc_info_def)

lemma role_in_list:
  "in_list role_sample b (if b = sample_n2 then [sample_arc] else if b = sample_arc then [role_arc] else [])"
  unfolding in_list_def inn.chain_def role_live role_arcs
  by (auto simp: role_cells zero_arc_info_def)

lemma role_graph_ok: "graph_ok role_sample"
  unfolding graph_ok_def
proof (intro conjI)
  show "\<forall>b. \<exists>xs. out_list role_sample b xs" "\<forall>b. \<exists>xs. in_list role_sample b xs"
    using role_out_list role_in_list by blast+
qed (auto simp: role_storage_ok role_arcs role_live role_el_at role_refs role_defs sc_bits)

lemma role_access:
  "sc_access_lvl_check_read c (el_access (el_at role_sample a))"
  by (simp add: role_el_at role_defs sc_access_lvl_check_read_def sc_access_lvl_get_read_def)

end
