(* ===== verification/Sc_Iterator5_Laws.thy ===== *)
theory Sc_Iterator5_Laws
  imports Sc_Iterator5 Sc_Sample_Role
begin

text \<open>
  What a five-element iterator delivers. Several triple iterators are alive at once, so the
  laws of one triple iterator are stated over a storage in which every element has more
  references than the iterators hold (\<open>covered\<close>); the locale \<open>five_iter\<close> is the contract
  between the shared body of the six \<^verbatim>\<open>next\<close> functions and the attribute iterators.
\<close>

subsection \<open>References held by iterators\<close>

definition holds :: "sc_iterator3 \<Rightarrow> sc_addr \<Rightarrow> nat" where
  "holds it x = count_list (fixed (pars it)) x +
     of_bool (\<not> finished it \<and> result1 it = x \<and> x \<noteq> SC_ADDR_MAKE_EMPTY)"

definition held_by :: "sc_iterator3 list \<Rightarrow> sc_addr \<Rightarrow> nat" where
  "held_by its x = sum_list (map (\<lambda>it. holds it x) its)"

definition covered :: "nat \<Rightarrow> sc_iterator3 list \<Rightarrow> sc_storage \<Rightarrow> bool" where
  "covered n its s \<longleftrightarrow> graph_ok s \<and>
     (\<forall>x \<in> live s. held_by its x < unat (refs s x) \<and> unat (refs s x) + n < 0xffffffff) \<and>
     (\<forall>it \<in> set its. set (fixed (pars it)) \<subseteq> live s \<and>
        (\<not> finished it \<longrightarrow> result1 it = SC_ADDR_MAKE_EMPTY \<or> result1 it \<in> live s))"

definition unmoved :: "sc_storage \<Rightarrow> sc_storage \<Rightarrow> bool" where
  "unmoved s s' \<longleftrightarrow> el_at s' = el_at s \<and> has_cell s' = has_cell s \<and> held s' = held s \<and>
     max_loaded_segments s' = max_loaded_segments s"

lemma unmoved_refl [simp]: "unmoved s s"
  by (simp add: unmoved_def)

lemma unmoved_trans: "unmoved s t \<Longrightarrow> unmoved t u \<Longrightarrow> unmoved s u"
  by (simp add: unmoved_def)

lemma unmoved_live: "unmoved s s' \<Longrightarrow> live s' = live s \<and> arcs s' = arcs s"
  using live_cong [of s' s] arcs_cong [of s' s] by (simp add: unmoved_def)

lemma held_by_Cons: "held_by (it # its) x = holds it x + held_by its x"
  by (simp add: held_by_def)

lemma covered_room: "covered n its s \<Longrightarrow> x \<in> live s \<Longrightarrow> room n s x"
  by (auto simp: covered_def room_def word_less_nat_alt)

lemma covered_mono: "covered n its s \<Longrightarrow> m \<le> n \<Longrightarrow> covered m its s"
  by (fastforce simp: covered_def)

lemma graph_ok_refs:
  assumes "graph_ok s" "unmoved s s'" "storage_ok s'" "\<And>x. x \<in> live s \<Longrightarrow> unat (refs s' x) > 0"
  shows "graph_ok s'"
  using assms unmoved_live [OF assms(2)]
  by (auto simp: graph_ok_def out_list_def in_list_def unmoved_def word_less_nat_alt)

lemma covered_graph: "covered n its s \<Longrightarrow> graph_ok s"
  by (simp add: covered_def)

text \<open>Taking back the reference to the last result.\<close>

definition last_of :: "sc_iterator3 \<Rightarrow> sc_addr list" where
  "last_of it = (if \<not> finished it \<and> result1 it \<noteq> SC_ADDR_MAKE_EMPTY then [result1 it] else [])"

lemma release_last:
  assumes c: "covered n (it # its) s" and l: "last_of it = [r]"
  obtains s0 where "s = bump r s0" "unmoved s s0" "storage_ok s0" "graph_ok s0" "has_cell s0 r"
    "r \<noteq> SC_ADDR_MAKE_EMPTY" "may_ref s0 r"
    "\<And>x. unat (refs s0 x) = unat (refs s x) - of_bool (x = r)"
proof -
  have r: "r = result1 it" "\<not> finished it" "r \<noteq> SC_ADDR_MAKE_EMPTY"
    using l by (auto simp: last_of_def split: if_splits)
  then have live: "r \<in> live s" using c by (auto simp: covered_def)
  then have cell: "has_cell s r" using live_typed by blast
  have "holds it r \<ge> 1" using r by (simp add: holds_def)
  then have two: "unat (refs s r) > 1" "unat (refs s r) < 0xffffffff"
    using c live by (auto simp: covered_def held_by_Cons)
  let ?s0 = "set_refs r (refs s r - 1) s"
  have ne: "refs s r \<noteq> 0" using two by (auto simp: unat_eq_0)
  have u: "unat (refs s r - 1) = unat (refs s r) - 1" using ne by (simp add: unat_minus_one)
  have R: "refs ?s0 x = (if x = r then refs s r - 1 else refs s x)" for x
    using cell by (simp add: sc_state)
  have ok: "storage_ok ?s0" and un: "unmoved s ?s0"
    using c by (auto simp: covered_def graph_ok_def sc_state unmoved_def)
  have U: "unat (refs ?s0 x) = unat (refs s x) - of_bool (x = r)" for x by (simp add: R u)
  have "refs ?s0 r + 1 = refs s r" unfolding R by simp
  then have "bump r ?s0 = set_refs r (refs s r) ?s0" by (simp add: bump_def)
  from sym [OF trans [OF this set_refs_back [OF cell]]] have "s = bump r ?s0" .
  moreover have "may_ref ?s0 r"
    using two by (simp add: may_ref_def R u word_less_nat_alt)
  moreover have "unat (refs ?s0 x) > 0" if "x \<in> live s" for x
    using that c two by (auto simp: U covered_def)
  then have "graph_ok ?s0" by (rule graph_ok_refs [OF covered_graph [OF c] un ok])
  ultimately show ?thesis
    using that [of ?s0] ok un cell r(3) U by (simp add: set_refs_frame)
qed

lemma covered_bumped:
  assumes c: "covered (Suc n) its s" and u: "unmoved s s'" and ok: "storage_ok s'"
    and its: "\<And>it. it \<in> set its' \<Longrightarrow> set (fixed (pars it)) \<subseteq> live s \<and>
        (\<not> finished it \<longrightarrow> result1 it = SC_ADDR_MAKE_EMPTY \<or> result1 it \<in> live s)"
    and r: "\<And>x. x \<in> live s \<Longrightarrow> unat (refs s' x) + held_by its x \<ge> unat (refs s x) + held_by its' x"
      "\<And>x. x \<in> live s \<Longrightarrow> unat (refs s' x) \<le> unat (refs s x) + 1"
  shows "covered n its' s'"
proof -
  have "held_by its' x < unat (refs s' x) \<and> unat (refs s' x) + n < 0xffffffff" if "x \<in> live s" for x
    using c r(1,2) [OF that] that by (auto simp: covered_def)
  moreover from this have "graph_ok s'"
    by (intro graph_ok_refs [OF covered_graph [OF c] u ok]) force
  ultimately show ?thesis
    using its unmoved_live [OF u] by (simp add: covered_def)
qed

lemma holds_split: "holds it x = count_list (fixed (pars it)) x + of_bool (x \<in> set (last_of it))"
  by (auto simp: holds_def last_of_def)

subsection \<open>The laws of one triple iterator among others\<close>

context arc_enum
begin

definition stands :: "sc_iterator3 \<Rightarrow> sc_storage \<Rightarrow> sc_addr list \<Rightarrow> bool" where
  "stands it s xs \<longleftrightarrow> it_type it = kind \<and> \<not> finished it \<and> distinct xs \<and> set xs \<subseteq> arcs s \<and>
     (\<exists>p. dll (\<lambda>x. nxt (el_at s x)) (\<lambda>x. prv (el_at s x)) p xs) \<and>
     (if result1 it = SC_ADDR_MAKE_EMPTY
      then owner it \<in> live s \<and> first (el_at s (owner it)) = head_addr xs
      else result1 it \<in> arcs s \<and> nxt (el_at s (result1 it)) = head_addr xs)"

lemma stands_cong:
  assumes "unmoved s s'"
  shows "stands it s' xs = stands it s xs"
  using assms unmoved_live [OF assms] by (simp add: stands_def unmoved_def)

lemma stands_ahead:
  assumes c: "covered (Suc n) (it # its) s" and st: "stands it s xs"
  obtains s0 where "ahead it s s0 xs" "unmoved s s0" "storage_ok s0"
    "\<And>x. unat (refs s0 x) = unat (refs s x) - of_bool (x \<in> set (last_of it))"
proof (cases "last_of it = []")
  case True
  then have e: "result1 it = SC_ADDR_MAKE_EMPTY" using st by (auto simp: last_of_def stands_def split: if_splits)
  have "may_ref s x" if "x \<in> live s" for x by (rule room_may_ref [OF covered_room [OF c that]])
  then have "ahead it s s xs"
    using st e covered_graph [OF c] arcs_live [of s] by (auto simp: ahead_def walk_def stands_def)
  then show ?thesis using that [of s] True graph_ok_storage [OF covered_graph [OF c]] by simp
next
  case False
  define r where "r = result1 it"
  have l: "last_of it = [r]" using False by (auto simp: last_of_def r_def split: if_splits)
  have ra: "r \<in> arcs s" using st False by (auto simp: r_def stands_def last_of_def split: if_splits)
  from release_last [OF c l] obtain s0 where s0: "s = bump r s0" "unmoved s s0" "storage_ok s0" "graph_ok s0"
    "has_cell s0 r" "r \<noteq> SC_ADDR_MAKE_EMPTY" "may_ref s0 r"
    "\<And>x. unat (refs s0 x) = unat (refs s x) - of_bool (x = r)" by blast
  have L: "live s0 = live s" "arcs s0 = arcs s" using unmoved_live [OF s0(2)] by auto
  have "may_ref s0 x" if "x \<in> live s" for x
  proof -
    have "room (Suc n) s x" by (rule covered_room [OF c that])
    moreover have "refs s0 x > 0" using s0(4) that L by (simp add: graph_ok_def)
    ultimately show ?thesis using s0(8) [of x] by (auto simp: room_def may_ref_def word_less_nat_alt)
  qed
  then have "ahead it s s0 xs"
    using st s0 L ra arcs_live [of s] by (auto simp: ahead_def walk_def stands_def unmoved_def r_def)
  then show ?thesis using that [of s0] s0 l by simp
qed

text \<open>The references after the loop has passed over \<open>zs\<close>.\<close>

lemma passed:
  assumes a: "ahead it s s0 xs" and z: "distinct zs" "set zs \<subseteq> set xs"
    and un: "unmoved s s0" and R0: "\<And>x. unat (refs s0 x) = unat (refs s x) - of_bool (x \<in> set (last_of it))"
  shows "unmoved s (bumps zs s0)" "storage_ok (bumps zs s0)"
    "unat (refs (bumps zs s0) x) = unat (refs s x) - of_bool (x \<in> set (last_of it)) + of_bool (x \<in> set zs)"
proof -
  obtain p where w: "walk s0 p xs" using a by (auto simp: ahead_def)
  have zl: "set zs \<subseteq> live s0" using w z arcs_live by (auto simp: walk_def)
  have m: "may_ref s0 y" if "y \<in> set zs" for y using w z that by (auto simp: walk_def)
  have "refs (bumps zs s0) x = (if x \<in> set zs then refs s0 x + 1 else refs s0 x)"
    using z zl live_typed by (intro refs_bumps) auto
  moreover have "unat (refs s0 x + 1) = unat (refs s0 x) + 1" if "x \<in> set zs"
    using m [OF that] by (simp add: may_ref_def word_less_nat_alt unat_word_ariths)
  ultimately show "unat (refs (bumps zs s0) x) =
      unat (refs s x) - of_bool (x \<in> set (last_of it)) + of_bool (x \<in> set zs)"
    using R0 [of x] by auto
  have "graph_ok (bumps zs s0)" using z zl m a by (intro graph_ok_bumps) (auto simp: ahead_def)
  then show "storage_ok (bumps zs s0)" by (rule graph_ok_storage)
  show "unmoved s (bumps zs s0)" using un by (simp add: unmoved_def bumps_frame)
qed

lemma passed_covered:
  assumes c: "covered (Suc n) (it # its) s" and a: "ahead it s s0 xs" and z: "distinct zs" "set zs \<subseteq> set xs"
    and un: "unmoved s s0" and R0: "\<And>x. unat (refs s0 x) = unat (refs s x) - of_bool (x \<in> set (last_of it))"
    and it': "pars it' = pars it" "set (last_of it') \<subseteq> set zs"
  shows "covered n (it' # its) (bumps zs s0)"
proof (rule covered_bumped [OF c])
  note P = passed [OF a z un R0]
  show "unmoved s (bumps zs s0)" "storage_ok (bumps zs s0)" by (fact P)+
  fix x assume "x \<in> live s"
  then have "holds it x \<le> unat (refs s x)" using c by (auto simp: covered_def held_by_Cons)
  then show "unat (refs s x) + held_by (it' # its) x \<le> unat (refs (bumps zs s0) x) + held_by (it # its) x"
    using P(3) [of x] it' by (auto simp: held_by_Cons holds_split)
  show "unat (refs (bumps zs s0) x) \<le> unat (refs s x) + 1"
    unfolding P(3) by (intro add_mono diff_le_self) simp
next
  have "set zs \<subseteq> arcs s0" using a z by (auto simp: ahead_def walk_def)
  then have "set zs \<subseteq> live s" using arcs_live unmoved_live [OF un] by blast
  then show "set (fixed (pars j)) \<subseteq> live s \<and>
      (\<not> finished j \<longrightarrow> result1 j = SC_ADDR_MAKE_EMPTY \<or> result1 j \<in> live s)" if "j \<in> set (it' # its)" for j
  proof (cases "j = it'")
    case True
    have "\<not> finished it' \<Longrightarrow> result1 it' \<noteq> SC_ADDR_MAKE_EMPTY \<Longrightarrow> result1 it' \<in> set (last_of it')"
      by (simp add: last_of_def)
    moreover have "set (fixed (pars it)) \<subseteq> live s" using c by (simp add: covered_def)
    ultimately show ?thesis using True it' \<open>set zs \<subseteq> live s\<close> by auto
  next
    case False
    then show ?thesis using that c by (simp add: covered_def)
  qed
qed

lemma in_set_dropWhileI: "dropWhile P xs = y # ys \<Longrightarrow> y \<in> set xs"
  by (metis list.set_intros(1) set_dropWhileD)

lemma next_stands:
  assumes c: "covered (Suc n) (it # its) s" and st: "stands it s xs"
  shows "\<exists>it' s'. sc_iterator3_next u it s = Some (filter (hit (prep it) s) xs \<noteq> [], it', s') \<and>
     covered n (it' # its) s' \<and> unmoved s s' \<and> pars it' = pars it \<and>
     (case dropWhile (\<lambda>x. \<not> hit (prep it) s x) xs of [] \<Rightarrow> finished it'
      | y # ys \<Rightarrow> it' = found (prep it) s y \<and> y \<in> set xs \<and> hit (prep it) s y \<and> stands it' s ys)"
proof -
  from stands_ahead [OF c st] obtain s0 where s0: "ahead it s s0 xs" "unmoved s s0"
    "\<And>x. unat (refs s0 x) = unat (refs s x) - of_bool (x \<in> set (last_of it))" by blast
  obtain p where w: "walk s0 p xs" using s0(1) by (auto simp: ahead_def)
  have e: "el_at s0 = el_at s" using s0(2) by (simp add: unmoved_def)
  have v: "hit j s0 = hit j s" "found j s0 = found j s" for j using view [OF e] by (auto simp: fun_eq_iff)
  note nx = next_ahead [OF s0(1)] loop_finds [OF w, of "prep it", unfolded v]
  let ?n = "\<lambda>x. \<not> hit (prep it) s x"
  have xs: "distinct xs" "set xs \<subseteq> arcs s" using st by (auto simp: stands_def)
  show ?thesis
  proof (cases "dropWhile ?n xs")
    case Nil
    let ?it = "prep it\<lparr>finished := True\<rparr>"
    have "pars ?it = pars it" "last_of ?it = []" using prep(6) [of it] by (simp_all add: pars_def last_of_def)
    then have "covered n (?it # its) (bumps xs s0)" "unmoved s (bumps xs s0)"
      using passed_covered [OF c s0(1) xs(1) _ s0(2,3), of ?it] passed(1) [OF s0(1) xs(1) _ s0(2,3)] by simp_all
    moreover have "filter (hit (prep it) s) xs = []" using Nil by (simp add: filter_empty_conv)
    ultimately show ?thesis using \<open>pars ?it = pars it\<close> unfolding nx Nil by simp
  next
    case (Cons y ys)
    let ?zs = "takeWhile ?n xs" and ?it = "found (prep it) s y"
    have d: "xs = ?zs @ y # ys" using takeWhile_dropWhile_id [of ?n xs] Cons by simp
    have hy: "hit (prep it) s y" using hd_dropWhile [of ?n xs] Cons by auto
    have dz: "distinct (?zs @ [y])" "set (?zs @ [y]) \<subseteq> set xs" "y \<in> set xs"
    proof -
      show "distinct (?zs @ [y])" using xs(1) by (subst (asm) d) simp
      show "y \<in> set xs" by (rule in_set_dropWhileI [OF Cons])
      then show "set (?zs @ [y]) \<subseteq> set xs" by (auto dest: set_takeWhileD)
    qed
    have "ahead ?it (bump y (bumps ?zs s0)) (bumps ?zs s0) ys"
      using ahead_found [of it s s0 ?zs y ys] s0(1) d v by simp
    then have "stands ?it s ys"
      using unmoved_live [OF s0(2)] e by (auto simp: ahead_def walk_def stands_def bumps_frame found)
    moreover have "pars ?it = pars it" "set (last_of ?it) \<subseteq> set (?zs @ [y])"
      using found(1,4) [of "prep it" s y] prep(6) [of it] by (auto simp: last_of_def)
    moreover from this have "covered n (?it # its) (bumps (?zs @ [y]) s0)" "unmoved s (bumps (?zs @ [y]) s0)"
      using passed_covered [OF c s0(1) dz(1,2) s0(2,3)] passed(1) [OF s0(1) dz(1,2) s0(2,3)] by simp_all
    moreover have "filter (hit (prep it) s) xs \<noteq> []" using dz(3) hy by (auto simp: filter_empty_conv)
    ultimately show ?thesis using dz(3) hy unfolding nx Cons by (simp add: bumps_append)
  qed
qed

text \<open>The triples still to come.\<close>

definition delivers_rest :: "sc_iterator3 \<Rightarrow> sc_storage \<Rightarrow> (sc_addr \<times> sc_addr \<times> sc_addr) list \<Rightarrow> bool" where
  "delivers_rest it s ts \<longleftrightarrow>
     (\<exists>xs. stands it s xs \<and> ts = map (triple (prep it) s) (filter (hit (prep it) s) xs))"

lemma delivers_rest_cong:
  assumes "unmoved s s'"
  shows "delivers_rest it s' ts = delivers_rest it s ts"
proof -
  have e: "el_at s' = el_at s" using assms by (simp add: unmoved_def)
  have "hit j s' = hit j s" for j using view [OF e] by (auto simp: fun_eq_iff)
  then show ?thesis using triple_view [OF e] stands_cong [OF assms] by (simp add: delivers_rest_def)
qed

lemma next_delivers:
  assumes c: "covered (Suc n) (it # its) s" and d: "delivers_rest it s ts"
  shows "\<exists>it' s'. sc_iterator3_next u it s = Some (ts \<noteq> [], it', s') \<and>
     covered n (it' # its) s' \<and> unmoved s s' \<and> pars it' = pars it \<and>
     (case ts of [] \<Rightarrow> finished it'
      | t # ts' \<Rightarrow> (result0 it', result1 it', result2 it') = t \<and> delivers_rest it' s ts')"
proof -
  obtain xs where st: "stands it s xs" and ts: "ts = map (triple (prep it) s) (filter (hit (prep it) s) xs)"
    using d by (auto simp: delivers_rest_def)
  let ?n = "\<lambda>x. \<not> hit (prep it) s x"
  obtain it' s' where nx: "sc_iterator3_next u it s = Some (ts \<noteq> [], it', s')"
    and c': "covered n (it' # its) s'" "unmoved s s'" "pars it' = pars it"
    and r: "case dropWhile ?n xs of [] \<Rightarrow> finished it'
      | y # ys \<Rightarrow> it' = found (prep it) s y \<and> y \<in> set xs \<and> hit (prep it) s y \<and> stands it' s ys"
    using next_stands [OF c st] ts by auto
  have "case ts of [] \<Rightarrow> finished it'
      | t # ts' \<Rightarrow> (result0 it', result1 it', result2 it') = t \<and> delivers_rest it' s ts'"
  proof (cases "dropWhile ?n xs")
    case Nil
    then have "ts = []" by (simp add: ts filter_empty_conv)
    then show ?thesis using r unfolding Nil by simp
  next
    case (Cons y ys)
    have it': "it' = found (prep it) s y" "hit (prep it) s y" "stands it' s ys"
      using r unfolding Cons list.case by blast+
    have "filter (hit (prep it) s) xs = filter (hit (prep it) s) (dropWhile ?n xs)"
      by (induction xs) auto
    then have "ts = triple (prep it) s y # map (triple (prep it) s) (filter (hit (prep it) s) ys)"
      using it'(2) by (simp add: ts Cons)
    moreover have "hit (prep it') s = hit (prep it) s" "triple (prep it') s = triple (prep it) s"
      unfolding it'(1) by (simp_all add: found(6,7) prep(5))
    ultimately show ?thesis using it'(3) found_triple [of it s y] it'(1) by (auto simp: delivers_rest_def)
  qed
  with nx c' show ?thesis by blast
qed

lemma new_delivers:
  assumes c: "covered (n + 3) its s" and it: "it = fresh ctx kind p1 p2 p3" and sh: "check_shape kind p1 p2 p3"
    and as: "set as = set (fixed [p1, p2, p3])" "set as \<subseteq> live s" "\<And>a. a \<in> set as \<Longrightarrow> readable ctx s a"
    and own: "owner it \<in> live s" "first (el_at s (owner it)) = head_addr xs"
    and xs: "distinct xs" "set xs \<subseteq> arcs s"
      "dll (\<lambda>x. nxt (el_at s x)) (\<lambda>x. prv (el_at s x)) SC_ADDR_MAKE_EMPTY xs"
    and h: "hit (prep it) s = h" "triple (prep it) s = tr"
  shows "\<exists>s'. guarded_new ctx as kind p1 p2 p3 s = Some (Some it, s') \<and> covered n (it # its) s' \<and> unmoved s s' \<and>
     delivers_rest it s (map tr (filter h xs))"
proof -
  let ?F = "fixed [p1, p2, p3]"
  let ?s1 = "bumps ?F s"
  have "\<And>x. x \<in> live s \<Longrightarrow> room (n + 3) s x" by (rule covered_room [OF c])
  from guarded_new_room [OF covered_graph [OF c] sh as this]
  have n: "guarded_new ctx as kind p1 p2 p3 s = Some (Some it, ?s1)" "graph_ok ?s1"
    "\<And>x. x \<in> live s \<Longrightarrow> room n ?s1 x" "\<And>x. unat (refs ?s1 x) = unat (refs s x) + count_list ?F x"
    unfolding it by blast+
  have F: "fixed (pars it) = ?F" by (simp only: it pars_def fresh_def sc_iterator3.simps)
  have f: "it_type it = kind" "\<not> finished it" "result1 it = SC_ADDR_MAKE_EMPTY" by (simp_all add: it fresh_def)
  have H: "held_by (it # its) x < unat (refs ?s1 x) \<and> unat (refs ?s1 x) + n < 0xffffffff" if "x \<in> live s" for x
    using n(3) [OF that] n(4) [of x] c that f by (auto simp: covered_def held_by_Cons holds_def F room_def)
  have sF: "set (fixed (pars it)) \<subseteq> live s" unfolding F using as by blast
  have "covered n (it # its) ?s1"
    unfolding covered_def bumps_frame
  proof (intro conjI ballI)
    fix j assume "j \<in> set (it # its)"
    then show "set (fixed (pars j)) \<subseteq> live s"
      "\<not> finished j \<longrightarrow> result1 j = SC_ADDR_MAKE_EMPTY \<or> result1 j \<in> live s"
      using sF f(3) c unfolding covered_def by (cases "j = it"; force)+
  qed (use n(2) H in blast)+
  moreover have "unmoved s ?s1" by (simp add: unmoved_def bumps_frame)
  moreover have "stands it s xs" using f own xs by (auto simp: stands_def)
  then have "delivers_rest it s (map tr (filter h xs))" unfolding delivers_rest_def h by blast
  ultimately show ?thesis using n(1) by blast
qed

end

lemma unref_all_covered:
  assumes c: "storage_ok s" and l: "set as \<subseteq> live s" and r: "\<And>x. x \<in> live s \<Longrightarrow> count_list as x < unat (refs s x)"
  shows "\<exists>s'. unref_all as s = Some s' \<and> storage_ok s' \<and> unmoved s s' \<and>
     (\<forall>x. unat (refs s' x) = unat (refs s x) - count_list as x)"
proof -
  have "has_cell s x \<and> x \<noteq> SC_ADDR_MAKE_EMPTY" if "x \<in> set as" for x
    using that l live_typed [of x s] empty_not_live [OF c] by auto
  from unref_all_ok [OF c this] show ?thesis using r l by (force simp: unmoved_def)
qed

lemma free_covered:
  assumes c: "covered n (it # its) s"
  shows "\<exists>s'. sc_iterator3_free it s = Some s' \<and> covered n its s' \<and> unmoved s s'"
proof -
  let ?F = "fixed (pars it)"
  have g: "storage_ok s" by (rule graph_ok_storage [OF covered_graph [OF c]])
  obtain s1 where s1: "(if \<not> finished it \<and> \<not> SC_ADDR_IS_EMPTY (result1 it) then do {
              (r, s1) \<leftarrow> sc_storage_element_lock (result1 it) s;
              g_assert (r = SC_RESULT_OK);
              (_, s2) \<leftarrow> sc_storage_element_unref (result1 it) s1;
              (_, s3) \<leftarrow> sc_storage_element_unlock (result1 it) s2;
              Some s3
            } else Some s) = Some s1" "unmoved s s1" "storage_ok s1"
      "\<And>x. unat (refs s1 x) = unat (refs s x) - of_bool (x \<in> set (last_of it))"
  proof (cases "last_of it = []")
    case True
    then show ?thesis using that [of s] g by (auto simp: last_of_def split: if_splits)
  next
    case False
    then have l: "last_of it = [result1 it]" "\<not> finished it" "result1 it \<noteq> SC_ADDR_MAKE_EMPTY"
      by (auto simp: last_of_def split: if_splits)
    from release_last [OF c l(1)] obtain s0 where s0: "s = bump (result1 it) s0" "unmoved s s0" "storage_ok s0"
      "has_cell s0 (result1 it)" "may_ref s0 (result1 it)"
      "\<And>x. unat (refs s0 x) = unat (refs s x) - of_bool (x = result1 it)" by blast
    have "has_cell s (result1 it)" using s0(4) by (simp add: s0(1) bump_frame)
    with l s0 g show ?thesis
      using that [of s0] unref_locked [OF s0(3,4) l(3) s0(5)] by (simp add: bracket)
  qed
  have lv: "live s1 = live s" using unmoved_live [OF s1(2)] by simp
  have H: "held_by its x + count_list ?F x < unat (refs s1 x)" if "x \<in> live s" for x
    using c that s1(4) [of x] by (auto simp: covered_def held_by_Cons holds_split)
  have "set ?F \<subseteq> live s" using c by (simp add: covered_def)
  moreover have "count_list ?F x < unat (refs s1 x)" if "x \<in> live s1" for x using H [of x] that lv by auto
  ultimately obtain s2 where s2: "unref_all ?F s1 = Some s2" "storage_ok s2" "unmoved s1 s2"
    "\<forall>x. unat (refs s2 x) = unat (refs s1 x) - count_list ?F x"
    using unref_all_covered [OF s1(3), of ?F] lv by auto
  have un: "unmoved s s2" by (rule unmoved_trans [OF s1(2) s2(3)])
  have up: "held_by its x < unat (refs s2 x) \<and> unat (refs s2 x) \<le> unat (refs s x)" if "x \<in> live s" for x
    using H [OF that] s2(4) s1(4) [of x] by auto
  then have "graph_ok s2" by (intro graph_ok_refs [OF covered_graph [OF c] un s2(2)]) force
  then have "covered n its s2"
    using c up unmoved_live [OF un] by (fastforce simp: covered_def)
  moreover have "sc_iterator3_free it s = Some s2"
    using s1(1) s2(1) by (simp del: filter.simps add: sc_iterator3_free_def pars_def)
  ultimately show ?thesis using un by blast
qed

subsection \<open>Triple iterators of any scanning kind\<close>

type_synonym triple = "sc_addr \<times> sc_addr \<times> sc_addr"

definition triple_of :: "sc_iterator3 \<Rightarrow> triple" where
  "triple_of it = (result0 it, result1 it, result2 it)"

abbreviation conn :: "triple \<Rightarrow> sc_addr" where "conn t \<equiv> fst (snd t)"

definition yields :: "sc_iterator3 \<Rightarrow> sc_storage \<Rightarrow> triple list \<Rightarrow> bool" where
  "yields it s ts \<longleftrightarrow> finished it \<and> ts = [] \<or> f_a_a.delivers_rest it s ts \<or>
     a_a_f.delivers_rest it s ts \<or> f_a_f.delivers_rest it s ts"

lemma yields_cong: "unmoved s s' \<Longrightarrow> yields it s' ts = yields it s ts"
  unfolding yields_def
  using f_a_a.delivers_rest_cong a_a_f.delivers_rest_cong f_a_f.delivers_rest_cong by blast

lemma next_yields:
  assumes c: "covered (Suc n) (it # its) s" and y: "yields it s ts"
  shows "\<exists>it' s'. sc_iterator3_next u it s = Some (ts \<noteq> [], it', s') \<and>
     covered n (it' # its) s' \<and> unmoved s s' \<and>
     (case ts of [] \<Rightarrow> finished it' | t # ts' \<Rightarrow> triple_of it' = t \<and> yields it' s ts')"
proof (cases "finished it \<and> ts = []")
  case True
  then show ?thesis using covered_mono [OF c, of n] by (simp add: sc_iterator3_next_def)
next
  case False
  with y consider "f_a_a.delivers_rest it s ts" | "a_a_f.delivers_rest it s ts" | "f_a_f.delivers_rest it s ts"
    by (auto simp: yields_def)
  then show ?thesis
  proof cases
    case 1
    from f_a_a.next_delivers [OF c 1, of u] show ?thesis
      by (cases ts) (auto simp: triple_of_def yields_def)
  next
    case 2
    from a_a_f.next_delivers [OF c 2, of u] show ?thesis
      by (cases ts) (auto simp: triple_of_def yields_def)
  next
    case 3
    from f_a_f.next_delivers [OF c 3, of u] show ?thesis
      by (cases ts) (auto simp: triple_of_def yields_def)
  qed
qed

lemma covered_swap: "covered n (a # b # its) s = covered n (b # a # its) s"
  by (auto simp: covered_def held_by_Cons add.left_commute)

subsection \<open>Rounds of the attribute loop\<close>

lemma attr_loop_some:
  assumes "it_attr it = Some a" and "sc_iterator3_next u a s = Some (m, a1, s1)"
  shows "attr_loop u mk it s = (if m then Some (True, it\<lparr>it_attr := Some a1\<rparr>, s1)
     else do { s2 \<leftarrow> sc_iterator3_free a1 s1; attr_loop u mk (it\<lparr>it_attr := None\<rparr>) s2 })"
  using assms
  by (subst (1 2) attr_loop.simps) (simp add: free_attr_def Let_def cong: if_cong)

lemma attr_loop_none:
  assumes "it_attr it = None" and "sc_iterator3_next u (it_main it) s = Some (m, main, s3)"
  shows "attr_loop u mk it s = (if \<not> m then Some (False, it\<lparr>it_main := main\<rparr>, s3)
     else do { (attr, s4) \<leftarrow> mk (it\<lparr>it_main := main\<rparr>) s3;
       if attr = None then Some (False, it\<lparr>it_main := main, it_attr := attr\<rparr>, s4)
       else attr_loop u mk (it\<lparr>it_main := main, it_attr := attr\<rparr>) s4 })"
  using assms by (cases it) (subst attr_loop.simps, simp add: free_attr_def Let_def cong: if_cong)

subsection \<open>The shared body\<close>

type_synonym static5 = "sc_iterator5_type \<times> sc_iterator_param \<times> sc_iterator_param \<times> sc_iterator_param \<times>
  sc_iterator_param \<times> sc_iterator_param \<times> sc_memory_context"

definition static5 :: "sc_iterator5 \<Rightarrow> static5" where
  "static5 it = (it5_type it, q0 it, q1 it, q2 it, q3 it, q4 it, it5_ctx it)"

lemma static5_upd [simp]:
  "static5 (it\<lparr>it_main := m\<rparr>) = static5 it" "static5 (it\<lparr>it_attr := a\<rparr>) = static5 it"
  by (simp_all add: static5_def)

lemma fixed_results_upd:
  "fixed_results it = it \<Longrightarrow> fixed_results (it\<lparr>it_main := m\<rparr>) = it\<lparr>it_main := m\<rparr>"
  "fixed_results it = it \<Longrightarrow> fixed_results (it\<lparr>it_attr := a\<rparr>) = it\<lparr>it_attr := a\<rparr>"
  by (cases it; auto simp: fixed_results_def split: sc_iterator5_type.splits)+

locale five_iter =
  fixes kind5 :: sc_iterator5_type
    and mk :: "sc_iterator5 \<Rightarrow> sc_storage \<Rightarrow> (sc_iterator3 option \<times> sc_storage) option"
    and clear :: "sc_iterator5 \<Rightarrow> sc_iterator5" and store :: "sc_iterator3 \<Rightarrow> sc_iterator5 \<Rightarrow> sc_iterator5"
    and quint :: "static5 \<Rightarrow> triple \<Rightarrow> triple \<Rightarrow> sc_addr list"
    and attrs :: "static5 \<Rightarrow> sc_storage \<Rightarrow> sc_addr \<Rightarrow> triple list"
    and good :: "static5 \<Rightarrow> sc_storage \<Rightarrow> bool"
    and u :: sc_type
  assumes next_kind: "it5_type it = kind5 \<Longrightarrow> sc_iterator5_next u it s = next5 u mk clear store it s"
    and clear: "static5 (clear it) = static5 it" "it_main (clear it) = it_main it" "it_attr (clear it) = it_attr it"
      "it5_type it = kind5 \<Longrightarrow> fixed_results it = it \<Longrightarrow> fixed_results (clear it) = clear it"
    and store: "static5 (store a it) = static5 it" "it_main (store a it) = it_main it"
      "it_attr (store a it) = it_attr it"
      "it5_type it = kind5 \<Longrightarrow> fixed_results it = it \<Longrightarrow> fixed_results (store a it) = store a it"
      "it5_type it = kind5 \<Longrightarrow> fixed_results it = it \<Longrightarrow>
         results5 (store a it) = quint (static5 it) (triple_of (it_main it)) (triple_of a)"
    and mk: "covered (n + 3) its s \<Longrightarrow> it5_type it = kind5 \<Longrightarrow> good (static5 it) s \<Longrightarrow>
         result1 (it_main it) \<in> arcs s \<Longrightarrow> readable (it5_ctx it) s (result1 (it_main it)) \<Longrightarrow>
         \<exists>a s'. mk it s = Some (Some a, s') \<and> covered n (a # its) s' \<and> unmoved s s' \<and>
           yields a s (attrs (static5 it) s (result1 (it_main it)))"
    and views: "unmoved s s' \<Longrightarrow> attrs c s' = attrs c s" "unmoved s s' \<Longrightarrow> good c s' = good c s"
begin

definition rest :: "static5 \<Rightarrow> sc_storage \<Rightarrow> triple \<Rightarrow> triple list \<Rightarrow> triple list \<Rightarrow> sc_addr list list" where
  "rest c s t as ms = map (quint c t) as @ concat (map (\<lambda>m. map (quint c m) (attrs c s (conn m))) ms)"

text \<open>References that the remaining rounds can add to one counter, at most.\<close>

definition cost :: "static5 \<Rightarrow> sc_storage \<Rightarrow> triple list \<Rightarrow> triple list \<Rightarrow> nat" where
  "cost c s as ms = length as + 1 + sum_list (map (\<lambda>m. length (attrs c s (conn m)) + 6) ms)"

definition alive :: "sc_iterator5 \<Rightarrow> sc_iterator3 list" where
  "alive it = (case it_attr it of Some a \<Rightarrow> [a, it_main it] | None \<Rightarrow> [it_main it])"

definition at5 :: "nat \<Rightarrow> sc_iterator5 \<Rightarrow> sc_storage \<Rightarrow> triple list \<Rightarrow> triple list \<Rightarrow> bool" where
  "at5 k it s as ms \<longleftrightarrow> covered (k + of_bool (it_attr it \<noteq> None) + cost (static5 it) s as ms) (alive it) s \<and> yields (it_main it) s ms \<and>
     (case it_attr it of Some a \<Rightarrow> yields a s as | None \<Rightarrow> as = []) \<and>
     good (static5 it) s \<and> (\<forall>m \<in> set ms. conn m \<in> arcs s \<and> readable (it5_ctx it) s (conn m)) \<and>
     fixed_results it = it \<and> it5_type it = kind5"

lemma attr_new_round:
  assumes a: "at5 k it s [] (m # ms)" and n: "it_attr it = None"
  shows "\<exists>main a s'. attr_loop u mk it s = attr_loop u mk (it\<lparr>it_main := main, it_attr := Some a\<rparr>) s' \<and>
     unmoved s s' \<and> triple_of main = m \<and>
     at5 k (it\<lparr>it_main := main, it_attr := Some a\<rparr>) s' (attrs (static5 it) s (conn m)) ms"
proof -
  let ?c = "static5 it"
  let ?k = "k + 1 + cost ?c s (attrs ?c s (conn m)) ms"
  have "covered (Suc (?k + 3)) [it_main it] s"
    using a n by (auto simp: at5_def alive_def cost_def intro: covered_mono)
  from next_yields [OF this] obtain main s1 where s1: "sc_iterator3_next u (it_main it) s = Some (True, main, s1)"
    "covered (?k + 3) [main] s1" "unmoved s s1" "triple_of main = m" "yields main s ms"
    using a by (fastforce simp: at5_def)
  have r: "result1 main = conn m" using s1(4) by (auto simp: triple_of_def)
  let ?it = "it\<lparr>it_main := main\<rparr>"
  have "\<exists>a s'. mk ?it s1 = Some (Some a, s') \<and> covered ?k [a, main] s' \<and> unmoved s1 s' \<and>
      yields a s1 (attrs (static5 ?it) s1 (result1 (it_main ?it)))"
    using a s1(2) unmoved_live [OF s1(3)] views(2) [OF s1(3)] readable_cong [of s1 s] s1(3)
    by (intro mk) (auto simp: at5_def r unmoved_def)
  then obtain a s2 where s2: "mk ?it s1 = Some (Some a, s2)" "covered ?k [a, main] s2" "unmoved s1 s2"
    "yields a s1 (attrs ?c s (conn m))"
    using views(1) [OF s1(3)] by (auto simp: r)
  have un: "unmoved s s2" by (rule unmoved_trans [OF s1(3) s2(3)])
  have "at5 k (it\<lparr>it_main := main, it_attr := Some a\<rparr>) s2 (attrs ?c s (conn m)) ms"
    using a s1(5) s2(2,4) yields_cong [OF un] yields_cong [OF s2(3)] yields_cong [OF s1(3)] views [OF un]
      unmoved_live [OF un] readable_cong [of s2 s] un fixed_results_upd
    by (simp add: at5_def alive_def cost_def unmoved_def)
  then show ?thesis
    using attr_loop_none [OF n s1(1)] s2(1) un s1(4) by auto
qed

text \<open>An attribute iterator that yields once more, and one that is exhausted.\<close>

lemma attr_more:
  assumes a: "at5 k it s (t # as) ms" and n: "it_attr it = Some a"
  shows "\<exists>a' s'. sc_iterator3_next u a s = Some (True, a', s') \<and> triple_of a' = t \<and> unmoved s s' \<and>
     at5 k (it\<lparr>it_attr := Some a'\<rparr>) s' as ms"
proof -
  have "covered (Suc (k + 1 + cost (static5 it) s as ms)) [a, it_main it] s"
    using a n by (simp add: at5_def alive_def cost_def)
  from next_yields [OF this, of "t # as" u] obtain a' s' where s': "sc_iterator3_next u a s = Some (True, a', s')"
    "covered (k + 1 + cost (static5 it) s as ms) [a', it_main it] s'" "unmoved s s'" "triple_of a' = t" "yields a' s as"
    using a n by (auto simp: at5_def)
  have "at5 k (it\<lparr>it_attr := Some a'\<rparr>) s' as ms"
    using a s' yields_cong [OF s'(3)] views [OF s'(3)] unmoved_live [OF s'(3)] readable_cong [of s' s]
      fixed_results_upd(2) [of it "Some a'"]
    by (simp add: at5_def alive_def cost_def unmoved_def)
  with s' show ?thesis by blast
qed

lemma attr_exhausted:
  assumes a: "at5 k it s [] ms" and n: "it_attr it = Some a"
  shows "\<exists>a' s1 s'. sc_iterator3_next u a s = Some (False, a', s1) \<and> sc_iterator3_free a' s1 = Some s' \<and>
     unmoved s s' \<and> at5 k (it\<lparr>it_attr := None\<rparr>) s' [] ms"
proof -
  let ?k = "k + cost (static5 it) s [] ms"
  have "covered (Suc ?k) [a, it_main it] s" using a n by (simp add: at5_def alive_def)
  from next_yields [OF this, of "[]" u] obtain a' s1 where s1: "sc_iterator3_next u a s = Some (False, a', s1)"
    "covered ?k [a', it_main it] s1" "unmoved s s1"
    using a n by (auto simp: at5_def)
  from free_covered [OF s1(2)] obtain s' where s': "sc_iterator3_free a' s1 = Some s'"
    "covered ?k [it_main it] s'" "unmoved s1 s'" by blast
  have un: "unmoved s s'" by (rule unmoved_trans [OF s1(3) s'(3)])
  have "at5 k (it\<lparr>it_attr := None\<rparr>) s' [] ms"
    using a s'(2) yields_cong [OF un] views [OF un] unmoved_live [OF un] readable_cong [of s' s] un
      fixed_results_upd(2) [of it None]
    by (simp add: at5_def alive_def cost_def unmoved_def)
  with s1 s' un show ?thesis by blast
qed

definition outcome ::
    "nat \<Rightarrow> static5 \<Rightarrow> sc_storage \<Rightarrow> sc_addr list list \<Rightarrow> (bool \<times> sc_iterator5 \<times> sc_storage) option \<Rightarrow> bool" where
  "outcome k c s rs r \<longleftrightarrow> (\<exists>it' s'. r = Some (rs \<noteq> [], it', s') \<and> unmoved s s' \<and> static5 it' = c \<and>
     (if rs = [] then covered k (alive it') s'
      else \<exists>a as' ms'. at5 k it' s' as' ms' \<and> it_attr it' = Some a \<and>
        rs = quint c (triple_of (it_main it')) (triple_of a) # rest c s (triple_of (it_main it')) as' ms'))"

lemma rest_cong: "unmoved s s' \<Longrightarrow> rest c s' t as ms = rest c s t as ms"
  using views(1) by (simp add: rest_def)

lemma outcome_cong: "unmoved s s' \<Longrightarrow> outcome k c s' rs r \<Longrightarrow> outcome k c s rs r"
  unfolding outcome_def rest_cong [of s s'] by (elim exE conjE, intro exI conjI, assumption, erule (1) unmoved_trans)

lemma attr_loop_any:
  assumes none: "\<And>it s. at5 k it s [] ms \<Longrightarrow> it_attr it = None \<Longrightarrow>
      outcome k (static5 it) s (rest (static5 it) s (triple_of (it_main it)) [] ms) (attr_loop u mk it s)"
    and a: "at5 k it s as ms"
  shows "outcome k (static5 it) s (rest (static5 it) s (triple_of (it_main it)) as ms) (attr_loop u mk it s)"
proof (cases "it_attr it")
  case None
  then show ?thesis using none [of it s] a by (auto simp: at5_def)
next
  case (Some a')
  show ?thesis
  proof (cases as)
    case Nil
    from attr_exhausted [of k it s ms] Some a Nil obtain b s1 s' where
      s': "sc_iterator3_next u a' s = Some (False, b, s1)" "sc_iterator3_free b s1 = Some s'" "unmoved s s'"
      "at5 k (it\<lparr>it_attr := None\<rparr>) s' [] ms" by blast
    have "attr_loop u mk it s = attr_loop u mk (it\<lparr>it_attr := None\<rparr>) s'"
      using attr_loop_some [OF Some s'(1)] s'(2) by simp
    then show ?thesis
      using outcome_cong [OF s'(3)] none [OF s'(4)] Nil rest_cong [OF s'(3)] by simp
  next
    case (Cons t as')
    from attr_more [of k it s t as' ms] Some a Cons obtain b s' where
      s': "sc_iterator3_next u a' s = Some (True, b, s')" "triple_of b = t" "unmoved s s'"
      "at5 k (it\<lparr>it_attr := Some b\<rparr>) s' as' ms" by blast
    then show ?thesis
      using attr_loop_some [OF Some s'(1)] Cons
      by (force simp: outcome_def rest_def)
  qed
qed

lemma attr_loop_yields:
  assumes "at5 k it s as ms"
  shows "outcome k (static5 it) s (rest (static5 it) s (triple_of (it_main it)) as ms) (attr_loop u mk it s)"
  using assms
proof (induction ms arbitrary: it s as)
  case Nil
  show ?case
  proof (rule attr_loop_any [OF _ Nil])
    fix it s
    assume a: "at5 k it s [] []" and n: "it_attr it = None"
    then have "covered (Suc k) [it_main it] s" by (simp add: at5_def alive_def cost_def)
    from next_yields [OF this, of "[]" u] obtain main s' where
      s': "sc_iterator3_next u (it_main it) s = Some (False, main, s')" "covered k [main] s'" "unmoved s s'"
      "finished main" using a by (auto simp: at5_def)
    then show "outcome k (static5 it) s (rest (static5 it) s (triple_of (it_main it)) [] []) (attr_loop u mk it s)"
      using attr_loop_none [OF n s'(1)] n by (simp add: outcome_def rest_def alive_def)
  qed
next
  case (Cons m ms)
  show ?case
  proof (rule attr_loop_any [OF _ Cons.prems])
    fix it s
    assume a: "at5 k it s [] (m # ms)" and n: "it_attr it = None"
    from attr_new_round [OF this] obtain main b s' where
      s': "attr_loop u mk it s = attr_loop u mk (it\<lparr>it_main := main, it_attr := Some b\<rparr>) s'" "unmoved s s'"
      "triple_of main = m" "at5 k (it\<lparr>it_main := main, it_attr := Some b\<rparr>) s' (attrs (static5 it) s (conn m)) ms"
      by blast
    show "outcome k (static5 it) s (rest (static5 it) s (triple_of (it_main it)) [] (m # ms)) (attr_loop u mk it s)"
      using outcome_cong [OF s'(2)] Cons.IH [OF s'(4)] s'(1,3) rest_cong [OF s'(2)] by (simp add: rest_def)
  qed
qed

lemma next5_loop:
  "next5 u mk clear store it s = do {
     (found, it3, s3) \<leftarrow> attr_loop u mk (clear it) s;
     Some (found, if found then store (the (it_attr it3)) it3 else it3, s3) }"
proof (cases "it_attr (clear it)")
  case None
  then have e: "(clear it)\<lparr>it_attr := None\<rparr> = clear it" by (cases "clear it") simp
  show ?thesis
    unfolding next5_def Let_def None option.case by (auto simp: free_attr_def None e split: Option.bind_splits)
next
  case (Some a)
  show ?thesis
  proof (cases "sc_iterator3_next u a s")
    case None
    then show ?thesis using Some by (subst attr_loop.simps) (simp add: next5_def)
  next
    case (Some r)
    obtain m a1 s1 where r: "r = (m, a1, s1)" by (cases r)
    show ?thesis
      using attr_loop_some [OF \<open>it_attr (clear it) = Some a\<close> Some [unfolded r], of mk]
        \<open>it_attr (clear it) = Some a\<close> Some r
      by (auto simp: next5_def free_attr_def Let_def split: Option.bind_splits)
  qed
qed

lemma at5_same:
  assumes "at5 k it s as ms" "static5 it' = static5 it" "it_main it' = it_main it" "it_attr it' = it_attr it"
    "fixed_results it' = it'"
  shows "at5 k it' s as ms"
proof -
  have "it5_type it' = it5_type it" "it5_ctx it' = it5_ctx it" using assms(2) by (simp_all add: static5_def)
  with assms show ?thesis by (cases "it_attr it") (auto simp: at5_def alive_def)
qed

lemma next5_yields:
  assumes a: "at5 k it s as ms"
  defines "rs \<equiv> rest (static5 it) s (triple_of (it_main it)) as ms"
  shows "\<exists>it' s'. sc_iterator5_next u it s = Some (rs \<noteq> [], it', s') \<and> unmoved s s' \<and> static5 it' = static5 it \<and>
     (if rs = [] then covered k (alive it') s'
      else \<exists>as' ms'. at5 k it' s' as' ms' \<and> rs = results5 it' # rest (static5 it) s (triple_of (it_main it')) as' ms')"
proof -
  have k: "it5_type it = kind5" "fixed_results it = it" using a by (simp_all add: at5_def)
  have "at5 k (clear it) s as ms" by (rule at5_same [OF a]) (simp_all add: clear k)
  from attr_loop_yields [OF this] obtain it3 s' where
    l: "attr_loop u mk (clear it) s = Some (rs \<noteq> [], it3, s')" "unmoved s s'" "static5 it3 = static5 it"
    and r: "if rs = [] then covered k (alive it3) s'
      else \<exists>a as' ms'. at5 k it3 s' as' ms' \<and> it_attr it3 = Some a \<and>
        rs = quint (static5 it) (triple_of (it_main it3)) (triple_of a) #
          rest (static5 it) s (triple_of (it_main it3)) as' ms'"
    unfolding outcome_def clear rs_def by blast
  have nx: "sc_iterator5_next u it s = Some (rs \<noteq> [], if rs \<noteq> [] then store (the (it_attr it3)) it3 else it3, s')"
    unfolding next_kind [OF k(1)] next5_loop l(1) by simp
  show ?thesis
  proof (cases "rs = []")
    case True
    then show ?thesis using nx l r by auto
  next
    case False
    then obtain b as' ms' where b: "at5 k it3 s' as' ms'" "it_attr it3 = Some b"
      "rs = quint (static5 it) (triple_of (it_main it3)) (triple_of b) #
        rest (static5 it) s (triple_of (it_main it3)) as' ms'" using r by auto
    have k3: "it5_type it3 = kind5" "fixed_results it3 = it3" using b(1) by (simp_all add: at5_def)
    have "at5 k (store b it3) s' as' ms'" by (rule at5_same [OF b(1)]) (simp_all add: store k3)
    moreover have "rs = results5 (store b it3) # rest (static5 it) s (triple_of (it_main (store b it3))) as' ms'"
      using b(3) store(5) [OF k3, of b] l(3) by (simp add: store(2))
    ultimately show ?thesis using nx l(2,3) False b(2) store(1) by auto
  qed
qed

lemma iterate5_yields:
  assumes "at5 k it s as ms"
  shows "\<exists>it' s'. iterate5 u it s = Some (rest (static5 it) s (triple_of (it_main it)) as ms, it', s') \<and>
     unmoved s s' \<and> covered k (alive it') s'"
proof -
  define rs where "rs = rest (static5 it) s (triple_of (it_main it)) as ms"
  from assms rs_def show ?thesis
  proof (induction rs arbitrary: it s as ms)
    case Nil
    from next5_yields [OF Nil.prems(1)] Nil.prems(2) show ?case
      by (subst iterate5.simps) auto
  next
    case (Cons r rs)
    from next5_yields [OF Cons.prems(1)] Cons.prems(2) [symmetric] obtain it1 s1 as' ms' where
      n: "sc_iterator5_next u it s = Some (True, it1, s1)" "unmoved s s1" "static5 it1 = static5 it"
      "at5 k it1 s1 as' ms'" "r = results5 it1" "rs = rest (static5 it) s (triple_of (it_main it1)) as' ms'"
      by auto
    from Cons.IH [OF n(4)] n(3,6) rest_cong [OF n(2)] obtain it' s' where
      "iterate5 u it1 s1 = Some (rs, it', s')" "unmoved s1 s'" "covered k (alive it') s'" by auto
    with n(1,2,5) Cons.prems(2) [symmetric] show ?case
      by (subst iterate5.simps) (auto intro: unmoved_trans)
  qed
qed

end

lemma free5_covered:
  assumes c: "covered k (case it_attr it of Some a \<Rightarrow> [a, it_main it] | None \<Rightarrow> [it_main it]) s"
  shows "\<exists>s'. sc_iterator5_free it s = Some s' \<and> covered k [] s' \<and> unmoved s s'"
proof (cases "it_attr it")
  case None
  then show ?thesis using free_covered [of k "it_main it" "[]" s] c by (simp add: sc_iterator5_free_def free_attr_def)
next
  case (Some a)
  then obtain s1 where s1: "sc_iterator3_free a s = Some s1" "covered k [it_main it] s1" "unmoved s s1"
    using free_covered [of k a "[it_main it]" s] c by auto
  with free_covered [OF s1(2)] Some show ?thesis
    by (auto simp: sc_iterator5_free_def free_attr_def intro: unmoved_trans)
qed

context five_iter
begin

lemma cost_eq:
  "cost c s [] ms = 1 + length (concat (map (\<lambda>m. map (quint c m) (attrs c s (conn m))) ms)) + 6 * length ms"
  by (induction ms) (simp_all add: cost_def)

lemma new5_at:
  assumes main: "main_new ctx kind5 p1 p2 p3 s = Some (Some m, s1)"
      "covered (k + (1 + length qs + 6 * length ms)) [m] s1" "unmoved s s1" "yields m s ms"
    and c: "c = (kind5, p1, p2, p3, p4, p5, ctx)" and sh: "check_shape5 kind5 p1 p2 p3 p4 p5"
    and g: "good c s" "\<And>x. x \<in> set ms \<Longrightarrow> conn x \<in> arcs s \<and> readable ctx s (conn x)"
    and qs: "qs = concat (map (\<lambda>m. map (quint c m) (attrs c s (conn m))) ms)"
  shows "\<exists>it. sc_iterator5_new ctx kind5 p1 p2 p3 p4 p5 s = Some (Some it, s1) \<and> at5 k it s1 [] ms \<and>
     static5 it = c \<and> rest c s (triple_of (it_main it)) [] ms = qs"
proof -
  define it where "it = fixed_results \<lparr>it5_type = kind5, q0 = p1, q1 = p2, q2 = p3, q3 = p4, q4 = p5,
      r0 = SC_ADDR_MAKE_EMPTY, r1 = SC_ADDR_MAKE_EMPTY, r2 = SC_ADDR_MAKE_EMPTY,
      r3 = SC_ADDR_MAKE_EMPTY, r4 = SC_ADDR_MAKE_EMPTY, it_main = m, it_attr = None, it5_ctx = ctx\<rparr>"
  have n: "sc_iterator5_new ctx kind5 p1 p2 p3 p4 p5 s = Some (Some it, s1)"
    by (simp add: sc_iterator5_new_def sh main(1) it_def)
  have f: "static5 it = c" "it_main it = m" "it_attr it = None" "fixed_results it = it" "it5_type it = kind5"
      "it5_ctx it = ctx"
    by (auto simp: it_def c static5_def fixed_results_def split: sc_iterator5_type.splits)
  have "covered (k + cost c s [] ms) [m] s1" using main(2) by (simp only: cost_eq qs)
  then have "at5 k it s1 [] ms"
    using main(4) g f yields_cong [OF main(3)] views [OF main(3)] unmoved_live [OF main(3)]
      readable_cong [of s1 s] main(3)
    by (simp add: at5_def alive_def cost_def unmoved_def)
  then show ?thesis using n f(1) by (auto simp: rest_def qs)
qed

text \<open>Created, run to its end and freed; and created, advanced once and freed.\<close>

lemma delivers5:
  assumes main: "main_new ctx kind5 p1 p2 p3 s = Some (Some m, s1)"
      "covered (1 + length qs + 6 * length ms) [m] s1" "unmoved s s1" "yields m s ms"
    and c: "c = (kind5, p1, p2, p3, p4, p5, ctx)" and sh: "check_shape5 kind5 p1 p2 p3 p4 p5"
    and g: "good c s" "\<And>x. x \<in> set ms \<Longrightarrow> conn x \<in> arcs s \<and> readable ctx s (conn x)"
    and qs: "qs = concat (map (\<lambda>m. map (quint c m) (attrs c s (conn m))) ms)"
  shows "\<exists>it s1 it' s2 s3. sc_iterator5_new ctx kind5 p1 p2 p3 p4 p5 s = Some (Some it, s1) \<and>
     iterate5 u it s1 = Some (qs, it', s2) \<and> sc_iterator5_free it' s2 = Some s3 \<and>
     graph_ok s3 \<and> el_at s3 = el_at s \<and> held s3 = held s"
proof -
  obtain it where it: "sc_iterator5_new ctx kind5 p1 p2 p3 p4 p5 s = Some (Some it, s1)" "at5 0 it s1 [] ms"
    "static5 it = c" "rest c s (triple_of (it_main it)) [] ms = qs"
    using new5_at [OF main(1) _ main(3,4) c sh g qs, of 0] main(2) by auto
  from iterate5_yields [OF it(2)] obtain it' s2 where
    i: "iterate5 u it s1 = Some (qs, it', s2)" "unmoved s1 s2" "covered 0 (alive it') s2"
    using rest_cong [OF main(3)] it(3,4) by auto
  obtain s3 where s3: "sc_iterator5_free it' s2 = Some s3" "covered 0 [] s3" "unmoved s2 s3"
    using free5_covered [OF i(3) [unfolded alive_def]] by blast
  have "unmoved s s3" by (rule unmoved_trans [OF main(3) unmoved_trans [OF i(2) s3(3)]])
  then show ?thesis using it(1) i(1) s3 covered_graph [OF s3(2)] by (auto simp: unmoved_def)
qed

lemma first5:
  assumes main: "main_new ctx kind5 p1 p2 p3 s = Some (Some m, s1)"
      "covered (k + (1 + length qs + 6 * length ms)) [m] s1" "unmoved s s1" "yields m s ms"
    and c: "c = (kind5, p1, p2, p3, p4, p5, ctx)" and sh: "check_shape5 kind5 p1 p2 p3 p4 p5"
    and g: "good c s" "\<And>x. x \<in> set ms \<Longrightarrow> conn x \<in> arcs s \<and> readable ctx s (conn x)"
    and qs: "qs = concat (map (\<lambda>m. map (quint c m) (attrs c s (conn m))) ms)"
  shows "\<exists>it s1 it' s2 s3. sc_iterator5_new ctx kind5 p1 p2 p3 p4 p5 s = Some (Some it, s1) \<and>
     sc_iterator5_next u it s1 = Some (qs \<noteq> [], it', s2) \<and> (qs \<noteq> [] \<longrightarrow> results5 it' = hd qs) \<and>
     sc_iterator5_free it' s2 = Some s3 \<and> covered k [] s3 \<and> unmoved s s3"
proof -
  obtain it where it: "sc_iterator5_new ctx kind5 p1 p2 p3 p4 p5 s = Some (Some it, s1)" "at5 k it s1 [] ms"
    "static5 it = c" "rest c s (triple_of (it_main it)) [] ms = qs"
    using new5_at [OF main c sh g qs] by blast
  have R: "rest c s1 (triple_of (it_main it)) [] ms = qs" using rest_cong [OF main(3)] it(4) by simp
  from next5_yields [OF it(2), unfolded it(3) R] obtain it' s2 where
    n: "sc_iterator5_next u it s1 = Some (qs \<noteq> [], it', s2)" "unmoved s1 s2"
      "if qs = [] then covered k (alive it') s2
       else \<exists>as' ms'. at5 k it' s2 as' ms' \<and> qs = results5 it' # rest c s1 (triple_of (it_main it')) as' ms'"
    by blast
  have "covered k (alive it') s2"
  proof (cases "qs = []")
    case False
    then obtain as' ms' where "at5 k it' s2 as' ms'" using n(3) by auto
    then show ?thesis unfolding at5_def by (blast intro: covered_mono [OF _ trans_le_add1 [OF le_add1]])
  qed (use n(3) in simp)
  then obtain s3 where s3: "sc_iterator5_free it' s2 = Some s3" "covered k [] s3" "unmoved s2 s3"
    using free5_covered [of k it' s2] unfolding alive_def by blast
  have "unmoved s s3" by (rule unmoved_trans [OF main(3) unmoved_trans [OF n(2) s3(3)]])
  moreover have "qs \<noteq> [] \<longrightarrow> results5 it' = hd qs" using n(3) by auto
  ultimately show ?thesis using it(1) n(1) s3(1,2) by blast
qed

end

subsection \<open>The six kinds\<close>

definition in_arcs :: "sc_storage \<Rightarrow> sc_addr \<Rightarrow> sc_addr list" where
  "in_arcs s b = (SOME xs. in_list s b xs)"

lemma in_arcs_list: "graph_ok s \<Longrightarrow> in_list s b (in_arcs s b)"
  unfolding in_arcs_def by (rule someI_ex) (simp add: graph_ok_def)

lemma in_arcs_eq:
  assumes "graph_ok s" "in_list s b xs" "b \<in> live s"
  shows "in_arcs s b = xs"
  using assms in_arcs_list [OF assms(1), of b] inn.chain_unique [of "el_at s" "arcs s" "live s" b]
    empty_not_arc [OF graph_ok_storage [OF assms(1)]]
  by (auto simp: in_list_def)

lemma in_arcs_cong: "unmoved s s' \<Longrightarrow> in_arcs s' = in_arcs s"
  using unmoved_live [of s s'] by (intro ext) (simp add: in_arcs_def in_list_def unmoved_def)

lemma fits_cong: "el_at s' = el_at s \<Longrightarrow> fits ctx s' t x = fits ctx s t x"
  by (simp add: fits_def readable_def)

fun attrs_fixed :: "static5 \<Rightarrow> sc_storage \<Rightarrow> sc_addr \<Rightarrow> triple list" where
  "attrs_fixed (_, _, _, _, p4, p5, ctx) s y = map (\<lambda>x. (param_addr p5, x, y))
     (filter (\<lambda>x. arc_begin (arc (el_at s x)) = param_addr p5 \<and> fits ctx s (param_type p4) x) (in_arcs s y))"

fun attrs_any :: "static5 \<Rightarrow> sc_storage \<Rightarrow> sc_addr \<Rightarrow> triple list" where
  "attrs_any (_, _, _, _, p4, p5, ctx) s y = map (\<lambda>x. (arc_begin (arc (el_at s x)), x, y))
     (filter (\<lambda>x. fits ctx s (param_type p4) x \<and> fits ctx s (param_type p5) (arc_begin (arc (el_at s x))))
       (in_arcs s y))"

fun attr_readable :: "static5 \<Rightarrow> sc_storage \<Rightarrow> bool" where
  "attr_readable (_, _, _, _, _, p5, ctx) s \<longleftrightarrow> param_addr p5 \<in> live s \<and> readable ctx s (param_addr p5)"

lemma attrs_cong:
  assumes "unmoved s s'"
  shows "attrs_fixed c s' = attrs_fixed c s" "attrs_any c s' = attrs_any c s" "attr_readable c s' = attr_readable c s"
  using assms in_arcs_cong [OF assms] unmoved_live [OF assms] fits_cong [of s' s] readable_cong [of s' s]
  by (cases c; simp add: unmoved_def fun_eq_iff)+

lemma attr_fixed_law:
  assumes c: "covered (n + 3) its s" and g: "attr_readable (static5 it) s"
    and y: "result1 (it_main it) \<in> arcs s" "readable (it5_ctx it) s (result1 (it_main it))"
  shows "\<exists>a s'. attr_fixed it s = Some (Some a, s') \<and> covered n (a # its) s' \<and> unmoved s s' \<and>
     yields a s (attrs_fixed (static5 it) s (result1 (it_main it)))"
proof -
  let ?y = "result1 (it_main it)" and ?p = "param_addr (q4 it)" and ?t = "param_type (q3 it)"
  let ?xs = "in_arcs s ?y" and ?a = "fresh (it5_ctx it) sc_iterator3_f_a_f (ParamAddr ?p) (ParamType ?t) (ParamAddr ?y)"
  have l: "in_list s ?y ?xs" by (rule in_arcs_list [OF covered_graph [OF c]])
  have yl: "?y \<in> live s" using y arcs_live by blast
  have "\<exists>s'. attr_fixed it s = Some (Some ?a, s') \<and> covered n (?a # its) s' \<and> unmoved s s' \<and>
      f_a_f.delivers_rest ?a s (map (\<lambda>x. (?p, x, ?y))
        (filter (\<lambda>x. arc_begin (arc (el_at s x)) = ?p \<and> fits (it5_ctx it) s ?t x) ?xs))"
    unfolding attr_fixed_def sc_iterator3_f_a_f_new_def
    using g y yl l
    by (intro f_a_f.new_delivers [OF c refl])
       (auto simp: iterator_matches iterator_fields fun_eq_iff in_list_def static5_def)
  then show ?thesis by (auto simp: yields_def static5_def)
qed

lemma attr_any_law:
  assumes c: "covered (n + 3) its s"
    and y: "result1 (it_main it) \<in> arcs s" "readable (it5_ctx it) s (result1 (it_main it))"
  shows "\<exists>a s'. attr_any it s = Some (Some a, s') \<and> covered n (a # its) s' \<and> unmoved s s' \<and>
     yields a s (attrs_any (static5 it) s (result1 (it_main it)))"
proof -
  let ?y = "result1 (it_main it)" and ?p = "param_type (q4 it)" and ?t = "param_type (q3 it)"
  let ?xs = "in_arcs s ?y" and ?a = "fresh (it5_ctx it) sc_iterator3_a_a_f (ParamType ?p) (ParamType ?t) (ParamAddr ?y)"
  have l: "in_list s ?y ?xs" by (rule in_arcs_list [OF covered_graph [OF c]])
  have yl: "?y \<in> live s" using y arcs_live by blast
  have "\<exists>s'. attr_any it s = Some (Some ?a, s') \<and> covered n (?a # its) s' \<and> unmoved s s' \<and>
      a_a_f.delivers_rest ?a s (map (\<lambda>x. (arc_begin (arc (el_at s x)), x, ?y))
        (filter (\<lambda>x. fits (it5_ctx it) s ?t x \<and> fits (it5_ctx it) s ?p (arc_begin (arc (el_at s x)))) ?xs))"
    unfolding attr_any_def sc_iterator3_a_a_f_new_def
    using y yl l
    by (intro a_a_f.new_delivers [OF c refl])
       (auto simp: iterator_matches iterator_fields fun_eq_iff in_list_def static5_def)
  then show ?thesis by (auto simp: yields_def static5_def)
qed

fun fix0 fix2 fix4 :: "static5 \<Rightarrow> sc_addr" where
  "fix0 (_, p1, _) = param_addr p1"
| "fix2 (_, _, _, p3, _) = param_addr p3"
| "fix4 (_, _, _, _, _, p5, _) = param_addr p5"

lemma fixed_results_iff:
  "fixed_results it = it \<longleftrightarrow> (case it5_type it of
      sc_iterator5_f_a_a_a_f \<Rightarrow> r0 it = param_addr (q0 it) \<and> r4 it = param_addr (q4 it)
    | sc_iterator5_a_a_f_a_f \<Rightarrow> r2 it = param_addr (q2 it) \<and> r4 it = param_addr (q4 it)
    | sc_iterator5_f_a_f_a_f \<Rightarrow>
        r0 it = param_addr (q0 it) \<and> r2 it = param_addr (q2 it) \<and> r4 it = param_addr (q4 it)
    | sc_iterator5_f_a_f_a_a \<Rightarrow> r0 it = param_addr (q0 it) \<and> r2 it = param_addr (q2 it)
    | sc_iterator5_a_a_f_a_a \<Rightarrow> r2 it = param_addr (q2 it)
    | sc_iterator5_f_a_a_a_a \<Rightarrow> r0 it = param_addr (q0 it))"
  by (cases it) (auto simp: fixed_results_def split: sc_iterator5_type.split)

lemmas five_fields = static5_def results5_def triple_of_def fixed_results_iff sc_iterator5_next_def attrs_cong

interpretation f_a_a_a_f: five_iter sc_iterator5_f_a_a_a_f attr_fixed
    "\<lambda>it. it\<lparr>r1 := NULL, r2 := NULL, r3 := NULL\<rparr>"
    "\<lambda>a it. it\<lparr>r1 := result1 (it_main it), r2 := result2 (it_main it), r3 := result1 a\<rparr>"
    "\<lambda>c m a. [fix0 c, fst (snd m), snd (snd m), fst (snd a), fix4 c]" attrs_fixed attr_readable u for u
  by unfold_locales
     ((rule attr_fixed_law; assumption) | simp add: five_fields sc_iterator5_f_a_a_a_f_next_def)+

interpretation a_a_f_a_f: five_iter sc_iterator5_a_a_f_a_f attr_fixed
    "\<lambda>it. it\<lparr>r0 := NULL, r1 := NULL, r3 := NULL\<rparr>"
    "\<lambda>a it. it\<lparr>r0 := result0 (it_main it), r1 := result1 (it_main it), r3 := result1 a\<rparr>"
    "\<lambda>c m a. [fst m, fst (snd m), fix2 c, fst (snd a), fix4 c]" attrs_fixed attr_readable u for u
  by unfold_locales
     ((rule attr_fixed_law; assumption) | simp add: five_fields sc_iterator5_a_a_f_a_f_next_def)+

interpretation f_a_f_a_f: five_iter sc_iterator5_f_a_f_a_f attr_fixed
    "\<lambda>it. it\<lparr>r1 := NULL, r3 := NULL\<rparr>"
    "\<lambda>a it. it\<lparr>r1 := result1 (it_main it), r3 := result1 a\<rparr>"
    "\<lambda>c m a. [fix0 c, fst (snd m), fix2 c, fst (snd a), fix4 c]" attrs_fixed attr_readable u for u
  by unfold_locales
     ((rule attr_fixed_law; assumption) | simp add: five_fields sc_iterator5_f_a_f_a_f_next_def)+

interpretation f_a_f_a_a: five_iter sc_iterator5_f_a_f_a_a attr_any
    "\<lambda>it. it\<lparr>r1 := NULL, r3 := NULL, r4 := NULL\<rparr>"
    "\<lambda>a it. it\<lparr>r1 := result1 (it_main it), r3 := result1 a, r4 := result0 a\<rparr>"
    "\<lambda>c m a. [fix0 c, fst (snd m), fix2 c, fst (snd a), fst a]" attrs_any "\<lambda>_ _. True" u for u
  by unfold_locales
     ((rule attr_any_law; assumption) | simp add: five_fields sc_iterator5_f_a_f_a_a_next_def)+

interpretation f_a_a_a_a: five_iter sc_iterator5_f_a_a_a_a attr_any
    "\<lambda>it. it\<lparr>r1 := NULL, r2 := NULL, r3 := NULL, r4 := NULL\<rparr>"
    "\<lambda>a it. it\<lparr>r1 := result1 (it_main it), r2 := result2 (it_main it), r3 := result1 a, r4 := result0 a\<rparr>"
    "\<lambda>c m a. [fix0 c, fst (snd m), snd (snd m), fst (snd a), fst a]" attrs_any "\<lambda>_ _. True" u for u
  by unfold_locales
     ((rule attr_any_law; assumption) | simp add: five_fields sc_iterator5_f_a_a_a_a_next_def)+

interpretation a_a_f_a_a: five_iter sc_iterator5_a_a_f_a_a attr_any
    "\<lambda>it. it\<lparr>r1 := NULL, r0 := NULL, r3 := NULL, r4 := NULL\<rparr>"
    "\<lambda>a it. it\<lparr>r0 := result0 (it_main it), r1 := result1 (it_main it), r3 := result1 a, r4 := result0 a\<rparr>"
    "\<lambda>c m a. [fst m, fst (snd m), fix2 c, fst (snd a), fst a]" attrs_any "\<lambda>_ _. True" u for u
  by unfold_locales
     ((rule attr_any_law; assumption) | simp add: five_fields sc_iterator5_a_a_f_a_a_next_def)+

subsection \<open>What a five-element iterator delivers\<close>

lemma covered_start: "graph_ok s \<Longrightarrow> (\<And>x. x \<in> live s \<Longrightarrow> room n s x) \<Longrightarrow> covered n [] s"
  by (auto simp: covered_def held_by_def room_def word_less_nat_alt)

lemma room_cover:
  assumes "graph_ok s" "\<And>x. x \<in> live s \<Longrightarrow> room N s x" "n + 3 \<le> N"
  shows "covered (n + 3) [] s"
  by (rule covered_start [OF assms(1)]) (rule room_mono [OF assms(2,3)])

text \<open>
  C27. The iterator \<^verbatim>\<open>sc_iterator5_f_a_a_a_f\<close>, created, run to its end and freed: for every
  connector that the main triple iterator delivers, in its order, it delivers one result for
  every readable connector of the asked type from the fifth element to it, in list order, and
  no others. The elements and the locks are as before, and every live element keeps a reference.
\<close>

theorem f_a_a_a_f_enumerates:
  assumes ok: "graph_ok s" and p1: "p1 \<in> live s" "readable ctx s p1" and p5: "p5 \<in> live s" "readable ctx s p5"
    and xs: "out_list s p1 xs" and inl: "\<And>y. in_list s y (inl y)"
    and hits: "hits = filter (\<lambda>x. fits ctx s t2 x \<and> fits ctx s t3 (arc_end (arc (el_at s x)))) xs"
    and qs: "qs = concat (map (\<lambda>x. map (\<lambda>a. [p1, x, arc_end (arc (el_at s x)), a, p5])
        (filter (\<lambda>a. arc_begin (arc (el_at s a)) = p5 \<and> fits ctx s t4 a) (inl x))) hits)"
    and r: "\<And>x. x \<in> live s \<Longrightarrow> room (4 + length qs + 6 * length hits) s x"
  shows "\<exists>it s1 it' s2 s3. sc_iterator5_f_a_a_a_f_new ctx p1 t2 t3 t4 p5 s = Some (Some it, s1) \<and>
     iterate5 u it s1 = Some (qs, it', s2) \<and> sc_iterator5_free it' s2 = Some s3 \<and>
     graph_ok s3 \<and> el_at s3 = el_at s \<and> held s3 = held s"
proof -
  define c where "c = (sc_iterator5_f_a_a_a_f, ParamAddr p1, ParamType t2, ParamType t3, ParamType t4, ParamAddr p5, ctx)"
  define ms where "ms = map (\<lambda>x. (p1, x, arc_end (arc (el_at s x)))) hits"
  let ?m = "fresh ctx sc_iterator3_f_a_a (ParamAddr p1) (ParamType t2) (ParamType t3)"
  have ha: "set hits \<subseteq> arcs s" using xs by (auto simp: hits out_list_def out.chain_def)
  have "in_arcs s x = inl x" if "x \<in> set hits" for x
    using ha that arcs_live by (intro in_arcs_eq [OF ok inl]) blast
  then have Q: "qs = concat (map (\<lambda>m. map (\<lambda>a. [fix0 c, conn m, snd (snd m), conn a, fix4 c])
      (attrs_fixed c s (conn m))) ms)"
    by (auto simp: ms_def qs c_def intro!: arg_cong [where f = concat] map_cong)
  have "covered (1 + length qs + 6 * length ms + 3) [] s"
    by (rule room_cover [OF ok r]) (simp_all add: ms_def)
  then have "\<exists>s1. sc_iterator3_f_a_a_new ctx p1 t2 t3 s = Some (Some ?m, s1) \<and>
      covered (1 + length qs + 6 * length ms) [?m] s1 \<and> unmoved s s1 \<and> f_a_a.delivers_rest ?m s ms"
    unfolding sc_iterator3_f_a_a_new_def ms_def hits using p1 xs
    by (intro f_a_a.new_delivers [OF _ refl])
       (auto simp: iterator_matches iterator_fields out_list_def fun_eq_iff)
  then obtain s1 where s1: "sc_iterator3_f_a_a_new ctx p1 t2 t3 s = Some (Some ?m, s1)"
    "covered (1 + length qs + 6 * length ms) [?m] s1" "unmoved s s1" "f_a_a.delivers_rest ?m s ms" by blast
  have "\<exists>it s1 it' s2 s3. sc_iterator5_new ctx sc_iterator5_f_a_a_a_f (ParamAddr p1) (ParamType t2) (ParamType t3)
       (ParamType t4) (ParamAddr p5) s = Some (Some it, s1) \<and>
     iterate5 u it s1 = Some (qs, it', s2) \<and> sc_iterator5_free it' s2 = Some s3 \<and>
     graph_ok s3 \<and> el_at s3 = el_at s \<and> held s3 = held s"
  proof (rule f_a_a_a_f.delivers5 [OF _ s1(2,3) _ c_def _ _ _ Q])
    show "conn x \<in> arcs s \<and> readable ctx s (conn x)" if "x \<in> set ms" for x
      using that ha by (auto simp: ms_def hits fits_def)
  qed (use s1 p5 in \<open>auto simp: main_new_def yields_def check_shape5_def is_type_def c_def\<close>)
  then show ?thesis unfolding sc_iterator5_f_a_a_a_f_new_def .
qed

lemma role_readable: "readable sample_ctx role_sample a"
  by (simp add: readable_def role_access)

lemma role_fits:
  "fits sample_ctx role_sample sc_type_arc_pos_const_perm sample_arc"
  "fits sample_ctx role_sample sc_type_arc_pos_const_perm role_arc"
  "fits sample_ctx role_sample (sc_type_node OR sc_type_const) sample_n2"
  "fits sample_ctx role_sample (sc_type_node OR sc_type_const) sample_n1"
  "fits sample_ctx role_sample (sc_type_node OR sc_type_node_role) role_node"
  by (simp_all add: fits_def role_readable sc_iterator_compare_type_def role_el_at role_defs
        sc_flags_remove_def sc_bits)

lemma role_ends:
  "arc_begin (arc (el_at role_sample role_arc)) = role_node"
  "arc_begin (arc (el_at role_sample sample_arc)) = sample_n1"
  "arc_end (arc (el_at role_sample sample_arc)) = sample_n2"
  by (simp_all add: role_el_at role_defs)

lemma role_members: "sample_n1 \<in> live role_sample" "sample_n2 \<in> live role_sample" "role_node \<in> live role_sample"
  by (simp_all add: role_live)

lemma role_room: "x \<in> live role_sample \<Longrightarrow> n < 0xfffffffe \<Longrightarrow> room n role_sample x"
  by (auto simp: role_live room_def role_refs)

theorem f_a_a_a_f_enumerates_witness:
  "\<exists>it s1 it' s2 s3. sc_iterator5_f_a_a_a_f_new sample_ctx sample_n1 sc_type_arc_pos_const_perm
       (sc_type_node OR sc_type_const) sc_type_arc_pos_const_perm role_node role_sample = Some (Some it, s1) \<and>
     iterate5 0 it s1 = Some ([[sample_n1, sample_arc, sample_n2, role_arc, role_node]], it', s2) \<and>
     sc_iterator5_free it' s2 = Some s3 \<and> graph_ok s3"
proof -
  let ?inl = "\<lambda>b. if b = sample_n2 then [sample_arc] else if b = sample_arc then [role_arc] else []"
  have o: "out_list role_sample sample_n1 [sample_arc]" using role_out_list [of sample_n1] by simp
  have h: "[sample_arc] = filter (\<lambda>x. fits sample_ctx role_sample sc_type_arc_pos_const_perm x \<and>
      fits sample_ctx role_sample (sc_type_node OR sc_type_const) (arc_end (arc (el_at role_sample x)))) [sample_arc]"
    by (simp add: role_fits role_ends)
  have q: "[[sample_n1, sample_arc, sample_n2, role_arc, role_node]] =
      concat (map (\<lambda>x. map (\<lambda>a. [sample_n1, x, arc_end (arc (el_at role_sample x)), a, role_node])
        (filter (\<lambda>a. arc_begin (arc (el_at role_sample a)) = role_node \<and>
          fits sample_ctx role_sample sc_type_arc_pos_const_perm a) (?inl x))) [sample_arc])"
    by (simp add: role_fits role_ends)
  from f_a_a_a_f_enumerates [OF role_graph_ok role_members(1) role_readable role_members(3) role_readable
      o role_in_list h q role_room, of 0]
  show ?thesis by auto
qed

end
