(* ===== verification/Sc_Event.thy ===== *)
theory Sc_Event
  imports Sc_Element_Ops "HOL-Library.AList"
begin

text \<open>
  Subscriptions to events (\<^verbatim>\<open>sc-store/sc_event.c\<close>, \<^verbatim>\<open>sc-store/sc_event/sc_event_private.h\<close>,
  \<^verbatim>\<open>sc-store/sc_event/sc_event_queue.c\<close>) and the pending events of a context
  (\<^verbatim>\<open>sc_memory.c\<close>). An event lives at an address of a heap of its own; using an event
  that was freed is \<open>None\<close>, as is an assertion that fails and a wait that nobody ends. A
  callback is the code of a subscriber: the model knows its name and records the calls.
\<close>

subsection \<open>State\<close>

definition SC_EVENT_REQUEST_DESTROY :: u32 where "SC_EVENT_REQUEST_DESTROY = push_bit 31 1"
definition SC_EVENT_REF_COUNT_MASK :: u32 where "SC_EVENT_REF_COUNT_MASK = NOT SC_EVENT_REQUEST_DESTROY"

type_synonym event_ref = nat
type_synonym callback = nat

record sc_event =
  evt_element :: sc_addr
  evt_type :: sc_event_type
  evt_data :: nat
  evt_callback :: "callback option"
  evt_callback_ex :: "callback option"
  evt_delete_callback :: "callback option"
  evt_refs :: u32
  evt_lock :: "thread option"
  evt_access :: sc_access_levels

record sc_event_pool_worker_data =
  job_evt :: event_ref
  job_edge :: sc_addr
  job_other :: sc_addr

datatype callback_call =
    Called callback event_ref sc_addr
  | Called_ex callback event_ref sc_addr sc_addr
  | Called_delete callback event_ref

record event_world =
  store :: sc_storage
  evt_heap :: "event_ref \<rightharpoonup> sc_event"
  evt_next :: event_ref
  events_table :: "(u32 \<times> event_ref list) list option"
  queue_alive :: bool
  queue_running :: bool
  pool :: "sc_event_pool_worker_data list"
  calls :: "callback_call list"

definition put_event :: "event_ref \<Rightarrow> sc_event \<Rightarrow> event_world \<Rightarrow> event_world" where
  "put_event p e w = w\<lparr>evt_heap := (evt_heap w)(p \<mapsto> e)\<rparr>"

subsection \<open>The lock of an event\<close>

definition sc_event_lock :: "event_ref \<Rightarrow> event_world \<Rightarrow> event_world option" where
  "sc_event_lock p w = do {
     e \<leftarrow> evt_heap w p;
     (case evt_lock e of
        Some th \<Rightarrow> if th = cur_thread (store w) then Some w else None
      | None \<Rightarrow> Some (put_event p (e\<lparr>evt_lock := Some (cur_thread (store w))\<rparr>) w))
   }"

definition sc_event_unlock :: "event_ref \<Rightarrow> event_world \<Rightarrow> event_world option" where
  "sc_event_unlock p w = do {
     e \<leftarrow> evt_heap w p;
     g_assert (evt_lock e = Some (cur_thread (store w)));
     Some (put_event p (e\<lparr>evt_lock := None\<rparr>) w)
   }"

subsection \<open>The table of events\<close>

definition TABLE_KEY :: "sc_addr \<Rightarrow> u32" where
  "TABLE_KEY a = SC_ADDR_LOCAL_TO_INT a"

definition slist :: "'b list option \<Rightarrow> 'b list" where
  "slist x = (case x of Some l \<Rightarrow> l | None \<Rightarrow> [])"

definition insert_event_into_table :: "event_ref \<Rightarrow> event_world \<Rightarrow> (sc_result \<times> event_world) option" where
  "insert_event_into_table p w = do {
     e \<leftarrow> evt_heap w p;
     let table = (case events_table w of Some t \<Rightarrow> t | None \<Rightarrow> []);
     let key = TABLE_KEY (evt_element e);
     let l = slist (map_of table key) @ [p];
     Some (SC_RESULT_OK, w\<lparr>events_table := Some (AList.update key l table)\<rparr>)
   }"

definition remove_event_from_table :: "event_ref \<Rightarrow> event_world \<Rightarrow> (sc_result \<times> event_world) option" where
  "remove_event_from_table p w = do {
     e \<leftarrow> evt_heap w p;
     table \<leftarrow> events_table w;
     let key = TABLE_KEY (evt_element e);
     (case map_of table key of
        None \<Rightarrow> Some (SC_RESULT_ERROR_INVALID_PARAMS, w)
      | Some l \<Rightarrow> do {
          let l1 = remove1 p l;
          let table1 = (if l1 = [] then AList.delete key table else AList.update key l1 table);
          Some (SC_RESULT_OK, w\<lparr>events_table := (if length table1 = 0 then None else Some table1)\<rparr>)
        })
   }"

subsection \<open>References\<close>

definition sc_event_try_emit :: "event_ref \<Rightarrow> event_world \<Rightarrow> (bool \<times> event_world) option" where
  "sc_event_try_emit p w = do {
     w1 \<leftarrow> sc_event_lock p w;
     e \<leftarrow> evt_heap w1 p;
     (res, w2) \<leftarrow> (if evt_refs e AND SC_EVENT_REQUEST_DESTROY \<noteq> 0 then Some (False, w1)
       else do {
         g_assert (evt_refs e < SC_EVENT_REF_COUNT_MASK);
         Some (True, put_event p (e\<lparr>evt_refs := evt_refs e + 1\<rparr>) w1)
       });
     w3 \<leftarrow> sc_event_unlock p w2;
     Some (res, w3)
   }"

definition sc_event_unref :: "event_ref \<Rightarrow> event_world \<Rightarrow> (bool \<times> event_world) option" where
  "sc_event_unref p w = do {
     w1 \<leftarrow> sc_event_lock p w;
     e \<leftarrow> evt_heap w1 p;
     w2 \<leftarrow> sc_event_unlock p (put_event p (e\<lparr>evt_refs := evt_refs e - 1\<rparr>) w1);
     Some (False, w2)
   }"

subsection \<open>The queue\<close>

definition sc_event_queue_append ::
    "event_ref \<Rightarrow> sc_addr \<Rightarrow> sc_addr \<Rightarrow> event_world \<Rightarrow> event_world option" where
  "sc_event_queue_append p edge other w = do {
     g_assert (queue_alive w);
     Some (if queue_running w
       then w\<lparr>pool := pool w @ [\<lparr>job_evt = p, job_edge = edge, job_other = other\<rparr>]\<rparr>
       else w)
   }"

text \<open>
  A worker of the thread pool: it takes the job, calls one of the callbacks and drops the
  reference. What the callback does is not part of the step.
\<close>

definition worker_call :: "sc_event_pool_worker_data \<Rightarrow> event_world \<Rightarrow> event_world option" where
  "worker_call job w = do {
     e \<leftarrow> evt_heap w (job_evt job);
     (case evt_callback e of
        Some cb \<Rightarrow> Some (w\<lparr>calls := calls w @ [Called cb (job_evt job) (job_edge job)]\<rparr>)
      | None \<Rightarrow> (case evt_callback_ex e of
          Some cb \<Rightarrow> Some (w\<lparr>calls := calls w @ [Called_ex cb (job_evt job) (job_edge job) (job_other job)]\<rparr>)
        | None \<Rightarrow> Some w))
   }"

definition sc_event_pool_worker :: "sc_event_pool_worker_data \<Rightarrow> event_world \<Rightarrow> event_world option" where
  "sc_event_pool_worker job w = do {
     w1 \<leftarrow> worker_call job w;
     (_, w2) \<leftarrow> sc_event_unref (job_evt job) w1;
     Some w2
   }"

fun run_pool :: "sc_event_pool_worker_data list \<Rightarrow> event_world \<Rightarrow> event_world option" where
  "run_pool [] w = Some w"
| "run_pool (j # js) w = do { w1 \<leftarrow> sc_event_pool_worker j w; run_pool js w1 }"

definition sc_event_queue_new :: "event_world \<Rightarrow> event_world" where
  "sc_event_queue_new w = w\<lparr>queue_alive := True, queue_running := True, pool := []\<rparr>"

definition sc_event_queue_stop_processing :: "event_world \<Rightarrow> event_world option" where
  "sc_event_queue_stop_processing w = do {
     g_assert (queue_alive w);
     Some (if queue_running w then w\<lparr>queue_running := False\<rparr> else w)
   }"

text \<open>\<^verbatim>\<open>g_thread_pool_free(pool, FALSE, TRUE)\<close> waits for all jobs.\<close>

definition sc_event_queue_destroy_wait :: "event_world \<Rightarrow> event_world option" where
  "sc_event_queue_destroy_wait w = do {
     g_assert (queue_alive w);
     w1 \<leftarrow> run_pool (pool w) w;
     Some (w1\<lparr>pool := []\<rparr>)
   }"

definition sc_events_initialize :: "event_world \<Rightarrow> bool \<times> event_world" where
  "sc_events_initialize w = (True, sc_event_queue_new w)"

definition sc_events_shutdown :: "event_world \<Rightarrow> event_world option" where
  "sc_events_shutdown w = do {
     w1 \<leftarrow> sc_event_queue_destroy_wait w;
     Some (w1\<lparr>queue_alive := False\<rparr>)
   }"

definition sc_events_stop_processing :: "event_world \<Rightarrow> event_world option" where
  "sc_events_stop_processing w = sc_event_queue_stop_processing w"

subsection \<open>Creation\<close>

definition event_new ::
    "sc_memory_context \<Rightarrow> sc_addr \<Rightarrow> sc_event_type \<Rightarrow> nat \<Rightarrow> callback option \<Rightarrow> callback option \<Rightarrow>
     callback option \<Rightarrow> event_world \<Rightarrow> (event_ref option \<times> event_world) option" where
  "event_new ctx el t data cb cb_ex del w =
     (if SC_ADDR_IS_EMPTY el then Some (None, w)
      else do {
        (r, levels, s1) \<leftarrow> sc_storage_get_access_levels ctx el (store w);
        (case levels of
           None \<Rightarrow> Some (None, w\<lparr>store := s1\<rparr>)
         | Some l \<Rightarrow>
             if r \<noteq> SC_RESULT_OK \<or> \<not> sc_access_lvl_check_read (ctx_access ctx) l then Some (None, w\<lparr>store := s1\<rparr>)
             else do {
               s2 \<leftarrow> sc_storage_element_ref el s1;
               let p = evt_next w;
               let e = \<lparr>evt_element = el, evt_type = t, evt_data = data, evt_callback = cb, evt_callback_ex = cb_ex,
                        evt_delete_callback = del, evt_refs = 1, evt_lock = None, evt_access = ctx_access ctx\<rparr>;
               let w1 = put_event p e (w\<lparr>store := s2, evt_next := Suc p\<rparr>);
               (res, w2) \<leftarrow> insert_event_into_table p w1;
               if res \<noteq> SC_RESULT_OK then Some (None, w2\<lparr>evt_heap := (evt_heap w2)(p := None)\<rparr>)
               else Some (Some p, w2)
             })
      })"

definition sc_event_new ::
    "sc_memory_context \<Rightarrow> sc_addr \<Rightarrow> sc_event_type \<Rightarrow> nat \<Rightarrow> callback option \<Rightarrow> callback option \<Rightarrow>
     event_world \<Rightarrow> (event_ref option \<times> event_world) option" where
  "sc_event_new ctx el t data cb del w =
     do { g_assert (cb \<noteq> None); event_new ctx el t data cb None del w }"

definition sc_event_new_ex ::
    "sc_memory_context \<Rightarrow> sc_addr \<Rightarrow> sc_event_type \<Rightarrow> nat \<Rightarrow> callback option \<Rightarrow> callback option \<Rightarrow>
     event_world \<Rightarrow> (event_ref option \<times> event_world) option" where
  "sc_event_new_ex ctx el t data cb del w =
     do { g_assert (cb \<noteq> None); event_new ctx el t data None cb del w }"

subsection \<open>Destruction\<close>

text \<open>
  Up to the waiting loop: the event leaves the table and is marked, unless the deletion of
  its element has already done so, and the reference of the owner is dropped. The result is
  the code returned early, if any.
\<close>

definition destroy_begin :: "event_ref \<Rightarrow> event_world \<Rightarrow> (sc_result option \<times> event_world) option" where
  "destroy_begin p w = do {
     w1 \<leftarrow> sc_event_lock p w;
     e \<leftarrow> evt_heap w1 p;
     if evt_refs e AND SC_EVENT_REQUEST_DESTROY \<noteq> 0 then do {
       w2 \<leftarrow> sc_event_unlock p w1;
       (_, w3) \<leftarrow> sc_event_unref p w2;
       Some (None, w3)
     }
     else do {
       (r, w2) \<leftarrow> remove_event_from_table p w1;
       if r \<noteq> SC_RESULT_OK then do { w3 \<leftarrow> sc_event_unlock p w2; Some (Some SC_RESULT_ERROR, w3) }
       else do {
         let e1 = e\<lparr>evt_refs := evt_refs e OR SC_EVENT_REQUEST_DESTROY, evt_callback := None,
                    evt_callback_ex := None, evt_delete_callback := None\<rparr>;
         w3 \<leftarrow> sc_event_unlock p (put_event p e1 w2);
         (_, w4) \<leftarrow> sc_event_unref p w3;
         Some (None, w4)
       }
     }
   }"

text \<open>One round of the waiting loop; true when the event was freed.\<close>

definition destroy_poll :: "event_ref \<Rightarrow> event_world \<Rightarrow> (bool \<times> event_world) option" where
  "destroy_poll p w = do {
     w1 \<leftarrow> sc_event_lock p w;
     e \<leftarrow> evt_heap w1 p;
     if evt_refs e = SC_EVENT_REQUEST_DESTROY then do {
       (_, s1) \<leftarrow> sc_storage_element_unref (evt_element e) (store w1);
       let w2 = w1\<lparr>store := s1\<rparr>;
       let w3 = (case evt_delete_callback e of
                   Some cb \<Rightarrow> w2\<lparr>calls := calls w2 @ [Called_delete cb p]\<rparr>
                 | None \<Rightarrow> w2);
       w4 \<leftarrow> sc_event_unlock p w3;
       Some (True, w4\<lparr>evt_heap := (evt_heap w4)(p := None)\<rparr>)
     }
     else do { w2 \<leftarrow> sc_event_unlock p w1; Some (False, w2) }
   }"

partial_function (option) destroy_wait :: "event_ref \<Rightarrow> event_world \<Rightarrow> (sc_result \<times> event_world) option" where
  "destroy_wait p w = do {
     (freed, w1) \<leftarrow> destroy_poll p w;
     if freed then Some (SC_RESULT_OK, w1) else destroy_wait p w1
   }"

definition sc_event_destroy :: "event_ref \<Rightarrow> event_world \<Rightarrow> (sc_result \<times> event_world) option" where
  "sc_event_destroy p w = do {
     (early, w1) \<leftarrow> destroy_begin p w;
     (case early of Some r \<Rightarrow> Some (r, w1) | None \<Rightarrow> destroy_wait p w1)
   }"

fun mark_all :: "event_ref list \<Rightarrow> event_world \<Rightarrow> event_world option" where
  "mark_all [] w = Some w"
| "mark_all (p # ps) w = do {
     w1 \<leftarrow> sc_event_lock p w;
     e \<leftarrow> evt_heap w1 p;
     w2 \<leftarrow> sc_event_unlock p (put_event p (e\<lparr>evt_refs := evt_refs e OR SC_EVENT_REQUEST_DESTROY\<rparr>) w1);
     mark_all ps w2
   }"

definition sc_event_notify_element_deleted :: "sc_addr \<Rightarrow> event_world \<Rightarrow> (sc_result \<times> event_world) option" where
  "sc_event_notify_element_deleted el w = (case events_table w of
       None \<Rightarrow> Some (SC_RESULT_OK, w)
     | Some table \<Rightarrow> (case map_of table (TABLE_KEY el) of
         None \<Rightarrow> Some (SC_RESULT_OK, w)
       | Some l \<Rightarrow> do {
           w1 \<leftarrow> mark_all l (w\<lparr>events_table := Some (AList.delete (TABLE_KEY el) table)\<rparr>);
           Some (SC_RESULT_OK, w1)
         }))"

subsection \<open>Emission\<close>

fun emit_all ::
    "sc_access_levels \<Rightarrow> sc_event_type \<Rightarrow> sc_addr \<Rightarrow> sc_addr \<Rightarrow> event_ref list \<Rightarrow> event_world \<Rightarrow>
     event_world option" where
  "emit_all al t edge other [] w = Some w"
| "emit_all al t edge other (p # ps) w = do {
     e \<leftarrow> evt_heap w p;
     (ok, w1) \<leftarrow> (if evt_type e = t \<and> sc_access_lvl_check_read (evt_access e) al
                   then sc_event_try_emit p w else Some (False, w));
     w2 \<leftarrow> (if ok then do {
              g_assert (evt_callback e \<noteq> None \<or> evt_callback_ex e \<noteq> None);
              sc_event_queue_append p edge other w1
            } else Some w1);
     emit_all al t edge other ps w2
   }"

definition sc_event_emit_impl ::
    "sc_addr \<Rightarrow> sc_access_levels \<Rightarrow> sc_event_type \<Rightarrow> sc_addr \<Rightarrow> sc_addr \<Rightarrow> event_world \<Rightarrow>
     (sc_result \<times> event_world) option" where
  "sc_event_emit_impl el al t edge other w = do {
     g_assert (\<not> SC_ADDR_IS_EMPTY el);
     (case events_table w of
        None \<Rightarrow> Some (SC_RESULT_OK, w)
      | Some table \<Rightarrow> do {
          w1 \<leftarrow> emit_all al t edge other (slist (map_of table (TABLE_KEY el))) w;
          Some (SC_RESULT_OK, w1)
        })
   }"

subsection \<open>Pending events of a context\<close>

definition SC_CONTEXT_FLAG_PENDING_EVENTS :: u8 where "SC_CONTEXT_FLAG_PENDING_EVENTS = 1"

record sc_event_emit_params =
  ep_el :: sc_addr
  ep_el_access :: sc_access_levels
  ep_type :: sc_event_type
  ep_edge :: sc_addr
  ep_other_el :: sc_addr

record event_context = sc_memory_context +
  ctx_flags :: u8
  pend_events :: "sc_event_emit_params list"

definition sc_memory_context_pending_begin :: "event_context \<Rightarrow> event_context option" where
  "sc_memory_context_pending_begin ctx = do {
     g_assert (ctx_flags ctx AND SC_CONTEXT_FLAG_PENDING_EVENTS = 0);
     Some (ctx\<lparr>ctx_flags := ctx_flags ctx OR SC_CONTEXT_FLAG_PENDING_EVENTS\<rparr>)
   }"

definition sc_memory_context_pend_event ::
    "sc_event_emit_params \<Rightarrow> event_context \<Rightarrow> event_context option" where
  "sc_memory_context_pend_event params ctx = do {
     g_assert (ctx_flags ctx AND SC_CONTEXT_FLAG_PENDING_EVENTS \<noteq> 0);
     Some (ctx\<lparr>pend_events := pend_events ctx @ [params]\<rparr>)
   }"

fun emit_pending :: "sc_event_emit_params list \<Rightarrow> event_world \<Rightarrow> event_world option" where
  "emit_pending [] w = Some w"
| "emit_pending (q # qs) w = do {
     (_, w1) \<leftarrow> sc_event_emit_impl (ep_el q) (ep_el_access q) (ep_type q) (ep_edge q) (ep_other_el q) w;
     emit_pending qs w1
   }"

definition sc_memory_context_emit_events ::
    "event_context \<Rightarrow> event_world \<Rightarrow> (event_context \<times> event_world) option" where
  "sc_memory_context_emit_events ctx w = do {
     g_assert (ctx_flags ctx AND SC_CONTEXT_FLAG_PENDING_EVENTS = 0);
     w1 \<leftarrow> emit_pending (pend_events ctx) w;
     Some (ctx\<lparr>pend_events := []\<rparr>, w1)
   }"

definition sc_memory_context_pending_end ::
    "event_context \<Rightarrow> event_world \<Rightarrow> (event_context \<times> event_world) option" where
  "sc_memory_context_pending_end ctx w = do {
     g_assert (ctx_flags ctx AND SC_CONTEXT_FLAG_PENDING_EVENTS \<noteq> 0);
     sc_memory_context_emit_events
       (ctx\<lparr>ctx_flags := ctx_flags ctx AND NOT SC_CONTEXT_FLAG_PENDING_EVENTS\<rparr>) w
   }"

definition sc_event_emit ::
    "event_context \<Rightarrow> sc_addr \<Rightarrow> sc_access_levels \<Rightarrow> sc_event_type \<Rightarrow> sc_addr \<Rightarrow> sc_addr \<Rightarrow> event_world \<Rightarrow>
     (sc_result \<times> event_context \<times> event_world) option" where
  "sc_event_emit ctx el al t edge other w =
     (if ctx_flags ctx AND SC_CONTEXT_FLAG_PENDING_EVENTS \<noteq> 0 then do {
        ctx1 \<leftarrow> sc_memory_context_pend_event
          \<lparr>ep_el = el, ep_el_access = al, ep_type = t, ep_edge = edge, ep_other_el = other\<rparr> ctx;
        Some (SC_RESULT_OK, ctx1, w)
      }
      else do {
        (r, w1) \<leftarrow> sc_event_emit_impl el al t edge other w;
        Some (r, ctx, w1)
      })"

subsection \<open>Accessors\<close>

definition sc_event_get_type :: "event_ref \<Rightarrow> event_world \<Rightarrow> sc_event_type option" where
  "sc_event_get_type p w = map_option evt_type (evt_heap w p)"

definition sc_event_get_data :: "event_ref \<Rightarrow> event_world \<Rightarrow> nat option" where
  "sc_event_get_data p w = map_option evt_data (evt_heap w p)"

definition sc_event_get_element :: "event_ref \<Rightarrow> event_world \<Rightarrow> sc_addr option" where
  "sc_event_get_element p w = map_option evt_element (evt_heap w p)"

end
