(* ===== verification/Sc_Event_Laws.thy ===== *)
theory Sc_Event_Laws
  imports Sc_Event
begin

text \<open>
  The laws of the operations on one event: what locking, referencing and marking do to an
  event that nobody holds locked, and what the table of events holds after each operation.
\<close>

subsection \<open>The counter and the mark\<close>

text \<open>The highest bit of the counter is the mark, the others count.\<close>

definition marked :: "sc_event \<Rightarrow> bool" where
  "marked e \<longleftrightarrow> 2 ^ 31 \<le> unat (evt_refs e)"

definition count_of :: "sc_event \<Rightarrow> nat" where
  "count_of e = unat (evt_refs e) mod 2 ^ 31"

lemma destroy_bit: "SC_EVENT_REQUEST_DESTROY = 2 ^ 31"
  by (simp add: SC_EVENT_REQUEST_DESTROY_def push_bit_eq_mult)

lemma bit_31: "bit (x :: u32) 31 \<longleftrightarrow> 2 ^ 31 \<le> unat x"
proof -
  have "unat x < 2 ^ 32" using unsigned_less [of x, where ?'a = nat] by simp
  then have "unat x div 2 ^ 31 = 0 \<or> unat x div 2 ^ 31 = 1" by force
  moreover have "bit x 31 = bit (unat x) 31" by (simp add: bit_unsigned_iff)
  then have "bit x 31 = odd (unat x div 2 ^ 31)" by (simp only: bit_iff_odd)
  ultimately show ?thesis by (auto simp: div_eq_0_iff)
qed

lemma and_destroy [simp]: "evt_refs e AND SC_EVENT_REQUEST_DESTROY \<noteq> 0 \<longleftrightarrow> marked e"
  unfolding destroy_bit marked_def by (simp only: and_exp_eq_0_iff_not_bit not_not bit_31)

lemma and_destroy_0 [simp]: "evt_refs e AND SC_EVENT_REQUEST_DESTROY = 0 \<longleftrightarrow> \<not> marked e"
  using and_destroy [of e] by blast

lemma or_destroy: "\<not> marked e \<Longrightarrow> evt_refs e OR SC_EVENT_REQUEST_DESTROY = evt_refs e + 2 ^ 31"
  unfolding destroy_bit
  by (rule disjunctive_add_eq_or [symmetric]) (simp only: and_exp_eq_0_iff_not_bit bit_31 marked_def not_False_eq_True not_not)

lemma or_destroy_marked: "marked e \<Longrightarrow> evt_refs e OR SC_EVENT_REQUEST_DESTROY = evt_refs e"
  unfolding destroy_bit marked_def bit_31 [symmetric]
  by (rule bit_word_eqI) (auto simp only: bit_or_iff bit_exp_iff possible_bit_word)

lemma refs_mask: "SC_EVENT_REF_COUNT_MASK = 0x7fffffff"
  by (simp add: SC_EVENT_REF_COUNT_MASK_def destroy_bit)

lemma counter_or [simp]:
  "marked (e\<lparr>evt_refs := evt_refs e OR SC_EVENT_REQUEST_DESTROY\<rparr>)"
  "count_of (e\<lparr>evt_refs := evt_refs e OR SC_EVENT_REQUEST_DESTROY\<rparr>) = count_of e"
proof -
  show "marked (e\<lparr>evt_refs := evt_refs e OR SC_EVENT_REQUEST_DESTROY\<rparr>)"
    "count_of (e\<lparr>evt_refs := evt_refs e OR SC_EVENT_REQUEST_DESTROY\<rparr>) = count_of e"
    by (cases "marked e"; simp add: or_destroy or_destroy_marked;
        simp add: marked_def count_of_def unat_word_ariths)+
qed

lemma counter_up:
  assumes "\<not> marked e" and "evt_refs e < SC_EVENT_REF_COUNT_MASK"
  shows "\<not> marked (e\<lparr>evt_refs := evt_refs e + 1\<rparr>)"
    "count_of (e\<lparr>evt_refs := evt_refs e + 1\<rparr>) = count_of e + 1"
  using assms by (simp_all add: refs_mask marked_def count_of_def unat_word_ariths word_less_nat_alt)

lemma counter_down:
  assumes "count_of e > 0"
  shows "marked (e\<lparr>evt_refs := evt_refs e - 1\<rparr>) = marked e"
    "count_of (e\<lparr>evt_refs := evt_refs e - 1\<rparr>) = count_of e - 1"
proof -
  have p: "unat (evt_refs e) > 0" using assms by (auto simp: count_of_def intro: gr0I)
  then have u: "unat (evt_refs e - 1) = unat (evt_refs e) - 1" by (simp add: unat_minus_one unat_gt_0)
  obtain q where q: "unat (evt_refs e) = 2 ^ 31 * q + count_of e" "count_of e < 2 ^ 31"
    unfolding count_of_def using mult_div_mod_eq [of "2 ^ 31" "unat (evt_refs e)", symmetric] by fastforce
  have "unat (evt_refs e) - 1 = 2 ^ 31 * q + (count_of e - 1)" using q(1) assms by linarith
  then have m: "(unat (evt_refs e) - 1) mod 2 ^ 31 = count_of e - 1" using q(2) by simp
  show "count_of (e\<lparr>evt_refs := evt_refs e - 1\<rparr>) = count_of e - 1"
    using m by (simp add: count_of_def [of "e\<lparr>evt_refs := evt_refs e - 1\<rparr>"] u)
  have "2 ^ 31 \<le> unat (evt_refs e) - 1 \<longleftrightarrow> 2 ^ 31 \<le> unat (evt_refs e)"
    using q assms by (cases q) auto
  then show "marked (e\<lparr>evt_refs := evt_refs e - 1\<rparr>) = marked e"
    by (simp add: marked_def u)
qed

lemma only_mark: "evt_refs e = SC_EVENT_REQUEST_DESTROY \<longleftrightarrow> marked e \<and> count_of e = 0"
proof -
  have lt: "unat (evt_refs e) < 2 ^ 32" using unsigned_less [of "evt_refs e", where ?'a = nat] by simp
  have "evt_refs e = SC_EVENT_REQUEST_DESTROY \<longleftrightarrow> unat (evt_refs e) = 2 ^ 31"
    by (simp add: destroy_bit word_unat_eq_iff)
  also have "\<dots> \<longleftrightarrow> marked e \<and> count_of e = 0"
    using lt by (auto simp: marked_def count_of_def) 
  finally show ?thesis .
qed

subsection \<open>Operations on an event that nobody has locked\<close>

lemma put_event_simps [simp]:
  "evt_heap (put_event p e w) = (evt_heap w)(p \<mapsto> e)" "store (put_event p e w) = store w"
  "events_table (put_event p e w) = events_table w" "queue_running (put_event p e w) = queue_running w"
  "queue_alive (put_event p e w) = queue_alive w"
  "pool (put_event p e w) = pool w" "calls (put_event p e w) = calls w" "evt_next (put_event p e w) = evt_next w"
  by (simp_all add: put_event_def)

lemma put_put_event [simp]: "put_event p e (put_event p f w) = put_event p e w"
  by (simp add: put_event_def)

lemma put_event_same: "evt_heap w p = Some e \<Longrightarrow> put_event p e w = w"
  by (simp add: put_event_def map_upd_triv)

lemma unlock_put:
  "sc_event_unlock p (put_event p e w) =
     (if evt_lock e = Some (cur_thread (store w)) then Some (put_event p (e\<lparr>evt_lock := None\<rparr>) w) else None)"
  by (simp add: sc_event_unlock_def)

lemma lock_free:
  "evt_heap w p = Some e \<Longrightarrow> evt_lock e = None \<Longrightarrow>
     sc_event_lock p w = Some (put_event p (e\<lparr>evt_lock := Some (cur_thread (store w))\<rparr>) w)"
  by (simp add: sc_event_lock_def)

lemma unlocked_record [simp]: "evt_lock e = None \<Longrightarrow> e\<lparr>evt_lock := None\<rparr> = e"
  by (cases e) simp

lemma relocked_record [simp]:
  "e\<lparr>evt_lock := a, evt_refs := n, evt_lock := b\<rparr> = e\<lparr>evt_refs := n, evt_lock := b\<rparr>"
  "evt_lock e = None \<Longrightarrow> e\<lparr>evt_refs := n, evt_lock := None\<rparr> = e\<lparr>evt_refs := n\<rparr>"
  by (cases e; simp)+

lemma marked_lock [simp]: "marked (e\<lparr>evt_lock := a\<rparr>) = marked e" "count_of (e\<lparr>evt_lock := a\<rparr>) = count_of e"
  by (simp_all add: marked_def count_of_def)

lemma try_emit_free:
  assumes "evt_heap w p = Some e" and "evt_lock e = None"
  shows "sc_event_try_emit p w = (if marked e then Some (False, w)
     else if evt_refs e < SC_EVENT_REF_COUNT_MASK then Some (True, put_event p (e\<lparr>evt_refs := evt_refs e + 1\<rparr>) w)
     else None)"
  using assms put_event_same [OF assms(1)]
  by (simp add: sc_event_try_emit_def lock_free unlock_put)

lemma unref_free:
  assumes "evt_heap w p = Some e" and "evt_lock e = None"
  shows "sc_event_unref p w = Some (False, put_event p (e\<lparr>evt_refs := evt_refs e - 1\<rparr>) w)"
  using assms by (simp add: sc_event_unref_def lock_free unlock_put)

lemma mark_free:
  assumes "evt_heap w p = Some e" and "evt_lock e = None"
  shows "mark_all (p # ps) w = mark_all ps (put_event p (e\<lparr>evt_refs := evt_refs e OR SC_EVENT_REQUEST_DESTROY\<rparr>) w)"
  using assms by (simp add: lock_free unlock_put)

lemma poll_free:
  assumes "evt_heap w p = Some e" and "evt_lock e = None"
  shows "destroy_poll p w = (if marked e \<and> count_of e = 0
     then do { (_, s1) \<leftarrow> sc_storage_element_unref (evt_element e) (store w);
       if cur_thread s1 = cur_thread (store w)
       then Some (True, w\<lparr>store := s1, calls := calls w @ (case evt_delete_callback e of Some cb \<Rightarrow> [Called_delete cb p] | None \<Rightarrow> []),
              evt_heap := (evt_heap w)(p := None)\<rparr>)
       else None }
     else Some (False, w))"
  using assms put_event_same [OF assms(1)]
  by (auto simp: destroy_poll_def lock_free unlock_put only_mark Let_def sc_event_unlock_def put_event_def
        split: option.split Option.bind_split)

text \<open>What \<^verbatim>\<open>sc_event_destroy\<close> does before it waits.\<close>

definition retired :: "sc_event \<Rightarrow> sc_event" where
  "retired e = e\<lparr>evt_refs := evt_refs e OR SC_EVENT_REQUEST_DESTROY, evt_callback := None,
     evt_callback_ex := None, evt_delete_callback := None\<rparr>"

definition without :: "event_ref \<Rightarrow> u32 \<Rightarrow> (u32 \<times> event_ref list) list \<Rightarrow> (u32 \<times> event_ref list) list option" where
  "without p key table =
     (let l1 = remove1 p (slist (map_of table key));
          table1 = (if l1 = [] then AList.delete key table else AList.update key l1 table)
      in if table1 = [] then None else Some table1)"

lemma remove_eq:
  assumes "evt_heap w p = Some e"
  shows "remove_event_from_table p w = (case events_table w of None \<Rightarrow> None
     | Some table \<Rightarrow> Some (if map_of table (TABLE_KEY (evt_element e)) = None
         then (SC_RESULT_ERROR_INVALID_PARAMS, w)
         else (SC_RESULT_OK, w\<lparr>events_table := without p (TABLE_KEY (evt_element e)) table\<rparr>)))"
  using assms
  by (auto simp: remove_event_from_table_def without_def slist_def Let_def split: option.split)

lemma begin_free:
  assumes "evt_heap w p = Some e" and "evt_lock e = None"
  shows "destroy_begin p w = (if marked e
     then Some (None, put_event p (e\<lparr>evt_refs := evt_refs e - 1\<rparr>) w)
     else (case events_table w of None \<Rightarrow> None
       | Some table \<Rightarrow> Some (if map_of table (TABLE_KEY (evt_element e)) = None then (Some SC_RESULT_ERROR, w)
           else (None, put_event p ((retired e)\<lparr>evt_refs := evt_refs (retired e) - 1\<rparr>)
             (w\<lparr>events_table := without p (TABLE_KEY (evt_element e)) table\<rparr>)))))"
proof -
  let ?e = "e\<lparr>evt_lock := Some (cur_thread (store w))\<rparr>"
  let ?w = "put_event p ?e w"
  have l: "sc_event_lock p w = Some ?w" by (rule lock_free [OF assms])
  have h: "evt_heap ?w p = Some ?e" by simp
  show ?thesis
  proof (cases "marked e")
    case True
    then show ?thesis
      using assms put_event_same [OF assms(1)] unref_free [OF assms]
      by (simp add: destroy_begin_def l unlock_put)
  next
    case False
    have "retired ?e\<lparr>evt_lock := None\<rparr> = retired e" using assms(2) by (cases e) (simp add: retired_def)
    moreover have "evt_lock (retired ?e) = Some (cur_thread (store w))" "evt_lock (retired e) = None"
      using assms(2) by (simp_all add: retired_def)
    moreover have "put_event p x (w\<lparr>events_table := t\<rparr>) = (put_event p x w)\<lparr>events_table := t\<rparr>" for x t
      by (simp add: put_event_def)
    ultimately show ?thesis
      using False assms put_event_same [OF assms(1)]
      by (auto simp: destroy_begin_def l remove_eq [OF h] unlock_put Let_def retired_def [symmetric]
            unref_free [where e = "retired e"] sc_event_unlock_def split: option.split)
  qed
qed

end
