(* ===== verification/Sc_Event_Machine.thy ===== *)
theory Sc_Event_Machine
  imports Sc_Event_Laws
begin

text \<open>
  Subscribers, the emitting storage and the workers of the queue as a state machine. A step
  is one operation under the locks of the code: creating, emitting, taking a job from the
  pool, finishing it, the two phases of \<^verbatim>\<open>sc_event_destroy\<close>, the deletion of the element
  and stopping the queue. A subscriber destroys an event at most once and only an event it
  has created (\<open>owners\<close>); \<open>waiting\<close> are the events whose \<^verbatim>\<open>sc_event_destroy\<close> is in its
  loop, \<open>running\<close> the jobs whose callback was called and whose reference is still held.
\<close>

record machine =
  world :: event_world
  owners :: "event_ref set"
  waiting :: "event_ref set"
  running :: "sc_event_pool_worker_data list"

inductive event_step :: "machine \<Rightarrow> machine \<Rightarrow> bool" where
  new: "sc_event_new ctx el t d cb del (world m) = Some (r, w') \<or>
        sc_event_new_ex ctx el t d cb del (world m) = Some (r, w') \<Longrightarrow>
      event_step m (m\<lparr>world := w', owners := owners m \<union> set_option r\<rparr>)"
| emit: "sc_event_emit_impl el al t edge other (world m) = Some (r, w') \<Longrightarrow>
      event_step m (m\<lparr>world := w'\<rparr>)"
| take_job: "pool (world m) = xs @ j # ys \<Longrightarrow> worker_call j (world m) = Some w' \<Longrightarrow>
      event_step m (m\<lparr>world := w'\<lparr>pool := xs @ ys\<rparr>, running := j # running m\<rparr>)"
| finish_job: "running m = xs @ j # ys \<Longrightarrow> sc_event_unref (job_evt j) (world m) = Some (r, w') \<Longrightarrow>
      event_step m (m\<lparr>world := w', running := xs @ ys\<rparr>)"
| destroy: "p \<in> owners m \<Longrightarrow> destroy_begin p (world m) = Some (None, w') \<Longrightarrow>
      event_step m (m\<lparr>world := w', owners := owners m - {p}, waiting := insert p (waiting m)\<rparr>)"
| destroy_refused: "p \<in> owners m \<Longrightarrow> destroy_begin p (world m) = Some (Some r, w') \<Longrightarrow>
      event_step m (m\<lparr>world := w'\<rparr>)"
| poll: "p \<in> waiting m \<Longrightarrow> destroy_poll p (world m) = Some (freed, w') \<Longrightarrow>
      event_step m (m\<lparr>world := w', waiting := (if freed then waiting m - {p} else waiting m)\<rparr>)"
| element_deleted: "sc_event_notify_element_deleted el (world m) = Some (r, w') \<Longrightarrow>
      event_step m (m\<lparr>world := w'\<rparr>)"
| stop: "sc_events_stop_processing (world m) = Some w' \<Longrightarrow> event_step m (m\<lparr>world := w'\<rparr>)"

inductive_cases event_stepE: "event_step m m'"

definition start :: "sc_storage \<Rightarrow> machine" where
  "start s = \<lparr>world = snd (sc_events_initialize \<lparr>store = s, evt_heap = Map.empty, evt_next = 0,
       events_table = None, queue_alive = False, queue_running = False, pool = [], calls = []\<rparr>),
     owners = {}, waiting = {}, running = []\<rparr>"

subsection \<open>The invariant\<close>

definition jobs_of :: "sc_event_pool_worker_data list \<Rightarrow> event_ref \<Rightarrow> nat" where
  "jobs_of js p = length (filter (\<lambda>j. job_evt j = p) js)"

lemma jobs_of_simps [simp]:
  "jobs_of [] p = 0" "jobs_of (j # js) p = of_bool (job_evt j = p) + jobs_of js p"
  "jobs_of (js @ ks) p = jobs_of js p + jobs_of ks p"
  by (simp_all add: jobs_of_def)

definition listed :: "event_world \<Rightarrow> u32 \<Rightarrow> event_ref list" where
  "listed w k = (case events_table w of Some t \<Rightarrow> slist (map_of t k) | None \<Rightarrow> [])"

definition table_ok :: "event_world \<Rightarrow> bool" where
  "table_ok w \<longleftrightarrow> (case events_table w of Some t \<Rightarrow> distinct (map fst t) \<and> (\<forall>(k, l) \<in> set t. l \<noteq> []) | None \<Rightarrow> True) \<and>
     (\<forall>k. distinct (listed w k)) \<and>
     (\<forall>k. \<forall>p \<in> set (listed w k). \<exists>e. evt_heap w p = Some e \<and> TABLE_KEY (evt_element e) = k)"

text \<open>
  The events of \<open>X\<close> have left the table and are about to be marked. Every other event is
  marked or in the table; the counter of an event is at least the number of jobs that refer
  to it, plus one for its owner, plus \<open>L p\<close> references that nobody will drop.
\<close>

definition event_inv ::
    "(event_ref \<Rightarrow> nat) \<Rightarrow> event_ref set \<Rightarrow> event_ref set \<Rightarrow> event_ref set \<Rightarrow> sc_event_pool_worker_data list \<Rightarrow> event_world \<Rightarrow> bool" where
  "event_inv L X Ow W R w \<longleftrightarrow> queue_alive w \<and> table_ok w \<and> Ow \<inter> W = {} \<and> Ow \<union> W = dom (evt_heap w) \<and>
     (\<forall>j \<in> set (pool w @ R). evt_heap w (job_evt j) \<noteq> None) \<and> (\<forall>p. L p \<noteq> 0 \<longrightarrow> evt_heap w p \<noteq> None) \<and>
     (\<forall>p e. evt_heap w p = Some e \<longrightarrow> p < evt_next w \<and> evt_lock e = None \<and>
        L p + of_bool (p \<in> Ow) + jobs_of (pool w @ R) p \<le> count_of e \<and>
        (p \<in> W \<longrightarrow> marked e) \<and>
        (\<not> marked e \<longrightarrow> (evt_callback e \<noteq> None \<or> evt_callback_ex e \<noteq> None) \<and>
           (p \<in> X \<or> p \<in> set (listed w (TABLE_KEY (evt_element e))))) \<and>
        (p \<in> set (listed w (TABLE_KEY (evt_element e))) \<longrightarrow> \<not> marked e))"

definition machine_inv :: "(event_ref \<Rightarrow> nat) \<Rightarrow> machine \<Rightarrow> bool" where
  "machine_inv L m \<longleftrightarrow> event_inv L {} (owners m) (waiting m) (running m) (world m)"

lemma event_invD:
  assumes "event_inv L X Ow W R w" and "evt_heap w p = Some e"
  shows "p < evt_next w" "evt_lock e = None" "L p + of_bool (p \<in> Ow) + jobs_of (pool w @ R) p \<le> count_of e"
    "p \<in> W \<Longrightarrow> marked e" "\<not> marked e \<Longrightarrow> evt_callback e \<noteq> None \<or> evt_callback_ex e \<noteq> None"
    "\<not> marked e \<Longrightarrow> p \<in> X \<or> p \<in> set (listed w (TABLE_KEY (evt_element e)))"
    "p \<in> set (listed w (TABLE_KEY (evt_element e))) \<Longrightarrow> \<not> marked e"
  using assms unfolding event_inv_def by blast+

lemma event_inv_sets:
  assumes "event_inv L X Ow W R w"
  shows "Ow \<inter> W = {}" "Ow \<union> W = dom (evt_heap w)" "table_ok w"
    "\<And>j. j \<in> set (pool w) \<Longrightarrow> evt_heap w (job_evt j) \<noteq> None" "\<And>j. j \<in> set R \<Longrightarrow> evt_heap w (job_evt j) \<noteq> None"
    "\<And>p. L p \<noteq> 0 \<Longrightarrow> evt_heap w p \<noteq> None" "queue_alive w"
  using assms unfolding event_inv_def by auto

text \<open>Changing one event, the rest of the world staying as it is.\<close>

lemma event_inv_put:
  assumes inv: "event_inv L X Ow W R w" and e: "evt_heap w p = Some e"
    and e': "evt_element e' = evt_element e" "evt_lock e' = None"
      "L p + of_bool (p \<in> Ow') + jobs_of (js @ R') p \<le> count_of e'" "p \<in> W' \<Longrightarrow> marked e'"
      "\<not> marked e' \<Longrightarrow> \<not> marked e \<and> evt_callback e' = evt_callback e \<and> evt_callback_ex e' = evt_callback_ex e"
      "marked e' \<Longrightarrow> p \<notin> set (listed w (TABLE_KEY (evt_element e)))"
    and OW: "Ow' \<inter> W' = {}" "Ow' \<union> W' = Ow \<union> W" "Ow' - {p} = Ow - {p}" "W' - {p} = W - {p}"
    and X: "X - {p} \<subseteq> X'" "\<not> marked e' \<Longrightarrow> X \<subseteq> X'"
    and js: "\<And>q. q \<noteq> p \<Longrightarrow> jobs_of (js @ R') q \<le> jobs_of (pool w @ R) q"
      "\<And>j. j \<in> set (js @ R') \<Longrightarrow> evt_heap w (job_evt j) \<noteq> None"
  shows "event_inv L X' Ow' W' R' ((put_event p e' w)\<lparr>pool := js\<rparr>)"
proof -
  let ?w = "(put_event p e' w)\<lparr>pool := js\<rparr>"
  have L: "listed ?w = listed w" by (simp add: listed_def fun_eq_iff put_event_def)
  have "table_ok w" using inv by (simp add: event_inv_def)
  then have t: "table_ok ?w" using e e'(1) unfolding table_ok_def L by (fastforce simp: put_event_def)
  have dom: "dom (evt_heap ?w) = dom (evt_heap w)" using e by auto
  have each: "q < evt_next ?w \<and> evt_lock f = None \<and> L q + of_bool (q \<in> Ow') + jobs_of (js @ R') q \<le> count_of f \<and>
        (q \<in> W' \<longrightarrow> marked f) \<and>
        (\<not> marked f \<longrightarrow> (evt_callback f \<noteq> None \<or> evt_callback_ex f \<noteq> None) \<and>
           (q \<in> X' \<or> q \<in> set (listed w (TABLE_KEY (evt_element f))))) \<and>
        (q \<in> set (listed w (TABLE_KEY (evt_element f))) \<longrightarrow> \<not> marked f)"
    if f: "evt_heap ?w q = Some f" for q f
  proof (cases "q = p")
    case True
    then have [simp]: "f = e'" using f by simp
    show ?thesis using True event_invD [OF inv e] e' X(2) by auto
  next
    case False
    then have "evt_heap w q = Some f" using f by simp
    from event_invD [OF inv this] show ?thesis
      using False OW(3,4) X(1) js(1) [OF False] by (auto simp: of_bool_def split: if_splits)
  qed
  show ?thesis
    unfolding event_inv_def L
    using t OW(1,2) inv js(2) dom each by (auto simp: event_inv_def)
qed

subsection \<open>Every step keeps the invariant\<close>

definition queued :: "event_ref \<Rightarrow> sc_addr \<Rightarrow> sc_addr \<Rightarrow> event_world \<Rightarrow> event_world" where
  "queued p edge other w =
     (if queue_running w then w\<lparr>pool := pool w @ [\<lparr>job_evt = p, job_edge = edge, job_other = other\<rparr>]\<rparr> else w)"

lemma append_alive: "queue_alive w \<Longrightarrow> sc_event_queue_append p edge other w = Some (queued p edge other w)"
  by (simp add: sc_event_queue_append_def queued_def)

lemma emit_all_inv:
  assumes "event_inv L {} Ow W R w" and "set ps \<subseteq> dom (evt_heap w)" and "emit_all al t edge other ps w = Some w'"
  shows "event_inv L {} Ow W R w'"
  using assms
proof (induction ps arbitrary: w)
  case (Cons p ps)
  obtain e where e: "evt_heap w p = Some e" using Cons.prems(2) by auto
  note D = event_invD [OF Cons.prems(1) e]
  let ?e = "e\<lparr>evt_refs := evt_refs e + 1\<rparr>"
  let ?w = "put_event p ?e w"
  show ?case
  proof (cases "evt_type e = t \<and> sc_access_lvl_check_read (evt_access e) al \<and> \<not> marked e")
    case False
    then have "emit_all al t edge other ps w = Some w'"
      using Cons.prems(3) e try_emit_free [OF e D(2)] by (auto split: if_splits)
    then show ?thesis using Cons.IH [OF Cons.prems(1)] Cons.prems(2) by simp
  next
    case True
    then have lt: "evt_refs e < SC_EVENT_REF_COUNT_MASK" and
      em: "emit_all al t edge other ps (queued p edge other ?w) = Some w'"
      using Cons.prems(3) e try_emit_free [OF e D(2)] event_inv_sets(7) [OF Cons.prems(1)]
      by (auto simp: append_alive split: if_splits)
    have up: "\<not> marked ?e" "count_of ?e = count_of e + 1" using counter_up [OF _ lt] True by auto
    note S = event_inv_sets [OF Cons.prems(1)]
    have inv: "event_inv L {} Ow W R (?w\<lparr>pool := js\<rparr>)"
      if "js = pool w \<or> js = pool w @ [\<lparr>job_evt = p, job_edge = edge, job_other = other\<rparr>]" for js
    proof (rule event_inv_put [OF Cons.prems(1) e])
      show "evt_heap w (job_evt j) \<noteq> None" if "j \<in> set (js @ R)" for j
        using that \<open>js = pool w \<or> _\<close> S(4,5) e by auto
    qed (use that D True up S(1,2) in \<open>auto simp del: map_upd_Some_unfold\<close>)
    have "event_inv L {} Ow W R (queued p edge other ?w)"
      using inv [of "pool w"] inv [of "pool w @ [\<lparr>job_evt = p, job_edge = edge, job_other = other\<rparr>]"]
      by (simp add: queued_def put_event_def)
    moreover have "set ps \<subseteq> dom (evt_heap (queued p edge other ?w))"
      using Cons.prems(2) by (auto simp: queued_def)
    ultimately show ?thesis by (rule Cons.IH [OF _ _ em])
  qed
qed simp

lemma mark_all_inv:
  assumes "event_inv L X Ow W R w" and "set ps \<subseteq> dom (evt_heap w)" and "X \<subseteq> set ps"
    and "\<And>p k. p \<in> set ps \<Longrightarrow> p \<notin> set (listed w k)" and "mark_all ps w = Some w'"
  shows "event_inv L {} Ow W R w'"
  using assms
proof (induction ps arbitrary: w X)
  case (Cons p ps)
  obtain e where e: "evt_heap w p = Some e" using Cons.prems(2) by auto
  note D = event_invD [OF Cons.prems(1) e]
  let ?e = "e\<lparr>evt_refs := evt_refs e OR SC_EVENT_REQUEST_DESTROY\<rparr>"
  let ?w = "put_event p ?e w"
  have L: "listed ?w = listed w" by (simp add: listed_def fun_eq_iff)
  have "event_inv L (X - {p}) Ow W R (?w\<lparr>pool := pool w\<rparr>)"
    by (rule event_inv_put [OF Cons.prems(1) e]) (use D Cons.prems(4) event_inv_sets [OF Cons.prems(1)] in auto)
  then have "event_inv L (X - {p}) Ow W R ?w" by (simp add: put_event_def)
  moreover have "set ps \<subseteq> dom (evt_heap ?w)" "X - {p} \<subseteq> set ps" using Cons.prems(2,3) by auto
  moreover have "\<And>q k. q \<in> set ps \<Longrightarrow> q \<notin> set (listed ?w k)" unfolding L by (rule Cons.prems(4)) simp
  moreover have "mark_all ps ?w = Some w'" using Cons.prems(5) mark_free [OF e D(2), of ps] by simp
  ultimately show ?case by (rule Cons.IH)
qed simp

text \<open>Shrinking the table.\<close>

definition table_shape :: "(u32 \<times> event_ref list) list option \<Rightarrow> bool" where
  "table_shape T \<longleftrightarrow> (case T of Some t \<Rightarrow> distinct (map fst t) \<and> (\<forall>(k, l) \<in> set t. l \<noteq> []) | None \<Rightarrow> True)"

lemma event_inv_table:
  assumes inv: "event_inv L {} Ow W R w" and T: "table_shape T"
    and Ls: "\<And>k. set (listed (w\<lparr>events_table := T\<rparr>) k) \<subseteq> set (listed w k)"
      "\<And>k. distinct (listed (w\<lparr>events_table := T\<rparr>) k)"
      "\<And>k. set (listed w k) - set (listed (w\<lparr>events_table := T\<rparr>) k) \<subseteq> X"
  shows "event_inv L X Ow W R (w\<lparr>events_table := T\<rparr>)"
proof -
  have "table_ok (w\<lparr>events_table := T\<rparr>)"
    using event_inv_sets(3) [OF inv] T Ls(1,2) unfolding table_ok_def table_shape_def by fastforce
  moreover have "p < evt_next w \<and> evt_lock e = None \<and> L p + of_bool (p \<in> Ow) + jobs_of (pool w @ R) p \<le> count_of e \<and>
        (p \<in> W \<longrightarrow> marked e) \<and>
        (\<not> marked e \<longrightarrow> (evt_callback e \<noteq> None \<or> evt_callback_ex e \<noteq> None) \<and>
           (p \<in> X \<or> p \<in> set (listed (w\<lparr>events_table := T\<rparr>) (TABLE_KEY (evt_element e))))) \<and>
        (p \<in> set (listed (w\<lparr>events_table := T\<rparr>) (TABLE_KEY (evt_element e))) \<longrightarrow> \<not> marked e)"
    if "evt_heap w p = Some e" for p e
    using event_invD [OF inv that] Ls by blast
  ultimately show ?thesis
    using event_inv_sets(1,2,4,5,6,7) [OF inv] unfolding event_inv_def by auto
qed

lemma table_shape_ok: "table_ok w \<Longrightarrow> table_shape (events_table w)"
  by (simp add: table_ok_def table_shape_def)

lemma listed_without:
  assumes "events_table w = Some t"
  shows "listed (w\<lparr>events_table := without p key t\<rparr>) k = (if k = key then remove1 p (listed w key) else listed w k)"
proof -
  let ?l = "remove1 p (slist (map_of t key))"
  let ?t = "if ?l = [] then AList.delete key t else AList.update key ?l t"
  have m: "slist (map_of ?t k) = (if k = key then ?l else slist (map_of t k))"
    by (auto simp: delete_conv' update_conv' slist_def)
  moreover have "slist (map_of ?t k) = []" if "?t = []" unfolding that by (simp add: slist_def)
  ultimately show ?thesis
    using assms by (auto simp: listed_def without_def Let_def)
qed

lemma table_shape_update:
  assumes "table_shape (Some t)" "v \<noteq> []"
  shows "table_shape (Some (AList.update key v t))"
proof -
  have d: "distinct (map fst t)" and ne: "\<And>k l. (k, l) \<in> set t \<Longrightarrow> l \<noteq> []" using assms by (auto simp: table_shape_def)
  have "l \<noteq> []" if "(k, l) \<in> set (AList.update key v t)" for k l
  proof -
    have "map_of (AList.update key v t) k = Some l"
      using that distinct_update [OF d] by simp
    then show ?thesis using assms(2) ne by (auto simp: update_conv' split: if_splits dest: map_of_SomeD)
  qed
  then show ?thesis using distinct_update [OF d] by (auto simp: table_shape_def)
qed

lemma table_shape_delete: "table_shape (Some t) \<Longrightarrow> table_shape (Some (AList.delete key t))"
  using distinct_delete [of t key] by (auto simp: table_shape_def AList.delete_eq)

lemma table_shape_without: "table_shape (Some t) \<Longrightarrow> table_shape (without p key t)"
  using table_shape_update [of t "remove1 p (slist (map_of t key))" key] table_shape_delete [of t key]
  by (auto simp: without_def Let_def table_shape_def [of None])

lemma worker_call_inv:
  assumes inv: "event_inv L {} Ow W R w" and po: "pool w = xs @ j # ys" and c: "worker_call j w = Some w'"
  shows "event_inv L {} Ow W (j # R) (w'\<lparr>pool := xs @ ys\<rparr>)"
proof -
  obtain cs where "w' = w\<lparr>calls := cs\<rparr>"
    using c that [of "calls w'"] by (auto simp: worker_call_def split: option.splits Option.bind_splits)
  moreover have "event_inv L {} Ow W (j # R) (w\<lparr>calls := cs, pool := xs @ ys\<rparr>)" for cs
    using inv po unfolding event_inv_def table_ok_def listed_def by (simp add: ac_simps)
  ultimately show ?thesis by simp
qed

lemma finish_inv:
  assumes inv: "event_inv L {} Ow W R w" and R: "R = xs @ j # ys"
    and c: "sc_event_unref (job_evt j) w = Some (r, w')"
  shows "event_inv L {} Ow W (xs @ ys) w'"
proof -
  note S = event_inv_sets [OF inv]
  obtain e where e: "evt_heap w (job_evt j) = Some e" using S(5) [of j] R by auto
  note D = event_invD [OF inv e]
  let ?e = "e\<lparr>evt_refs := evt_refs e - 1\<rparr>"
  have cnt: "count_of e > 0" using D(3) R by simp
  have "event_inv L {} Ow W (xs @ ys) ((put_event (job_evt j) ?e w)\<lparr>pool := pool w\<rparr>)"
    by (rule event_inv_put [OF inv e]) (use D counter_down [OF cnt] S R in auto)
  then show ?thesis using c unref_free [OF e D(2)] by (simp add: put_event_def)
qed

lemma destroy_inv:
  assumes inv: "event_inv L {} Ow W R w" and p: "p \<in> Ow" and c: "destroy_begin p w = Some (r, w')"
  shows "if r = None then event_inv L {} (Ow - {p}) (insert p W) R w' else w' = w"
proof -
  note S = event_inv_sets [OF inv]
  obtain e where e: "evt_heap w p = Some e" using S(2) p by auto
  note D = event_invD [OF inv e]
  have cnt: "count_of e > 0" using D(3) p by simp
  show ?thesis
  proof (cases "marked e")
    case True
    let ?e = "e\<lparr>evt_refs := evt_refs e - 1\<rparr>"
    have "event_inv L {} (Ow - {p}) (insert p W) R ((put_event p ?e w)\<lparr>pool := pool w\<rparr>)"
      by (rule event_inv_put [OF inv e]) (use D counter_down [OF cnt] S p True in auto)
    then show ?thesis using c True begin_free [OF e D(2)] by (simp add: put_event_def)
  next
    case False
    let ?k = "TABLE_KEY (evt_element e)"
    let ?e = "(retired e)\<lparr>evt_refs := evt_refs (retired e) - 1\<rparr>"
    have l: "p \<in> set (listed w ?k)" using D(6) False by simp
    then obtain t where t: "events_table w = Some t" by (cases "events_table w") (auto simp: listed_def)
    let ?w = "w\<lparr>events_table := without p ?k t\<rparr>"
    have "map_of t ?k \<noteq> None" using l t by (cases "map_of t ?k") (auto simp: listed_def slist_def)
    then have r: "r = None" "w' = put_event p ?e ?w"
      using c False begin_free [OF e D(2)] t by auto
    have Lw: "listed ?w k = (if k = ?k then remove1 p (listed w ?k) else listed w k)" for k
      by (rule listed_without [OF t])
    have dl: "distinct (listed w k)" for k using S(3) by (simp add: table_ok_def)
    have "event_inv L {p} Ow W R ?w"
    proof (rule event_inv_table [OF inv])
      show "table_shape (without p ?k t)" using table_shape_without [of t] table_shape_ok [OF S(3)] t by simp
    qed (use dl in \<open>auto simp: Lw dest: notin_set_remove1\<close>)
    have rc: "count_of (retired e) = count_of e" "marked (retired e)" "evt_element (retired e) = evt_element e"
        "evt_lock (retired e) = None"
      using counter_or [of e] D(2) by (simp_all add: retired_def marked_def count_of_def)
    have cd: "marked ?e" "count_of ?e = count_of e - 1"
      using counter_down [of "retired e"] rc cnt by simp_all
    have "event_inv L {} (Ow - {p}) (insert p W) R ((put_event p ?e ?w)\<lparr>pool := pool ?w\<rparr>)"
      by (rule event_inv_put [OF \<open>event_inv L {p} Ow W R ?w\<close>]) (use e D S p rc cd Lw dl in auto)
    then show ?thesis using r by (simp add: put_event_def)
  qed
qed

lemma event_inv_frame:
  "event_inv L X Ow W R (w\<lparr>store := s, calls := c\<rparr>) = event_inv L X Ow W R w"
  "event_inv L X Ow W R (w\<lparr>store := s\<rparr>) = event_inv L X Ow W R w"
  "event_inv L X Ow W R (w\<lparr>queue_running := b\<rparr>) = event_inv L X Ow W R w"
  by (simp_all add: event_inv_def table_ok_def listed_def)

lemma poll_inv:
  assumes inv: "event_inv L {} Ow W R w" and p: "p \<in> W" and c: "destroy_poll p w = Some (freed, w')"
  shows "event_inv L {} Ow (if freed then W - {p} else W) R w'"
    and "freed \<Longrightarrow> jobs_of (pool w @ R) p = 0 \<and> p \<notin> Ow \<and> evt_heap w' = (evt_heap w)(p := None)"
proof -
  note S = event_inv_sets [OF inv]
  obtain e where e: "evt_heap w p = Some e" using S(2) p by auto
  note D = event_invD [OF inv e]
  have m: "marked e" "p \<notin> set (listed w (TABLE_KEY (evt_element e)))" "p \<notin> Ow" using D p S(1) by auto
  have nl: "p \<notin> set (listed w k)" for k using S(3) m(2) e unfolding table_ok_def by fastforce
  have "event_inv L {} Ow (if freed then W - {p} else W) R w' \<and>
      (freed \<longrightarrow> jobs_of (pool w @ R) p = 0 \<and> p \<notin> Ow \<and> evt_heap w' = (evt_heap w)(p := None))"
  proof (cases "count_of e = 0")
    case False
    then have "freed = False" "w' = w" using c poll_free [OF e D(2)] by auto
    then show ?thesis using inv by simp
  next
    case True
    then obtain s cs where w': "freed = True" "w' = w\<lparr>store := s, calls := cs, evt_heap := (evt_heap w)(p := None)\<rparr>"
      using c poll_free [OF e D(2)] m(1) by (auto split: Option.bind_splits if_splits)
    have j0: "jobs_of (pool w @ R) p = 0" using D(3) True by simp
    then have nj: "job_evt j \<noteq> p" if "j \<in> set (pool w @ R)" for j
      using that by (auto simp: jobs_of_def filter_empty_conv)
    let ?w = "w\<lparr>evt_heap := (evt_heap w)(p := None)\<rparr>"
    have L: "listed ?w = listed w" by (simp add: listed_def fun_eq_iff)
    have "table_ok ?w" using S(3) nl unfolding table_ok_def L by fastforce
    then have "event_inv L {} Ow (W - {p}) R ?w"
      using inv nj m(3) S(1,2) p D(3) True unfolding event_inv_def L by auto
    moreover have "w' = ?w\<lparr>store := s, calls := cs\<rparr>" using w'(2) by (cases w) simp
    ultimately show ?thesis using w'(1) j0 m(3) event_inv_frame(1) [where w = ?w] by simp
  qed
  then show "event_inv L {} Ow (if freed then W - {p} else W) R w'"
    "freed \<Longrightarrow> jobs_of (pool w @ R) p = 0 \<and> p \<notin> Ow \<and> evt_heap w' = (evt_heap w)(p := None)" by blast+
qed

lemma notify_inv:
  assumes inv: "event_inv L {} Ow W R w" and c: "sc_event_notify_element_deleted el w = Some (r, w')"
  shows "event_inv L {} Ow W R w'"
proof (cases "events_table w")
  case None
  then show ?thesis using c inv by (simp add: sc_event_notify_element_deleted_def)
next
  case (Some t)
  note S = event_inv_sets [OF inv]
  let ?k = "TABLE_KEY el" and ?w = "w\<lparr>events_table := Some (AList.delete (TABLE_KEY el) t)\<rparr>"
  show ?thesis
  proof (cases "map_of t ?k")
    case None
    then show ?thesis using c inv Some by (simp add: sc_event_notify_element_deleted_def)
  next
    case l: (Some l)
    have ml: "mark_all l ?w = Some w'"
      using c Some l by (auto simp: sc_event_notify_element_deleted_def split: Option.bind_splits)
    have Lk: "listed w ?k = l" using Some l by (simp add: listed_def slist_def)
    have Lw: "listed ?w k = (if k = ?k then [] else listed w k)" for k
      using Some by (simp add: listed_def delete_conv' slist_def)
    have sh: "table_shape (Some (AList.delete ?k t))"
      by (rule table_shape_delete) (use table_shape_ok [OF S(3)] Some in simp)
    have T: "\<And>k. distinct (listed w k)"
      "\<And>k p. p \<in> set (listed w k) \<Longrightarrow> \<exists>e. evt_heap w p = Some e \<and> TABLE_KEY (evt_element e) = k"
      using S(3) by (auto simp: table_ok_def)
    have "event_inv L (set l) Ow W R ?w"
      by (rule event_inv_table [OF inv sh]) (use Lk T in \<open>auto simp: Lw\<close>)
    then show ?thesis
    proof (rule mark_all_inv [OF _ _ _ _ ml])
      show "set l \<subseteq> dom (evt_heap ?w)" using T(2) [of _ ?k] Lk by auto
      show "p \<notin> set (listed ?w k)" if "p \<in> set l" for p k
        using T(2) [of p ?k] T(2) [of p k] that Lk by (auto simp: Lw)
    qed simp
  qed
qed

lemma listed_update:
  "events_table v = Some (AList.update key l t) \<Longrightarrow> listed v k = (if k = key then l else slist (map_of t k))"
  by (simp add: listed_def update_conv' slist_def)

lemma event_new_inv:
  assumes inv: "event_inv L {} Ow W R w" and cb: "cb \<noteq> None \<or> cbx \<noteq> None"
    and c: "event_new ctx el t d cb cbx del w = Some (r, w')"
  shows "event_inv L {} (Ow \<union> set_option r) W R w'"
proof -
  note S = event_inv_sets [OF inv]
  define p where "p = evt_next w"
  have np: "evt_heap w p = None" using event_invD(1) [OF inv, of p] by (cases "evt_heap w p") (auto simp: p_def)
  show ?thesis
  proof (cases r)
    case None
    then obtain s where "w' = w\<lparr>store := s\<rparr>"
      using c by (auto simp: event_new_def insert_event_into_table_def Let_def
          split: if_splits option.splits Option.bind_splits intro: that [of "store w"])
    then show ?thesis using None inv event_inv_frame(2) by simp
  next
    case (Some q)
    let ?e = "\<lparr>evt_element = el, evt_type = t, evt_data = d, evt_callback = cb, evt_callback_ex = cbx,
        evt_delete_callback = del, evt_refs = 1, evt_lock = None, evt_access = ctx_access ctx\<rparr>"
    let ?k = "TABLE_KEY el" and ?t = "case events_table w of Some t \<Rightarrow> t | None \<Rightarrow> []"
    let ?T = "AList.update ?k (slist (map_of ?t ?k) @ [p]) ?t"
    obtain s where q: "q = p" and w': "w' = w\<lparr>store := s, evt_next := Suc p, evt_heap := (evt_heap w)(p \<mapsto> ?e),
        events_table := Some ?T\<rparr>"
      using c Some by (auto simp: event_new_def insert_event_into_table_def Let_def put_event_def p_def
          split: if_splits option.splits Option.bind_splits)
    let ?w = "w\<lparr>evt_next := Suc p, evt_heap := (evt_heap w)(p \<mapsto> ?e), events_table := Some ?T\<rparr>"
    have Lt: "slist (map_of ?t k) = listed w k" for k by (simp add: listed_def slist_def split: option.split)
    have Lw: "listed ?w k = (if k = ?k then listed w k @ [p] else listed w k)" for k
      using listed_update [of ?w ?k _ ?t k] Lt by simp
    have T: "\<And>k. distinct (listed w k)"
      "\<And>k p. p \<in> set (listed w k) \<Longrightarrow> \<exists>e. evt_heap w p = Some e \<and> TABLE_KEY (evt_element e) = k"
      using S(3) by (auto simp: table_ok_def)
    have pl: "p \<notin> set (listed w k)" for k using T(2) [of p k] np by auto
    have sh: "table_shape (Some ?T)" by (rule table_shape_update) (use table_shape_ok [OF S(3)] in \<open>auto simp: table_shape_def split: option.splits\<close>)
    have "table_ok ?w"
    proof -
      have "distinct (listed ?w k)" for k using T(1) pl by (simp only: Lw) simp
      moreover have "\<exists>f. evt_heap ?w q = Some f \<and> TABLE_KEY (evt_element f) = k" if "q \<in> set (listed ?w k)" for q k
      proof (cases "q = p")
        case True
        then have "k = ?k" using that pl [of k] by (simp only: Lw) (auto split: if_splits)
        then show ?thesis using True by simp
      next
        case False
        then have "q \<in> set (listed w k)" using that by (simp only: Lw) (auto split: if_splits)
        then show ?thesis using T(2) False by simp
      qed
      moreover have "events_table ?w = Some ?T" by simp
      ultimately show ?thesis using sh unfolding table_ok_def table_shape_def by simp
    qed
    moreover have j0: "jobs_of (pool w @ R) p = 0"
      using S(4,5) np by (fastforce simp: jobs_of_def filter_empty_conv)
    have pO: "p \<notin> Ow" "p \<notin> W" using S(2) np by auto
    have ne: "\<not> marked ?e" "count_of ?e = 1" by (simp_all add: marked_def count_of_def)
    have "q < Suc p \<and> evt_lock f = None \<and> L q + of_bool (q \<in> insert p Ow) + jobs_of (pool w @ R) q \<le> count_of f \<and>
        (q \<in> W \<longrightarrow> marked f) \<and>
        (\<not> marked f \<longrightarrow> (evt_callback f \<noteq> None \<or> evt_callback_ex f \<noteq> None) \<and>
           (q \<in> {} \<or> q \<in> set (listed ?w (TABLE_KEY (evt_element f))))) \<and>
        (q \<in> set (listed ?w (TABLE_KEY (evt_element f))) \<longrightarrow> \<not> marked f)"
      if f: "evt_heap ?w q = Some f" for q f
    proof (cases "q = p")
      case True
      then have "f = ?e" using f by simp
      then show ?thesis using True j0 pO ne cb S(6) [of p] np unfolding Lw by (auto simp: p_def)
    next
      case False
      then have "evt_heap w q = Some f" using f by simp
      note D = event_invD [OF inv this]
      have m: "q \<in> set (listed ?w k) \<longleftrightarrow> q \<in> set (listed w k)" for k using False by (simp only: Lw) simp
      show ?thesis unfolding m using D False by (simp add: p_def)
    qed
    moreover have "\<forall>j \<in> set (pool w @ R). evt_heap ?w (job_evt j) \<noteq> None" using S(4,5) by auto
    ultimately have "event_inv L {} (insert p Ow) W R ?w"
      using S(1,2) S(6,7) pO unfolding event_inv_def by auto
    moreover have "w' = ?w\<lparr>store := s\<rparr>" using w' by (cases w) simp
    ultimately show ?thesis using Some q event_inv_frame(2) [where w = ?w] by simp
  qed
qed

subsection \<open>Reachable states\<close>

inductive reachable :: "machine \<Rightarrow> bool" where
  init: "reachable (start s)"
| step: "reachable m \<Longrightarrow> event_step m m' \<Longrightarrow> reachable m'"

lemma start_inv: "machine_inv (\<lambda>_. 0) (start s)"
  by (simp add: machine_inv_def start_def event_inv_def table_ok_def listed_def sc_events_initialize_def
      sc_event_queue_new_def)

lemma emit_inv:
  assumes inv: "event_inv L {} Ow W R w" and c: "sc_event_emit_impl el al t edge other w = Some (r, w')"
  shows "event_inv L {} Ow W R w'"
proof (cases "events_table w")
  case None
  then show ?thesis using c inv by (auto simp: sc_event_emit_impl_def g_assert_def split: if_splits)
next
  case (Some T)
  have "set (slist (map_of T (TABLE_KEY el))) \<subseteq> dom (evt_heap w)"
    using event_inv_sets(3) [OF inv] Some by (fastforce simp: table_ok_def listed_def)
  moreover have "emit_all al t edge other (slist (map_of T (TABLE_KEY el))) w = Some w'"
    using c Some by (auto simp: sc_event_emit_impl_def g_assert_def split: if_splits Option.bind_splits)
  ultimately show ?thesis by (rule emit_all_inv [OF inv])
qed

lemma step_inv: "event_step m m' \<Longrightarrow> machine_inv L m \<Longrightarrow> machine_inv L m'"
proof (induction rule: event_step.induct)
  case (new ctx el t d cb del m r w')
  then obtain c1 c2 where "c1 \<noteq> None \<or> c2 \<noteq> None" "event_new ctx el t d c1 c2 del (world m) = Some (r, w')"
    by (auto simp: sc_event_new_def sc_event_new_ex_def g_assert_def split: if_splits)
  then show ?case using new.prems event_new_inv unfolding machine_inv_def by simp
next
  case (emit el al t edge other m r w')
  then show ?case using emit_inv by (simp add: machine_inv_def)
next
  case (take_job m xs j ys w')
  then show ?case using worker_call_inv by (simp add: machine_inv_def)
next
  case (finish_job m xs j ys r w')
  then show ?case using finish_inv by (simp add: machine_inv_def)
next
  case (destroy p m w')
  then show ?case using destroy_inv [of L "owners m" "waiting m" "running m" "world m" p None w'] by (simp add: machine_inv_def)
next
  case (destroy_refused p m r w')
  then show ?case using destroy_inv [of L "owners m" "waiting m" "running m" "world m" p "Some r" w'] by (simp add: machine_inv_def)
next
  case (poll p m freed w')
  then show ?case using poll_inv(1) by (simp add: machine_inv_def)
next
  case (element_deleted el m r w')
  then show ?case using notify_inv by (simp add: machine_inv_def)
next
  case (stop m w')
  then show ?case
    by (auto simp: machine_inv_def sc_events_stop_processing_def sc_event_queue_stop_processing_def event_inv_frame)
qed

lemma reachable_inv: "reachable m \<Longrightarrow> machine_inv (\<lambda>_. 0) m"
  by (induction rule: reachable.induct) (auto intro: start_inv step_inv)

end
