(* ===== verification/Sc_Event_Props.thy ===== *)
theory Sc_Event_Props
  imports Sc_Event_Machine
begin

text \<open>
  What subscribers can rely on: creating and destroying a subscription undo each other, an
  emission queues exactly the subscriptions that match, pending events lose and reorder
  nothing, a job never meets a freed event, and what goes wrong when the queue was stopped.
\<close>

subsection \<open>One subscription\<close>

definition new_event ::
    "sc_memory_context \<Rightarrow> sc_addr \<Rightarrow> sc_event_type \<Rightarrow> nat \<Rightarrow> callback option \<Rightarrow> callback option \<Rightarrow>
     callback option \<Rightarrow> sc_event" where
  "new_event ctx el t d cb cbx del = \<lparr>evt_element = el, evt_type = t, evt_data = d, evt_callback = cb,
     evt_callback_ex = cbx, evt_delete_callback = del, evt_refs = 1, evt_lock = None, evt_access = ctx_access ctx\<rparr>"

definition table_of :: "event_world \<Rightarrow> (u32 \<times> event_ref list) list" where
  "table_of w = (case events_table w of Some t \<Rightarrow> t | None \<Rightarrow> [])"

definition subscribable :: "sc_memory_context \<Rightarrow> sc_addr \<Rightarrow> event_world \<Rightarrow> bool" where
  "subscribable ctx el w \<longleftrightarrow> storage_ok (store w) \<and> has_cell (store w) el \<and> el \<noteq> SC_ADDR_MAKE_EMPTY \<and>
     sc_access_lvl_check_read (ctx_access ctx) (el_access (el_at (store w) el)) \<and>
     refs (store w) el > 0 \<and> refs (store w) el < 0xfffffffe"

definition subscribed :: "sc_event \<Rightarrow> event_world \<Rightarrow> event_world" where
  "subscribed e w = w\<lparr>store := set_refs (evt_element e) (refs (store w) (evt_element e) + 1) (store w),
     evt_next := Suc (evt_next w), evt_heap := (evt_heap w)(evt_next w \<mapsto> e),
     events_table := Some (AList.update (TABLE_KEY (evt_element e))
       (slist (map_of (table_of w) (TABLE_KEY (evt_element e))) @ [evt_next w]) (table_of w))\<rparr>"

lemma event_new_ok:
  assumes "subscribable ctx el w"
  shows "event_new ctx el t d cb cbx del w =
     Some (Some (evt_next w), subscribed (new_event ctx el t d cb cbx del) w)"
proof -
  note s = assms [unfolded subscribable_def]
  have "sc_storage_get_access_levels ctx el (store w) =
      Some (SC_RESULT_OK, Some (el_access (el_at (store w) el)), store w)"
    using s by (simp add: sc_storage_get_access_levels_def bracket)
  moreover have "sc_storage_element_ref el (store w) = Some (set_refs el (refs (store w) el + 1) (store w))"
    using ref_unref_back(1) [of "store w" el] s by blast
  ultimately show ?thesis
    using s by (cases w) (simp add: event_new_def new_event_def subscribed_def insert_event_into_table_def Let_def
      put_event_def table_of_def)
qed



text \<open>The witnesses use the sample storage with the event system just started.\<close>

definition event_sample :: event_world where
  "event_sample = world (start sample)"

lemma event_sample_simps [simp]:
  "store event_sample = sample" "evt_heap event_sample = Map.empty" "evt_next event_sample = 0"
  "events_table event_sample = None" "queue_running event_sample" "pool event_sample = []"
  "calls event_sample = []"
  by (simp_all add: event_sample_def start_def sc_events_initialize_def sc_event_queue_new_def)

lemma event_sample_inv: "event_inv (\<lambda>_. 0) {} {} {} [] event_sample"
  using start_inv [of sample] by (simp add: machine_inv_def event_sample_def start_def)

lemma event_sample_subscribable: "subscribable sample_ctx sample_n1 event_sample"
  using sample_storage_ok sample_access(1) live_typed [OF sample_members(1)]
  by (simp add: subscribable_def sample_refs SC_ADDR_MAKE_EMPTY_def)


subsection \<open>Emission\<close>

definition hears :: "sc_access_levels \<Rightarrow> sc_event_type \<Rightarrow> sc_event \<Rightarrow> bool" where
  "hears al t e \<longleftrightarrow> evt_type e = t \<and> sc_access_lvl_check_read (evt_access e) al"

definition heard :: "sc_access_levels \<Rightarrow> sc_event_type \<Rightarrow> event_world \<Rightarrow> event_ref list \<Rightarrow> event_ref list" where
  "heard al t w ps = filter (\<lambda>p. case evt_heap w p of Some e \<Rightarrow> hears al t e | None \<Rightarrow> False) ps"

definition noticed :: "event_ref list \<Rightarrow> sc_addr \<Rightarrow> sc_addr \<Rightarrow> event_world \<Rightarrow> event_world" where
  "noticed ps edge other w = w\<lparr>
     evt_heap := (\<lambda>q. if q \<in> set ps then map_option (\<lambda>e. e\<lparr>evt_refs := evt_refs e + 1\<rparr>) (evt_heap w q) else evt_heap w q),
     pool := (if queue_running w then pool w @ map (\<lambda>p. \<lparr>job_evt = p, job_edge = edge, job_other = other\<rparr>) ps
              else pool w)\<rparr>"

lemma emit_all_eq:
  assumes "distinct ps"
    and "\<And>p. p \<in> set ps \<Longrightarrow> \<exists>e. evt_heap w p = Some e \<and> evt_lock e = None \<and> \<not> marked e \<and>
       (evt_callback e \<noteq> None \<or> evt_callback_ex e \<noteq> None) \<and> (hears al t e \<longrightarrow> evt_refs e < SC_EVENT_REF_COUNT_MASK)"
    and "queue_alive w"
  shows "emit_all al t edge other ps w = Some (noticed (heard al t w ps) edge other w)"
  using assms
proof (induction ps arbitrary: w)
  case Nil
  then show ?case by (simp add: noticed_def heard_def)
next
  case (Cons p ps)
  obtain e where e: "evt_heap w p = Some e" "evt_lock e = None" "\<not> marked e"
    "evt_callback e \<noteq> None \<or> evt_callback_ex e \<noteq> None" "hears al t e \<Longrightarrow> evt_refs e < SC_EVENT_REF_COUNT_MASK"
    using Cons.prems(2) [of p] by auto
  show ?case
  proof (cases "hears al t e")
    case False
    then have "emit_all al t edge other (p # ps) w = emit_all al t edge other ps w"
      using e(1) by (auto simp: hears_def)
    moreover have "heard al t w (p # ps) = heard al t w ps" using False e(1) by (simp add: heard_def)
    ultimately show ?thesis using Cons by simp
  next
    case True
    let ?w = "queued p edge other (put_event p (e\<lparr>evt_refs := evt_refs e + 1\<rparr>) w)"
    have "emit_all al t edge other (p # ps) w = emit_all al t edge other ps ?w"
      using e True try_emit_free [OF e(1,2)] Cons.prems(3) by (auto simp: hears_def append_alive)
    also have "\<dots> = Some (noticed (heard al t ?w ps) edge other ?w)"
      using Cons.prems by (intro Cons.IH) (auto simp: queued_def)
    also have "heard al t ?w ps = heard al t w ps"
      using Cons.prems(1) unfolding heard_def
      by (intro filter_cong refl) (auto simp: queued_def)
    also have "noticed (heard al t w ps) edge other ?w = noticed (p # heard al t w ps) edge other w"
      using Cons.prems(1) e(1)
      by (cases w) (auto simp: noticed_def queued_def put_event_def fun_eq_iff heard_def)
    also have "p # heard al t w ps = heard al t w (p # ps)" using e(1) True by (simp add: heard_def)
    finally show ?thesis .
  qed
qed

lemma emit_impl_eq:
  assumes inv: "event_inv L {} Ow W R w" and el: "el \<noteq> SC_ADDR_MAKE_EMPTY"
    and room: "\<And>p e. evt_heap w p = Some e \<Longrightarrow> \<not> marked e \<Longrightarrow> evt_refs e < SC_EVENT_REF_COUNT_MASK"
  shows "sc_event_emit_impl el al t edge other w =
     Some (SC_RESULT_OK, noticed (heard al t w (listed w (TABLE_KEY el))) edge other w)"
proof (cases "events_table w")
  case None
  then show ?thesis using el by (simp add: sc_event_emit_impl_def noticed_def heard_def listed_def)
next
  case (Some T)
  let ?ps = "listed w (TABLE_KEY el)"
  have l: "slist (map_of T (TABLE_KEY el)) = ?ps" using Some by (simp add: listed_def)
  have "\<exists>e. evt_heap w p = Some e \<and> evt_lock e = None \<and> \<not> marked e \<and>
       (evt_callback e \<noteq> None \<or> evt_callback_ex e \<noteq> None) \<and> (hears al t e \<longrightarrow> evt_refs e < SC_EVENT_REF_COUNT_MASK)"
    if p: "p \<in> set ?ps" for p
  proof -
    obtain e where e: "evt_heap w p = Some e" "TABLE_KEY (evt_element e) = TABLE_KEY el"
      using event_inv_sets(3) [OF inv] p unfolding table_ok_def by blast
    then show ?thesis using event_invD [OF inv e(1)] p room by auto
  qed
  moreover have "distinct ?ps" using event_inv_sets(3) [OF inv] by (simp add: table_ok_def)
  ultimately show ?thesis
    using emit_all_eq [of ?ps w al t edge other] el Some l event_inv_sets(7) [OF inv] by (simp add: sc_event_emit_impl_def)
qed


definition sample_event :: sc_event where
  "sample_event = new_event sample_ctx sample_n1 SC_EVENT_ADD_OUTPUT_ARC 0 (Some 7) None None"

definition sample_subscribed :: machine where
  "sample_subscribed = (start sample)\<lparr>world := subscribed sample_event event_sample, owners := {0}\<rparr>"

lemma sample_subscribed_reachable: "reachable sample_subscribed"
proof -
  have "sc_event_new sample_ctx sample_n1 SC_EVENT_ADD_OUTPUT_ARC 0 (Some 7) None (world (start sample)) =
      Some (Some 0, subscribed sample_event event_sample)"
    using event_new_ok [OF event_sample_subscribable, of SC_EVENT_ADD_OUTPUT_ARC 0 "Some 7" None None]
    by (simp add: sc_event_new_def sample_event_def flip: event_sample_def)
  from reachable.step [OF reachable.init event_step.new, OF disjI1, OF this]
  show ?thesis by (simp add: sample_subscribed_def start_def)
qed

lemma sample_subscribed_world:
  "evt_heap (world sample_subscribed) = [0 \<mapsto> sample_event]" "queue_running (world sample_subscribed)"
  "pool (world sample_subscribed) = []" "owners sample_subscribed = {0}" "waiting sample_subscribed = {}"
  "running sample_subscribed = []" "listed (world sample_subscribed) (TABLE_KEY sample_n1) = [0]"
  by (simp_all add: sample_subscribed_def subscribed_def start_def listed_def sample_event_def new_event_def
      update_conv' table_of_def slist_def)

lemma sample_heard: "heard 0 SC_EVENT_ADD_OUTPUT_ARC (world sample_subscribed) [0] = [0]"
  by (simp add: heard_def sample_subscribed_world hears_def sample_event_def new_event_def sample_ctx_def
      sc_access_lvl_check_read_def sc_access_lvl_get_read_def)


subsection \<open>Jobs and freed events\<close>

lemma job_alive:
  assumes inv: "event_inv L {} Ow W R w" and j: "j \<in> set (pool w) \<union> set R"
  shows "\<exists>e. evt_heap w (job_evt j) = Some e \<and> evt_lock e = None \<and>
     jobs_of (pool w @ R) (job_evt j) \<le> count_of e \<and>
     worker_call j w \<noteq> None \<and> sc_event_unref (job_evt j) w \<noteq> None"
proof -
  obtain e where e: "evt_heap w (job_evt j) = Some e" using event_inv_sets(4,5) [OF inv] j by blast
  note D = event_invD [OF inv e]
  show ?thesis using e D(2,3) unref_free [OF e D(2)] by (simp add: worker_call_def split: option.split)
qed

lemma owner_accepted:
  assumes inv: "event_inv L {} Ow W R w" and p: "p \<in> Ow"
  shows "\<exists>w'. destroy_begin p w = Some (None, w')"
proof -
  obtain e where e: "evt_heap w p = Some e" using event_inv_sets(2) [OF inv] p by auto
  note D = event_invD [OF inv e]
  show ?thesis using begin_free [OF e D(2)] D(6) by (force simp: listed_def slist_def split: option.splits)
qed


definition sample_job :: sc_event_pool_worker_data where
  "sample_job = \<lparr>job_evt = 0, job_edge = sample_arc, job_other = sample_n2\<rparr>"

definition sample_queued :: machine where
  "sample_queued = sample_subscribed\<lparr>world := noticed [0] sample_arc sample_n2 (world sample_subscribed)\<rparr>"

lemma sample_queued_reachable: "reachable sample_queued" "pool (world sample_queued) = [sample_job]"
proof -
  have "event_inv (\<lambda>_. 0) {} {0} {} [] (world sample_subscribed)"
    using reachable_inv [OF sample_subscribed_reachable] by (simp add: machine_inv_def sample_subscribed_world)
  moreover have "evt_refs e < SC_EVENT_REF_COUNT_MASK" if "evt_heap (world sample_subscribed) q = Some e" for q e
    using that by (auto simp: sample_subscribed_world sample_event_def new_event_def refs_mask split: if_splits)
  moreover have "sample_n1 \<noteq> SC_ADDR_MAKE_EMPTY" by (simp add: SC_ADDR_MAKE_EMPTY_def)
  ultimately have "sc_event_emit_impl sample_n1 0 SC_EVENT_ADD_OUTPUT_ARC sample_arc sample_n2 (world sample_subscribed) =
      Some (SC_RESULT_OK, noticed [0] sample_arc sample_n2 (world sample_subscribed))"
    using emit_impl_eq [of "\<lambda>_. 0" "{0}" "{}" "[]" "world sample_subscribed" sample_n1 0 SC_EVENT_ADD_OUTPUT_ARC
        sample_arc sample_n2]
    by (simp add: sample_subscribed_world sample_heard)
  from reachable.step [OF sample_subscribed_reachable event_step.emit [OF this]]
  show "reachable sample_queued" by (simp add: sample_queued_def)
  show "pool (world sample_queued) = [sample_job]"
    by (simp add: sample_queued_def noticed_def sample_subscribed_world sample_job_def)
qed


subsection \<open>A stopped queue\<close>

text \<open>
  C16. An event emitted after \<^verbatim>\<open>sc_events_stop_processing\<close> takes a reference on every matching
  subscription and queues no job that would drop it: whatever happens later, the event is
  never freed, so a \<^verbatim>\<open>sc_event_destroy\<close> of that subscription never returns.
\<close>

theorem stopped_emit_never_freed:
  assumes "reachable m" and "\<not> queue_running (world m)" and "el \<noteq> SC_ADDR_MAKE_EMPTY"
    and "\<forall>q e. evt_heap (world m) q = Some e \<longrightarrow> evt_refs e < SC_EVENT_REF_COUNT_MASK \<or> marked e"
    and "p \<in> set (heard al t (world m) (listed (world m) (TABLE_KEY el)))"
  shows "\<exists>w1. sc_event_emit_impl el al t edge other (world m) = Some (SC_RESULT_OK, w1) \<and>
     (\<forall>m'. event_step\<^sup>*\<^sup>* (m\<lparr>world := w1\<rparr>) m' \<longrightarrow> evt_heap (world m') p \<noteq> None \<and>
        (\<forall>w'. p \<in> waiting m' \<longrightarrow> destroy_poll p (world m') \<noteq> Some (True, w')))"
proof -
  let ?H = "heard al t (world m) (listed (world m) (TABLE_KEY el))" and ?L = "(\<lambda>_. 0)(p := 1)"
  let ?w = "noticed ?H edge other (world m)"
  have inv: "event_inv (\<lambda>_. 0) {} (owners m) (waiting m) (running m) (world m)"
    using reachable_inv [OF assms(1)] by (simp add: machine_inv_def)
  have em: "sc_event_emit_impl el al t edge other (world m) = Some (SC_RESULT_OK, ?w)"
    by (rule emit_impl_eq [OF inv assms(3)]) (use assms(4) in blast)
  note inv1 = emit_inv [OF inv em]
  have "p \<in> set (listed (world m) (TABLE_KEY el))" using assms(5) by (simp add: heard_def)
  then obtain e where e: "evt_heap (world m) p = Some e" "TABLE_KEY (evt_element e) = TABLE_KEY el"
    using event_inv_sets(3) [OF inv] unfolding table_ok_def by blast
  note D = event_invD [OF inv e(1)]
  have "\<not> marked e" using D(7) e(2) \<open>p \<in> set (listed _ _)\<close> by simp
  then have "count_of (e\<lparr>evt_refs := evt_refs e + 1\<rparr>) = count_of e + 1"
    using assms(4) e(1) by (intro counter_up) auto
  moreover have w: "evt_heap ?w p = Some (e\<lparr>evt_refs := evt_refs e + 1\<rparr>)" "pool ?w = pool (world m)"
    using e(1) assms(2,5) by (simp_all add: noticed_def)
  ultimately have "event_inv ?L {} (owners m) (waiting m) (running m) ?w"
    using inv1 D(3) unfolding event_inv_def by auto
  then have start: "machine_inv ?L (m\<lparr>world := ?w\<rparr>)" by (simp add: machine_inv_def)
  have "evt_heap (world m') p \<noteq> None \<and> (\<forall>w'. p \<in> waiting m' \<longrightarrow> destroy_poll p (world m') \<noteq> Some (True, w'))"
    if "event_step\<^sup>*\<^sup>* (m\<lparr>world := ?w\<rparr>) m'" for m'
  proof -
    have m': "event_inv ?L {} (owners m') (waiting m') (running m') (world m')"
      using that start by (induction rule: rtranclp_induct) (auto dest: step_inv simp: machine_inv_def)
    then obtain e' where e': "evt_heap (world m') p = Some e'" using event_inv_sets(6) [OF m', of p] by auto
    note D' = event_invD [OF m' e']
    have "count_of e' \<noteq> 0" using D'(3) by simp
    then show ?thesis using e' poll_free [OF e' D'(2)] by simp
  qed
  with em show ?thesis by blast
qed

definition sample_stopped :: machine where
  "sample_stopped = sample_subscribed\<lparr>world := (world sample_subscribed)\<lparr>queue_running := False\<rparr>\<rparr>"

lemma sample_stopped_world:
  "evt_heap (world sample_stopped) = [0 \<mapsto> sample_event]" "\<not> queue_running (world sample_stopped)"
  "listed (world sample_stopped) = listed (world sample_subscribed)"
  "heard al t (world sample_stopped) = heard al t (world sample_subscribed)"
  "reachable sample_stopped"
proof -
  have "sc_events_stop_processing (world sample_subscribed) = Some ((world sample_subscribed)\<lparr>queue_running := False\<rparr>)"
    using reachable_inv [OF sample_subscribed_reachable]
    by (simp add: sc_events_stop_processing_def sc_event_queue_stop_processing_def sample_subscribed_world
        machine_inv_def event_inv_def)
  from reachable.step [OF sample_subscribed_reachable event_step.stop [OF this]]
  show "reachable sample_stopped" by (simp add: sample_stopped_def)
qed (simp_all add: sample_stopped_def sample_subscribed_world listed_def heard_def fun_eq_iff)

lemma sample_refs_room: "evt_heap (world sample_stopped) q = Some e \<Longrightarrow> evt_refs e < SC_EVENT_REF_COUNT_MASK"
  by (auto simp: sample_stopped_world sample_event_def new_event_def refs_mask split: if_splits)

theorem stopped_emit_never_freed_witness:
  "\<exists>w1. sc_event_emit_impl sample_n1 0 SC_EVENT_ADD_OUTPUT_ARC sample_arc sample_n2 (world sample_stopped) =
       Some (SC_RESULT_OK, w1) \<and>
     (\<forall>m'. event_step\<^sup>*\<^sup>* (sample_stopped\<lparr>world := w1\<rparr>) m' \<longrightarrow> evt_heap (world m') 0 \<noteq> None)"
  using stopped_emit_never_freed [OF sample_stopped_world(5,2), of sample_n1 0 0 SC_EVENT_ADD_OUTPUT_ARC sample_arc sample_n2]
    sample_refs_room
  by (auto simp: sample_stopped_world sample_subscribed_world sample_heard SC_ADDR_MAKE_EMPTY_def)

subsection \<open>Pending events\<close>

fun emit_each :: "sc_event_emit_params list \<Rightarrow> event_context \<Rightarrow> event_world \<Rightarrow> (event_context \<times> event_world) option" where
  "emit_each [] ctx w = Some (ctx, w)"
| "emit_each (q # qs) ctx w = do {
     (_, ctx1, w1) \<leftarrow> sc_event_emit ctx (ep_el q) (ep_el_access q) (ep_type q) (ep_edge q) (ep_other_el q) w;
     emit_each qs ctx1 w1
   }"

lemma emit_each_direct:
  "ctx_flags ctx AND SC_CONTEXT_FLAG_PENDING_EVENTS = 0 \<Longrightarrow>
     emit_each qs ctx w = map_option (\<lambda>w'. (ctx, w')) (emit_pending qs w)"
proof (induction qs arbitrary: w)
  case (Cons q qs)
  then show ?case
    by (cases "sc_event_emit_impl (ep_el q) (ep_el_access q) (ep_type q) (ep_edge q) (ep_other_el q) w")
       (auto simp: sc_event_emit_def)
qed simp

lemma emit_each_pending:
  "ctx_flags ctx AND SC_CONTEXT_FLAG_PENDING_EVENTS \<noteq> 0 \<Longrightarrow>
     emit_each qs ctx w = Some (ctx\<lparr>pend_events := pend_events ctx @ qs\<rparr>, w)"
proof (induction qs arbitrary: ctx)
  case (Cons q qs)
  then show ?case by (simp add: sc_event_emit_def sc_memory_context_pend_event_def)
qed simp

text \<open>
  C23. Between \<^verbatim>\<open>sc_memory_context_pending_begin\<close> and \<^verbatim>\<open>sc_memory_context_pending_end\<close> events are
  only collected; at the end they are emitted in the order they occurred, so that the
  context and the world are exactly those of a context that emits each event at once.
\<close>

theorem pending_equals_direct:
  assumes "ctx_flags ctx AND SC_CONTEXT_FLAG_PENDING_EVENTS = 0" and "pend_events ctx = []"
  shows "(do { ctx1 \<leftarrow> sc_memory_context_pending_begin ctx;
           (ctx2, w1) \<leftarrow> emit_each qs ctx1 w;
           sc_memory_context_pending_end ctx2 w1 }) = emit_each qs ctx w"
proof -
  let ?c = "ctx\<lparr>ctx_flags := ctx_flags ctx OR SC_CONTEXT_FLAG_PENDING_EVENTS\<rparr>"
  have on: "ctx_flags ?c AND SC_CONTEXT_FLAG_PENDING_EVENTS \<noteq> 0"
    by (simp add: SC_CONTEXT_FLAG_PENDING_EVENTS_def bit.conj_disj_distrib2)
  have off: "ctx_flags ?c AND NOT SC_CONTEXT_FLAG_PENDING_EVENTS = ctx_flags ctx"
  proof -
    have "bit (ctx_flags ctx AND 1) n = False" for n
      using assms(1) by (simp add: SC_CONTEXT_FLAG_PENDING_EVENTS_def)
    then show ?thesis
      by (intro bit_word_eqI) (auto simp: SC_CONTEXT_FLAG_PENDING_EVENTS_def bit_simps)
  qed
  have ctx: "ctx\<lparr>pend_events := []\<rparr> = ctx" using assms(2) by (cases ctx) simp
  show ?thesis
    using assms on off emit_each_pending [OF on, of qs w] emit_each_direct [OF assms(1), of qs w] ctx
    by (cases "emit_pending qs w") (simp_all add: sc_memory_context_pending_begin_def sc_memory_context_pending_end_def
        sc_memory_context_emit_events_def)
qed

theorem pending_equals_direct_witness:
  "(do { ctx1 \<leftarrow> sc_memory_context_pending_begin \<lparr>ctx_id = 1, ctx_access = sc_access_lvl_make_max, ctx_flags = 0, pend_events = []\<rparr>;
       (ctx2, w1) \<leftarrow> emit_each [\<lparr>ep_el = sample_n1, ep_el_access = 0, ep_type = SC_EVENT_ADD_OUTPUT_ARC, ep_edge = sample_arc, ep_other_el = sample_n2\<rparr>]
         ctx1 (world sample_subscribed);
       sc_memory_context_pending_end ctx2 w1 }) =
   emit_each [\<lparr>ep_el = sample_n1, ep_el_access = 0, ep_type = SC_EVENT_ADD_OUTPUT_ARC, ep_edge = sample_arc, ep_other_el = sample_n2\<rparr>]
     \<lparr>ctx_id = 1, ctx_access = sc_access_lvl_make_max, ctx_flags = 0, pend_events = []\<rparr> (world sample_subscribed)"
  by (rule pending_equals_direct) simp_all

end
