(* ===== verification/Sc_Link.thy ===== *)
theory Sc_Link
  imports Sc_Element_Ops Sc_File_Memory
begin

text \<open>
  Contents of sc-links (\<^verbatim>\<open>sc_storage.c\<close>): a content of less than 32 bytes lives in the
  cell of the link, a longer one in the file memory under its checksum, which the cell then
  holds; in both cases the file memory indexes the link under the checksum.
  \<^verbatim>\<open>STORAGE_CHECK_CALL\<close> is the one of a release build: the result of the call is ignored.
\<close>

subsection \<open>Operations\<close>

definition link_checksum :: "(bytes \<Rightarrow> bytes) \<Rightarrow> sc_element \<Rightarrow> bytes option" where
  "link_checksum sha el =
     (if el_type el AND sc_flag_link_self_container \<noteq> 0
      then do { sum \<leftarrow> sc_link_self_container_calculate_checksum sha el; sum }
      else Some (take SC_CHECKSUM_LEN (content el)))"

definition forget_content ::
    "'db rocksdb \<Rightarrow> (bytes \<Rightarrow> bytes) \<Rightarrow> sc_addr \<Rightarrow> sc_element \<Rightarrow> 'db \<Rightarrow> 'db option" where
  "forget_content db sha a el d = do {
     empty \<leftarrow> sc_element_is_checksum_empty el;
     if empty then Some d
     else do {
       sum \<leftarrow> link_checksum sha el;
       (_, d1) \<leftarrow> sc_fs_storage_remove_content_addr db a sum d;
       Some d1
     }
   }"

definition copy_content :: "sc_addr \<Rightarrow> u32 \<Rightarrow> sc_stream \<Rightarrow> sc_storage \<Rightarrow> (sc_stream \<times> sc_storage) option" where
  "copy_content a n st s =
     (if n > 0 then do {
        (_, buff, st1) \<leftarrow> sc_stream_read_data n st;
        g_assert (length buff = unat n);
        Some (st1, set_el a (\<lambda>e. e\<lparr>content := take 1 (content e) @ buff @ drop (Suc (length buff)) (content e)\<rparr>) s)
      }
      else Some (st, s))"

definition keep_content ::
    "'db rocksdb \<Rightarrow> (bytes \<Rightarrow> bytes) \<Rightarrow> sc_addr \<Rightarrow> bytes \<Rightarrow> sc_stream \<Rightarrow> sc_storage \<Rightarrow> 'db \<Rightarrow>
     (sc_result \<times> sc_stream \<times> sc_storage \<times> 'db) option" where
  "keep_content db sha a cs st s d = do {
     let (_, len, st1) = sc_stream_get_length st;
     let n = (case len of Some l \<Rightarrow> l | None \<Rightarrow> 0);
     if unat n \<ge> SC_CHECKSUM_LEN then do {
       let s1 = set_el a (\<lambda>e. e\<lparr>el_type := el_type e AND NOT sc_flag_link_self_container\<rparr>) s;
       (res, st2, d1) \<leftarrow> sc_fs_storage_write_content db a cs st1 d;
       Some (res, st2, set_el a (\<lambda>e. e\<lparr>content := cs @ drop (length cs) (content e)\<rparr>) s1, d1)
     }
     else do {
       let s1 = set_el a (\<lambda>e. e\<lparr>el_type := el_type e OR sc_flag_link_self_container\<rparr>) s;
       let s2 = set_el a (\<lambda>e. e\<lparr>content := (content e)[0 := ucast n]\<rparr>) s1;
       (st2, s3) \<leftarrow> copy_content a n st1 s2;
       (sum, st3) \<leftarrow> sc_link_calculate_checksum sha st2;
       c \<leftarrow> sum;
       (_, d1) \<leftarrow> sc_fs_storage_add_content_addr db a c d;
       Some (SC_RESULT_OK, st3, s3, d1)
     }
   }"

definition sc_storage_set_link_content ::
    "'db rocksdb \<Rightarrow> (bytes \<Rightarrow> bytes) \<Rightarrow> sc_memory_context \<Rightarrow> sc_addr \<Rightarrow> sc_stream \<Rightarrow> sc_storage \<Rightarrow> 'db \<Rightarrow>
     (sc_result \<times> sc_stream \<times> sc_storage \<times> 'db) option" where
  "sc_storage_set_link_content db sha ctx a st s d = do {
     (r, s1) \<leftarrow> sc_storage_element_lock a s;
     if r \<noteq> SC_RESULT_OK then Some (SC_RESULT_ERROR, st, s1, d)
     else do {
       let el = el_at s1 a;
       let access_lvl = el_access el;
       if \<not> sc_element_is_valid el then do {
         (_, s2) \<leftarrow> sc_storage_element_unlock a s1;
         Some (SC_RESULT_ERROR_INVALID_STATE, st, s2, d)
       }
       else if \<not> sc_access_lvl_check_write (ctx_access ctx) access_lvl then do {
         (_, s2) \<leftarrow> sc_storage_element_unlock a s1;
         Some (SC_RESULT_ERROR_NO_WRITE_RIGHTS, st, s2, d)
       }
       else if el_type el AND sc_type_link = 0 then do {
         (_, s2) \<leftarrow> sc_storage_element_unlock a s1;
         Some (SC_RESULT_ERROR_INVALID_TYPE, st, s2, d)
       }
       else do {
         d1 \<leftarrow> forget_content db sha a el d;
         (cs, st1) \<leftarrow> sc_link_calculate_checksum sha st;
         (result, st2, s2, d2) \<leftarrow> (case cs of
             None \<Rightarrow> Some (SC_RESULT_ERROR, st1, s1, d1)
           | Some c \<Rightarrow> keep_content db sha a c st1 s1 d1);
         g_assert (result = SC_RESULT_OK);
         let s3 = ext_call (SC_EVENT_EMIT a access_lvl SC_EVENT_CONTENT_CHANGED SC_ADDR_MAKE_EMPTY SC_ADDR_MAKE_EMPTY) s2;
         (_, s4) \<leftarrow> sc_storage_element_unlock a s3;
         Some (result, st2, s4, d2)
       }
     }
   }"

definition read_content ::
    "'db rocksdb \<Rightarrow> sc_element \<Rightarrow> 'db \<Rightarrow> (sc_result \<times> sc_stream option) option" where
  "read_content db el d =
     (if el_type el AND sc_flag_link_self_container \<noteq> 0 then do {
        let len = content el ! 0;
        if len \<noteq> 0 then do {
          g_assert (unat len < SC_CHECKSUM_LEN);
          st \<leftarrow> sc_stream_memory_new (Some (take (unat len) (drop 1 (content el)))) (ucast len) SC_STREAM_FLAG_READ True;
          Some (SC_RESULT_OK, st)
        }
        else Some (SC_RESULT_OK, None)
      }
      else sc_fs_storage_get_checksum_content db (take SC_CHECKSUM_LEN (content el)) d)"

definition sc_storage_get_link_content ::
    "'db rocksdb \<Rightarrow> sc_memory_context \<Rightarrow> sc_addr \<Rightarrow> sc_storage \<Rightarrow> 'db \<Rightarrow>
     (sc_result \<times> sc_stream option \<times> sc_storage) option" where
  "sc_storage_get_link_content db ctx a s d = do {
     (r, s1) \<leftarrow> sc_storage_element_lock a s;
     if r \<noteq> SC_RESULT_OK then Some (SC_RESULT_ERROR, None, s1)
     else do {
       let el = el_at s1 a;
       (res, st) \<leftarrow>
         (if \<not> sc_element_is_valid el then Some (SC_RESULT_ERROR_INVALID_STATE, None)
          else if \<not> sc_access_lvl_check_read (ctx_access ctx) (el_access el) then Some (SC_RESULT_ERROR_NO_READ_RIGHTS, None)
          else if el_type el AND sc_type_link = 0 then Some (SC_RESULT_ERROR_INVALID_TYPE, None)
          else read_content db el d);
       (_, s2) \<leftarrow> sc_storage_element_unlock a s1;
       Some (res, st, s2)
     }
   }"

fun readable_links ::
    "sc_memory_context \<Rightarrow> sc_addr list \<Rightarrow> sc_addr list \<Rightarrow> sc_storage \<Rightarrow> (bool \<times> sc_addr list \<times> sc_storage) option" where
  "readable_links ctx [] passed s = Some (True, passed, s)"
| "readable_links ctx (a # as) passed s = do {
     (r, s1) \<leftarrow> sc_storage_element_lock a s;
     if r \<noteq> SC_RESULT_OK then Some (False, passed, s1)
     else do {
       let passed1 = (if sc_access_lvl_check_read (ctx_access ctx) (el_access (el_at s1 a)) then passed @ [a] else passed);
       (_, s2) \<leftarrow> sc_storage_element_unlock a s1;
       readable_links ctx as passed1 s2
     }
   }"

text \<open>
  The result is the code, the array (if there is one) and the number of its entries. After a
  failed lock the array is freed and the number is not reset.
\<close>

definition sc_storage_find_links_with_content ::
    "'db rocksdb \<Rightarrow> (bytes \<Rightarrow> bytes) \<Rightarrow> sc_memory_context \<Rightarrow> sc_stream \<Rightarrow> sc_storage \<Rightarrow> 'db \<Rightarrow>
     (sc_result \<times> sc_addr list option \<times> nat \<times> sc_stream \<times> sc_storage) option" where
  "sc_storage_find_links_with_content db sha ctx st s d = do {
     (cs, st1) \<leftarrow> sc_link_calculate_checksum sha st;
     (case cs of
        None \<Rightarrow> Some (SC_RESULT_ERROR, None, 0, st1, s)
      | Some c \<Rightarrow> do {
          (r, tmp) \<leftarrow> sc_fs_storage_find_links_with_content db c d;
          if r = SC_RESULT_OK \<and> length tmp > 0 then do {
            (ok, passed, s1) \<leftarrow> readable_links ctx tmp [] s;
            if \<not> ok then Some (SC_RESULT_ERROR, None, length passed, st1, s1)
            else if passed = [] then Some (SC_RESULT_ERROR_NOT_FOUND, None, 0, st1, s1)
            else Some (r, Some passed, length passed, st1, s1)
          }
          else Some (r, None, 0, st1, s)
        })
   }"

subsection \<open>Setting a content\<close>

definition stored_in_cell :: "sc_element \<Rightarrow> bool" where
  "stored_in_cell el \<longleftrightarrow> el_type el AND sc_flag_link_self_container \<noteq> 0"

definition link_ok :: "sc_element \<Rightarrow> bool" where
  "link_ok el \<longleftrightarrow> length (content el) = SC_CHECKSUM_LEN \<and>
     (stored_in_cell el \<longrightarrow> unat (content el ! 0) < SC_CHECKSUM_LEN)"

definition no_content :: "sc_element \<Rightarrow> bool" where
  "no_content el \<longleftrightarrow> (\<forall>b \<in> set (content el). b = 0)"

definition old_sum :: "(bytes \<Rightarrow> bytes) \<Rightarrow> sc_element \<Rightarrow> bytes" where
  "old_sum sha el = (if stored_in_cell el
     then take SC_CHECKSUM_LEN (sha (take (unat (content el ! 0)) (drop 1 (content el))))
     else content el)"

definition sum_of :: "(bytes \<Rightarrow> bytes) \<Rightarrow> bytes \<Rightarrow> bytes" where
  "sum_of sha v = take SC_CHECKSUM_LEN (sha v)"

lemma memory_sub_ok:
  assumes "unat n \<le> length d"
  shows "\<exists>s. sc_stream_memory_new (Some d) n SC_STREAM_FLAG_READ owner = Some (Some s) \<and> stream_ok s \<and>
     whole s = take (unat n) d \<and> at_pos s = 0"
proof -
  have "unat n < 2 ^ 32" using unsigned_less [of n, where ?'a = nat] by simp
  then show ?thesis
    using assms
    by (simp add: sc_stream_memory_new_def stream_flag_defs stream_ok_def whole_def at_pos_def sc_stream_check_flag_def min_def)
qed

lemma link_checksum_ok:
  assumes "link_ok el"
  shows "link_checksum sha el = Some (old_sum sha el)"
proof (cases "stored_in_cell el")
  case False
  then show ?thesis using assms by (simp add: link_checksum_def old_sum_def stored_in_cell_def link_ok_def)
next
  case True
  let ?n = "ucast (content el ! 0) :: u32"
  have "unat (content el ! 0) < 2 ^ 8" using unsigned_less [of "content el ! 0", where ?'a = nat] by simp
  then have n: "unat ?n = unat (content el ! 0)" by (simp add: unsigned_ucast_eq take_bit_eq_mod)
  have "unat ?n \<le> length (drop 1 (content el))"
    using assms True n by (simp add: link_ok_def SC_CHECKSUM_LEN_def)
  then obtain s where s: "sc_stream_memory_new (Some (drop 1 (content el))) ?n SC_STREAM_FLAG_READ False = Some (Some s)"
    "stream_ok s" "whole s = take (unat ?n) (drop 1 (content el))" using memory_sub_ok by blast
  then obtain s' where "sc_link_calculate_checksum sha s = Some (Some (take SC_CHECKSUM_LEN (sha (whole s))), s')"
    using checksum_ok by blast
  then show ?thesis
    using True s n by (simp add: link_checksum_def sc_link_self_container_calculate_checksum_def old_sum_def stored_in_cell_def)
qed

definition index_forget :: "(bytes \<Rightarrow> bytes) \<Rightarrow> sc_addr \<Rightarrow> sc_element \<Rightarrow> fm_index \<Rightarrow> fm_index" where
  "index_forget sha a el x =
     (if no_content el \<or> links_of x (old_sum sha el) = [] then x else index_remove a (old_sum sha el) x)"

lemma forget_content_ok:
  assumes "rocks_ok db" "fm_wf db d" "link_ok el" "el_type el AND sc_type_link \<noteq> 0"
  shows "\<exists>d'. forget_content db sha a el d = Some d' \<and> fm_wf db d' \<and>
     fm_abs db d' = index_forget sha a el (fm_abs db d)"
proof -
  have "sc_element_is_checksum_empty el = Some (no_content el)"
    using assms(3,4) by (simp add: sc_element_is_checksum_empty_def no_content_def link_ok_def)
  then show ?thesis
    using fm_remove_refines [OF assms(1,2), of a "old_sum sha el"] link_checksum_ok [OF assms(3)] assms(2)
    by (auto simp: forget_content_def index_forget_def sc_fs_storage_remove_content_addr_def)
qed

lemma set_el_set_el: "set_el a f (set_el a g s) = set_el a (\<lambda>e. f (g e)) s"
  by (simp add: set_el_def put_segment_def split: option.split)

lemma unlock_ext_call:
  "sc_storage_element_unlock a (ext_call c s) = map_option (map_prod id (ext_call c)) (sc_storage_element_unlock a s)"
  by (simp add: sc_storage_element_unlock_def ext_call_def put_segment_def split: option.split Option.bind_split)

lemma set_el_cong: "has_cell s a \<Longrightarrow> f (el_at s a) = g (el_at s a) \<Longrightarrow> set_el a f s = set_el a g s"
  by (auto elim!: has_cellE simp: set_el_def el_at_def)

text \<open>The cell of a link after its content was set, and the index.\<close>

definition new_cell :: "(bytes \<Rightarrow> bytes) \<Rightarrow> bytes \<Rightarrow> sc_element \<Rightarrow> sc_element" where
  "new_cell sha v e = (if length v \<ge> SC_CHECKSUM_LEN
     then e\<lparr>el_type := el_type e AND NOT sc_flag_link_self_container, content := sum_of sha v\<rparr>
     else e\<lparr>el_type := el_type e OR sc_flag_link_self_container,
            content := of_nat (length v) # v @ drop (Suc (length v)) (content e)\<rparr>)"

definition index_keep :: "(bytes \<Rightarrow> bytes) \<Rightarrow> sc_addr \<Rightarrow> bytes \<Rightarrow> fm_index \<Rightarrow> fm_index" where
  "index_keep sha a v x = index_add a (sum_of sha v)
     (if length v \<ge> SC_CHECKSUM_LEN then index_store (sum_of sha v) v x else x)"

lemma write_content_ok:
  assumes db: "rocks_ok db" and wf: "fm_wf db d" and st: "stream_ok st"
    and room: "length (links_of (fm_abs db d) cs) < 2 ^ 64 - 1"
  shows "\<exists>st' d'. sc_fs_storage_write_content db a cs st d = Some (SC_RESULT_OK, st', d') \<and> fm_wf db d' \<and>
     stream_ok st' \<and> same_stream st st' \<and> fm_abs db d' = index_add a cs (index_store cs (whole st) (fm_abs db d))"
proof -
  obtain st1 d1 where w: "sc_fm_write_stream db cs st d = Some (SC_RESULT_OK, st1, d1)" "stream_ok st1"
    "same_stream st st1" "rocks_get db d1 = (rocks_get db d)(MakeContentKey cs \<mapsto> whole st)"
    using write_stream_ok [OF db st] by blast
  have d1: "fm_wf db d1" "fm_abs db d1 = index_store cs (whole st) (fm_abs db d)"
    using wf w(4) by (auto simp: fm_wf_def fm_abs_def index_store_def fun_eq_iff)
  then have "length (links_of (fm_abs db d1) cs) < 2 ^ 64 - 1" using room by (simp add: index_store_def)
  then obtain d2 where d2: "sc_fm_addr_ref_append db a cs d1 = Some (SC_RESULT_OK, d2)" "fm_wf db d2"
    "fm_abs db d2 = index_add a cs (fm_abs db d1)" using fm_append_refines [OF db d1(1)] by blast
  obtain st2 where "sc_stream_seek SC_STREAM_SEEK_SET 0 st1 = (SC_RESULT_OK, st2)" "stream_ok st2" "same_stream st1 st2"
    using seek_start [OF w(2)] by blast
  then show ?thesis
    using w(1,3) d2 d1(2) same_stream_trans
    by (auto simp: sc_fs_storage_write_content_def sc_fs_storage_add_content_addr_def)
qed

lemma copy_content_ok:
  assumes st: "stream_ok st" "at_pos st = 0"
    and cell: "has_cell s a" "length (content (el_at s a)) = SC_CHECKSUM_LEN" and short: "length (whole st) < SC_CHECKSUM_LEN"
  shows "\<exists>st'. copy_content a (of_nat (length (whole st))) st
       (set_el a (\<lambda>e. e\<lparr>content := (content e)[0 := ucast (of_nat (length (whole st)) :: u32)]\<rparr>)
         (set_el a (\<lambda>e. e\<lparr>el_type := el_type e OR sc_flag_link_self_container\<rparr>) s)) =
     Some (st', set_el a (new_cell sha (whole st)) s) \<and> stream_ok st' \<and> same_stream st st'"
proof -
  let ?v = "whole st" and ?n = "of_nat (length (whole st)) :: u32"
  have l: "length ?v < 32" using short by (simp add: SC_CHECKSUM_LEN_def)
  then have n: "unat ?n = length ?v" by (simp add: unat_of_nat)
  have u: "(ucast ?n :: u8) = of_nat (length ?v)"
    using l n by (simp add: word_unat_eq_iff unat_of_nat unsigned_ucast_eq take_bit_eq_mod)
  obtain x xs where x: "content (el_at s a) = x # xs" using cell(2) by (cases "content (el_at s a)") (auto simp: SC_CHECKSUM_LEN_def)
  have eq: "set_el a (\<lambda>e. e\<lparr>content := take 1 (content e) @ ?v @ drop (Suc (length ?v)) (content e)\<rparr>)
       (set_el a (\<lambda>e. e\<lparr>content := (content e)[0 := ucast ?n]\<rparr>)
         (set_el a (\<lambda>e. e\<lparr>el_type := el_type e OR sc_flag_link_self_container\<rparr>) s)) = set_el a (new_cell sha ?v) s"
    unfolding set_el_set_el by (rule set_el_cong [OF cell(1)]) (use short x u in \<open>simp add: new_cell_def\<close>)
  show ?thesis
  proof (cases "?v = []")
    case True
    then show ?thesis using st eq by (simp add: copy_content_def set_el_set_el) 
  next
    case False
    then have "?n > 0" using n by (metis length_greater_0_conv unat_gt_0 word_neq_0_conv)
    moreover have "rest st = ?v" using st(2) by (simp add: rest_def)
    moreover have "\<not> sc_stream_eof st" using stream.rest_eof [OF st(1)] calculation(2) False by auto
    then obtain st1 where "sc_stream_read_data ?n st = Some (SC_RESULT_OK, take (unat ?n) (rest st), st1)"
      "stream_ok st1" "same_stream st st1" using stream.read_block [OF st(1), of ?n] by blast
    ultimately show ?thesis using eq n by (simp add: copy_content_def)
  qed
qed

lemma keep_content_ok:
  assumes db: "rocks_ok db" and wf: "fm_wf db d" and st: "stream_ok st" "at_pos st = 0"
    and cell: "has_cell s a" "length (content (el_at s a)) = SC_CHECKSUM_LEN"
    and sha: "sha_ok sha" and room: "length (links_of (fm_abs db d) (sum_of sha (whole st))) < 2 ^ 64 - 1"
  shows "\<exists>st' d'. keep_content db sha a (sum_of sha (whole st)) st s d =
       Some (SC_RESULT_OK, st', set_el a (new_cell sha (whole st)) s, d') \<and> fm_wf db d' \<and>
     stream_ok st' \<and> same_stream st st' \<and> fm_abs db d' = index_keep sha a (whole st) (fm_abs db d)"
proof -
  let ?v = "whole st" and ?cs = "sum_of sha (whole st)"
  let ?n = "of_nat (length ?v) :: u32"
  have n: "unat ?n = length ?v" using st(1) by (auto simp: stream_ok_def unat_of_nat intro!: mod_less)
  have cs: "length ?cs = SC_CHECKSUM_LEN" using sha by (simp add: sum_of_def sha_ok_def)
  obtain st1 where st1: "sc_stream_get_length st = (SC_RESULT_OK, Some ?n, st1)" "stream_ok st1"
    "same_stream st st1" "at_pos st1 = 0" using get_length_ok [OF st(1)] st(2) by auto
  have v1: "whole st1 = ?v" using st1(3) by (simp add: same_stream_def)
  show ?thesis
  proof (cases "length ?v \<ge> SC_CHECKSUM_LEN")
    case True
    obtain st2 d2 where w: "sc_fs_storage_write_content db a ?cs st1 d = Some (SC_RESULT_OK, st2, d2)" "fm_wf db d2"
      "stream_ok st2" "same_stream st1 st2" "fm_abs db d2 = index_add a ?cs (index_store ?cs ?v (fm_abs db d))"
      using write_content_ok [OF db wf st1(2) room] v1 by metis
    have "set_el a (\<lambda>e. e\<lparr>content := ?cs @ drop (length ?cs) (content e)\<rparr>)
        (set_el a (\<lambda>e. e\<lparr>el_type := el_type e AND NOT sc_flag_link_self_container\<rparr>) s) = set_el a (new_cell sha ?v) s"
      unfolding set_el_set_el by (rule set_el_cong [OF cell(1)]) (use True cs cell(2) in \<open>simp add: new_cell_def\<close>)
    then show ?thesis
      using True n st1(1,3) w same_stream_trans
      by (auto simp: keep_content_def index_keep_def)
  next
    case False
    obtain st2 where st2: "copy_content a ?n st1 (set_el a (\<lambda>e. e\<lparr>content := (content e)[0 := ucast ?n]\<rparr>)
        (set_el a (\<lambda>e. e\<lparr>el_type := el_type e OR sc_flag_link_self_container\<rparr>) s)) =
        Some (st2, set_el a (new_cell sha ?v) s)" "stream_ok st2" "same_stream st1 st2"
      using copy_content_ok [OF st1(2,4) cell, of sha] False v1 by auto
    obtain st3 where st3: "sc_link_calculate_checksum sha st2 = Some (Some ?cs, st3)" "stream_ok st3" "same_stream st2 st3"
      using checksum_ok [OF st2(2), of sha] st2(3) v1 by (auto simp: sum_of_def same_stream_def)
    obtain d2 where d2: "sc_fm_addr_ref_append db a ?cs d = Some (SC_RESULT_OK, d2)" "fm_wf db d2"
      "fm_abs db d2 = index_add a ?cs (fm_abs db d)" using fm_append_refines [OF db wf room] by blast
    have "same_stream st st3" using st1(3) st2(3) st3(3) same_stream_trans by blast
    then show ?thesis
      using False n st1(1) st2(1) st3 d2
      by (simp add: keep_content_def index_keep_def sc_fs_storage_add_content_addr_def)
  qed
qed

end
