(* ===== verification/Sc_Link_Props.thy ===== *)
theory Sc_Link_Props
  imports Sc_Link
begin

text \<open>
  Contents are read back as they were written, searches find them, and what happens on the
  other branches; and why an empty content leaves a stale entry in the index.
\<close>

definition settable :: "sc_memory_context \<Rightarrow> sc_addr \<Rightarrow> sc_storage \<Rightarrow> bool" where
  "settable ctx a s \<longleftrightarrow> storage_ok s \<and> has_cell s a \<and> sc_element_is_valid (el_at s a) \<and>
     sc_access_lvl_check_write (ctx_access ctx) (el_access (el_at s a)) \<and>
     el_type (el_at s a) AND sc_type_link \<noteq> 0 \<and> link_ok (el_at s a)"

definition content_event :: "sc_addr \<Rightarrow> sc_storage \<Rightarrow> sc_storage" where
  "content_event a s = ext_call (SC_EVENT_EMIT a (el_access (el_at s a)) SC_EVENT_CONTENT_CHANGED
     SC_ADDR_MAKE_EMPTY SC_ADDR_MAKE_EMPTY) s"

lemma set_link_content_ok:
  assumes db: "rocks_ok db" and wf: "fm_wf db d" and st: "stream_ok st" and s: "settable ctx a s"
    and sha: "sha_ok sha" and room: "\<forall>cs. length (links_of (fm_abs db d) cs) < 2 ^ 64 - 1"
  shows "\<exists>st' d'. sc_storage_set_link_content db sha ctx a st s d =
       Some (SC_RESULT_OK, st', content_event a (set_el a (new_cell sha (whole st)) s), d') \<and> fm_wf db d' \<and>
     fm_abs db d' = index_keep sha a (whole st) (index_forget sha a (el_at s a) (fm_abs db d))"
proof -
  note c = s [unfolded settable_def]
  let ?s1 = "lock_cell a s"
  have b: "sc_storage_element_lock a s = Some (SC_RESULT_OK, ?s1)" "el_at ?s1 a = el_at s a"
    using c bracket(1,2) by auto
  obtain d1 where d1: "forget_content db sha a (el_at s a) d = Some d1" "fm_wf db d1"
    "fm_abs db d1 = index_forget sha a (el_at s a) (fm_abs db d)"
    using forget_content_ok [OF db wf] c by blast
  obtain st1 where st1: "sc_link_calculate_checksum sha st = Some (Some (sum_of sha (whole st)), st1)" "stream_ok st1"
    "same_stream st st1" "at_pos st1 = 0" using checksum_ok [OF st, of sha] by (auto simp: sum_of_def)
  have w: "whole st1 = whole st" using st1(3) by (simp add: same_stream_def)
  have "length (links_of (fm_abs db d1) cs) \<le> length (links_of (fm_abs db d) cs)" for cs
    unfolding d1(3) by (simp add: index_forget_def index_remove_def Let_def length_remove1)
  then have room1: "length (links_of (fm_abs db d1) (sum_of sha (whole st1))) < 2 ^ 64 - 1"
    using room le_less_trans by blast
  have cell1: "has_cell ?s1 a" "length (content (el_at ?s1 a)) = SC_CHECKSUM_LEN"
    using c b(2) by (simp_all add: sc_state link_ok_def)
  obtain st2 d2 where k: "keep_content db sha a (sum_of sha (whole st1)) st1 ?s1 d1 =
      Some (SC_RESULT_OK, st2, set_el a (new_cell sha (whole st1)) ?s1, d2)" "fm_wf db d2"
    "fm_abs db d2 = index_keep sha a (whole st1) (fm_abs db d1)"
    using keep_content_ok [OF db d1(2) st1(2,4) cell1 sha room1] by blast
  have un: "sc_storage_element_unlock a (set_el a (new_cell sha (whole st)) ?s1) =
      Some (SC_RESULT_OK, set_el a (new_cell sha (whole st)) s)"
    using c by (simp add: bracket)
  have acc: "el_access (el_at (set_el a (new_cell sha (whole st)) s) a) = el_access (el_at s a)"
    using c by (simp add: sc_state new_cell_def)
  show ?thesis
    using c b d1 st1(1) k w un acc
    by (simp add: sc_storage_set_link_content_def Let_def unlock_ext_call content_event_def)
qed

subsection \<open>Reading back\<close>

lemma flags_apart:
  "sc_flag_link_self_container AND sc_type_link = 0" "sc_flag_link_self_container AND sc_flag_request_deletion = 0"
  "sc_flag_link_self_container \<noteq> 0"
  by (simp_all add: sc_bits)

lemma and_not_and:
  fixes t f m :: "'a::len word"
  assumes "f AND m = 0"
  shows "(t AND NOT f) AND m = t AND m" "(t OR f) AND m = t AND m"
proof -
  have "\<not> (bit f n \<and> bit m n)" for n using assms bit_and_iff [of f m n] by simp
  then show "(t AND NOT f) AND m = t AND m" "(t OR f) AND m = t AND m"
    by (auto intro!: bit_word_eqI simp: bit_simps)
qed

lemma new_cell_type:
  "el_type (new_cell sha v e) AND sc_type_link = el_type e AND sc_type_link"
  "el_type (new_cell sha v e) AND sc_flag_request_deletion = el_type e AND sc_flag_request_deletion"
  "stored_in_cell (new_cell sha v e) \<longleftrightarrow> length v < SC_CHECKSUM_LEN"
  "el_access (new_cell sha v e) = el_access e"
proof -
  show "el_type (new_cell sha v e) AND sc_type_link = el_type e AND sc_type_link"
    "el_type (new_cell sha v e) AND sc_flag_request_deletion = el_type e AND sc_flag_request_deletion"
    "el_access (new_cell sha v e) = el_access e"
    using flags_apart by (simp_all add: new_cell_def and_not_and)
  show "stored_in_cell (new_cell sha v e) \<longleftrightarrow> length v < SC_CHECKSUM_LEN"
    using flags_apart(3) by (simp add: new_cell_def stored_in_cell_def and.assoc)
qed

lemma new_cell_ok:
  assumes "link_ok e" and "sha_ok sha"
  shows "link_ok (new_cell sha v e)"
  using assms new_cell_type(3) [of sha v e]
  by (auto simp: link_ok_def new_cell_def sum_of_def sha_ok_def SC_CHECKSUM_LEN_def unat_of_nat)

lemma settable_after:
  assumes s: "settable ctx a s" and sha: "sha_ok sha"
  shows "settable ctx a (content_event a (set_el a (new_cell sha v) s))"
    "el_at (content_event a (set_el a (new_cell sha v) s)) a = new_cell sha v (el_at s a)"
proof -
  note c = s [unfolded settable_def]
  let ?s = "set_el a (new_cell sha v) s"
  have e: "el_at ?s a = new_cell sha v (el_at s a)" using c by (simp add: sc_state)
  then show "el_at (content_event a ?s) a = new_cell sha v (el_at s a)" by (simp add: content_event_def sc_state)
  have t: "el_type (new_cell sha v (el_at s a)) \<noteq> 0" using c new_cell_type(1) [of sha v "el_at s a"] by auto
  have "storage_ok ?s" using c t by (intro storage_ok_set_typed) (auto simp: sc_element_is_valid_def)
  then show "settable ctx a (content_event a ?s)"
    using c e t new_cell_type [of sha v "el_at s a"] new_cell_ok [OF _ sha, of "el_at s a" v]
    by (simp add: settable_def content_event_def sc_state sc_element_is_valid_def)
qed

lemma get_link_content_ok:
  assumes "settable ctx a s" and "sc_access_lvl_check_read (ctx_access ctx') (el_access (el_at s a))"
    and "read_content db (el_at s a) d = Some (r, st)"
  shows "sc_storage_get_link_content db ctx' a s d = Some (r, st, s)"
  using assms
  by (simp add: sc_storage_get_link_content_def settable_def bracket Let_def)

lemma read_new_cell:
  assumes c: "length v \<ge> SC_CHECKSUM_LEN \<Longrightarrow> content_of (fm_abs db d) (sum_of sha v) = Some v"
    and e: "link_ok e" and sha: "sha_ok sha" and v: "length v < 2 ^ 32"
  shows "\<exists>st. read_content db (new_cell sha v e) d = Some (SC_RESULT_OK, st) \<and>
     (if v = [] then st = None else \<exists>s. st = Some s \<and> stream_ok s \<and> whole s = v \<and> at_pos s = 0)"
proof (cases "length v < SC_CHECKSUM_LEN")
  case True
  then have l: "length v < 32" by (simp add: SC_CHECKSUM_LEN_def)
  let ?b = "of_nat (length v) :: u8"
  have n: "unat ?b = length v" "unat (ucast ?b :: u32) = length v"
    using l by (simp_all add: unat_of_nat unsigned_ucast_eq take_bit_eq_mod)
  have f: "el_type (new_cell sha v e) AND sc_flag_link_self_container \<noteq> 0"
    using new_cell_type(3) [of sha v e] True by (simp add: stored_in_cell_def)
  have ct: "content (new_cell sha v e) = ?b # v @ drop (Suc (length v)) (content e)"
    using True by (simp add: new_cell_def)
  have z: "?b = 0 \<longleftrightarrow> v = []" using n(1) by (metis length_0_conv unat_eq_zero)
  show ?thesis
    using memory_new_ok [of v "ucast ?b" True] f ct n z True by (auto simp: read_content_def Let_def)
next
  case False
  let ?n = "of_nat (length v) :: u32"
  have n: "unat ?n = length v" using v by (simp add: unat_of_nat)
  have f: "el_type (new_cell sha v e) AND sc_flag_link_self_container = 0"
    using new_cell_type(3) [of sha v e] False by (simp add: stored_in_cell_def)
  have ct: "take SC_CHECKSUM_LEN (content (new_cell sha v e)) = sum_of sha v"
    using False by (simp add: new_cell_def sum_of_def)
  have "v \<noteq> []" using False by (auto simp: SC_CHECKSUM_LEN_def)
  moreover have "rocks_get db d (MakeContentKey (sum_of sha v)) = Some v" using c False by (simp add: fm_abs_def)
  ultimately show ?thesis
    using memory_new_ok [of v ?n True] f ct n
    by (auto simp: read_content_def sc_fs_storage_get_checksum_content_def sc_fm_read_stream_new_def)
qed

text \<open>
  C6. On a valid, writable link \<^verbatim>\<open>sc_storage_set_link_content\<close> returns, whatever the length
  of the stream; \<^verbatim>\<open>sc_storage_get_link_content\<close> by anybody who may read the link then
  yields a stream with exactly the bytes that were written (no stream for the empty
  content) and changes nothing. Setting touches only the cell of the link and announces it
  with one event.
\<close>

theorem link_content_roundtrip:
  assumes "rocks_ok db" and "fm_wf db d" and "sha_ok sha" and "stream_ok st" and "settable ctx a s"
    and "\<forall>cs. length (links_of (fm_abs db d) cs) < 2 ^ 64 - 1"
    and "sc_access_lvl_check_read (ctx_access ctx') (el_access (el_at s a))"
  shows "\<exists>st' s' d' out. sc_storage_set_link_content db sha ctx a st s d = Some (SC_RESULT_OK, st', s', d') \<and>
     s' = content_event a (set_el a (new_cell sha (whole st)) s) \<and>
     sc_storage_get_link_content db ctx' a s' d' = Some (SC_RESULT_OK, out, s') \<and>
     (if whole st = [] then out = None else \<exists>r. out = Some r \<and> stream_ok r \<and> whole r = whole st \<and> at_pos r = 0)"
proof -
  let ?s = "content_event a (set_el a (new_cell sha (whole st)) s)"
  obtain st' d' where set: "sc_storage_set_link_content db sha ctx a st s d = Some (SC_RESULT_OK, st', ?s, d')"
    "fm_abs db d' = index_keep sha a (whole st) (index_forget sha a (el_at s a) (fm_abs db d))"
    using set_link_content_ok [OF assms(1,2,4,5,3,6)] by blast
  note after = settable_after [OF assms(5,3), of "whole st"]
  have "link_ok (el_at s a)" using assms(5) by (simp add: settable_def)
  moreover have "length (whole st) < 2 ^ 32" using assms(4) by (simp add: stream_ok_def)
  ultimately obtain out where out: "read_content db (new_cell sha (whole st) (el_at s a)) d' = Some (SC_RESULT_OK, out)"
    "if whole st = [] then out = None else \<exists>r. out = Some r \<and> stream_ok r \<and> whole r = whole st \<and> at_pos r = 0"
    using read_new_cell [of "whole st" db d' sha "el_at s a"] set(2) assms(3)
    by (auto simp: index_keep_def index_store_def index_add_def)
  have "sc_storage_get_link_content db ctx' a ?s d' = Some (SC_RESULT_OK, out, ?s)"
    by (rule get_link_content_ok [OF after(1)])
       (use after(2) assms(7) out(1) in \<open>simp_all add: new_cell_type\<close>)
  with set(1) out(2) show ?thesis by blast
qed

definition byte_stream :: "bytes \<Rightarrow> sc_stream" where
  "byte_stream v = \<lparr>handler = Memory \<lparr>buf_data = v, buf_size = of_nat (length v), buf_pos = 0, data_owner = False\<rparr>,
     stream_flags = 25\<rparr>"

lemma byte_stream_ok:
  assumes "length v < 2 ^ 32"
  shows "stream_ok (byte_stream v)" "whole (byte_stream v) = v"
  using assms
  by (simp_all add: byte_stream_def stream_ok_def whole_def at_pos_def sc_stream_check_flag_def stream_flag_defs unat_of_nat)

definition some_sha :: "bytes \<Rightarrow> bytes" where
  "some_sha v = (if v = [] then replicate 64 0x61 else replicate 64 0x62)"

lemma some_sha_ok: "sha_ok some_sha"
  by (simp add: sha_ok_def some_sha_def SC_CHECKSUM_LEN_def)

lemma sample_settable: "settable sample_ctx sample_link sample" "no_content (el_at sample sample_link)"
proof -
  have e: "el_at sample sample_link = zero_element\<lparr>el_type := sc_type_link OR sc_type_const\<rparr>"
    by (simp add: sample_el_at sample_element_def)
  show "settable sample_ctx sample_link sample"
    using sample_storage_ok sample_valid(3) sample_access(2) [of "ctx_access sample_ctx" sample_link]
      sample_members(4)
    by (simp add: settable_def live_def link_ok_def e) (simp add: zero_element_def SC_CHECKSUM_LEN_def sc_bits stored_in_cell_def)
  show "no_content (el_at sample sample_link)"
    unfolding e by (simp add: no_content_def zero_element_def)
qed

theorem link_content_roundtrip_witness:
  "\<exists>st' s' d' out. sc_storage_set_link_content map_db some_sha sample_ctx sample_link (byte_stream [1, 2, 3]) sample Map.empty =
       Some (SC_RESULT_OK, st', s', d') \<and>
     sc_storage_get_link_content map_db sample_ctx sample_link s' d' = Some (SC_RESULT_OK, Some out, s') \<and> whole out = [1, 2, 3]"
proof -
  have st: "stream_ok (byte_stream [1, 2, 3])" "whole (byte_stream [1, 2, 3]) = [1, 2, 3]"
    by (simp_all add: byte_stream_ok)
  from link_content_roundtrip [OF map_db_ok(1,2) some_sha_ok st(1) sample_settable(1) _ sample_access(1), of sample_ctx]
  show ?thesis using st(2) by (auto simp: map_db_ok(3))
qed

subsection \<open>Searching\<close>

lemma readable_links_ok:
  assumes "storage_ok s" and "\<forall>a \<in> set as. has_cell s a"
  shows "readable_links ctx as passed s = Some (True, passed @
     filter (\<lambda>a. sc_access_lvl_check_read (ctx_access ctx) (el_access (el_at s a))) as, s)"
  using assms(2)
proof (induction as arbitrary: passed)
  case (Cons a as)
  then show ?case using assms(1) by (simp add: bracket)
qed simp

lemma find_links_ok:
  assumes "fm_wf db d" and "stream_ok st" and "storage_ok s"
    and "\<forall>a \<in> set (links_of (fm_abs db d) (sum_of sha (whole st))). has_cell s a"
  shows "\<exists>st'. sc_storage_find_links_with_content db sha ctx st s d =
     (let l = links_of (fm_abs db d) (sum_of sha (whole st));
          r = filter (\<lambda>a. sc_access_lvl_check_read (ctx_access ctx) (el_access (el_at s a))) l
      in Some (if l = [] then (SC_RESULT_ERROR_IO, None, 0, st', s)
         else if r = [] then (SC_RESULT_ERROR_NOT_FOUND, None, 0, st', s)
         else (SC_RESULT_OK, Some r, length r, st', s))) \<and> stream_ok st' \<and> whole st' = whole st"
proof -
  obtain st1 where st1: "sc_link_calculate_checksum sha st = Some (Some (sum_of sha (whole st)), st1)"
    "stream_ok st1" "whole st1 = whole st"
    using checksum_ok [OF assms(2), of sha] by (auto simp: sum_of_def same_stream_def)
  define l where "l = links_of (fm_abs db d) (sum_of sha (whole st))"
  define r where "r = filter (\<lambda>a. sc_access_lvl_check_read (ctx_access ctx) (el_access (el_at s a))) l"
  have f: "sc_fs_storage_find_links_with_content db (sum_of sha (whole st)) d =
      Some (if l = [] then SC_RESULT_ERROR_IO else SC_RESULT_OK, l)"
    unfolding sc_fs_storage_find_links_with_content_def l_def by (rule fm_find_refines [OF assms(1)])
  have "readable_links ctx l [] s = Some (True, r, s)"
    using readable_links_ok [OF assms(3,4), of ctx "[]"] by (simp add: l_def r_def)
  with st1(1) f have "sc_storage_find_links_with_content db sha ctx st s d =
      Some (if l = [] then (SC_RESULT_ERROR_IO, None, 0, st1, s)
         else if r = [] then (SC_RESULT_ERROR_NOT_FOUND, None, 0, st1, s)
         else (SC_RESULT_OK, Some r, length r, st1, s))"
    by (cases "l = []"; cases "r = []") (simp_all add: sc_storage_find_links_with_content_def)
  then show ?thesis unfolding Let_def l_def r_def using st1(2,3) by blast
qed



text \<open>
  The entry of an empty content is never removed: a fresh link that is first given the
  empty content and then another one stays indexed under the checksum of the empty content,
  so that a search for the empty content returns a link whose content is not empty.
\<close>

theorem empty_content_stays_indexed:
  assumes "rocks_ok db" and "fm_wf db d" and "sha_ok sha" and "settable ctx a s" and "no_content (el_at s a)"
    and "stream_ok st0" and "whole st0 = []" and "stream_ok st1"
    and "\<forall>cs. length (links_of (fm_abs db d) cs) < 2 ^ 64 - 2"
  shows "\<exists>st0' s1 d1 st1' s2 d2. sc_storage_set_link_content db sha ctx a st0 s d = Some (SC_RESULT_OK, st0', s1, d1) \<and>
     sc_storage_set_link_content db sha ctx a st1 s1 d1 = Some (SC_RESULT_OK, st1', s2, d2) \<and>
     el_at s2 a = new_cell sha (whole st1) (el_at s1 a) \<and>
     a \<in> set (links_of (fm_abs db d2) (sum_of sha []))"
proof -
  let ?s1 = "content_event a (set_el a (new_cell sha (whole st0)) s)"
  have r0: "\<forall>cs. length (links_of (fm_abs db d) cs) < 2 ^ 64 - 1" using assms(9) by (auto intro: less_trans)
  obtain st0' d1 where one: "sc_storage_set_link_content db sha ctx a st0 s d = Some (SC_RESULT_OK, st0', ?s1, d1)"
    "fm_wf db d1" "fm_abs db d1 = index_keep sha a (whole st0) (index_forget sha a (el_at s a) (fm_abs db d))"
    using set_link_content_ok [OF assms(1,2,6,4,3) r0] by blast
  have x1: "fm_abs db d1 = index_add a (sum_of sha []) (fm_abs db d)"
    using one(3) assms(5,7) by (simp add: index_keep_def index_forget_def SC_CHECKSUM_LEN_def)
  note after = settable_after [OF assms(4,3), of "whole st0"]
  have "\<forall>cs. length (links_of (fm_abs db d1) cs) < 2 ^ 64 - 1"
    using assms(9) unfolding x1 by (auto simp: index_add_def intro: less_trans)
  from set_link_content_ok [OF assms(1) one(2) assms(8) after(1) assms(3) this]
  obtain st1' d2 where two: "sc_storage_set_link_content db sha ctx a st1 ?s1 d1 =
      Some (SC_RESULT_OK, st1', content_event a (set_el a (new_cell sha (whole st1)) ?s1), d2)"
    "fm_abs db d2 = index_keep sha a (whole st1) (index_forget sha a (el_at ?s1 a) (fm_abs db d1))" by blast
  have "no_content (el_at ?s1 a)"
    using assms(5,7) after(2) by (auto simp: no_content_def new_cell_def SC_CHECKSUM_LEN_def dest: in_set_dropD)
  then have "a \<in> set (links_of (fm_abs db d2) (sum_of sha []))"
    using two(2) x1 by (simp add: index_forget_def index_keep_def index_store_def index_add_def)
  then show ?thesis using one(1) two(1) settable_after(2) [OF after(1) assms(3), of "whole st1"] by blast
qed

theorem empty_content_stays_indexed_witness:
  "\<exists>st0' s1 d1 st1' s2 d2.
     sc_storage_set_link_content map_db some_sha sample_ctx sample_link (byte_stream []) sample Map.empty = Some (SC_RESULT_OK, st0', s1, d1) \<and>
     sc_storage_set_link_content map_db some_sha sample_ctx sample_link (byte_stream [1]) s1 d1 = Some (SC_RESULT_OK, st1', s2, d2) \<and>
     sample_link \<in> set (links_of (fm_abs map_db d2) (sum_of some_sha []))"
proof -
  have "stream_ok (byte_stream [])" "whole (byte_stream []) = []" "stream_ok (byte_stream [1])"
    by (simp_all add: byte_stream_ok)
  from empty_content_stays_indexed [OF map_db_ok(1,2) some_sha_ok sample_settable this]
  show ?thesis by (auto simp: map_db_ok(3))
qed

end
