(* ===== verification/Sc_Section_Lock.thy ===== *)
theory Sc_Section_Lock
  imports Sc_Segment
begin

text \<open>
  The recursive lock of a section (\<^verbatim>\<open>sc_segment_section_lock\<close>,
  \<^verbatim>\<open>sc_segment_section_lock_try\<close>, \<^verbatim>\<open>sc_segment_section_unlock\<close>) with any number of threads,
  interleaved at the granularity of the atomic operations of the code. The storage theories
  take each of the three calls as one step; this theory shows that they may: every atomic
  operation is either invisible or does what the whole call does.
\<close>

subsection \<open>Programs\<close>

datatype mode = Plain | Attempts nat nat

datatype pc =
    Idle
  | Exchange mode
  | Test_Free mode
  | Test_Own mode
  | Give_Back mode
  | Set_Thread mode
  | Count_Up mode
  | Release
  | Unlock_Exchange
  | Unlock_Assert
  | Count_Down
  | Clear_Thread

record lock_state =
  sec :: sc_segment_section
  at :: "thread \<Rightarrow> pc"
  depth :: "thread \<Rightarrow> nat"

definition go :: "thread \<Rightarrow> pc \<Rightarrow> lock_state \<Rightarrow> lock_state" where
  "go th p c = c\<lparr>at := (at c)(th := p)\<rparr>"

text \<open>After a failed exchange, and after finding the section owned by another thread.\<close>

definition after_busy :: "mode \<Rightarrow> pc" where
  "after_busy m = (case m of Plain \<Rightarrow> Exchange Plain
     | Attempts mx n \<Rightarrow> if mx < n then Idle else Exchange (Attempts mx (n + 1)))"

definition after_owned :: "mode \<Rightarrow> pc" where
  "after_owned m = (case m of Plain \<Rightarrow> Exchange Plain
     | Attempts mx n \<Rightarrow> if n + 1 \<ge> mx then Idle else Exchange (Attempts mx (n + 1)))"

text \<open>
  \<open>depth\<close> counts what a thread has locked and not unlocked; a thread calls
  \<^verbatim>\<open>sc_segment_section_unlock\<close> only for a lock it holds.
\<close>

inductive lock_step :: "lock_state \<Rightarrow> lock_state \<Rightarrow> bool" where
  call_lock: "at c th = Idle \<Longrightarrow> lock_step c (go th (Exchange Plain) c)"
| call_try: "at c th = Idle \<Longrightarrow> lock_step c (go th (Exchange (Attempts mx 0)) c)"
| exchange: "at c th = Exchange m \<Longrightarrow> internal_lock (sec c) = 0 \<Longrightarrow>
    lock_step c (go th (Test_Free m) (c\<lparr>sec := (sec c)\<lparr>internal_lock := 1\<rparr>\<rparr>))"
| exchange_fails: "at c th = Exchange m \<Longrightarrow> internal_lock (sec c) \<noteq> 0 \<Longrightarrow> lock_step c (go th (after_busy m) c)"
| test_free: "at c th = Test_Free m \<Longrightarrow>
    lock_step c (go th (if thread_lock (sec c) = None then Set_Thread m else Test_Own m) c)"
| test_own: "at c th = Test_Own m \<Longrightarrow>
    lock_step c (go th (if thread_lock (sec c) = Some th then Set_Thread m else Give_Back m) c)"
| give_back: "at c th = Give_Back m \<Longrightarrow>
    lock_step c (go th (after_owned m) (c\<lparr>sec := (sec c)\<lparr>internal_lock := 0\<rparr>\<rparr>))"
| set_thread: "at c th = Set_Thread m \<Longrightarrow>
    lock_step c (go th (Count_Up m) (c\<lparr>sec := (sec c)\<lparr>thread_lock := Some th\<rparr>\<rparr>))"
| count_up: "at c th = Count_Up m \<Longrightarrow>
    lock_step c (go th Release (c\<lparr>sec := (sec c)\<lparr>lock_count := lock_count (sec c) + 1\<rparr>,
      depth := (depth c)(th := depth c th + 1)\<rparr>))"
| release: "at c th = Release \<Longrightarrow> lock_step c (go th Idle (c\<lparr>sec := (sec c)\<lparr>internal_lock := 0\<rparr>\<rparr>))"
| call_unlock: "at c th = Idle \<Longrightarrow> depth c th > 0 \<Longrightarrow> lock_step c (go th Unlock_Exchange c)"
| unlock_exchange: "at c th = Unlock_Exchange \<Longrightarrow> internal_lock (sec c) = 0 \<Longrightarrow>
    lock_step c (go th Unlock_Assert (c\<lparr>sec := (sec c)\<lparr>internal_lock := 1\<rparr>\<rparr>))"
| unlock_assert: "at c th = Unlock_Assert \<Longrightarrow> thread_lock (sec c) = Some th \<Longrightarrow> lock_step c (go th Count_Down c)"
| count_down: "at c th = Count_Down \<Longrightarrow>
    lock_step c (go th (if lock_count (sec c) - 1 = 0 then Clear_Thread else Release)
      (c\<lparr>sec := (sec c)\<lparr>lock_count := lock_count (sec c) - 1\<rparr>, depth := (depth c)(th := depth c th - 1)\<rparr>))"
| clear_thread: "at c th = Clear_Thread \<Longrightarrow>
    lock_step c (go th Release (c\<lparr>sec := (sec c)\<lparr>thread_lock := None\<rparr>\<rparr>))"

inductive_cases lock_stepE: "lock_step c c'"

inductive lock_reachable :: "lock_state \<Rightarrow> bool" where
  init: "internal_lock s = 0 \<Longrightarrow> thread_lock s = None \<Longrightarrow> lock_count s = 0 \<Longrightarrow>
    lock_reachable \<lparr>sec = s, at = (\<lambda>_. Idle), depth = (\<lambda>_. 0)\<rparr>"
| step: "lock_reachable c \<Longrightarrow> lock_step c c' \<Longrightarrow> lock_reachable c'"

subsection \<open>The invariant\<close>

definition critical :: "pc \<Rightarrow> bool" where
  "critical p \<longleftrightarrow> (case p of Idle \<Rightarrow> False | Exchange m \<Rightarrow> False | Unlock_Exchange \<Rightarrow> False | _ \<Rightarrow> True)"

lemma critical_simps [simp]:
  "\<not> critical Idle" "\<not> critical (Exchange m)" "\<not> critical Unlock_Exchange" "critical (Test_Free m)"
  "critical (Test_Own m)" "critical (Give_Back m)" "critical (Set_Thread m)" "critical (Count_Up m)"
  "critical Release" "critical Unlock_Assert" "critical Count_Down" "critical Clear_Thread"
  "\<not> critical (after_busy m)" "\<not> critical (after_owned m)"
  by (auto simp: critical_def after_busy_def after_owned_def split: mode.split)

text \<open>Nobody holds the section, or one thread does and the counter says how often.\<close>

definition settled :: "sc_segment_section \<Rightarrow> (thread \<Rightarrow> nat) \<Rightarrow> bool" where
  "settled s d \<longleftrightarrow> (thread_lock s = None \<and> lock_count s = 0 \<and> (\<forall>t. d t = 0)) \<or>
     (\<exists>t. thread_lock s = Some t \<and> lock_count s = int (d t) \<and> d t > 0 \<and> (\<forall>u. u \<noteq> t \<longrightarrow> d u = 0))"

definition local_ok :: "thread \<Rightarrow> pc \<Rightarrow> sc_segment_section \<Rightarrow> (thread \<Rightarrow> nat) \<Rightarrow> bool" where
  "local_ok th p s d \<longleftrightarrow> (case p of
       Set_Thread m \<Rightarrow> settled s d \<and> (thread_lock s = None \<or> thread_lock s = Some th)
     | Count_Up m \<Rightarrow> thread_lock s = Some th \<and> lock_count s = int (d th) \<and> (\<forall>u. u \<noteq> th \<longrightarrow> d u = 0)
     | Unlock_Assert \<Rightarrow> settled s d \<and> d th > 0
     | Count_Down \<Rightarrow> settled s d \<and> d th > 0
     | Clear_Thread \<Rightarrow> thread_lock s = Some th \<and> lock_count s = 0 \<and> (\<forall>u. d u = 0)
     | Unlock_Exchange \<Rightarrow> d th > 0
     | _ \<Rightarrow> critical p \<longrightarrow> settled s d)"

definition lock_inv :: "lock_state \<Rightarrow> bool" where
  "lock_inv c \<longleftrightarrow>
     (if internal_lock (sec c) = 0 then (\<forall>t. \<not> critical (at c t)) \<and> settled (sec c) (depth c)
      else \<exists>th. critical (at c th) \<and> (\<forall>t. t \<noteq> th \<longrightarrow> \<not> critical (at c t)) \<and> local_ok th (at c th) (sec c) (depth c)) \<and>
     (\<forall>t. at c t = Unlock_Exchange \<longrightarrow> depth c t > 0)"

lemma settled_internal [simp]: "settled (s\<lparr>internal_lock := i\<rparr>) d = settled s d"
  by (simp add: settled_def)

lemma go_simps [simp]:
  "sec (go th p c) = sec c" "depth (go th p c) = depth c" "at (go th p c) = (at c)(th := p)"
  by (simp_all add: go_def)

lemma inv_outside:
  assumes "lock_inv c" and "\<not> critical (at c th)" and "\<not> critical p" and "p = Unlock_Exchange \<Longrightarrow> depth c th > 0"
  shows "lock_inv (go th p c)"
  using assms unfolding lock_inv_def by (auto split: if_splits) metis+

lemma inv_enter:
  assumes "lock_inv c" and "internal_lock (sec c) = 0" and "critical p"
    and "local_ok th p (sec c\<lparr>internal_lock := 1\<rparr>) (depth c)" and "p \<noteq> Unlock_Exchange"
  shows "lock_inv (go th p (c\<lparr>sec := (sec c)\<lparr>internal_lock := 1\<rparr>\<rparr>))"
  using assms unfolding lock_inv_def by auto

lemma inv_critical:
  assumes "lock_inv c" and "critical (at c th)"
  shows "internal_lock (sec c) \<noteq> 0" "\<And>t. t \<noteq> th \<Longrightarrow> \<not> critical (at c t)" "local_ok th (at c th) (sec c) (depth c)"
proof -
  show "internal_lock (sec c) \<noteq> 0" using assms unfolding lock_inv_def by (auto split: if_splits)
  then obtain th' where "critical (at c th')" "\<And>t. t \<noteq> th' \<Longrightarrow> \<not> critical (at c t)"
    "local_ok th' (at c th') (sec c) (depth c)" using assms(1) unfolding lock_inv_def by auto
  moreover from this have "th' = th" using assms(2) by metis
  ultimately show "\<And>t. t \<noteq> th \<Longrightarrow> \<not> critical (at c t)" "local_ok th (at c th) (sec c) (depth c)" by auto
qed

lemma inv_inside:
  assumes inv: "lock_inv c" and cr: "critical (at c th)" "critical p"
    and s: "internal_lock s = internal_lock (sec c)" and l: "local_ok th p s d"
    and d: "\<And>t. t \<noteq> th \<Longrightarrow> d t = depth c t"
  shows "lock_inv (go th p (c\<lparr>sec := s, depth := d\<rparr>))"
  using inv_critical [OF inv cr(1)] cr(2) s l d inv unfolding lock_inv_def
  by (auto intro!: exI [of _ th])

lemma inv_leave:
  assumes inv: "lock_inv c" and cr: "critical (at c th)" and p: "\<not> critical p" "p \<noteq> Unlock_Exchange"
    and st: "settled (sec c) (depth c)"
  shows "lock_inv (go th p (c\<lparr>sec := (sec c)\<lparr>internal_lock := 0\<rparr>\<rparr>))"
  using inv_critical [OF inv cr] p st inv unfolding lock_inv_def by auto

lemma settled_own: "settled s d \<Longrightarrow> d th > 0 \<Longrightarrow> thread_lock s = Some th \<and> lock_count s = int (d th) \<and> (\<forall>u. u \<noteq> th \<longrightarrow> d u = 0)"
  unfolding settled_def by auto (metis gr_implies_not_zero)+

lemma settled_count: "settled s d \<Longrightarrow> lock_count s = 0 \<longleftrightarrow> thread_lock s = None"
  unfolding settled_def by auto

lemma lock_inv_step: "lock_step c c' \<Longrightarrow> lock_inv c \<Longrightarrow> lock_inv c'"
proof (induction rule: lock_step.induct)
  case (call_lock c th)
  then show ?case by (intro inv_outside) simp_all
next
  case (call_try c th mx)
  then show ?case by (intro inv_outside) simp_all
next
  case (exchange c th m)
  then show ?case by (intro inv_enter) (simp_all add: local_ok_def lock_inv_def)
next
  case (exchange_fails c th m)
  then show ?case by (intro inv_outside) (auto simp: after_busy_def split: mode.splits if_splits)
next
  case (test_free c th m)
  note I = inv_critical [OF test_free.prems, of th]
  show ?case
    using inv_inside [OF test_free.prems, of th "if thread_lock (sec c) = None then Set_Thread m else Test_Own m" "sec c" "depth c"]
      I test_free.hyps by (simp add: local_ok_def)
next
  case (test_own c th m)
  note I = inv_critical [OF test_own.prems, of th]
  show ?case
    using inv_inside [OF test_own.prems, of th "if thread_lock (sec c) = Some th then Set_Thread m else Give_Back m" "sec c" "depth c"]
      I test_own.hyps by (simp add: local_ok_def)
next
  case (give_back c th m)
  note I = inv_critical [OF give_back.prems, of th]
  show ?case
    by (rule inv_leave [OF give_back.prems])
       (use give_back.hyps I in \<open>auto simp: local_ok_def after_owned_def split: mode.splits if_splits\<close>)
next
  case (set_thread c th m)
  note I = inv_critical [OF set_thread.prems, of th]
  have "local_ok th (Count_Up m) (sec c\<lparr>thread_lock := Some th\<rparr>) (depth c)"
    using I(3) set_thread.hyps by (auto simp: local_ok_def settled_def)
  then show ?case
    using inv_inside [OF set_thread.prems, of th "Count_Up m" "sec c\<lparr>thread_lock := Some th\<rparr>" "depth c"] set_thread.hyps by simp
next
  case (count_up c th m)
  note I = inv_critical [OF count_up.prems, of th]
  show ?case
    by (rule inv_inside [OF count_up.prems])
       (use count_up.hyps I in \<open>auto simp: local_ok_def settled_def\<close>)
next
  case (release c th)
  note I = inv_critical [OF release.prems, of th]
  show ?case by (rule inv_leave [OF release.prems]) (use release.hyps I in \<open>auto simp: local_ok_def\<close>)
next
  case (call_unlock c th)
  then show ?case by (intro inv_outside) simp_all
next
  case (unlock_exchange c th)
  then show ?case by (intro inv_enter) (auto simp: local_ok_def lock_inv_def)
next
  case (unlock_assert c th)
  note I = inv_critical [OF unlock_assert.prems, of th]
  show ?case
    using inv_inside [OF unlock_assert.prems, of th Count_Down "sec c" "depth c"] I unlock_assert.hyps by (simp add: local_ok_def)
next
  case (count_down c th)
  note I = inv_critical [OF count_down.prems, of th]
  have s: "settled (sec c) (depth c)" "depth c th > 0" using I(3) count_down.hyps by (simp_all add: local_ok_def)
  note o = settled_own [OF s]
  show ?case
    by (rule inv_inside [OF count_down.prems])
       (use count_down.hyps o s(2) in \<open>auto simp: local_ok_def settled_def\<close>)
next
  case (clear_thread c th)
  note I = inv_critical [OF clear_thread.prems, of th]
  have "local_ok th Release (sec c\<lparr>thread_lock := None\<rparr>) (depth c)"
    using I(3) clear_thread.hyps by (auto simp: local_ok_def settled_def)
  then show ?case
    using inv_inside [OF clear_thread.prems, of th Release "sec c\<lparr>thread_lock := None\<rparr>" "depth c"] clear_thread.hyps by simp
qed

lemma lock_reachable_inv: "lock_reachable c \<Longrightarrow> lock_inv c"
proof (induction rule: lock_reachable.induct)
  case (init s)
  then show ?case by (simp add: lock_inv_def settled_def)
next
  case (step c c')
  then show ?case by (blast intro: lock_inv_step)
qed

subsection \<open>Properties\<close>

lemma inv_held:
  assumes "lock_inv c" and "depth c th > 0"
  shows "thread_lock (sec c) = Some th \<and> (\<forall>u. u \<noteq> th \<longrightarrow> depth c u = 0)"
proof (cases "internal_lock (sec c) = 0")
  case True
  then show ?thesis using assms settled_own unfolding lock_inv_def by auto
next
  case False
  then obtain u where "local_ok u (at c u) (sec c) (depth c)" "critical (at c u)"
    using assms(1) unfolding lock_inv_def by auto
  then have "settled (sec c) (depth c) \<or> (thread_lock (sec c) = Some u \<and> (\<forall>v. v \<noteq> u \<longrightarrow> depth c v = 0)) \<or> depth c th = 0"
    by (cases "at c u") (simp_all add: local_ok_def)
  then show ?thesis
    using assms(2) settled_own [of "sec c" "depth c" th] by (metis gr_implies_not_zero)
qed

text \<open>
  C33. Mutual exclusion: however the atomic operations of any number of threads are
  interleaved, no two threads hold a section at the same time; the section names its holder,
  who may lock it again; and the assertion in \<^verbatim>\<open>sc_segment_section_unlock\<close>, that the caller
  is the owner, holds whenever it is reached.
\<close>

theorem section_lock_mutual_exclusion:
  assumes "lock_reachable c"
  shows "(\<forall>t u. depth c t > 0 \<longrightarrow> depth c u > 0 \<longrightarrow> t = u) \<and>
     (\<forall>t. depth c t > 0 \<longrightarrow> thread_lock (sec c) = Some t) \<and>
     (\<forall>t. at c t = Unlock_Assert \<longrightarrow> thread_lock (sec c) = Some t)"
proof -
  note inv = lock_reachable_inv [OF assms]
  have "depth c t > 0" if "at c t = Unlock_Assert" for t
    using inv_critical(3) [OF inv, of t] that by (simp add: local_ok_def)
  then show ?thesis using inv_held [OF inv] by (metis less_irrefl)
qed

text \<open>What the section is to somebody who takes each call as one step.\<close>

definition seen :: "lock_state \<Rightarrow> sc_segment_section" where
  "seen c = (sec c)\<lparr>internal_lock := 0, thread_lock := (if lock_count (sec c) = 0 then None else thread_lock (sec c))\<rparr>"

lemma seen_stutter:
  "sec c' = (sec c)\<lparr>internal_lock := i\<rparr> \<Longrightarrow> seen c' = seen c" "sec c' = sec c \<Longrightarrow> seen c' = seen c"
  by (simp_all add: seen_def)

text \<open>
  C34. The fine-grained lock implements the atomic one of the storage model: seen from
  outside, every atomic operation either changes nothing, or has the effect of one whole
  call of \<^verbatim>\<open>sc_segment_section_lock\<close> or \<^verbatim>\<open>sc_segment_section_unlock\<close> by the thread that made it.
\<close>

theorem section_lock_refines:
  assumes "lock_reachable c" and "lock_step c c'"
  shows "seen c' = seen c \<or>
     (\<exists>th. sc_segment_section_lock th (seen c) = Some (seen c') \<or>
           sc_segment_section_unlock th (seen c) = Some (seen c'))"
  using assms(2) lock_reachable_inv [OF assms(1)]
proof (induction rule: lock_step.induct)
  case (set_thread c th m)
  have "settled (sec c) (depth c)" "thread_lock (sec c) = None \<or> thread_lock (sec c) = Some th"
    using inv_critical(3) [OF set_thread.prems, of th] set_thread.hyps by (simp_all add: local_ok_def)
  then show ?case using settled_count by (auto simp: seen_def)
next
  case (count_up c th m)
  have t: "thread_lock (sec c) = Some th" "lock_count (sec c) = int (depth c th)"
    using inv_critical(3) [OF count_up.prems, of th] count_up.hyps by (simp_all add: local_ok_def)
  have "sc_segment_section_lock th (seen c) = Some (seen (go th Release (c\<lparr>sec := (sec c)\<lparr>lock_count := lock_count (sec c) + 1\<rparr>,
      depth := (depth c)(th := depth c th + 1)\<rparr>)))"
    using t by (cases "sec c") (simp add: sc_segment_section_lock_def seen_def)
  then show ?case by blast
next
  case (count_down c th)
  have "settled (sec c) (depth c)" "depth c th > 0"
    using inv_critical(3) [OF count_down.prems, of th] count_down.hyps by (simp_all add: local_ok_def)
  note o = settled_own [OF this]
  let ?c' = "go th (if lock_count (sec c) - 1 = 0 then Clear_Thread else Release)
      (c\<lparr>sec := (sec c)\<lparr>lock_count := lock_count (sec c) - 1\<rparr>, depth := (depth c)(th := depth c th - 1)\<rparr>)"
  have "sc_segment_section_unlock th (seen c) = Some (seen ?c')"
    using o \<open>depth c th > 0\<close> by (cases "sec c") (simp add: sc_segment_section_unlock_def seen_def)
  then show ?case by blast
next
  case (clear_thread c th)
  have "lock_count (sec c) = 0"
    using inv_critical(3) [OF clear_thread.prems, of th] clear_thread.hyps by (simp add: local_ok_def)
  then show ?case by (simp add: seen_def)
qed (auto intro: seen_stutter)

definition two_threads :: lock_state where
  "two_threads = \<lparr>sec = zero_section\<lparr>internal_lock := 1, thread_lock := Some 0\<rparr>,
     at = (\<lambda>_. Idle)(0 := Count_Up Plain, 1 := Exchange Plain), depth = (\<lambda>_. 0)\<rparr>"

lemma two_threads_reachable: "lock_reachable two_threads"
proof -
  let ?c0 = "\<lparr>sec = zero_section, at = (\<lambda>_. Idle), depth = (\<lambda>_. 0)\<rparr>"
  have "lock_reachable ?c0" by (rule lock_reachable.init) (simp_all add: zero_section_def)
  note r = lock_reachable.step [OF this lock_step.call_lock [of _ 0]]
  note r = lock_reachable.step [OF r lock_step.call_lock [of _ 1]]
  note r = lock_reachable.step [OF r lock_step.exchange [of _ 0 Plain]]
  note r = lock_reachable.step [OF r lock_step.test_free [of _ 0 Plain]]
  note r = lock_reachable.step [OF r lock_step.set_thread [of _ 0 Plain]]
  from r show ?thesis by (simp add: two_threads_def go_def zero_section_def fun_upd_twist)
qed

lemma two_threads_counted:
  "lock_step two_threads (go 0 Release (two_threads\<lparr>sec := (sec two_threads)\<lparr>lock_count := lock_count (sec two_threads) + 1\<rparr>,
      depth := (depth two_threads)(0 := depth two_threads 0 + 1)\<rparr>))"
  by (rule lock_step.count_up [where m = Plain]) (simp add: two_threads_def)

theorem section_lock_mutual_exclusion_witness:
  "\<exists>c. lock_reachable c \<and> depth c 0 = 1 \<and> thread_lock (sec c) = Some 0 \<and> at c 1 = Exchange Plain \<and> depth c 1 = 0"
proof -
  let ?c = "go 0 Release (two_threads\<lparr>sec := (sec two_threads)\<lparr>lock_count := lock_count (sec two_threads) + 1\<rparr>,
      depth := (depth two_threads)(0 := depth two_threads 0 + 1)\<rparr>)"
  have r: "lock_reachable ?c" by (rule lock_reachable.step [OF two_threads_reachable two_threads_counted])
  have d: "depth ?c 0 = 1" "at ?c 1 = Exchange Plain" by (simp_all add: two_threads_def)
  with section_lock_mutual_exclusion [OF r] have "thread_lock (sec ?c) = Some 0" "\<not> depth ?c 1 > 0"
    by (metis zero_less_one, metis zero_less_one zero_neq_one)
  with r d show ?thesis by blast
qed

theorem section_lock_refines_witness:
  "\<exists>c'. lock_step two_threads c' \<and> seen c' \<noteq> seen two_threads \<and>
     (seen c' = seen two_threads \<or> (\<exists>th. sc_segment_section_lock th (seen two_threads) = Some (seen c') \<or>
        sc_segment_section_unlock th (seen two_threads) = Some (seen c')))"
proof -
  let ?c = "go 0 Release (two_threads\<lparr>sec := (sec two_threads)\<lparr>lock_count := lock_count (sec two_threads) + 1\<rparr>,
      depth := (depth two_threads)(0 := depth two_threads 0 + 1)\<rparr>)"
  note s = two_threads_counted
  moreover have "seen ?c \<noteq> seen two_threads" by (simp add: seen_def two_threads_def zero_section_def)
  ultimately show ?thesis using section_lock_refines [OF two_threads_reachable s] by blast
qed

end
