(* ===== verification/Sc_Context.thy ===== *)
theory Sc_Context
  imports Sc_Event
begin

text \<open>
  Contexts of the memory (\<^verbatim>\<open>sc_memory.c\<close>): every context has an identifier that no other
  living context has. The last identifier given is kept in 16 bits, the search for the next one
  runs over 32 bits. Contexts live at addresses of a heap of their own.
\<close>

subsection \<open>State and operations\<close>

type_synonym ctx_ref = nat

record context_state =
  ctx_heap :: "ctx_ref \<rightharpoonup> event_context"
  ctx_next :: ctx_ref
  s_context_id_last :: u16
  s_context_id_count :: u32
  s_context_hash_table :: "u32 \<rightharpoonup> ctx_ref"

definition next_id :: "u32 \<Rightarrow> u32" where
  "next_id i = (i + 1) mod 0xffffffff"

definition busy_id :: "u32 \<Rightarrow> (u32 \<rightharpoonup> ctx_ref) \<Rightarrow> u32 \<Rightarrow> bool" where
  "busy_id prev table i \<longleftrightarrow> i = 0 \<or> (i \<noteq> prev \<and> table i \<noteq> None)"

partial_function (option) find_id :: "u32 \<Rightarrow> (u32 \<rightharpoonup> ctx_ref) \<Rightarrow> u32 \<Rightarrow> u32 option" where
  "find_id prev table i = (if busy_id prev table i then find_id prev table (next_id i) else Some i)"

definition sc_memory_context_new_impl ::
    "u8 \<Rightarrow> context_state \<Rightarrow> (ctx_ref option \<times> context_state) option" where
  "sc_memory_context_new_impl levels cs =
     (if s_context_id_count cs \<ge> 0xffffffff then Some (None, cs)
      else do {
        let prev = ucast (s_context_id_last cs);
        i \<leftarrow> find_id prev (s_context_hash_table cs) (next_id prev);
        if i \<noteq> prev then do {
          let p = ctx_next cs;
          let ctx = \<lparr>ctx_id = i, ctx_access = levels, ctx_flags = 0, pend_events = []\<rparr>;
          Some (Some p, cs\<lparr>ctx_heap := (ctx_heap cs)(p \<mapsto> ctx), ctx_next := Suc p, s_context_id_last := ucast i,
            s_context_hash_table := (s_context_hash_table cs)(i \<mapsto> p),
            s_context_id_count := s_context_id_count cs + 1\<rparr>)
        }
        else Some (None, cs)
      })"

definition sc_memory_context_new :: "u8 \<Rightarrow> context_state \<Rightarrow> (ctx_ref option \<times> context_state) option" where
  "sc_memory_context_new levels cs = sc_memory_context_new_impl levels cs"

definition sc_memory_context_free_impl :: "ctx_ref option \<Rightarrow> context_state \<Rightarrow> context_state option" where
  "sc_memory_context_free_impl ctx cs = do {
     p \<leftarrow> ctx;
     c \<leftarrow> ctx_heap cs p;
     g_assert (s_context_hash_table cs (ctx_id c) = Some p);
     Some (cs\<lparr>s_context_hash_table := (s_context_hash_table cs)(ctx_id c := None),
       s_context_id_count := s_context_id_count cs - 1, ctx_heap := (ctx_heap cs)(p := None)\<rparr>)
   }"

definition sc_memory_context_free :: "ctx_ref option \<Rightarrow> context_state \<Rightarrow> context_state option" where
  "sc_memory_context_free ctx cs = sc_memory_context_free_impl ctx cs"

subsection \<open>The invariant\<close>

definition contexts_ok :: "context_state \<Rightarrow> bool" where
  "contexts_ok cs \<longleftrightarrow>
     (\<forall>i p. s_context_hash_table cs i = Some p \<longleftrightarrow> (\<exists>c. ctx_heap cs p = Some c \<and> ctx_id c = i)) \<and>
     (\<forall>p c. ctx_heap cs p = Some c \<longrightarrow> p < ctx_next cs \<and> ctx_id c \<noteq> 0) \<and>
     unat (s_context_id_count cs) = card (dom (s_context_hash_table cs))"

definition no_contexts :: context_state where
  "no_contexts = \<lparr>ctx_heap = Map.empty, ctx_next = 0, s_context_id_last = 1, s_context_id_count = 0,
     s_context_hash_table = Map.empty\<rparr>"

lemma no_contexts_ok: "contexts_ok no_contexts"
  by (simp add: contexts_ok_def no_contexts_def)

subsection \<open>The search ends\<close>

lemma unat_next_id:
  assumes "unat i < 0xffffffff"
  shows "unat (next_id i) = (unat i + 1) mod 0xffffffff"
proof -
  have "unat (i + 1) = unat i + 1" using assms by (simp add: unat_word_ariths)
  then show ?thesis by (simp add: next_id_def unat_mod)
qed

lemma find_id_reaches:
  assumes "\<not> busy_id prev table ((next_id ^^ k) i)"
  shows "\<exists>m \<le> k. find_id prev table i = Some ((next_id ^^ m) i) \<and> \<not> busy_id prev table ((next_id ^^ m) i)"
  using assms
proof (induction k arbitrary: i)
  case 0
  then show ?case by (simp add: find_id.simps [of _ _ i])
next
  case (Suc k)
  show ?case
  proof (cases "busy_id prev table i")
    case False
    then show ?thesis by (intro exI [of _ 0]) (simp add: find_id.simps [of _ _ i])
  next
    case True
    have "\<not> busy_id prev table ((next_id ^^ k) (next_id i))" using Suc.prems by (simp add: funpow_swap1)
    from Suc.IH [OF this] obtain m where "m \<le> k" "find_id prev table (next_id i) = Some ((next_id ^^ m) (next_id i))"
      "\<not> busy_id prev table ((next_id ^^ m) (next_id i))" by blast
    then show ?thesis using True by (intro exI [of _ "Suc m"]) (simp add: find_id.simps [of _ _ i] funpow_swap1)
  qed
qed

lemma unat_walk: "unat i < 0xffffffff \<Longrightarrow> unat ((next_id ^^ k) i) = (unat i + k) mod 0xffffffff"
  by (induction k) (simp_all add: unat_next_id mod_Suc_eq)

lemma find_id_fresh:
  assumes j: "j \<noteq> 0" "j < 0xffffffff" "j \<noteq> prev" "table j = None" and prev: "prev < 0xffffffff"
  shows "\<exists>i. find_id prev table (next_id prev) = Some i \<and> i \<noteq> 0 \<and> i \<noteq> prev \<and> table i = None"
proof -
  let ?M = "0xffffffff :: nat" and ?k = "(unat j + 0xffffffff - (unat prev + 1)) mod 0xffffffff"
  have l: "unat prev < ?M" "unat j < ?M" using prev j(2) by (simp_all add: word_less_nat_alt)
  have w: "unat ((next_id ^^ n) (next_id prev)) = (unat prev + 1 + n) mod ?M" for n
  proof -
    have "unat (next_id prev) < ?M" using unat_next_id [OF l(1)] by simp
    then show ?thesis using unat_walk [of "next_id prev" n] unat_next_id [OF l(1)] by (simp add: mod_simps)
  qed
  have "unat ((next_id ^^ ?k) (next_id prev)) = unat j" 
    unfolding w using l by (auto simp: mod_if)
  then have "(next_id ^^ ?k) (next_id prev) = j" by (simp only: word_unat_eq_iff)
  then have "\<not> busy_id prev table ((next_id ^^ ?k) (next_id prev))" using j by (simp add: busy_id_def)
  from find_id_reaches [OF this] obtain m where m: "m \<le> ?k"
    "find_id prev table (next_id prev) = Some ((next_id ^^ m) (next_id prev))"
    "\<not> busy_id prev table ((next_id ^^ m) (next_id prev))" by blast
  have "unat j \<noteq> unat prev" using j(3) word_unat_eq_iff [of j prev] by blast
  then have "?k < ?M - 1" using l by (simp add: mod_if) linarith
  then have "m < ?M - 1" using m(1) by simp
  then have "(unat prev + 1 + m) mod ?M \<noteq> unat prev" using l(1) by (auto simp: mod_if)
  then have "(next_id ^^ m) (next_id prev) \<noteq> prev" using w [of m] by metis
  then show ?thesis using m(2,3) by (auto simp: busy_id_def)
qed

subsection \<open>Creating and freeing\<close>

text \<open>
  C35. \<^verbatim>\<open>sc_memory_context_new_impl\<close> ends and succeeds whenever an identifier is free that is
  not the last one given: the new context has the levels asked for and an identifier that is
  not zero and that no living context has. Freeing it again succeeds and gives back the
  contexts, the table and the count.
\<close>

theorem context_new_fresh:
  assumes ok: "contexts_ok cs" and room: "s_context_id_count cs < 0xffffffff"
    and j: "j \<noteq> 0" "j < 0xffffffff" "j \<noteq> ucast (s_context_id_last cs)" "s_context_hash_table cs j = None"
  shows "\<exists>p c cs' cs''. sc_memory_context_new levels cs = Some (Some p, cs') \<and> ctx_heap cs' = (ctx_heap cs)(p \<mapsto> c) \<and>
     ctx_heap cs p = None \<and> ctx_access c = levels \<and> ctx_id c \<noteq> 0 \<and> (\<forall>q d. ctx_heap cs q = Some d \<longrightarrow> ctx_id d \<noteq> ctx_id c) \<and>
     contexts_ok cs' \<and> sc_memory_context_free (Some p) cs' = Some cs'' \<and> contexts_ok cs'' \<and>
     ctx_heap cs'' = ctx_heap cs \<and> s_context_hash_table cs'' = s_context_hash_table cs \<and>
     s_context_id_count cs'' = s_context_id_count cs"
proof -
  let ?prev = "ucast (s_context_id_last cs) :: u32" and ?p = "ctx_next cs"
  have "unat (s_context_id_last cs) mod 0x100000000 < 0xffffffff"
    by (subst mod_less) (use unat_u16_less [of "s_context_id_last cs"] in linarith)+
  then have "?prev < 0xffffffff" by (simp add: word_less_nat_alt unsigned_ucast_eq take_bit_eq_mod)
  from find_id_fresh [where prev = ?prev and table = "s_context_hash_table cs", OF j this] obtain i where i: "find_id ?prev (s_context_hash_table cs) (next_id ?prev) = Some i"
    "i \<noteq> 0" "i \<noteq> ?prev" "s_context_hash_table cs i = None" by blast
  let ?c = "\<lparr>ctx_id = i, ctx_access = levels, ctx_flags = 0, pend_events = []\<rparr> :: event_context"
  let ?cs = "cs\<lparr>ctx_heap := (ctx_heap cs)(?p \<mapsto> ?c), ctx_next := Suc ?p, s_context_id_last := ucast i,
      s_context_hash_table := (s_context_hash_table cs)(i \<mapsto> ?p), s_context_id_count := s_context_id_count cs + 1\<rparr>"
  let ?cs2 = "?cs\<lparr>s_context_hash_table := (s_context_hash_table ?cs)(i := None),
      s_context_id_count := s_context_id_count ?cs - 1, ctx_heap := (ctx_heap ?cs)(?p := None)\<rparr>"
  have new: "sc_memory_context_new levels cs = Some (Some ?p, ?cs)"
    using room i by (simp add: sc_memory_context_new_def sc_memory_context_new_impl_def Let_def)
  have free: "sc_memory_context_free (Some ?p) ?cs = Some ?cs2"
    by (simp add: sc_memory_context_free_def sc_memory_context_free_impl_def)
  have np: "ctx_heap cs ?p = None" using ok by (cases "ctx_heap cs ?p") (auto simp: contexts_ok_def)
  have ids: "ctx_id d \<noteq> i" if "ctx_heap cs q = Some d" for q d
  proof -
    have "s_context_hash_table cs (ctx_id d) = Some q" using ok that unfolding contexts_ok_def by blast
    then show ?thesis using i(4) by auto
  qed
  have cnt: "unat (s_context_id_count cs + 1) = unat (s_context_id_count cs) + 1"
    using room by (simp add: unat_word_ariths word_less_nat_alt)
  have "card (dom ((s_context_hash_table cs)(i \<mapsto> ?p))) = card (dom (s_context_hash_table cs)) + 1"
    using i(4) by (simp add: domIff)
  then have "contexts_ok ?cs"
    using ok np ids i(2,4) cnt unfolding contexts_ok_def by (auto split: if_splits intro: less_SucI)
  moreover have again: "ctx_heap ?cs2 = ctx_heap cs" "s_context_hash_table ?cs2 = s_context_hash_table cs"
    "s_context_id_count ?cs2 = s_context_id_count cs"
    using np i(4) by (auto simp: fun_eq_iff)
  moreover from again have "contexts_ok ?cs2" using ok unfolding contexts_ok_def by (auto intro: less_SucI)
  ultimately show ?thesis
    using new free np ids i(2) by (intro exI [of _ ?p] exI [of _ ?c] exI [of _ ?cs] exI [of _ ?cs2]) auto
qed

theorem context_new_fresh_witness:
  "\<exists>p cs'. sc_memory_context_new 0xff no_contexts = Some (Some p, cs') \<and> contexts_ok cs'"
  using context_new_fresh [OF no_contexts_ok, of 5 "0xff"] by (auto simp: no_contexts_def)

end
