(* ===== verification/Sc_Type_Class.thy ===== *)
theory Sc_Type_Class
  imports Sc_Types
begin

text \<open>
  Element types and addresses of the C++ interface
  (\<^verbatim>\<open>sc-memory/sc-memory/sc_type.hpp\<close>, \<^verbatim>\<open>sc_type.cpp\<close>, \<^verbatim>\<open>sc_addr.cpp\<close>). The class
  \<^verbatim>\<open>ScType\<close> wraps one \<^verbatim>\<open>sc_type\<close>, the class \<^verbatim>\<open>ScAddr\<close> one \<^verbatim>\<open>sc_addr\<close>; both are
  represented by what they wrap.
\<close>

type_synonym ScType = sc_type

subsection \<open>Types\<close>

definition IsEdge :: "ScType \<Rightarrow> bool" where "IsEdge t \<longleftrightarrow> t AND sc_type_arc_mask \<noteq> 0"
definition IsNode :: "ScType \<Rightarrow> bool" where "IsNode t \<longleftrightarrow> t AND sc_type_node \<noteq> 0"
definition IsLink :: "ScType \<Rightarrow> bool" where "IsLink t \<longleftrightarrow> t AND sc_type_link \<noteq> 0"
definition IsConst :: "ScType \<Rightarrow> bool" where "IsConst t \<longleftrightarrow> t AND sc_type_const \<noteq> 0"
definition IsVar :: "ScType \<Rightarrow> bool" where "IsVar t \<longleftrightarrow> t AND sc_type_var \<noteq> 0"
definition IsUnknown :: "ScType \<Rightarrow> bool" where "IsUnknown t \<longleftrightarrow> t = 0"

definition HasConstancyFlag :: "ScType \<Rightarrow> bool" where
  "HasConstancyFlag t \<longleftrightarrow> t AND sc_type_constancy_mask \<noteq> 0"

definition AsConst :: "ScType \<Rightarrow> ScType" where
  "AsConst t = (t AND NOT sc_type_var) OR sc_type_const"

definition UpConstType :: "ScType \<Rightarrow> ScType" where
  "UpConstType t = (t AND NOT sc_type_var) OR sc_type_const"

definition CheckMask :: "ScType \<Rightarrow> sc_type \<Rightarrow> bool" where
  "CheckMask ext m \<longleftrightarrow> \<not> (ext \<noteq> ext AND m)"

text \<open>One comparison of a group of bits: an empty group may become anything.\<close>

definition group_differs :: "sc_type \<Rightarrow> ScType \<Rightarrow> ScType \<Rightarrow> bool" where
  "group_differs m self ext \<longleftrightarrow> self AND m \<noteq> 0 \<and> self AND m \<noteq> ext AND m"

definition CanExtendTo :: "ScType \<Rightarrow> ScType \<Rightarrow> bool" where
  "CanExtendTo self ext =
     (if group_differs sc_type_element_mask self ext then False
      else if group_differs sc_type_constancy_mask self ext then False
      else if IsLink self then
        CheckMask ext (sc_type_constancy_mask OR sc_type_link)
      else if IsNode self then
        CheckMask ext (sc_type_constancy_mask OR sc_type_node_mask OR sc_type_node) \<and>
        \<not> group_differs sc_type_node_mask self ext
      else if IsEdge self then
        (if \<not> CheckMask ext (sc_type_arc_common OR sc_type_constancy_mask) then False
         else if \<not> CheckMask ext (sc_type_arc_access OR sc_type_constancy_mask OR
                   sc_type_positivity_mask OR sc_type_permanency_mask) then False
         else if \<not> CheckMask ext sc_type_edge_common then False
         else if group_differs sc_type_permanency_mask self ext then False
         else \<not> group_differs sc_type_positivity_mask self ext)
      else True)"

definition EdgeAccessConstPosPerm :: ScType where [sc_bits]:
  "EdgeAccessConstPosPerm = sc_type_const OR sc_type_arc_access OR sc_type_arc_perm OR sc_type_arc_pos"
definition EdgeAccessVarPosPerm :: ScType where [sc_bits]:
  "EdgeAccessVarPosPerm = sc_type_var OR sc_type_arc_access OR sc_type_arc_perm OR sc_type_arc_pos"
definition EdgeDCommonVar :: ScType where [sc_bits]: "EdgeDCommonVar = sc_type_arc_common OR sc_type_var"
definition NodeConst :: ScType where [sc_bits]: "NodeConst = sc_type_node OR sc_type_const"
definition NodeVar :: ScType where [sc_bits]: "NodeVar = sc_type_node OR sc_type_var"
definition NodeConstMaterial :: ScType where [sc_bits]:
  "NodeConstMaterial = sc_type_node OR sc_type_const OR sc_type_node_material"
definition LinkConst :: ScType where [sc_bits]: "LinkConst = sc_type_link OR sc_type_const"
definition LinkVar :: ScType where [sc_bits]: "LinkVar = sc_type_link OR sc_type_var"
definition Unknown :: ScType where [sc_bits]: "Unknown = 0"

lemmas type_tests = IsEdge_def IsNode_def IsLink_def IsConst_def IsVar_def IsUnknown_def HasConstancyFlag_def

text \<open>The bits of a type word, one by one.\<close>

lemma and_eq_0_bits: "(x :: sc_type) AND m = 0 \<longleftrightarrow> (\<forall>n < 16. bit m n \<longrightarrow> \<not> bit x n)"
  by (auto simp: bit_eq_iff bit_simps)

lemma subset_bits: "(x :: sc_type) = x AND m \<longleftrightarrow> (\<forall>n < 16. bit x n \<longrightarrow> bit m n)"
  by (auto simp: bit_eq_iff bit_simps)

lemma same_bits: "(x :: sc_type) AND m = y AND m \<longleftrightarrow> (\<forall>n < 16. bit m n \<longrightarrow> bit x n = bit y n)"
  by (auto simp: bit_eq_iff bit_simps)

lemma all_16:
  "(\<forall>n < 16. P n) \<longleftrightarrow> P (0::nat) \<and> P 1 \<and> P 2 \<and> P 3 \<and> P 4 \<and> P 5 \<and> P 6 \<and> P 7 \<and> P 8 \<and> P 9 \<and> P 10 \<and>
     P 11 \<and> P 12 \<and> P 13 \<and> P 14 \<and> P 15"
  by (simp add: numeral_eq_Suc All_less_Suc) blast

lemmas by_bits = and_eq_0_bits subset_bits same_bits all_16

lemma up_const_type:
  "IsConst (UpConstType t)" "\<not> IsVar (UpConstType t)" "IsNode (UpConstType t) = IsNode t"
  "IsLink (UpConstType t) = IsLink t" "IsEdge (UpConstType t) = IsEdge t"
  "UpConstType (UpConstType t) = UpConstType t"
  unfolding type_tests UpConstType_def by_bits
  by (simp_all add: sc_bits bit_simps) (auto simp: bit_eq_iff bit_simps)

text \<open>A type word that one kind of element can have, constancy and kind open or chosen.\<close>

definition proper_type :: "ScType \<Rightarrow> bool" where
  "proper_type t \<longleftrightarrow>
     CheckMask t sc_type_constancy_mask \<or>
     CheckMask t (sc_type_constancy_mask OR sc_type_link) \<or>
     CheckMask t (sc_type_constancy_mask OR sc_type_node_mask OR sc_type_node) \<and> IsNode t \<or>
     CheckMask t (sc_type_constancy_mask OR sc_type_edge_common) \<or>
     CheckMask t (sc_type_constancy_mask OR sc_type_arc_common) \<or>
     CheckMask t (sc_type_constancy_mask OR sc_type_positivity_mask OR sc_type_permanency_mask OR
       sc_type_arc_access) \<and> IsEdge t"

text \<open>
  Extending a type only adds to it: when \<^verbatim>\<open>CanExtendTo\<close> accepts an extension of a
  proper type, every bit of the type is in the extension. It accepts no extension of a
  connector type at all, not even by the type itself: the three masks it demands of an
  extended connector exclude each other.
\<close>

theorem can_extend_to_adds:
  assumes "CanExtendTo t e" and "proper_type t"
  shows "t = t AND e \<and> \<not> IsEdge t"
  using assms unfolding CanExtendTo_def proper_type_def group_differs_def CheckMask_def type_tests by_bits
  by (simp add: sc_bits bit_simps split: if_splits) blast+

lemmas type_evaluation = CanExtendTo_def proper_type_def CheckMask_def group_differs_def type_tests sc_bits

theorem can_extend_to_adds_witness:
  "NodeConst = NodeConst AND NodeConstMaterial \<and> \<not> IsEdge NodeConst"
  by (rule can_extend_to_adds) (simp_all add: type_evaluation)

subsection \<open>Addresses\<close>

definition IsValid :: "sc_addr \<Rightarrow> bool" where "IsValid a \<longleftrightarrow> \<not> SC_ADDR_IS_EMPTY a"

text \<open>
  The shift is done on a signed 32 bit integer, to which the segment number is promoted; the
  result is widened to 64 bits with its sign.
\<close>

definition Hash :: "sc_addr \<Rightarrow> u64" where
  "Hash a = scast (push_bit 16 (ucast (addr_seg a)) OR ucast (addr_offset a) :: u32)"

definition ScAddr_of_hash :: "u64 \<Rightarrow> sc_addr" where
  "ScAddr_of_hash h = Addr (ucast (drop_bit 16 h AND 0xffff)) (ucast (h AND 0xffff))"

text \<open>\<^verbatim>\<open>std::to_string\<close> of an unsigned number.\<close>

fun decimal :: "nat \<Rightarrow> string" where
  "decimal n = (if n < 10 then [char_of (48 + n)] else decimal (n div 10) @ [char_of (48 + n mod 10)])"

declare decimal.simps [simp del]

definition ToString :: "sc_addr \<Rightarrow> string" where
  "ToString a = CHR 0x26 # decimal (unat (Hash a))"

lemma low_16: "(0xffff :: u64) = mask 16"
  by (simp add: mask_eq_exp_minus_1)

lemma hash_back: "ScAddr_of_hash (Hash a) = a"
proof (cases a)
  case (Addr sg off)
  have len: "bit x n \<Longrightarrow> n < 16" for x :: u16 and n by (drule bit_imp_le_length) simp
  then have "bit (ucast (drop_bit 16 (Hash a) AND 0xffff) :: u16) n = bit sg n" for n
    unfolding Addr Hash_def low_16
    by (cases "n < 15"; cases "n = 15") (auto simp: bit_simps min_def not_less dest: len)
  moreover have "bit (ucast (Hash a AND 0xffff) :: u16) n = bit off n" for n
    unfolding Addr Hash_def low_16
    by (cases "n < 16") (auto simp: bit_simps min_def not_less dest: len)
  ultimately show ?thesis unfolding Addr ScAddr_of_hash_def by (simp add: bit_eq_iff)
qed

text \<open>
  An address survives its hash: \<^verbatim>\<open>ScAddr(a.Hash())\<close> is \<open>a\<close>, also for the segments from
  0x8000 on, whose hash has its upper half filled with ones.
\<close>

theorem hash_roundtrip: "ScAddr_of_hash (Hash a) = a"
  by (rule hash_back)

lemma inj_Hash: "inj Hash"
  by (rule inj_on_inverseI) (rule hash_back)

lemma digit_inj: "m < 10 \<Longrightarrow> n < 10 \<Longrightarrow> (char_of (48 + m :: nat) = char_of (48 + n :: nat)) = (m = n)"
  by (auto simp: char_of_eq_iff take_bit_eq_mod)

lemma decimal_not_Nil [simp]: "decimal n \<noteq> []" "[] \<noteq> decimal n"
  by (subst decimal.simps, simp)+

lemma decimal_inj: "decimal m = decimal n \<Longrightarrow> m = n"
proof (induction m arbitrary: n rule: decimal.induct)
  case (1 m)
  have m: "decimal m = (if m < 10 then [char_of (48 + m)] else decimal (m div 10) @ [char_of (48 + m mod 10)])"
    and n: "decimal n = (if n < 10 then [char_of (48 + n)] else decimal (n div 10) @ [char_of (48 + n mod 10)])"
    by (rule decimal.simps)+
  show ?case
  proof (cases "m < 10")
    case True
    with "1.prems" show ?thesis unfolding m n
      by (auto simp: digit_inj split: if_splits)
  next
    case False
    with "1.prems" have "\<not> n < 10" and e: "decimal (m div 10) = decimal (n div 10)" "m mod 10 = n mod 10"
      unfolding m n by (auto simp: digit_inj split: if_splits)
    have "m div 10 = n div 10" by (rule "1.IH" [OF False e(1)])
    with e(2) show ?thesis by (metis div_mult_mod_eq)
  qed
qed

lemma ToString_inj [simp]: "ToString a = ToString b \<longleftrightarrow> a = b"
  by (auto simp: ToString_def dest!: decimal_inj intro: injD [OF inj_Hash] word_unat_eq_iff [THEN iffD2])

lemma ToString_other [simp]: "c \<noteq> CHR 0x26 \<Longrightarrow> ToString a \<noteq> c # cs" "c \<noteq> CHR 0x26 \<Longrightarrow> c # cs \<noteq> ToString a"
  by (auto simp: ToString_def)

end
