(* ===== verification/Sc_Template.thy ===== *)
theory Sc_Template
  imports Sc_Type_Class
begin

text \<open>
  Templates of the C++ interface: their items (\<^verbatim>\<open>sc_template_arg.hpp\<close>), the table of items
  and triples (\<^verbatim>\<open>sc_template_data.hpp\<close>), parameters (\<^verbatim>\<open>sc_template_params.cpp\<close>) and the
  named structure that generation and search give back (\<^verbatim>\<open>sc_template_named_struct.cpp\<close>).

  A method that throws returns the exception in \<open>Inl\<close> beside the state it leaves. An
  \<^verbatim>\<open>SC_ASSERT\<close> on an index is the exception \<open>ExceptionAssert\<close>, as in a debug build; in a
  release build the same place reads out of range.
\<close>

datatype exception =
    ExceptionInvalidParams | ExceptionInvalidState | ExceptionItemNotFound | ExceptionAssert

subsection \<open>Items\<close>

datatype Kind = Kind_None | Kind_Type | Kind_Addr | Kind_Replace

record ScTemplateArg =
  m_kind :: Kind
  m_addrValue :: sc_addr
  m_typeValue :: ScType
  m_replacementName :: string

definition arg_addr :: "sc_addr \<Rightarrow> string \<Rightarrow> ScTemplateArg" where
  "arg_addr a repl = \<lparr>m_kind = Kind_Addr, m_addrValue = a, m_typeValue = Unknown, m_replacementName = repl\<rparr>"

definition arg_type :: "ScType \<Rightarrow> string \<Rightarrow> ScTemplateArg" where
  "arg_type t repl =
     \<lparr>m_kind = Kind_Type, m_addrValue = SC_ADDR_MAKE_EMPTY, m_typeValue = t, m_replacementName = repl\<rparr>"

definition arg_replacement :: "string \<Rightarrow> ScTemplateArg" where
  "arg_replacement repl =
     \<lparr>m_kind = Kind_Replace, m_addrValue = SC_ADDR_MAKE_EMPTY, m_typeValue = Unknown, m_replacementName = repl\<rparr>"

definition IsAddr :: "ScTemplateArg \<Rightarrow> bool" where "IsAddr v \<longleftrightarrow> m_kind v = Kind_Addr"
definition IsReplacement :: "ScTemplateArg \<Rightarrow> bool" where "IsReplacement v \<longleftrightarrow> m_kind v = Kind_Replace"
definition IsType :: "ScTemplateArg \<Rightarrow> bool" where "IsType v \<longleftrightarrow> m_kind v = Kind_Type"
definition IsFixed :: "ScTemplateArg \<Rightarrow> bool" where "IsFixed v \<longleftrightarrow> IsAddr v \<or> IsReplacement v"
definition IsAssign :: "ScTemplateArg \<Rightarrow> bool" where "IsAssign v \<longleftrightarrow> m_kind v = Kind_Type"
definition HasReplacementName :: "ScTemplateArg \<Rightarrow> bool" where
  "HasReplacementName v \<longleftrightarrow> m_replacementName v \<noteq> []"

lemmas item_tests = IsAddr_def IsReplacement_def IsType_def IsFixed_def IsAssign_def HasReplacementName_def

subsection \<open>The table\<close>

record ScTemplateData =
  m_repl :: "string \<rightharpoonup> nat"
  m_elements :: "ScTemplateArg list"
  m_triples :: "(nat \<times> nat \<times> nat) list"

definition empty_template :: ScTemplateData where
  "empty_template = \<lparr>m_repl = (\<lambda>_. None), m_elements = [], m_triples = []\<rparr>"

definition TriplesNum :: "ScTemplateData \<Rightarrow> nat" where "TriplesNum d = length (m_triples d)"

definition IsEmpty :: "ScTemplateData \<Rightarrow> bool" where "IsEmpty d \<longleftrightarrow> m_triples d = []"

text \<open>\<^verbatim>\<open>Clear\<close> leaves the items in place.\<close>

definition Clear :: "ScTemplateData \<Rightarrow> ScTemplateData" where
  "Clear d = d\<lparr>m_repl := (\<lambda>_. None), m_triples := []\<rparr>"

definition HasReplacement :: "ScTemplateData \<Rightarrow> string \<Rightarrow> bool" where
  "HasReplacement d name \<longleftrightarrow> m_repl d name \<noteq> None"

definition GetReplacement :: "ScTemplateData \<Rightarrow> string \<Rightarrow> exception + ScTemplateArg option" where
  "GetReplacement d name = (case m_repl d name of
       Some i \<Rightarrow> if i < length (m_elements d) then Inr (Some (m_elements d ! i)) else Inl ExceptionAssert
     | None \<Rightarrow> Inr None)"

text \<open>\<^verbatim>\<open>insert\<close> of a hash table keeps an entry that is there.\<close>

definition map_insert :: "'k \<Rightarrow> 'v \<Rightarrow> ('k \<rightharpoonup> 'v) \<Rightarrow> ('k \<rightharpoonup> 'v)" where
  "map_insert k v m = (if m k = None then m(k \<mapsto> v) else m)"

definition SetupReplAlias :: "string \<Rightarrow> string \<Rightarrow> ScTemplateData \<Rightarrow> (exception + bool) \<times> ScTemplateData" where
  "SetupReplAlias replName newAlias d =
     (if m_repl d newAlias \<noteq> None then (Inl ExceptionAssert, d)
      else case m_repl d replName of
        Some i \<Rightarrow> (Inr True, d\<lparr>m_repl := map_insert newAlias i (m_repl d)\<rparr>)
      | None \<Rightarrow> (Inr False, d))"

text \<open>
  One round of the loop of \<^verbatim>\<open>AddTriple\<close>: the index of the item, or an exception. No
  constructor makes an item of the kind \<^verbatim>\<open>None\<close>, for which the loop would leave the index
  unset.
\<close>

definition add_item :: "ScTemplateArg \<Rightarrow> ScTemplateData \<Rightarrow> (exception + nat) \<times> ScTemplateData" where
  "add_item v d =
     (let n = length (m_elements d); name = m_replacementName v in
      if m_kind v = Kind_Type \<and> IsConst (m_typeValue v) then (Inl ExceptionInvalidParams, d)
      else if m_kind v = Kind_Addr \<and> \<not> IsValid (m_addrValue v) then (Inl ExceptionInvalidParams, d)
      else if \<not> IsReplacement v \<and> name \<noteq> [] \<and> m_repl d name \<noteq> None then (Inl ExceptionInvalidParams, d)
      else if IsAddr v then
        (case m_repl d (ToString (m_addrValue v)) of
           None \<Rightarrow>
             (let r = map_insert (ToString (m_addrValue v)) n (m_repl d);
                  r' = (if HasReplacementName v then map_insert name n r else r)
              in (Inr n, d\<lparr>m_repl := r', m_elements := m_elements d @ [v]\<rparr>))
         | Some i \<Rightarrow> (Inr i, d))
      else if IsType v then
        (let r = (if HasReplacementName v then map_insert name n (m_repl d) else m_repl d)
         in (Inr n, d\<lparr>m_repl := r, m_elements := m_elements d @ [v]\<rparr>))
      else if IsReplacement v then
        (case m_repl d name of
           None \<Rightarrow> (Inl ExceptionInvalidParams, d)
         | Some i \<Rightarrow> (Inr i, d))
      else (Inl ExceptionAssert, d))"

fun add_items :: "ScTemplateArg list \<Rightarrow> ScTemplateData \<Rightarrow> (exception + nat list) \<times> ScTemplateData" where
  "add_items [] d = (Inr [], d)"
| "add_items (v # vs) d =
     (case add_item v d of
        (Inl e, d1) \<Rightarrow> (Inl e, d1)
      | (Inr i, d1) \<Rightarrow>
          (case add_items vs d1 of
             (Inl e, d2) \<Rightarrow> (Inl e, d2)
           | (Inr js, d2) \<Rightarrow> (Inr (i # js), d2)))"

definition AddTriple ::
    "ScTemplateArg \<Rightarrow> ScTemplateArg \<Rightarrow> ScTemplateArg \<Rightarrow> ScTemplateData \<Rightarrow> (exception + unit) \<times> ScTemplateData" where
  "AddTriple src edge trg d =
     (if m_replacementName edge \<noteq> [] \<and>
         (m_replacementName edge = m_replacementName src \<or> m_replacementName edge = m_replacementName trg)
      then (Inl ExceptionInvalidParams, d)
      else case add_items [src, edge, trg] d of
        (Inl e, d1) \<Rightarrow> (Inl e, d1)
      | (Inr js, d1) \<Rightarrow> (Inr (), d1\<lparr>m_triples := m_triples d1 @ [(js ! 0, js ! 1, js ! 2)]\<rparr>))"

type_synonym triple = "ScTemplateArg \<times> ScTemplateArg \<times> ScTemplateArg"

definition GetTriple :: "ScTemplateData \<Rightarrow> nat \<Rightarrow> exception + triple" where
  "GetTriple d i =
     (if \<not> i < length (m_triples d) then Inl ExceptionAssert
      else case m_triples d ! i of (a, b, c) \<Rightarrow>
        if \<not> (a < length (m_elements d) \<and> b < length (m_elements d) \<and> c < length (m_elements d))
        then Inl ExceptionAssert
        else Inr (m_elements d ! a, m_elements d ! b, m_elements d ! c))"

subsection \<open>The table stays sound\<close>

text \<open>
  Every index is in range, items are variable types or valid addresses, a named item is found
  under its name and the entry of an address leads to that address. For the last clause names
  must not look like the text of an address, which the source does not check.
\<close>

definition plain_name :: "string \<Rightarrow> bool" where
  "plain_name n \<longleftrightarrow> (case n of [] \<Rightarrow> True | c # _ \<Rightarrow> c \<noteq> CHR 0x26)"

definition item_ok :: "ScTemplateArg \<Rightarrow> bool" where
  "item_ok v \<longleftrightarrow> IsType v \<and> \<not> IsConst (m_typeValue v) \<or> IsAddr v \<and> IsValid (m_addrValue v)"

definition data_ok :: "ScTemplateData \<Rightarrow> bool" where
  "data_ok d \<longleftrightarrow>
     (\<forall>n i. m_repl d n = Some i \<longrightarrow> i < length (m_elements d)) \<and>
     (\<forall>(a, b, c) \<in> set (m_triples d). {a, b, c} \<subseteq> {..<length (m_elements d)}) \<and>
     (\<forall>v \<in> set (m_elements d). item_ok v) \<and>
     (\<forall>i < length (m_elements d). HasReplacementName (m_elements d ! i) \<longrightarrow>
        m_repl d (m_replacementName (m_elements d ! i)) = Some i) \<and>
     (\<forall>a i. m_repl d (ToString a) = Some i \<longrightarrow>
        IsAddr (m_elements d ! i) \<and> m_addrValue (m_elements d ! i) = a)"

text \<open>What an item of the table is to the argument it was made from.\<close>

definition stands_for :: "ScTemplateData \<Rightarrow> ScTemplateArg \<Rightarrow> ScTemplateArg \<Rightarrow> bool" where
  "stands_for d v el \<longleftrightarrow> (case m_kind v of
       Kind_Addr \<Rightarrow> IsAddr el \<and> m_addrValue el = m_addrValue v
     | Kind_Type \<Rightarrow> el = v
     | Kind_Replace \<Rightarrow> GetReplacement d (m_replacementName v) = Inr (Some el)
     | Kind_None \<Rightarrow> False)"

definition extended :: "ScTemplateData \<Rightarrow> ScTemplateData \<Rightarrow> bool" where
  "extended d d' \<longleftrightarrow> (\<exists>xs. m_elements d' = m_elements d @ xs) \<and> m_repl d \<subseteq>\<^sub>m m_repl d' \<and>
     m_triples d' = m_triples d"

lemma extended_refl [simp]: "extended d d"
  by (simp add: extended_def)

lemma extended_trans: "extended d d1 \<Longrightarrow> extended d1 d2 \<Longrightarrow> extended d d2"
  by (auto simp: extended_def intro: map_le_trans)

lemma data_okD:
  assumes "data_ok d"
  shows "m_repl d n = Some i \<Longrightarrow> i < length (m_elements d)"
    and "v \<in> set (m_elements d) \<Longrightarrow> item_ok v"
    and "i < length (m_elements d) \<Longrightarrow> HasReplacementName (m_elements d ! i) \<Longrightarrow>
      m_repl d (m_replacementName (m_elements d ! i)) = Some i"
    and "m_repl d (ToString a) = Some i \<Longrightarrow> IsAddr (m_elements d ! i) \<and> m_addrValue (m_elements d ! i) = a"
  using assms unfolding data_ok_def by blast+

lemma extended_entry:
  assumes "extended d d'" and "data_ok d" and "m_repl d n = Some i"
  shows "m_repl d' n = Some i" "i < length (m_elements d')" "m_elements d' ! i = m_elements d ! i"
proof -
  have i: "i < length (m_elements d)" by (rule data_okD(1) [OF assms(2,3)])
  show "m_repl d' n = Some i" using assms(1,3) by (auto simp: extended_def map_le_def dom_def)
  show "i < length (m_elements d')" "m_elements d' ! i = m_elements d ! i"
    using assms(1) i by (auto simp: extended_def nth_append)
qed

lemma stands_for_extended:
  assumes "stands_for d v el" and "extended d d'" and "data_ok d"
  shows "stands_for d' v el"
proof (cases "m_kind v")
  case Kind_Replace
  with assms(1) obtain i where "m_repl d (m_replacementName v) = Some i" "el = m_elements d ! i"
    by (auto simp: stands_for_def GetReplacement_def split: option.splits if_splits)
  with extended_entry [OF assms(2,3)] Kind_Replace show ?thesis
    by (simp add: stands_for_def GetReplacement_def)
qed (use assms(1) in \<open>simp_all add: stands_for_def\<close>)

lemma plain_not_address: "plain_name n \<Longrightarrow> n \<noteq> ToString a"
  by (auto simp: plain_name_def ToString_def)

text \<open>A new item: it gets the next index, and only names that were free get an entry.\<close>

lemma data_ok_append:
  assumes "data_ok d" and v: "item_ok v" "plain_name (m_replacementName v)"
    and fr: "HasReplacementName v \<Longrightarrow> m_repl d (m_replacementName v) = None"
    and d': "d' = d\<lparr>m_repl := r, m_elements := m_elements d @ [v]\<rparr>"
    and r: "r = (if HasReplacementName v then (q(m_replacementName v \<mapsto> length (m_elements d))) else q)"
    and q: "q = m_repl d \<or> IsAddr v \<and> m_repl d (ToString (m_addrValue v)) = None \<and>
       q = (m_repl d)(ToString (m_addrValue v) \<mapsto> length (m_elements d))"
  shows "data_ok d' \<and> extended d d'"
proof -
  let ?n = "length (m_elements d)"
  note D = data_okD [OF assms(1)]
  have le: "m_repl d x = Some k \<Longrightarrow> r x = Some k" for x k
    using q fr unfolding r by (auto split: if_splits)
  have new: "r x = Some k \<Longrightarrow> m_repl d x = Some k \<or> k = ?n \<and>
      (IsAddr v \<and> x = ToString (m_addrValue v) \<or> HasReplacementName v \<and> x = m_replacementName v)" for x k
    using q unfolding r by (auto split: if_splits)
  have "data_ok d'"
    unfolding data_ok_def
  proof (intro conjI allI impI ballI)
    fix x k assume "m_repl d' x = Some k"
    then show "k < length (m_elements d')" using new D(1) d' by (fastforce simp: less_Suc_eq)
  next
    fix t assume "t \<in> set (m_triples d')"
    then have "t \<in> set (m_triples d)" by (simp add: d')
    then have "case t of (a, b, c) \<Rightarrow> {a, b, c} \<subseteq> {..<?n}" using assms(1) unfolding data_ok_def by blast
    then show "case t of (a, b, c) \<Rightarrow> {a, b, c} \<subseteq> {..<length (m_elements d')}" by (auto simp: d')
  next
    fix w assume "w \<in> set (m_elements d')"
    then show "item_ok w" using D(2) v(1) by (auto simp: d')
  next
    fix k assume k: "k < length (m_elements d')" "HasReplacementName (m_elements d' ! k)"
    show "m_repl d' (m_replacementName (m_elements d' ! k)) = Some k"
    proof (cases "k = ?n")
      case False
      then have "k < ?n" using k(1) by (simp add: d')
      then show ?thesis using D(3) k(2) le by (simp add: d' nth_append)
    qed (use k(2) in \<open>simp add: d' r\<close>)
  next
    fix a k assume "m_repl d' (ToString a) = Some k"
    then have "m_repl d (ToString a) = Some k \<or> k = ?n \<and> IsAddr v \<and> a = m_addrValue v"
      using new [of "ToString a" k] plain_not_address [OF v(2), of a] by (auto simp: d')
    then show "IsAddr (m_elements d' ! k)" "m_addrValue (m_elements d' ! k) = a"
      using D(1,4) by (auto simp: d' nth_append)
  qed
  moreover have "extended d d'" using le by (auto simp: extended_def d' map_le_def dom_def)
  ultimately show ?thesis ..
qed

lemma add_item_addr:
  assumes "m_kind v = Kind_Addr" and "plain_name (m_replacementName v)"
  shows "add_item v d =
     (let n = length (m_elements d); name = m_replacementName v; s = ToString (m_addrValue v) in
      if \<not> IsValid (m_addrValue v) \<or> name \<noteq> [] \<and> m_repl d name \<noteq> None then (Inl ExceptionInvalidParams, d)
      else case m_repl d s of
         None \<Rightarrow> (Inr n, d\<lparr>m_repl := (if HasReplacementName v
            then (m_repl d)(s \<mapsto> n, name \<mapsto> n) else (m_repl d)(s \<mapsto> n)), m_elements := m_elements d @ [v]\<rparr>)
       | Some i \<Rightarrow> (Inr i, d))"
  using assms plain_not_address [OF assms(2), of "m_addrValue v"]
  by (simp add: add_item_def Let_def map_insert_def item_tests split: option.split)

lemma add_item_type:
  assumes "m_kind v = Kind_Type"
  shows "add_item v d =
     (let n = length (m_elements d); name = m_replacementName v in
      if IsConst (m_typeValue v) \<or> name \<noteq> [] \<and> m_repl d name \<noteq> None then (Inl ExceptionInvalidParams, d)
      else (Inr n, d\<lparr>m_repl := (if HasReplacementName v then (m_repl d)(name \<mapsto> n) else m_repl d),
              m_elements := m_elements d @ [v]\<rparr>))"
  using assms by (simp add: add_item_def Let_def map_insert_def item_tests)

lemma add_item_replacement:
  assumes "m_kind v = Kind_Replace"
  shows "add_item v d = (case m_repl d (m_replacementName v) of
     None \<Rightarrow> (Inl ExceptionInvalidParams, d) | Some i \<Rightarrow> (Inr i, d))"
  using assms by (simp add: add_item_def item_tests)

definition item_added :: "ScTemplateArg \<Rightarrow> ScTemplateData \<Rightarrow> exception + nat \<Rightarrow> ScTemplateData \<Rightarrow> bool" where
  "item_added v d r d' \<longleftrightarrow> data_ok d' \<and> extended d d' \<and>
     (\<forall>i. r = Inr i \<longrightarrow> i < length (m_elements d') \<and> stands_for d' v (m_elements d' ! i))"

lemma item_added_error: "data_ok d \<Longrightarrow> item_added v d (Inl e) d"
  by (simp add: item_added_def)

lemma add_item_sound:
  assumes d: "data_ok d" and v: "plain_name (m_replacementName v)" and a: "add_item v d = (r, d')"
  shows "item_added v d r d'"
proof (cases "m_kind v")
  case Kind_None
  then show ?thesis using a d by (auto simp: add_item_def item_tests Let_def intro: item_added_error split: if_splits)
next
  case Kind_Type
  show ?thesis
  proof (cases "IsConst (m_typeValue v) \<or> m_replacementName v \<noteq> [] \<and> m_repl d (m_replacementName v) \<noteq> None")
    case True
    then show ?thesis using a d add_item_type [OF Kind_Type, of d] by (auto intro: item_added_error)
  next
    case False
    then have e: "r = Inr (length (m_elements d))" "d' = d\<lparr>m_repl := (if HasReplacementName v
          then (m_repl d)(m_replacementName v \<mapsto> length (m_elements d)) else m_repl d), m_elements := m_elements d @ [v]\<rparr>"
      using a add_item_type [OF Kind_Type, of d] by (auto simp: Let_def)
    have "data_ok d' \<and> extended d d'"
      by (rule data_ok_append [OF d _ v _ e(2) refl]) (use False Kind_Type in \<open>auto simp: item_ok_def item_tests\<close>)
    then show ?thesis using e Kind_Type by (simp add: item_added_def stands_for_def)
  qed
next
  case Kind_Addr
  let ?s = "ToString (m_addrValue v)" and ?n = "length (m_elements d)"
  show ?thesis
  proof (cases "\<not> IsValid (m_addrValue v) \<or> m_replacementName v \<noteq> [] \<and> m_repl d (m_replacementName v) \<noteq> None")
    case True
    then show ?thesis using a d add_item_addr [OF Kind_Addr v, of d] by (auto intro: item_added_error)
  next
    case False
    show ?thesis
    proof (cases "m_repl d ?s")
      case None
      with False have e: "r = Inr ?n" "d' = d\<lparr>m_repl := (if HasReplacementName v
          then ((m_repl d)(?s \<mapsto> ?n))(m_replacementName v \<mapsto> ?n) else (m_repl d)(?s \<mapsto> ?n)), m_elements := m_elements d @ [v]\<rparr>"
        using a add_item_addr [OF Kind_Addr v, of d] by (auto simp: Let_def)
      have "data_ok d' \<and> extended d d'"
        by (rule data_ok_append [OF d _ v _ e(2) refl]) (use False None Kind_Addr in \<open>auto simp: item_ok_def item_tests\<close>)
      then show ?thesis using e Kind_Addr by (simp add: item_added_def stands_for_def item_tests)
    next
      case (Some i)
      with False have "r = Inr i" "d' = d" using a add_item_addr [OF Kind_Addr v, of d] by (auto simp: Let_def)
      then show ?thesis using d data_okD(1,4) [OF d Some] Kind_Addr by (simp add: item_added_def stands_for_def)
    qed
  qed
next
  case Kind_Replace
  then show ?thesis using a d data_okD(1) [OF d, of "m_replacementName v"]
    by (auto simp: add_item_replacement item_added_def stands_for_def GetReplacement_def split: option.splits)
qed

lemma item_added_later:
  assumes "data_ok d" "item_added v d (Inr i) d1" "extended d1 d2"
  shows "i < length (m_elements d2)" "stands_for d2 v (m_elements d2 ! i)"
proof -
  have d1: "data_ok d1" "i < length (m_elements d1)" "stands_for d1 v (m_elements d1 ! i)"
    using assms(2) by (auto simp: item_added_def)
  with assms(3) show "i < length (m_elements d2)" by (auto simp: extended_def)
  have "m_elements d2 ! i = m_elements d1 ! i" using assms(3) d1(2) by (auto simp: extended_def nth_append)
  then show "stands_for d2 v (m_elements d2 ! i)"
    using stands_for_extended [OF d1(3) assms(3) d1(1)] by simp
qed

lemma add_items_sound:
  assumes "data_ok d" and "\<forall>v \<in> set vs. plain_name (m_replacementName v)" and "add_items vs d = (r, d')"
  shows "data_ok d' \<and> extended d d' \<and>
     (\<forall>js. r = Inr js \<longrightarrow> length js = length vs \<and>
        (\<forall>k < length vs. js ! k < length (m_elements d') \<and> stands_for d' (vs ! k) (m_elements d' ! (js ! k))))"
  using assms
proof (induction vs arbitrary: d r d')
  case (Cons v vs)
  obtain q d1 where q: "add_item v d = (q, d1)" by fastforce
  have a: "item_added v d q d1" using add_item_sound [OF Cons.prems(1) _ q] Cons.prems(2) by simp
  show ?case
  proof (cases q)
    case (Inl e)
    then show ?thesis using a q Cons.prems(3) by (auto simp: item_added_def)
  next
    case (Inr i)
    obtain p d2 where p: "add_items vs d1 = (p, d2)" by fastforce
    have d1: "data_ok d1" "extended d d1" using a by (auto simp: item_added_def)
    have IH: "data_ok d2 \<and> extended d1 d2 \<and> (\<forall>js. p = Inr js \<longrightarrow> length js = length vs \<and>
        (\<forall>k < length vs. js ! k < length (m_elements d2) \<and> stands_for d2 (vs ! k) (m_elements d2 ! (js ! k))))"
      using Cons.IH [OF d1(1) _ p] Cons.prems(2) by simp
    moreover have "d' = d2" and r: "r = (case p of Inl e \<Rightarrow> Inl e | Inr js \<Rightarrow> Inr (i # js))"
      using Cons.prems(3) q p Inr by (auto split: sum.splits)
    moreover have "i < length (m_elements d2)" "stands_for d2 v (m_elements d2 ! i)"
      using item_added_later [OF Cons.prems(1) a [unfolded Inr]] IH by blast+
    ultimately show ?thesis using extended_trans [OF d1(2)]
      by (auto simp: less_Suc_eq_0_disj split: sum.splits)
  qed
qed auto

lemma get_triple_extended:
  assumes "data_ok d" and "extended d d1" and "i < TriplesNum d" and "d' = d1\<lparr>m_triples := m_triples d1 @ ts\<rparr>"
  shows "GetTriple d' i = GetTriple d i"
proof -
  obtain a b c where t: "m_triples d ! i = (a, b, c)" by (cases "m_triples d ! i")
  then have "(a, b, c) \<in> set (m_triples d)" using assms(3) by (metis TriplesNum_def nth_mem)
  then have "{a, b, c} \<subseteq> {..<length (m_elements d)}" using assms(1) unfolding data_ok_def by blast
  with t assms(2-4) show ?thesis by (auto simp: GetTriple_def TriplesNum_def extended_def nth_append)
qed

lemma stands_for_triples [simp]: "stands_for (d\<lparr>m_triples := ts\<rparr>) v el = stands_for d v el"
  by (simp add: stands_for_def GetReplacement_def split: Kind.split option.split)

text \<open>
  C19. \<^verbatim>\<open>ScTemplateData::AddTriple\<close> keeps the table of a template sound and the triples it
  has. When it succeeds there is one triple more, and reading it gives, in the three places,
  an item with the given address, the given type item itself, or the item that a replacement
  name stands for, a name introduced by an earlier place of the same triple included. When it
  throws, no triple is added; items and names of the places before the bad one stay behind.
\<close>

theorem add_triple_sound:
  assumes "data_ok d" and "plain_name (m_replacementName x)" "plain_name (m_replacementName y)"
    "plain_name (m_replacementName z)" and "AddTriple x y z d = (r, d')"
  shows "data_ok d' \<and> (\<forall>i < TriplesNum d. GetTriple d' i = GetTriple d i) \<and>
     (case r of
        Inl e \<Rightarrow> TriplesNum d' = TriplesNum d
      | Inr _ \<Rightarrow> TriplesNum d' = Suc (TriplesNum d) \<and>
          (\<exists>u v w. GetTriple d' (TriplesNum d) = Inr (u, v, w) \<and>
             stands_for d' x u \<and> stands_for d' y v \<and> stands_for d' z w))"
proof (cases "m_replacementName y \<noteq> [] \<and>
    (m_replacementName y = m_replacementName x \<or> m_replacementName y = m_replacementName z)")
  case True
  then have "r = Inl ExceptionInvalidParams" "d' = d" using assms(5) by (auto simp: AddTriple_def)
  then show ?thesis using assms(1) by simp
next
  case False
  obtain q d1 where q: "add_items [x, y, z] d = (q, d1)" by fastforce
  have s: "data_ok d1" "extended d d1" and js: "\<And>js. q = Inr js \<Longrightarrow> length js = 3 \<and>
      (\<forall>k < 3. js ! k < length (m_elements d1) \<and> stands_for d1 ([x, y, z] ! k) (m_elements d1 ! (js ! k)))"
    using add_items_sound [OF assms(1) _ q] assms(2-4) by auto
  have n: "length (m_triples d1) = TriplesNum d" using s(2) by (simp add: extended_def TriplesNum_def)
  show ?thesis
  proof (cases q)
    case (Inl e)
    then have "r = Inl e" "d' = d1" using assms(5) q False by (auto simp: AddTriple_def)
    then show ?thesis using s n get_triple_extended [OF assms(1) s(2), of _ d1 "[]"] by (simp add: TriplesNum_def)
  next
    case (Inr js)
    let ?t = "(js ! 0, js ! 1, js ! 2)"
    from Inr have d': "r = Inr ()" "d' = d1\<lparr>m_triples := m_triples d1 @ [?t]\<rparr>"
      using assms(5) q False by (auto simp: AddTriple_def)
    have J: "js ! k < length (m_elements d1)" "stands_for d1 ([x, y, z] ! k) (m_elements d1 ! (js ! k))"
      if "k < 3" for k using js [OF Inr] that by blast+
    note J3 = J [of 0] J [of 1] J [of 2]
    have "data_ok d'" using s(1) J3 by (auto simp: data_ok_def d')
    moreover have "GetTriple d' (TriplesNum d) =
        Inr (m_elements d1 ! (js ! 0), m_elements d1 ! (js ! 1), m_elements d1 ! (js ! 2))"
      using J3 n by (simp add: GetTriple_def d' nth_append)
    ultimately show ?thesis
      using d' n J3 get_triple_extended [OF assms(1) s(2) _ d'(2)] by (simp add: TriplesNum_def)
  qed
qed

text \<open>The triples as the readers of a template get them.\<close>

definition triples_of :: "ScTemplateData \<Rightarrow> triple list" where
  "triples_of d = map (\<lambda>(a, b, c). (m_elements d ! a, m_elements d ! b, m_elements d ! c)) (m_triples d)"

definition items_of :: "triple \<Rightarrow> ScTemplateArg set" where
  "items_of t = (case t of (x, y, z) \<Rightarrow> {x, y, z})"

lemma get_triple_of:
  assumes "data_ok d" and "i < TriplesNum d"
  shows "GetTriple d i = Inr (triples_of d ! i)" "items_of (triples_of d ! i) \<subseteq> set (m_elements d)"
proof -
  obtain a b c where t: "m_triples d ! i = (a, b, c)" by (cases "m_triples d ! i")
  then have "(a, b, c) \<in> set (m_triples d)" using assms(2) by (metis TriplesNum_def nth_mem)
  then have "{a, b, c} \<subseteq> {..<length (m_elements d)}" using assms(1) unfolding data_ok_def by blast
  then show "GetTriple d i = Inr (triples_of d ! i)" "items_of (triples_of d ! i) \<subseteq> set (m_elements d)"
    using t assms(2) by (auto simp: GetTriple_def TriplesNum_def triples_of_def items_of_def)
qed

text \<open>A small template: a class with a variable member, and a variable arc to a link from the member.\<close>

definition member_template :: ScTemplateData where
  "member_template = snd (AddTriple (arg_addr (Addr 0 1) ''_class'') (arg_type EdgeAccessVarPosPerm ''_edge'')
     (arg_type NodeVar ''_member'') empty_template)"

lemma empty_template_ok: "data_ok empty_template"
  by (simp add: data_ok_def empty_template_def)

lemmas template_evaluation = AddTriple_def add_item_def Let_def map_insert_def item_tests arg_addr_def arg_type_def
  arg_replacement_def empty_template_def IsValid_def SC_ADDR_MAKE_EMPTY_def type_tests sc_bits

lemma member_template_eq:
  "member_template = \<lparr>
     m_repl = [ToString (Addr 0 1) \<mapsto> 0, ''_class'' \<mapsto> 0, ''_edge'' \<mapsto> 1, ''_member'' \<mapsto> 2],
     m_elements = [arg_addr (Addr 0 1) ''_class'', arg_type EdgeAccessVarPosPerm ''_edge'', arg_type NodeVar ''_member''],
     m_triples = [(0, 1, 2)]\<rparr>"
  by (simp add: member_template_def template_evaluation ToString_def numeral_2_eq_2)

lemma member_template_ok: "data_ok member_template"
  by (auto simp: member_template_eq data_ok_def item_ok_def item_tests arg_addr_def arg_type_def type_tests sc_bits
        IsValid_def SC_ADDR_MAKE_EMPTY_def less_Suc_eq split: if_splits)

theorem add_triple_sound_witness:
  "data_ok member_template \<and> TriplesNum member_template = 1 \<and>
   (\<exists>u v w. GetTriple member_template 0 = Inr (u, v, w) \<and>
      m_addrValue u = Addr 0 1 \<and> v = arg_type EdgeAccessVarPosPerm ''_edge'' \<and> w = arg_type NodeVar ''_member'')"
proof -
  let ?x = "arg_addr (Addr 0 1) ''_class''" and ?y = "arg_type EdgeAccessVarPosPerm ''_edge''"
    and ?z = "arg_type NodeVar ''_member''"
  have a: "fst (AddTriple ?x ?y ?z empty_template) = Inr ()"
    by (simp add: template_evaluation ToString_def split: option.split)
  then have "AddTriple ?x ?y ?z empty_template = (Inr (), member_template)"
    by (simp add: member_template_def prod_eq_iff)
  from add_triple_sound [OF empty_template_ok _ _ _ this] show ?thesis
    by (auto simp: TriplesNum_def empty_template_def stands_for_def plain_name_def arg_addr_def arg_type_def)
qed

text \<open>
  Giving a second name to an address that the template has already: the call succeeds and
  the name is lost, so the next triple that uses the name is refused.
\<close>

lemma second_name_of_address_lost:
  assumes "data_ok d" and "IsValid a" and "m_repl d (ToString a) = Some i"
    and "name \<noteq> []" "m_repl d name = None"
  shows "add_item (arg_addr a name) d = (Inr i, d) \<and>
    fst (add_item (arg_replacement name) (snd (add_item (arg_addr a name) d))) = Inl ExceptionInvalidParams"
  using assms by (simp add: add_item_def item_tests Let_def arg_addr_def arg_replacement_def)

subsection \<open>Parameters\<close>

text \<open>The hash table of the parameters, listed in the order in which it is iterated.\<close>

type_synonym ScTemplateParams = "(string \<times> sc_addr) list"

definition params_add :: "string \<Rightarrow> sc_addr \<Rightarrow> ScTemplateParams \<Rightarrow> exception + ScTemplateParams" where
  "params_add key v ps =
     (if map_of ps (ToString v) \<noteq> None then Inl ExceptionAssert
      else if map_of ps key \<noteq> None then Inl ExceptionAssert
      else Inr ((key, v) # ps))"

definition params_add_addr :: "sc_addr \<Rightarrow> sc_addr \<Rightarrow> ScTemplateParams \<Rightarrow> exception + ScTemplateParams" where
  "params_add_addr key v ps = params_add (ToString key) v ps"

definition params_TryGet :: "ScTemplateParams \<Rightarrow> string \<Rightarrow> sc_addr" where
  "params_TryGet ps name = (case map_of ps name of Some a \<Rightarrow> a | None \<Rightarrow> SC_ADDR_MAKE_EMPTY)"

definition CanAssignParam :: "ScType \<Rightarrow> ScType \<Rightarrow> bool" where
  "CanAssignParam varType paramType =
     (if varType AND sc_type_element_mask \<noteq> paramType AND sc_type_element_mask then False
      else if \<not> IsVar varType \<or> IsVar paramType then False
      else let m = NOT (sc_type_element_mask OR sc_type_constancy_mask); varMask = varType AND m in
        \<not> (varMask \<noteq> 0 \<and> varMask \<noteq> paramType AND m))"

subsection \<open>Named structures\<close>

record ScTemplateNamedStruct =
  m_names :: "string \<rightharpoonup> nat"
  ns_elements :: "sc_addr list"

record Builder =
  m_struct :: ScTemplateNamedStruct
  m_addrs :: "u64 \<rightharpoonup> nat"

definition ns_Has :: "ScTemplateNamedStruct \<Rightarrow> string \<Rightarrow> bool" where
  "ns_Has n name \<longleftrightarrow> m_names n name \<noteq> None"

definition ns_get :: "ScTemplateNamedStruct \<Rightarrow> string \<Rightarrow> exception + sc_addr" where
  "ns_get n name = (case m_names n name of
       Some i \<Rightarrow> if i < length (ns_elements n) then Inr (ns_elements n ! i) else Inl ExceptionAssert
     | None \<Rightarrow> Inr SC_ADDR_MAKE_EMPTY)"

definition builder_new :: Builder where
  "builder_new = \<lparr>m_struct = \<lparr>m_names = (\<lambda>_. None), ns_elements = []\<rparr>, m_addrs = (\<lambda>_. None)\<rparr>"

definition builder_Add :: "sc_addr \<Rightarrow> Builder \<Rightarrow> Builder" where
  "builder_Add a b =
     (if m_addrs b (Hash a) = None
      then b\<lparr>m_addrs := map_insert (Hash a) (length (ns_elements (m_struct b))) (m_addrs b),
             m_struct := (m_struct b)\<lparr>ns_elements := ns_elements (m_struct b) @ [a]\<rparr>\<rparr>
      else b)"

definition builder_Add_named :: "string \<Rightarrow> sc_addr \<Rightarrow> Builder \<Rightarrow> (exception + unit) \<times> Builder" where
  "builder_Add_named name a b =
     (let n = m_struct b; k = length (ns_elements n) in
      if m_names n name \<noteq> None then (Inl ExceptionInvalidState, b)
      else case m_addrs b (Hash a) of
        None \<Rightarrow> (Inr (), b\<lparr>m_struct := n\<lparr>m_names := map_insert name k (m_names n), ns_elements := ns_elements n @ [a]\<rparr>,
                          m_addrs := map_insert (Hash a) k (m_addrs b)\<rparr>)
      | Some i \<Rightarrow> (Inr (), b\<lparr>m_struct := n\<lparr>m_names := map_insert name i (m_names n)\<rparr>\<rparr>))"

text \<open>The table of addresses lists the elements, and every name leads to one of them.\<close>

definition builder_ok :: "Builder \<Rightarrow> bool" where
  "builder_ok b \<longleftrightarrow>
     (\<forall>h i. m_addrs b h = Some i \<longrightarrow> i < length (ns_elements (m_struct b)) \<and> Hash (ns_elements (m_struct b) ! i) = h) \<and>
     (\<forall>name i. m_names (m_struct b) name = Some i \<longrightarrow> i < length (ns_elements (m_struct b)))"

lemma builder_new_ok: "builder_ok builder_new" "\<not> ns_Has (m_struct builder_new) name"
  by (simp_all add: builder_ok_def builder_new_def ns_Has_def)

lemma builder_Add_named_ok:
  assumes "builder_ok b" and "\<not> ns_Has (m_struct b) name"
  shows "\<exists>b'. builder_Add_named name a b = (Inr (), b') \<and> builder_ok b' \<and>
     ns_get (m_struct b') = (ns_get (m_struct b))(name := Inr a) \<and>
     ns_Has (m_struct b') = (ns_Has (m_struct b))(name := True)"
proof (cases "m_addrs b (Hash a)")
  case None
  show ?thesis
    using assms None
    by (auto simp: builder_Add_named_def Let_def builder_ok_def ns_Has_def map_insert_def ns_get_def fun_eq_iff
          nth_append less_Suc_eq split: option.split)
next
  case (Some i)
  then have "i < length (ns_elements (m_struct b))" "ns_elements (m_struct b) ! i = a"
    using assms(1) injD [OF inj_Hash] unfolding builder_ok_def by blast+
  with assms Some show ?thesis
    by (auto simp: builder_Add_named_def Let_def builder_ok_def ns_Has_def map_insert_def ns_get_def fun_eq_iff
          split: option.split)
qed

end
