(* ===== verification/Sc_Template_Generate.thy ===== *)
theory Sc_Template_Generate
  imports Sc_Template Sc_Abstract
begin

text \<open>
  Generation of a template (\<^verbatim>\<open>sc-memory/sc-memory/sc_template_generate.cpp\<close>) over the model of
  the storage. \<^verbatim>\<open>SC_ASSERT\<close> throws in a debug build and does nothing in a release build; the
  argument \<open>debug\<close> tells which build it is. The guard that holds the events of the context
  back does not show here: the storage model only records the events in their order.
\<close>

subsection \<open>The generator\<close>

record gen_state =
  gen_storage :: sc_storage
  gen_builder :: Builder
  m_createdElements :: "sc_addr list"

definition CreateNode :: "sc_memory_context \<Rightarrow> ScType \<Rightarrow> sc_storage \<Rightarrow> (sc_addr \<times> sc_storage) option" where
  "CreateNode ctx t s = sc_storage_node_new ctx t s"

definition CreateLink :: "sc_memory_context \<Rightarrow> ScType \<Rightarrow> sc_storage \<Rightarrow> (sc_addr \<times> sc_storage) option" where
  "CreateLink ctx t s = sc_storage_link_new ctx (IsConst t) s"

definition CreateEdge ::
    "sc_memory_context \<Rightarrow> ScType \<Rightarrow> sc_addr \<Rightarrow> sc_addr \<Rightarrow> sc_storage \<Rightarrow> (sc_addr \<times> sc_storage) option" where
  "CreateEdge ctx t b e s = sc_storage_arc_new ctx t b e s"

definition CreateNodeLink ::
    "sc_memory_context \<Rightarrow> ScType \<Rightarrow> gen_state \<Rightarrow> (sc_addr \<times> gen_state) option" where
  "CreateNodeLink ctx t g = do {
     (a, s) \<leftarrow> (if IsNode t then CreateNode ctx t (gen_storage g)
                else if IsLink t then CreateLink ctx LinkConst (gen_storage g)
                else Some (SC_ADDR_MAKE_EMPTY, gen_storage g));
     let g1 = g\<lparr>gen_storage := s\<rparr>;
     Some (a, if IsValid a then g1\<lparr>m_createdElements := m_createdElements g1 @ [a]\<rparr> else g1)
   }"

definition generate_ResolveAddr ::
    "sc_memory_context \<Rightarrow> ScTemplateParams \<Rightarrow> ScTemplateArg \<Rightarrow> gen_state \<Rightarrow>
     ((exception + sc_addr) \<times> gen_state) option" where
  "generate_ResolveAddr ctx params v g =
     (let name = m_replacementName v; result = m_struct (gen_builder g) in
      if params \<noteq> [] \<and> name \<noteq> [] \<and> IsValid (params_TryGet params name)
      then Some (Inr (params_TryGet params name), g)
      else case m_kind v of
        Kind_Addr \<Rightarrow> Some (Inr (m_addrValue v), g)
      | Kind_Type \<Rightarrow>
          (case (if HasReplacementName v then ns_get result name else Inr SC_ADDR_MAKE_EMPTY) of
             Inl e \<Rightarrow> Some (Inl e, g)
           | Inr a \<Rightarrow>
               if IsValid a then Some (Inr a, g)
               else map_option (map_prod Inr id) (CreateNodeLink ctx (UpConstType (m_typeValue v)) g))
      | Kind_Replace \<Rightarrow> Some (ns_get result name, g)
      | Kind_None \<Rightarrow> Some (Inr SC_ADDR_MAKE_EMPTY, g))"

definition CheckParams :: "ScTemplateData \<Rightarrow> ScTemplateParams \<Rightarrow> exception + bool" where
  "CheckParams d params = foldr (\<lambda>(key, a) rest.
      if key = ToString a then rest
      else case GetReplacement d key of
        Inl e \<Rightarrow> Inl e
      | Inr None \<Rightarrow> Inr False
      | Inr (Some repl) \<Rightarrow>
          let itemType = m_typeValue repl in
          if HasConstancyFlag itemType \<and> (\<not> IsVar itemType \<or> IsEdge itemType) then Inr False else rest)
    params (Inr True)"

definition AddResult :: "sc_addr \<Rightarrow> string \<Rightarrow> Builder \<Rightarrow> Builder" where
  "AddResult a name b =
     (if name = [] then b
      else if \<not> ns_Has (m_struct b) name then snd (builder_Add_named name a b) else b)"

text \<open>
  One triple: an exception, \<open>Inr False\<close> for \<^verbatim>\<open>isError\<close>, or \<open>Inr True\<close> to go on.
\<close>

definition generate_triple ::
    "bool \<Rightarrow> sc_memory_context \<Rightarrow> ScTemplateParams \<Rightarrow> triple \<Rightarrow> gen_state \<Rightarrow>
     ((exception + bool) \<times> gen_state) option" where
  "generate_triple debug ctx params t g = (case t of (x, y, z) \<Rightarrow>
     if debug \<and> \<not> (m_kind y = Kind_Type \<and> IsEdge (m_typeValue y)) then Some (Inl ExceptionAssert, g)
     else do {
       (r1, g1) \<leftarrow> generate_ResolveAddr ctx params x g;
       (case r1 of
          Inl e \<Rightarrow> Some (Inl e, g1)
        | Inr addr1 \<Rightarrow>
            if debug \<and> \<not> IsValid addr1 then Some (Inl ExceptionAssert, g1)
            else do {
              (r2, g2) \<leftarrow> generate_ResolveAddr ctx params z g1;
              (case r2 of
                 Inl e \<Rightarrow> Some (Inl e, g2)
               | Inr addr2 \<Rightarrow>
                   if debug \<and> \<not> IsValid addr2 then Some (Inl ExceptionAssert, g2)
                   else if \<not> IsValid addr1 \<or> \<not> IsValid addr2 then Some (Inr False, g2)
                   else do {
                     (edge, s) \<leftarrow> CreateEdge ctx (UpConstType (m_typeValue y)) addr1 addr2 (gen_storage g2);
                     let g3 = g2\<lparr>gen_storage := s\<rparr>;
                     if \<not> IsValid edge then Some (Inr False, g3)
                     else do {
                       let b1 = AddResult addr1 (m_replacementName x) (gen_builder g3);
                       let b2 = AddResult edge (m_replacementName y) b1;
                       let b3 = AddResult addr2 (m_replacementName z) b2;
                       Some (Inr True, g3\<lparr>gen_builder := b3\<rparr>)
                     }
                   })
            })
     })"

fun generate_triples ::
    "bool \<Rightarrow> sc_memory_context \<Rightarrow> ScTemplateParams \<Rightarrow> ScTemplateData \<Rightarrow> nat list \<Rightarrow> gen_state \<Rightarrow>
     ((exception + bool) \<times> gen_state) option" where
  "generate_triples debug ctx params d [] g = Some (Inr True, g)"
| "generate_triples debug ctx params d (i # is) g =
     (case GetTriple d i of
        Inl e \<Rightarrow> Some (Inl e, g)
      | Inr t \<Rightarrow> do {
          (r, g1) \<leftarrow> generate_triple debug ctx params t g;
          if r = Inr True then generate_triples debug ctx params d is g1 else Some (r, g1)
        })"

fun CleanupCreated ::
    "bool \<Rightarrow> (sc_addr list \<Rightarrow> sc_addr list) \<Rightarrow> (sc_element \<Rightarrow> u8 list) \<Rightarrow> sc_memory_context \<Rightarrow>
     sc_addr list \<Rightarrow> sc_storage \<Rightarrow> ((exception + unit) \<times> sc_storage) option" where
  "CleanupCreated debug order self_sum ctx [] s = Some (Inr (), s)"
| "CleanupCreated debug order self_sum ctx (a # as) s =
     (if debug \<and> \<not> IsValid a then Some (Inl ExceptionAssert, s)
      else do {
        (_, s1) \<leftarrow> sc_storage_element_free order self_sum ctx a s;
        CleanupCreated debug order self_sum ctx as s1
      })"

fun check_edges :: "ScTemplateData \<Rightarrow> nat list \<Rightarrow> exception + unit" where
  "check_edges d [] = Inr ()"
| "check_edges d (i # is) =
     (case GetTriple d i of
        Inl e \<Rightarrow> Inl e
      | Inr (x, y, z) \<Rightarrow> if IsFixed y then Inl ExceptionInvalidParams else check_edges d is)"

definition generate_Do ::
    "bool \<Rightarrow> (sc_addr list \<Rightarrow> sc_addr list) \<Rightarrow> (sc_element \<Rightarrow> u8 list) \<Rightarrow> sc_memory_context \<Rightarrow>
     ScTemplateData \<Rightarrow> ScTemplateParams \<Rightarrow> sc_storage \<Rightarrow>
     ((exception + ScTemplateNamedStruct option) \<times> sc_storage) option" where
  "generate_Do debug order self_sum ctx d params s =
     (case check_edges d [0..<TriplesNum d] of
        Inl e \<Rightarrow> Some (Inl e, s)
      | Inr _ \<Rightarrow>
          (case CheckParams d params of
             Inl e \<Rightarrow> Some (Inl e, s)
           | Inr False \<Rightarrow> Some (Inr None, s)
           | Inr True \<Rightarrow> do {
               (r, g) \<leftarrow> generate_triples debug ctx params d [0..<TriplesNum d]
                  \<lparr>gen_storage = s, gen_builder = builder_new, m_createdElements = []\<rparr>;
               (case r of
                  Inl e \<Rightarrow> Some (Inl e, gen_storage g)
                | Inr False \<Rightarrow> do {
                    (c, s1) \<leftarrow> CleanupCreated debug order self_sum ctx (m_createdElements g) (gen_storage g);
                    (case c of Inl e \<Rightarrow> Some (Inl e, s1) | Inr _ \<Rightarrow> Some (Inr None, s1))
                  }
                | Inr True \<Rightarrow> Some (Inr (Some (m_struct (gen_builder g))), gen_storage g))
             }))"

subsection \<open>Growth of the storage\<close>

text \<open>The storage has kept everything it had and has made at most \<open>n\<close> new segments.\<close>

definition grown :: "sc_storage \<Rightarrow> nat \<Rightarrow> sc_storage \<Rightarrow> bool" where
  "grown s n s' \<longleftrightarrow> graph_ok s' \<and> view s \<subseteq>\<^sub>m view s' \<and> held s' = held s \<and>
     max_loaded_segments s' = max_loaded_segments s \<and> segments_num s' \<le> segments_num s + n"

lemma grown_trans: "grown s m s1 \<Longrightarrow> grown s1 n s2 \<Longrightarrow> grown s (m + n) s2"
  by (auto simp: grown_def intro: map_le_trans)

lemma grown_mono: "grown s m s1 \<Longrightarrow> m \<le> n \<Longrightarrow> grown s n s1"
  by (auto simp: grown_def)

lemma grown_live: "grown s n s' \<Longrightarrow> live s \<subseteq> live s'"
  using map_le_implies_dom_le [of "view s" "view s'"] by (simp add: grown_def dom_view)

lemma map_le_upd: "a \<notin> dom m \<Longrightarrow> m \<subseteq>\<^sub>m m(a \<mapsto> v)"
  by (auto simp: map_le_def dom_def)

text \<open>Room for one more element.\<close>

definition roomy :: "sc_storage \<Rightarrow> bool" where
  "roomy s \<longleftrightarrow> graph_ok s \<and> max_loaded_segments s \<le> int SC_ADDR_SEG_MAX \<and>
     int (segments_num s) < max_loaded_segments s"

inductive_cases graph_step_linkE: "graph_step (New_Link c) r g g'"
inductive_cases graph_step_arcE: "graph_step (New_Arc t b e) r g g'"

lemma create_node_grows:
  assumes "roomy s" and "t AND sc_type_arc_mask = 0"
  shows "\<exists>a s'. CreateNode ctx t s = Some (a, s') \<and> IsValid a \<and> grown s 1 s' \<and> a \<notin> live s \<and>
     view s' a = Some (sc_flags_remove (sc_type_node OR t), None)"
proof -
  obtain a s' where n: "sc_storage_node_new_ext ctx t (ctx_access ctx) s = Some (a, s')" "graph_ok s'" "held s' = held s"
    "max_loaded_segments s' = max_loaded_segments s" "segments_num s' \<le> Suc (segments_num s)"
    "a \<noteq> SC_ADDR_MAKE_EMPTY" and st: "graph_step (New_Node t) (Address a) (view s) (view s')"
    using new_node_step [of s t ctx "ctx_access ctx"] assms by (auto simp: roomy_def and.commute)
  from st n(6) have v: "view s' = (view s)(a \<mapsto> (sc_flags_remove (sc_type_node OR t), None))" "a \<notin> dom (view s)"
    by (auto elim: graph_step_nodeE)
  with n show ?thesis
    by (auto simp: CreateNode_def sc_storage_node_new_def IsValid_def grown_def map_le_upd dom_view)
qed

lemma create_link_grows:
  assumes "roomy s"
  shows "\<exists>a s'. CreateLink ctx LinkConst s = Some (a, s') \<and> IsValid a \<and> grown s 1 s' \<and> a \<notin> live s \<and>
     view s' a = Some (LinkConst, None)"
proof -
  have c: "IsConst LinkConst" by (simp add: type_tests sc_bits)
  obtain a s' where n: "sc_storage_link_new_ext ctx (ctx_access ctx) True s = Some (a, s')" "graph_ok s'" "held s' = held s"
    "max_loaded_segments s' = max_loaded_segments s" "segments_num s' \<le> Suc (segments_num s)"
    "a \<noteq> SC_ADDR_MAKE_EMPTY" and st: "graph_step (New_Link True) (Address a) (view s) (view s')"
    using new_link_step [of s ctx "ctx_access ctx" True] assms by (auto simp: roomy_def)
  from st n(6) have v: "view s' = (view s)(a \<mapsto> (LinkConst, None))" "a \<notin> dom (view s)"
    by (auto elim: graph_step_linkE simp: LinkConst_def)
  with n c show ?thesis
    by (auto simp: CreateLink_def sc_storage_link_new_def IsValid_def grown_def map_le_upd dom_view)
qed

lemma create_edge_grows:
  assumes "roomy s" and "b \<in> live s" "e \<in> live s" and "\<not> IsNode t" "\<not> IsLink t"
  shows "\<exists>a s'. CreateEdge ctx t b e s = Some (a, s') \<and> IsValid a \<and> grown s 1 s' \<and> a \<notin> live s \<and>
     view s' a = Some (arc_type t, Some (b, e))"
proof -
  have "sc_type_node AND t = 0" "t AND sc_type_link = 0" using assms(4,5) by (simp_all add: type_tests and.commute)
  then obtain a s' where n: "sc_storage_arc_new_ext ctx t b e (ctx_access ctx) s = Some (a, s')" "graph_ok s'" "held s' = held s"
    "max_loaded_segments s' = max_loaded_segments s" "segments_num s' \<le> Suc (segments_num s)"
    and st: "graph_step (New_Arc t b e) (Address a) (view s) (view s')"
    using new_arc_step [of s b e t ctx "ctx_access ctx"] assms by (auto simp: roomy_def)
  from st have v: "view s' = (view s)(a \<mapsto> (arc_type t, Some (b, e)))" "a \<notin> dom (view s)" "a \<noteq> SC_ADDR_MAKE_EMPTY"
    by (auto elim: graph_step_arcE)
  with n show ?thesis
    by (auto simp: CreateEdge_def sc_storage_arc_new_def IsValid_def grown_def map_le_upd dom_view)
qed

subsection \<open>What the items of a template become\<close>

definition given :: "ScTemplateParams \<Rightarrow> ScTemplateArg \<Rightarrow> bool" where
  "given params v \<longleftrightarrow> m_replacementName v \<noteq> [] \<and> IsValid (params_TryGet params (m_replacementName v))"

text \<open>
  The address of an item: the parameter of its name, else the address it holds, else a new
  node with the type bits of the item made constant, or a new constant link.
\<close>

definition denotes :: "ScTemplateParams \<Rightarrow> sc_storage \<Rightarrow> ScTemplateArg \<Rightarrow> sc_addr \<Rightarrow> bool" where
  "denotes params s v a \<longleftrightarrow> a \<in> live s \<and>
     (if given params v then a = params_TryGet params (m_replacementName v)
      else if IsAddr v then a = m_addrValue v
      else if IsNode (m_typeValue v)
      then view s a = Some (sc_flags_remove (sc_type_node OR UpConstType (m_typeValue v)), None)
      else IsLink (m_typeValue v) \<longrightarrow> view s a = Some (LinkConst, None))"

text \<open>
  The condition under which a list of triples can be generated, given the names that have an
  element already: connectors are new variables with a connector type, and every other item
  is a live element, known by its name, or a node or link type. A variable that a triple uses
  at both ends is known before it: the two ends would become two elements otherwise.
\<close>

definition item_ready :: "ScTemplateParams \<Rightarrow> sc_storage \<Rightarrow> string set \<Rightarrow> ScTemplateArg \<Rightarrow> bool" where
  "item_ready params s K v \<longleftrightarrow>
     (if given params v then params_TryGet params (m_replacementName v) \<in> live s
      else if IsAddr v then m_addrValue v \<in> live s
      else IsType v \<and> (m_replacementName v \<in> K \<or>
        (if IsNode (m_typeValue v) then \<not> IsEdge (m_typeValue v) else IsLink (m_typeValue v))))"

fun generable :: "ScTemplateParams \<Rightarrow> sc_storage \<Rightarrow> string set \<Rightarrow> triple list \<Rightarrow> bool" where
  "generable params s K [] = True"
| "generable params s K ((x, y, z) # ts) =
     (IsType y \<and> IsEdge (m_typeValue y) \<and> \<not> IsNode (m_typeValue y) \<and> \<not> IsLink (m_typeValue y) \<and>
      (m_replacementName y \<noteq> [] \<longrightarrow> m_replacementName y \<notin> K \<and> \<not> given params y \<and>
         m_replacementName y \<noteq> m_replacementName x \<and> m_replacementName y \<noteq> m_replacementName z) \<and>
      item_ready params s K x \<and> item_ready params s K z \<and>
      (m_replacementName x \<noteq> [] \<and> m_replacementName x = m_replacementName z \<longrightarrow>
         m_replacementName x \<in> K \<or> given params x \<or> IsAddr x) \<and>
      generable params s
        (K \<union> ({m_replacementName x, m_replacementName y, m_replacementName z} - {[]})) ts)"

definition names_ok :: "ScTemplateArg set \<Rightarrow> ScTemplateParams \<Rightarrow> sc_storage \<Rightarrow> ScTemplateNamedStruct \<Rightarrow> bool" where
  "names_ok E params s res \<longleftrightarrow> (\<forall>v \<in> E. m_replacementName v \<noteq> [] \<and> ns_Has res (m_replacementName v) \<longrightarrow>
     (\<exists>a. ns_get res (m_replacementName v) = Inr a \<and> denotes params s v a))"

text \<open>The state of the generator after \<open>n\<close> creations; \<open>K\<close> are the names with an element.\<close>

definition gen_inv ::
    "ScTemplateArg set \<Rightarrow> ScTemplateParams \<Rightarrow> sc_storage \<Rightarrow> nat \<Rightarrow> string set \<Rightarrow> gen_state \<Rightarrow> bool" where
  "gen_inv E params s n K g \<longleftrightarrow> grown s n (gen_storage g) \<and> builder_ok (gen_builder g) \<and>
     names_ok E params (gen_storage g) (m_struct (gen_builder g)) \<and>
     (\<forall>name. ns_Has (m_struct (gen_builder g)) name \<longleftrightarrow> name \<in> K) \<and> [] \<notin> K"

lemma valid_live: "graph_ok s \<Longrightarrow> a \<in> live s \<Longrightarrow> IsValid a"
  using empty_not_live [OF graph_ok_storage] by (auto simp: IsValid_def)

lemma denotes_grown:
  assumes "denotes params s v a" and "grown s n s'"
  shows "denotes params s' v a"
proof -
  have "view s a = Some x \<Longrightarrow> view s' a = Some x" for x
    using assms(2) by (auto simp: grown_def map_le_def dom_def)
  then show ?thesis using assms(1) grown_live [OF assms(2)] by (auto simp: denotes_def split: if_splits)
qed

lemma names_ok_grown: "names_ok E params s res \<Longrightarrow> grown s n s' \<Longrightarrow> names_ok E params s' res"
  unfolding names_ok_def using denotes_grown by blast

lemma up_const_arc_mask: "\<not> IsEdge t \<Longrightarrow> UpConstType t AND sc_type_arc_mask = 0"
  using up_const_type(5) [of t] by (simp add: IsEdge_def)

lemma create_node_link:
  assumes g: "grown s n (gen_storage g)" and r: "roomy (gen_storage g)"
    and t: "if IsNode t then \<not> IsEdge t else IsLink t"
  shows "\<exists>a g'. CreateNodeLink ctx (UpConstType t) g = Some (a, g') \<and> IsValid a \<and> gen_builder g' = gen_builder g \<and>
     grown (gen_storage g) 1 (gen_storage g') \<and> a \<in> live (gen_storage g') - live (gen_storage g) \<and>
     (if IsNode t then view (gen_storage g') a = Some (sc_flags_remove (sc_type_node OR UpConstType t), None)
      else view (gen_storage g') a = Some (LinkConst, None))"
proof (cases "IsNode t")
  case True
  then obtain a s' where "CreateNode ctx (UpConstType t) (gen_storage g) = Some (a, s')" "IsValid a"
    "grown (gen_storage g) 1 s'" "a \<notin> live (gen_storage g)" and v: "view s' a = Some (sc_flags_remove (sc_type_node OR UpConstType t), None)"
    using create_node_grows [OF r up_const_arc_mask, of t ctx] t by auto
  moreover have "a \<in> live s'" using v dom_view [of s'] by blast
  ultimately show ?thesis using True by (simp add: CreateNodeLink_def up_const_type)
next
  case False
  obtain a s' where "CreateLink ctx LinkConst (gen_storage g) = Some (a, s')" "IsValid a"
    "grown (gen_storage g) 1 s'" "a \<notin> live (gen_storage g)" and v: "view s' a = Some (LinkConst, None)"
    using create_link_grows [OF r, of ctx] by auto
  moreover have "a \<in> live s'" using v dom_view [of s'] by blast
  ultimately show ?thesis using False t by (simp add: CreateNodeLink_def up_const_type)
qed

lemma resolve_ok:
  assumes inv: "gen_inv E params s n K g" and v: "v \<in> E" "item_ready params s K v"
    and cap: "max_loaded_segments s \<le> int SC_ADDR_SEG_MAX" "int (segments_num s + n) < max_loaded_segments s"
  shows "\<exists>a g'. generate_ResolveAddr ctx params v g = Some (Inr a, g') \<and> gen_inv E params s (Suc n) K g' \<and>
     gen_builder g' = gen_builder g \<and> denotes params (gen_storage g') v a \<and>
     grown (gen_storage g) 1 (gen_storage g') \<and>
     (m_replacementName v \<in> K \<longrightarrow> ns_get (m_struct (gen_builder g)) (m_replacementName v) = Inr a)"
proof -
  let ?s = "gen_storage g" and ?res = "m_struct (gen_builder g)" and ?name = "m_replacementName v"
  have I: "grown s n ?s" "builder_ok (gen_builder g)" "names_ok E params ?s ?res"
    "\<And>name. ns_Has ?res name \<longleftrightarrow> name \<in> K" "[] \<notin> K" using inv by (auto simp: gen_inv_def)
  have gs: "graph_ok ?s" using I(1) by (simp add: grown_def)
  have stay: "gen_inv E params s (Suc n) K g" "grown ?s 1 ?s"
    using I grown_mono [OF I(1), of "Suc n"] gs by (auto simp: gen_inv_def grown_def)
  have known: "\<exists>a. ns_get ?res ?name = Inr a \<and> denotes params ?s v a" if "?name \<in> K"
    using I(3,4,5) v(1) that unfolding names_ok_def by metis
  consider "given params v" | "\<not> given params v" "IsAddr v"
    | "\<not> given params v" "IsType v" "?name \<in> K"
    | (new) "\<not> given params v" "IsType v" "?name \<notin> K"
        "if IsNode (m_typeValue v) then \<not> IsEdge (m_typeValue v) else IsLink (m_typeValue v)"
    using v(2) by (auto simp: item_ready_def split: if_splits)
  then show ?thesis
  proof cases
    case 1
    then have "params \<noteq> []" by (auto simp: given_def params_TryGet_def IsValid_def)
    with 1 have r: "generate_ResolveAddr ctx params v g = Some (Inr (params_TryGet params ?name), g)"
      by (simp add: generate_ResolveAddr_def given_def)
    have "denotes params ?s v (params_TryGet params ?name)"
      using 1 v(2) grown_live [OF I(1)] by (auto simp: denotes_def item_ready_def)
    moreover have "?name \<in> K \<Longrightarrow> ns_get ?res ?name = Inr (params_TryGet params ?name)"
      using known 1 by (auto simp: denotes_def)
    ultimately show ?thesis using r stay by blast
  next
    case 2
    then have r: "generate_ResolveAddr ctx params v g = Some (Inr (m_addrValue v), g)"
      by (auto simp: generate_ResolveAddr_def given_def IsAddr_def Let_def)
    have "denotes params ?s v (m_addrValue v)"
      using 2 v(2) grown_live [OF I(1)] by (auto simp: denotes_def item_ready_def)
    moreover have "?name \<in> K \<Longrightarrow> ns_get ?res ?name = Inr (m_addrValue v)"
      using known 2 by (auto simp: denotes_def)
    ultimately show ?thesis using r stay by blast
  next
    case 3
    then obtain a where a: "ns_get ?res ?name = Inr a" "denotes params ?s v a" using known by blast
    have "IsValid a" using valid_live [OF gs] a(2) by (simp add: denotes_def)
    moreover have "?name \<noteq> []" using 3(3) I(5) by auto
    ultimately have "generate_ResolveAddr ctx params v g = Some (Inr a, g)"
      using 3 a(1) by (auto simp: generate_ResolveAddr_def given_def IsType_def HasReplacementName_def Let_def)
    then show ?thesis using stay a by blast
  next
    case new
    have room: "roomy ?s" using I(1) cap by (auto simp: roomy_def grown_def)
    obtain a g' where c: "CreateNodeLink ctx (UpConstType (m_typeValue v)) g = Some (a, g')"
      "gen_builder g' = gen_builder g" "grown ?s 1 (gen_storage g')" "a \<in> live (gen_storage g')"
      "if IsNode (m_typeValue v)
       then view (gen_storage g') a = Some (sc_flags_remove (sc_type_node OR UpConstType (m_typeValue v)), None)
       else view (gen_storage g') a = Some (LinkConst, None)"
      using create_node_link [OF I(1) room new(4)] by blast
    have "ns_get ?res ?name = Inr SC_ADDR_MAKE_EMPTY" if "?name \<noteq> []"
      using I(4) new(3) by (auto simp: ns_get_def ns_Has_def split: option.split)
    then have "(if HasReplacementName v then ns_get ?res ?name else Inr SC_ADDR_MAKE_EMPTY) =
        (Inr SC_ADDR_MAKE_EMPTY :: exception + sc_addr)" by (simp add: HasReplacementName_def)
    then have "generate_ResolveAddr ctx params v g = Some (Inr a, g')"
      using new c(1) by (auto simp: generate_ResolveAddr_def given_def IsType_def Let_def IsValid_def)
    moreover have "gen_inv E params s (Suc n) K g'"
      using I c(2,3) grown_trans [OF I(1) c(3)] names_ok_grown [OF I(3) c(3)] by (simp add: gen_inv_def)
    moreover have "denotes params (gen_storage g') v a"
      using c(4,5) new(1,2) by (auto simp: denotes_def IsType_def IsAddr_def split: if_splits)
    ultimately show ?thesis using c(2,3) new(3) by blast
  qed
qed

lemma add_result_ok:
  assumes b: "builder_ok b" and n: "names_ok E params s (m_struct b)" and v: "v \<in> E" "denotes params s v a"
    and u: "\<And>w. w \<in> E \<Longrightarrow> m_replacementName w = m_replacementName v \<Longrightarrow> m_replacementName v \<noteq> [] \<Longrightarrow> w = v"
    and same: "ns_Has (m_struct b) (m_replacementName v) \<Longrightarrow> ns_get (m_struct b) (m_replacementName v) = Inr a"
  defines "b' \<equiv> AddResult a (m_replacementName v) b"
  shows "builder_ok b'" "names_ok E params s (m_struct b')"
    "ns_Has (m_struct b') = (\<lambda>x. ns_Has (m_struct b) x \<or> x = m_replacementName v \<and> x \<noteq> [])"
    "m_replacementName v \<noteq> [] \<Longrightarrow> ns_get (m_struct b') (m_replacementName v) = Inr a"
    "ns_Has (m_struct b) x \<Longrightarrow> ns_get (m_struct b') x = ns_get (m_struct b) x"
proof -
  let ?name = "m_replacementName v"
  consider "?name = []" | "ns_Has (m_struct b) ?name" | "?name \<noteq> []" "\<not> ns_Has (m_struct b) ?name" by blast
  then have "builder_ok b' \<and> names_ok E params s (m_struct b') \<and>
    ns_Has (m_struct b') = (\<lambda>x. ns_Has (m_struct b) x \<or> x = ?name \<and> x \<noteq> []) \<and>
    (?name \<noteq> [] \<longrightarrow> ns_get (m_struct b') ?name = Inr a) \<and>
    (\<forall>x. ns_Has (m_struct b) x \<longrightarrow> ns_get (m_struct b') x = ns_get (m_struct b) x)"
  proof cases
    case 3
    from builder_Add_named_ok [OF b 3(2), of a] obtain c where
      c: "b' = c" "builder_ok c" "ns_get (m_struct c) = (ns_get (m_struct b))(?name := Inr a)"
        "ns_Has (m_struct c) = (ns_Has (m_struct b))(?name := True)"
      using 3 by (auto simp: b'_def AddResult_def)
    have "names_ok E params s (m_struct c)"
      unfolding names_ok_def c(3,4) using n v u 3 by (auto simp: names_ok_def)
    then show ?thesis using c 3 by (auto simp: fun_eq_iff)
  qed (use b n same in \<open>auto simp: b'_def AddResult_def fun_eq_iff\<close>)
  then show "builder_ok b'" "names_ok E params s (m_struct b')"
    "ns_Has (m_struct b') = (\<lambda>x. ns_Has (m_struct b) x \<or> x = ?name \<and> x \<noteq> [])"
    "?name \<noteq> [] \<Longrightarrow> ns_get (m_struct b') ?name = Inr a"
    "ns_Has (m_struct b) x \<Longrightarrow> ns_get (m_struct b') x = ns_get (m_struct b) x" by blast+
qed

text \<open>What a triple of the template has become, with \<open>c\<close> as its connector.\<close>

definition triple_made ::
    "ScTemplateParams \<Rightarrow> sc_storage \<Rightarrow> ScTemplateNamedStruct \<Rightarrow> triple \<Rightarrow> sc_addr \<Rightarrow> bool" where
  "triple_made params s res t c = (case t of (x, y, z) \<Rightarrow> \<exists>b e.
     view s c = Some (arc_type (UpConstType (m_typeValue y)), Some (b, e)) \<and>
     denotes params s x b \<and> denotes params s z e \<and>
     (m_replacementName x \<noteq> [] \<longrightarrow> ns_get res (m_replacementName x) = Inr b) \<and>
     (m_replacementName y \<noteq> [] \<longrightarrow> ns_get res (m_replacementName y) = Inr c) \<and>
     (m_replacementName z \<noteq> [] \<longrightarrow> ns_get res (m_replacementName z) = Inr e))"

definition unique_names :: "ScTemplateArg set \<Rightarrow> bool" where
  "unique_names E \<longleftrightarrow> (\<forall>v \<in> E. \<forall>w \<in> E. m_replacementName v = m_replacementName w \<longrightarrow>
     m_replacementName v \<noteq> [] \<longrightarrow> v = w)"

definition next_names :: "string set \<Rightarrow> triple \<Rightarrow> string set" where
  "next_names K t = (case t of (x, y, z) \<Rightarrow>
     K \<union> ({m_replacementName x, m_replacementName y, m_replacementName z} - {[]}))"

lemma denotes_fixed:
  "denotes params s v a \<Longrightarrow> denotes params s' v b \<Longrightarrow> given params v \<or> IsAddr v \<Longrightarrow> a = b"
  by (auto simp: denotes_def split: if_splits)

text \<open>The names of a triple enter the result one after the other.\<close>

lemma add_results_ok:
  assumes b: "builder_ok b" and n: "names_ok E params s (m_struct b)" and E: "unique_names E" "x \<in> E" "y \<in> E" "z \<in> E"
    and den: "denotes params s x a1" "denotes params s y c" "denotes params s z a2"
    and K: "\<And>name. ns_Has (m_struct b) name \<longleftrightarrow> name \<in> K" "[] \<notin> K"
    and kx: "m_replacementName x \<in> K \<Longrightarrow> ns_get (m_struct b) (m_replacementName x) = Inr a1"
    and kz: "m_replacementName z \<in> K \<Longrightarrow> ns_get (m_struct b) (m_replacementName z) = Inr a2"
    and ge: "generable params s0 K [(x, y, z)]"
  defines "b3 \<equiv> AddResult a2 (m_replacementName z) (AddResult c (m_replacementName y) (AddResult a1 (m_replacementName x) b))"
  shows "builder_ok b3 \<and> names_ok E params s (m_struct b3) \<and>
    (\<forall>name. ns_Has (m_struct b3) name \<longleftrightarrow> name \<in> next_names K (x, y, z)) \<and>
    (\<forall>name \<in> K. ns_get (m_struct b3) name = ns_get (m_struct b) name) \<and>
    (m_replacementName x \<noteq> [] \<longrightarrow> ns_get (m_struct b3) (m_replacementName x) = Inr a1) \<and>
    (m_replacementName y \<noteq> [] \<longrightarrow> ns_get (m_struct b3) (m_replacementName y) = Inr c) \<and>
    (m_replacementName z \<noteq> [] \<longrightarrow> ns_get (m_struct b3) (m_replacementName z) = Inr a2)"
proof -
  let ?x = "m_replacementName x" and ?y = "m_replacementName y" and ?z = "m_replacementName z"
  define b1 where "b1 = AddResult a1 ?x b"
  define b2 where "b2 = AddResult c ?y b1"
  have b3: "b3 = AddResult a2 ?z b2" by (simp add: b3_def b2_def b1_def)
  have u: "w = v" if "w \<in> E" "v \<in> E" "m_replacementName w = m_replacementName v" "m_replacementName v \<noteq> []" for v w
    using E(1) that by (auto simp: unique_names_def)
  have 1: "builder_ok b1" "names_ok E params s (m_struct b1)" "ns_Has (m_struct b1) = (\<lambda>q. ns_Has (m_struct b) q \<or> q = ?x \<and> q \<noteq> [])"
    "?x \<noteq> [] \<Longrightarrow> ns_get (m_struct b1) ?x = Inr a1" "\<And>q. ns_Has (m_struct b) q \<Longrightarrow> ns_get (m_struct b1) q = ns_get (m_struct b) q"
    using add_result_ok [OF b n E(2) den(1)] u [OF _ E(2)] kx K(1) unfolding b1_def by blast+
  have y: "\<not> ns_Has (m_struct b1) ?y" using ge K by (cases "?y = []") (auto simp: 1(3))
  have 2: "builder_ok b2" "names_ok E params s (m_struct b2)" "ns_Has (m_struct b2) = (\<lambda>q. ns_Has (m_struct b1) q \<or> q = ?y \<and> q \<noteq> [])"
    "?y \<noteq> [] \<Longrightarrow> ns_get (m_struct b2) ?y = Inr c" "\<And>q. ns_Has (m_struct b1) q \<Longrightarrow> ns_get (m_struct b2) q = ns_get (m_struct b1) q"
    using add_result_ok [OF 1(1,2) E(3) den(2)] u [OF _ E(3)] y unfolding b2_def by blast+
  have z: "ns_get (m_struct b2) ?z = Inr a2" if h: "ns_Has (m_struct b2) ?z"
  proof (cases "?z \<in> K")
    case True
    then show ?thesis using kz 1(3,5) 2(5) K(1) by simp
  next
    case False
    have "?y \<noteq> [] \<Longrightarrow> ?y \<noteq> ?z" using ge by simp
    then have q: "?z = ?x" "?x \<noteq> []" using h False unfolding 1(3) 2(3) K(1) by metis+
    then have "z = x" by (rule u [OF E(4,2)])
    moreover have "given params x \<or> IsAddr x" using ge False q by simp
    ultimately have "a1 = a2" using denotes_fixed [OF den(1)] den(3) by simp
    then show ?thesis using q 1(3,4) 2(5) by simp
  qed
  have 3: "builder_ok b3" "names_ok E params s (m_struct b3)" "ns_Has (m_struct b3) = (\<lambda>q. ns_Has (m_struct b2) q \<or> q = ?z \<and> q \<noteq> [])"
    "?z \<noteq> [] \<Longrightarrow> ns_get (m_struct b3) ?z = Inr a2" "\<And>q. ns_Has (m_struct b2) q \<Longrightarrow> ns_get (m_struct b3) q = ns_get (m_struct b2) q"
    using add_result_ok [OF 2(1,2) E(4) den(3)] u [OF _ E(4)] z unfolding b3 by blast+
  have "\<forall>name. ns_Has (m_struct b3) name \<longleftrightarrow> name \<in> next_names K (x, y, z)"
    using K(1) by (auto simp: 1(3) 2(3) 3(3) next_names_def)
  moreover have "\<forall>name \<in> K. ns_get (m_struct b3) name = ns_get (m_struct b) name"
    using K(1) 1(3,5) 2(3,5) 3(5) by simp
  ultimately show ?thesis using 1(3,4) 2(3-5) 3 by simp
qed

lemma generate_triple_ok:
  assumes inv: "gen_inv E params s n K g" and E: "unique_names E" "x \<in> E" "y \<in> E" "z \<in> E"
    and ge: "generable params s K [(x, y, z)]"
    and cap: "max_loaded_segments s \<le> int SC_ADDR_SEG_MAX" "int (segments_num s + n + 3) \<le> max_loaded_segments s"
  shows "\<exists>g' c. generate_triple debug ctx params (x, y, z) g = Some (Inr True, g') \<and>
     gen_inv E params s (n + 3) (next_names K (x, y, z)) g' \<and> grown (gen_storage g) 3 (gen_storage g') \<and>
     c \<notin> live (gen_storage g) \<and> triple_made params (gen_storage g') (m_struct (gen_builder g')) (x, y, z) c \<and>
     (\<forall>name \<in> K. ns_get (m_struct (gen_builder g')) name = ns_get (m_struct (gen_builder g)) name)"
proof -
  have y: "m_kind y = Kind_Type" "IsEdge (m_typeValue y)" "\<not> IsNode (m_typeValue y)" "\<not> IsLink (m_typeValue y)"
    "\<not> given params y" and xz: "item_ready params s K x" "item_ready params s K z"
    using ge by (auto simp: IsType_def given_def)
  obtain a1 g1 where 1: "generate_ResolveAddr ctx params x g = Some (Inr a1, g1)" "gen_inv E params s (Suc n) K g1"
    "gen_builder g1 = gen_builder g" "denotes params (gen_storage g1) x a1" "grown (gen_storage g) 1 (gen_storage g1)"
    "m_replacementName x \<in> K \<Longrightarrow> ns_get (m_struct (gen_builder g)) (m_replacementName x) = Inr a1"
    using resolve_ok [OF inv E(2) xz(1) cap(1), of ctx] cap(2) by auto
  obtain a2 g2 where 2: "generate_ResolveAddr ctx params z g1 = Some (Inr a2, g2)" "gen_inv E params s (Suc (Suc n)) K g2"
    "gen_builder g2 = gen_builder g" "denotes params (gen_storage g2) z a2" "grown (gen_storage g1) 1 (gen_storage g2)"
    "m_replacementName z \<in> K \<Longrightarrow> ns_get (m_struct (gen_builder g)) (m_replacementName z) = Inr a2"
    using resolve_ok [OF 1(2) E(4) xz(2) cap(1), of ctx] cap(2) unfolding 1(3) by auto
  let ?s2 = "gen_storage g2" and ?t = "UpConstType (m_typeValue y)"
  have I: "grown s (Suc (Suc n)) ?s2" "builder_ok (gen_builder g)" "names_ok E params ?s2 (m_struct (gen_builder g))"
    "\<And>name. ns_Has (m_struct (gen_builder g)) name \<longleftrightarrow> name \<in> K" "[] \<notin> K"
    using 2(2,3) by (auto simp: gen_inv_def)
  have room: "roomy ?s2" using I(1) cap by (auto simp: roomy_def grown_def)
  have live: "a1 \<in> live ?s2" "a2 \<in> live ?s2" "IsValid a1" "IsValid a2"
    using 1(4) 2(4) grown_live [OF 2(5)] valid_live [of ?s2] room by (auto simp: denotes_def roomy_def)
  obtain c s3 where c: "CreateEdge ctx ?t a1 a2 ?s2 = Some (c, s3)" "IsValid c" "grown ?s2 1 s3" "c \<notin> live ?s2"
    "view s3 c = Some (arc_type ?t, Some (a1, a2))"
    using create_edge_grows [OF room live(1,2), of ?t ctx] y(3,4) by (auto simp: up_const_type)
  have "c \<in> live s3" using c(5) dom_view [of s3] by blast
  with y have dy: "denotes params s3 y c" by (simp add: denotes_def IsAddr_def)
  note dx = denotes_grown [OF denotes_grown [OF 1(4) 2(5)] c(3)] and dz = denotes_grown [OF 2(4) c(3)]
  note R = add_results_ok [OF I(2) names_ok_grown [OF I(3) c(3)] E dx dy dz I(4,5) 1(6) 2(6) ge]
  define b3 where "b3 = AddResult a2 (m_replacementName z)
     (AddResult c (m_replacementName y) (AddResult a1 (m_replacementName x) (gen_builder g)))"
  define g' where "g' = g2\<lparr>gen_storage := s3, gen_builder := b3\<rparr>"
  have "generate_triple debug ctx params (x, y, z) g = Some (Inr True, g')"
    using y(1,2) 1(1) 2(1,3) live(3,4) c(1,2) by (simp add: generate_triple_def g'_def b3_def Let_def)
  moreover have "grown s (n + 3) s3" using grown_trans [OF I(1) c(3)] by (simp add: numeral_3_eq_3)
  moreover have "[] \<notin> next_names K (x, y, z)" using I(5) by (simp add: next_names_def)
  moreover have "grown (gen_storage g) 3 s3"
    using grown_trans [OF grown_trans [OF 1(5) 2(5)] c(3)] by (simp add: numeral_3_eq_3)
  moreover have "c \<notin> live (gen_storage g)" using c(4) grown_live [OF 1(5)] grown_live [OF 2(5)] by blast
  moreover have "triple_made params s3 (m_struct b3) (x, y, z) c"
    using R c(5) dx dz unfolding triple_made_def b3_def by auto
  ultimately show ?thesis using R unfolding gen_inv_def g'_def b3_def by auto
qed

subsection \<open>All triples\<close>

lemma triple_made_grown:
  assumes "triple_made params s res t c" and "grown s n s'"
    and "case t of (x, y, z) \<Rightarrow> \<forall>v \<in> {x, y, z}. m_replacementName v \<noteq> [] \<longrightarrow>
       ns_get res' (m_replacementName v) = ns_get res (m_replacementName v)"
  shows "triple_made params s' res' t c"
proof -
  obtain x y z where t: "t = (x, y, z)" by (cases t)
  have "view s c = Some w \<Longrightarrow> view s' c = Some w" for w
    using assms(2) by (auto simp: grown_def map_le_def dom_def)
  then show ?thesis using assms(1,3) denotes_grown [OF _ assms(2)] unfolding t triple_made_def by fastforce
qed

lemma generable_Cons:
  "generable params s K (t # ts) \<longleftrightarrow> generable params s K [t] \<and> generable params s (next_names K t) ts"
  by (cases t) (auto simp: next_names_def)

lemma generate_triples_ok:
  assumes "gen_inv E params s n K g" and "unique_names E" and "\<And>i. i \<in> set ix \<Longrightarrow> GetTriple d i = Inr (T i) \<and> items_of (T i) \<subseteq> E"
    and "generable params s K (map T ix)" and "max_loaded_segments s \<le> int SC_ADDR_SEG_MAX"
    and "int (segments_num s + n + 3 * length ix) \<le> max_loaded_segments s"
  shows "\<exists>g' cs. generate_triples debug ctx params d ix g = Some (Inr True, g') \<and> grown s (n + 3 * length ix) (gen_storage g') \<and>
     grown (gen_storage g) (3 * length ix) (gen_storage g') \<and>
     length cs = length ix \<and> distinct cs \<and> set cs \<inter> live (gen_storage g) = {} \<and>
     (\<forall>k < length ix. triple_made params (gen_storage g') (m_struct (gen_builder g')) (T (ix ! k)) (cs ! k)) \<and>
     (\<forall>name \<in> K. ns_get (m_struct (gen_builder g')) name = ns_get (m_struct (gen_builder g)) name)"
  using assms
proof (induction ix arbitrary: n K g)
  case Nil
  then show ?case by (auto simp: gen_inv_def grown_def)
next
  case (Cons i ix)
  obtain x y z where t: "T i = (x, y, z)" by (cases "T i")
  have T: "GetTriple d i = Inr (x, y, z)" "x \<in> E" "y \<in> E" "z \<in> E"
    using Cons.prems(3) [of i] t by (auto simp: items_of_def)
  have ge: "generable params s K [(x, y, z)]" "generable params s (next_names K (x, y, z)) (map T ix)"
    using Cons.prems(4) generable_Cons [of params s K "T i" "map T ix"] by (metis list.map(2) t)+
  obtain g1 c where 1: "generate_triple debug ctx params (x, y, z) g = Some (Inr True, g1)"
    "gen_inv E params s (n + 3) (next_names K (x, y, z)) g1" "grown (gen_storage g) 3 (gen_storage g1)"
    "c \<notin> live (gen_storage g)" "triple_made params (gen_storage g1) (m_struct (gen_builder g1)) (x, y, z) c"
    "\<forall>name \<in> K. ns_get (m_struct (gen_builder g1)) name = ns_get (m_struct (gen_builder g)) name"
    using generate_triple_ok [OF Cons.prems(1,2) T(2-4) ge(1) Cons.prems(5), of debug ctx] Cons.prems(6) by auto
  from Cons.IH [OF 1(2) Cons.prems(2) Cons.prems(3) ge(2) Cons.prems(5)] Cons.prems(6)
  obtain g' cs where 2: "generate_triples debug ctx params d ix g1 = Some (Inr True, g')"
    "grown s (n + 3 + 3 * length ix) (gen_storage g')" "grown (gen_storage g1) (3 * length ix) (gen_storage g')"
    "length cs = length ix" "distinct cs" "set cs \<inter> live (gen_storage g1) = {}"
    "\<forall>k < length ix. triple_made params (gen_storage g') (m_struct (gen_builder g')) (T (ix ! k)) (cs ! k)"
    "\<forall>name \<in> next_names K (x, y, z). ns_get (m_struct (gen_builder g')) name = ns_get (m_struct (gen_builder g1)) name"
    by (auto simp: algebra_simps)
  have made: "triple_made params (gen_storage g') (m_struct (gen_builder g')) (x, y, z) c"
    by (rule triple_made_grown [OF 1(5) 2(3)]) (use 2(8) in \<open>auto simp: next_names_def\<close>)
  have "c \<in> live (gen_storage g1)" using 1(5) dom_view [of "gen_storage g1"] by (auto simp: triple_made_def)
  then have "distinct (c # cs)" "set (c # cs) \<inter> live (gen_storage g) = {}"
    using 2(5,6) 1(4) grown_live [OF 1(3)] by auto
  moreover have "\<forall>k < length (i # ix). triple_made params (gen_storage g') (m_struct (gen_builder g')) (T ((i # ix) ! k)) ((c # cs) ! k)"
    using made 2(7) t by (auto simp: less_Suc_eq_0_disj)
  moreover have "\<forall>name \<in> K. ns_get (m_struct (gen_builder g')) name = ns_get (m_struct (gen_builder g)) name"
    using 1(6) 2(8) by (simp add: next_names_def)
  moreover have "grown (gen_storage g) (3 * length (i # ix)) (gen_storage g')" "grown s (n + 3 * length (i # ix)) (gen_storage g')"
    using grown_trans [OF 1(3) 2(3)] 2(2) by (simp_all add: algebra_simps)
  moreover have "generate_triples debug ctx params d (i # ix) g = Some (Inr True, g')" using T(1) 1(1) 2(1) by simp
  ultimately show ?case using 2(4) by (intro exI [of _ g'] exI [of _ "c # cs"]) simp
qed

lemma data_ok_unique: "data_ok d \<Longrightarrow> unique_names (set (m_elements d))"
  unfolding unique_names_def
  by (metis HasReplacementName_def data_okD(3) in_set_conv_nth option.inject)

lemma check_edges_ok:
  assumes "\<And>i. i \<in> set is \<Longrightarrow> GetTriple d i = Inr (T i)" and "generable params s K (map T is)"
  shows "check_edges d is = Inr ()"
  using assms
proof (induction "is" arbitrary: K)
  case (Cons i "is")
  obtain x y z where t: "T i = (x, y, z)" by (cases "T i")
  then have "\<not> IsFixed y" "generable params s (next_names K (x, y, z)) (map T is)"
    using Cons.prems(2) generable_Cons [of params s K "T i" "map T is"] by (auto simp: item_tests)
  then show ?case using Cons t by simp
qed simp


lemma up_const_evaluation:
  "UpConstType EdgeAccessVarPosPerm = EdgeAccessConstPosPerm" "UpConstType NodeVar = NodeConst"
  "arc_type EdgeAccessConstPosPerm = EdgeAccessConstPosPerm" "sc_flags_remove (sc_type_node OR NodeConst) = NodeConst"
  "IsNode NodeVar" "\<not> IsEdge NodeVar" "IsEdge EdgeAccessVarPosPerm" "\<not> IsNode EdgeAccessVarPosPerm" "\<not> IsLink EdgeAccessVarPosPerm"
  by (simp_all add: UpConstType_def arc_type_def sc_flags_remove_def type_tests sc_bits)


subsection \<open>A variable at both ends of one triple\<close>

lemma resolve_new:
  assumes g: "grown s n (gen_storage g)" and r: "roomy (gen_storage g)" and b: "\<not> ns_Has (m_struct (gen_builder g)) (m_replacementName v)"
    and v: "IsType v" "\<not> given params v" "IsNode (m_typeValue v)" "\<not> IsEdge (m_typeValue v)"
  shows "\<exists>a g'. generate_ResolveAddr ctx params v g = Some (Inr a, g') \<and> gen_builder g' = gen_builder g \<and> IsValid a \<and>
     grown (gen_storage g) 1 (gen_storage g') \<and> a \<in> live (gen_storage g') - live (gen_storage g)"
proof -
  obtain a g' where c: "CreateNodeLink ctx (UpConstType (m_typeValue v)) g = Some (a, g')" "IsValid a"
    "gen_builder g' = gen_builder g" "grown (gen_storage g) 1 (gen_storage g')" "a \<in> live (gen_storage g') - live (gen_storage g)"
    using create_node_link [OF g r, of "m_typeValue v" ctx] v by auto
  have "ns_get (m_struct (gen_builder g)) (m_replacementName v) = Inr SC_ADDR_MAKE_EMPTY"
    using b by (simp add: ns_get_def ns_Has_def)
  then have "generate_ResolveAddr ctx params v g = Some (Inr a, g')"
    using v c(1) by (auto simp: generate_ResolveAddr_def given_def IsType_def Let_def IsValid_def)
  with c show ?thesis by blast
qed



end
