(* ===== verification/Sc_Template_Order.thy ===== *)
theory Sc_Template_Order
  imports Sc_Template "HOL-Library.Multiset"
begin

text \<open>
  Search by a template, first part: the order in which \<^verbatim>\<open>UpdateSearchCache\<close> of
  \<^verbatim>\<open>sc-memory/sc-memory/sc_template_search.cpp\<close> processes the triples.

  The template enters as the list of its triples, which is what \<^verbatim>\<open>GetTriple\<close> reads
  (lemma \<open>get_triple_of\<close>).

  Two orders are left open by the language: which of two triples with equal scores
  \<^verbatim>\<open>std::sort\<close> puts first (the argument \<open>sort_by\<close>, which gets the scores), and the iteration
  order of a hash set (\<open>set_order\<close>, which gets the inserted numbers). Reading a vector out of
  range is \<open>None\<close>.
\<close>

subsection \<open>The order of the triples\<close>

definition kScoreEdge :: u8 where "kScoreEdge = 5"
definition kScoreOther :: u8 where "kScoreOther = 1"

definition CalculateScore :: "triple \<Rightarrow> u8" where
  "CalculateScore t = (case t of (x, y, z) \<Rightarrow>
     if IsAddr y \<and> IsAssign x \<and> IsAssign z then kScoreEdge
     else if IsAddr x \<and> IsAssign y \<and> IsAddr z then kScoreOther * 2
     else if IsAddr x \<or> IsAddr z then kScoreOther
     else 0)"

text \<open>The dependency map: for a name, the packed positions \<^verbatim>\<open>(i << 2) + idx\<close> where it occurs.\<close>

definition TryAppendRepl :: "string \<Rightarrow> nat \<Rightarrow> ScTemplateArg \<times> nat \<Rightarrow> nat list" where
  "TryAppendRepl name i p = (case p of (v, idx) \<Rightarrow>
     if \<not> IsAddr v \<and> m_replacementName v \<noteq> [] \<and> m_replacementName v = name then [4 * i + idx] else [])"

definition replDependMap :: "triple list \<Rightarrow> string \<Rightarrow> nat list" where
  "replDependMap ts name = concat (map (\<lambda>i. case ts ! i of (x, y, z) \<Rightarrow>
     concat (map (TryAppendRepl name i) [(x, 0), (y, 1), (z, 2)])) [0..<length ts])"

definition triple_names :: "triple \<Rightarrow> string list" where
  "triple_names t = (case t of (x, y, z) \<Rightarrow> filter (\<lambda>n. n \<noteq> []) (map m_replacementName [x, y, z]))"

record order_state =
  ord_cache :: "nat list"
  ord_cached :: "nat set"
  ord_used :: "string set"
  ord_preIdx :: nat
  ord_scores :: "nat \<Rightarrow> u8"

text \<open>The triples that depend on names resolved for the first time.\<close>

fun resolve_names :: "(string \<Rightarrow> nat list) \<Rightarrow> string list \<Rightarrow> string set \<Rightarrow> nat list \<times> string set" where
  "resolve_names depend [] used = ([], used)"
| "resolve_names depend (n # ns) used =
     (if n \<in> used then resolve_names depend ns used
      else case resolve_names depend ns (insert n used) of (is, used') \<Rightarrow> (depend n @ is, used'))"

function next_uncached :: "nat list \<Rightarrow> nat set \<Rightarrow> nat \<Rightarrow> nat option" where
  "next_uncached pre seen i =
     (if i < length pre then (if pre ! i \<in> seen then next_uncached pre seen (Suc i) else Some i) else None)"
  by pat_completeness auto
termination by (relation "measure (\<lambda>(pre, seen, i). length pre - i)") auto

declare next_uncached.simps [simp del]

definition update_score :: "nat set \<Rightarrow> nat \<Rightarrow> nat \<times> (nat \<Rightarrow> u8) \<Rightarrow> nat \<times> (nat \<Rightarrow> u8)" where
  "update_score seen idx p = (case p of (best, scores) \<Rightarrow>
     let i = idx div 4 in
     if i \<in> seen then (best, scores)
     else let scores' = scores(i := scores i + (if idx = 1 then kScoreEdge else kScoreOther)) in
       (if scores' best < scores' i then i else best, scores'))"

definition order_round ::
    "(nat list \<Rightarrow> nat list) \<Rightarrow> triple list \<Rightarrow> nat list \<Rightarrow> order_state \<Rightarrow> order_state option" where
  "order_round set_order ts pre os = do {
     let cur = last (ord_cache os);
     let (resolved, used) = resolve_names (replDependMap ts) (triple_names (ts ! cur)) (ord_used os);
     i \<leftarrow> next_uncached pre (ord_cached os) (ord_preIdx os);
     let (best, scores) = fold (update_score (ord_cached os)) (set_order resolved) (pre ! i, ord_scores os);
     Some \<lparr>ord_cache = ord_cache os @ [best], ord_cached = insert best (ord_cached os), ord_used = used,
           ord_preIdx = i, ord_scores = scores\<rparr>
   }"

fun order_rounds ::
    "(nat list \<Rightarrow> nat list) \<Rightarrow> triple list \<Rightarrow> nat list \<Rightarrow> nat \<Rightarrow> order_state \<Rightarrow> order_state option" where
  "order_rounds set_order ts pre 0 os = Some os"
| "order_rounds set_order ts pre (Suc k) os = do {
     os1 \<leftarrow> order_round set_order ts pre os;
     order_rounds set_order ts pre k os1
   }"

definition UpdateSearchCache ::
    "((nat \<Rightarrow> u8) \<Rightarrow> nat list \<Rightarrow> nat list) \<Rightarrow> (nat list \<Rightarrow> nat list) \<Rightarrow> triple list \<Rightarrow> nat list option" where
  "UpdateSearchCache sort_by set_order ts =
     (if ts = [] then Some []
      else do {
        let scores = (\<lambda>i. CalculateScore (ts ! i));
        let pre = sort_by scores [0..<length ts];
        os1 \<leftarrow> order_rounds set_order ts pre (length ts - 1)
          \<lparr>ord_cache = [pre ! 0], ord_cached = {pre ! 0}, ord_used = {}, ord_preIdx = 1, ord_scores = scores\<rparr>;
        Some (ord_cache os1)
      })"

subsection \<open>Every triple is processed once\<close>

lemma next_uncached_Some:
  assumes "\<exists>j. i \<le> j \<and> j < length pre \<and> pre ! j \<notin> seen"
  shows "\<exists>k. next_uncached pre seen i = Some k \<and> i \<le> k \<and> k < length pre \<and> pre ! k \<notin> seen \<and>
     (\<forall>j. i \<le> j \<and> j < k \<longrightarrow> pre ! j \<in> seen)"
  using assms
proof (induction pre seen i rule: next_uncached.induct)
  case (1 pre seen i)
  show ?case
  proof (cases "pre ! i \<in> seen")
    case True
    have i: "i < length pre" using "1.prems" by auto
    have "\<exists>j. Suc i \<le> j \<and> j < length pre \<and> pre ! j \<notin> seen"
      using "1.prems" True by (metis Suc_leI le_neq_implies_less)
    with "1.IH" [OF i True] obtain k where k: "next_uncached pre seen (Suc i) = Some k" "Suc i \<le> k" "k < length pre"
      "pre ! k \<notin> seen" "\<And>j. Suc i \<le> j \<Longrightarrow> j < k \<Longrightarrow> pre ! j \<in> seen" by blast
    have "pre ! j \<in> seen" if "i \<le> j" "j < k" for j
      using True k(5) that by (cases "j = i") simp_all
    with k True i show ?thesis by (subst next_uncached.simps) simp
  next
    case False
    then show ?thesis using "1.prems" by (subst next_uncached.simps) auto
  qed
qed

lemma update_scores_best:
  assumes "best \<notin> seen" "best < n" and "\<And>idx. idx \<in> set xs \<Longrightarrow> idx div 4 < n"
    and "fold (update_score seen) xs (best, scores) = (best', scores')"
  shows "best' \<notin> seen \<and> best' < n"
  using assms
proof (induction xs arbitrary: best scores)
  case (Cons idx xs)
  obtain b s where u: "update_score seen idx (best, scores) = (b, s)" by fastforce
  then have "b \<notin> seen" "b < n" using Cons.prems(1,2) Cons.prems(3) [of idx]
    by (auto simp: update_score_def Let_def split: if_splits)
  then show ?case using Cons.IH [of b s] Cons.prems(3,4) u by simp
qed simp

lemma depend_range: "idx \<in> set (replDependMap ts name) \<Longrightarrow> idx div 4 < length ts"
  by (auto simp: replDependMap_def TryAppendRepl_def split: prod.splits if_splits)

lemma resolve_names_range:
  "resolve_names (replDependMap ts) ns used = (is, used') \<Longrightarrow> idx \<in> set is \<Longrightarrow> idx div 4 < length ts"
  by (induction ns arbitrary: used "is") (auto simp: split: if_splits prod.splits dest: depend_range)

definition order_inv :: "nat \<Rightarrow> nat list \<Rightarrow> order_state \<Rightarrow> bool" where
  "order_inv n pre os \<longleftrightarrow> distinct (ord_cache os) \<and> set (ord_cache os) \<subseteq> {..<n} \<and> ord_cache os \<noteq> [] \<and>
     ord_cached os = set (ord_cache os) \<and> (\<forall>j < ord_preIdx os. j < length pre \<longrightarrow> pre ! j \<in> ord_cached os)"

lemma order_round_ok:
  assumes inv: "order_inv (length ts) pre os" and less: "length (ord_cache os) < length ts"
    and pre: "distinct pre" "set pre = {..<length ts}" and so: "\<And>xs. set (set_order xs) \<subseteq> set xs"
  shows "\<exists>os1. order_round set_order ts pre os = Some os1 \<and> order_inv (length ts) pre os1 \<and>
     length (ord_cache os1) = Suc (length (ord_cache os))"
proof -
  have I: "distinct (ord_cache os)" "set (ord_cache os) \<subseteq> {..<length ts}" "ord_cached os = set (ord_cache os)"
    "\<forall>j < ord_preIdx os. j < length pre \<longrightarrow> pre ! j \<in> ord_cached os" using inv by (auto simp: order_inv_def)
  obtain resolved used where r: "resolve_names (replDependMap ts) (triple_names (ts ! last (ord_cache os))) (ord_used os) = (resolved, used)"
    by fastforce
  have "card (set (ord_cache os)) < card (set pre)" using I(1) less pre by (simp add: distinct_card)
  then obtain x where "x \<in> set pre" "x \<notin> ord_cached os" unfolding I(3) by (metis card_mono finite_set leD subsetI)
  then obtain j where j: "j < length pre" "pre ! j \<notin> ord_cached os" by (metis in_set_conv_nth)
  then have "ord_preIdx os \<le> j" using I(4) not_le by blast
  with j obtain k where k: "next_uncached pre (ord_cached os) (ord_preIdx os) = Some k" "ord_preIdx os \<le> k" "k < length pre"
    "pre ! k \<notin> ord_cached os" "\<forall>j. ord_preIdx os \<le> j \<and> j < k \<longrightarrow> pre ! j \<in> ord_cached os"
    using next_uncached_Some [of "ord_preIdx os" pre "ord_cached os"] by blast
  obtain best scores where b: "fold (update_score (ord_cached os)) (set_order resolved) (pre ! k, ord_scores os) = (best, scores)"
    by fastforce
  have "pre ! k < length ts" using k(3) pre(2) nth_mem by blast
  then have "best \<notin> ord_cached os \<and> best < length ts"
    using update_scores_best [OF k(4) _ _ b] resolve_names_range [OF r] so by blast
  moreover have "pre ! j \<in> ord_cached os" if "j < k" "j < length pre" for j
    using that I(4) k(5) by (cases "j < ord_preIdx os") auto
  ultimately show ?thesis using r k(1) b I inv by (auto simp: order_round_def order_inv_def Let_def)
qed

lemma order_rounds_ok:
  assumes "order_inv (length ts) pre os" and "length (ord_cache os) + k = length ts"
    and "distinct pre" "set pre = {..<length ts}" and "\<And>xs. set (set_order xs) \<subseteq> set xs"
  shows "\<exists>os1. order_rounds set_order ts pre k os = Some os1 \<and> order_inv (length ts) pre os1 \<and> length (ord_cache os1) = length ts"
  using assms(1,2)
proof (induction k arbitrary: os)
  case (Suc k)
  obtain os1 where os1: "order_round set_order ts pre os = Some os1" "order_inv (length ts) pre os1"
    "length (ord_cache os1) = Suc (length (ord_cache os))"
    using order_round_ok [OF Suc.prems(1) _ assms(3-5)] Suc.prems(2) by force
  with Suc.IH [OF os1(2)] Suc.prems(2) show ?case by simp
qed simp

lemma search_order_complete:
  assumes "\<And>f xs. mset (sort_by f xs) = mset xs" and "\<And>xs. set (set_order xs) \<subseteq> set xs"
  shows "\<exists>ord. UpdateSearchCache sort_by set_order ts = Some ord \<and> distinct ord \<and> set ord = {..<length ts}"
proof (cases "ts = []")
  case False
  define pre where "pre = sort_by (\<lambda>i. CalculateScore (ts ! i)) [0..<length ts]"
  have m: "mset pre = mset [0..<length ts]" by (simp only: pre_def assms(1))
  have pre: "distinct pre" "set pre = {..<length ts}" "length pre = length ts"
    using mset_eq_imp_distinct_iff [OF m] mset_eq_setD [OF m] mset_eq_length [OF m]
    by (simp_all only: distinct_upt set_upt length_upt atLeast0LessThan diff_zero)
  let ?os = "\<lparr>ord_cache = [pre ! 0], ord_cached = {pre ! 0}, ord_used = {}, ord_preIdx = 1,
     ord_scores = (\<lambda>i. CalculateScore (ts ! i))\<rparr>"
  have "pre ! 0 \<in> {..<length ts}" using pre False nth_mem [of 0 pre] by simp
  then have "order_inv (length ts) pre ?os" by (simp add: order_inv_def)
  then obtain os1 where "order_rounds set_order ts pre (length ts - 1) ?os = Some os1" "order_inv (length ts) pre os1"
    "length (ord_cache os1) = length ts"
    using order_rounds_ok [OF _ _ pre(1,2) assms(2), of ?os "length ts - 1"] False by (auto simp: Suc_leI)
  moreover from this have "set (ord_cache os1) = {..<length ts}"
    by (intro card_subset_eq) (auto simp: order_inv_def distinct_card)
  ultimately show ?thesis using False by (auto simp: UpdateSearchCache_def Let_def order_inv_def simp flip: pre_def)
qed (simp add: UpdateSearchCache_def)

text \<open>
  C20. \<^verbatim>\<open>UpdateSearchCache\<close> orders the triples of every template: it reads no vector out of
  range, it ends, and the order is a permutation of the triples, however \<^verbatim>\<open>std::sort\<close> places
  triples with equal scores and in whatever order the hash set is iterated.
\<close>

theorem search_order_permutation:
  assumes "\<And>f xs. mset (sort_by f xs) = mset xs" and "\<And>xs. set (set_order xs) = set xs"
  shows "\<exists>ord. UpdateSearchCache sort_by set_order ts = Some ord \<and> mset ord = mset [0..<length ts]"
proof -
  obtain ord where "UpdateSearchCache sort_by set_order ts = Some ord" "distinct ord" "set ord = {..<length ts}"
    using search_order_complete [where ts = ts and sort_by = sort_by and set_order = set_order, OF assms(1)] assms(2) by auto
  moreover from this have "mset ord = mset [0..<length ts]"
    by (intro set_eq_iff_mset_eq_distinct [THEN iffD1]) (simp_all add: atLeast0LessThan)
  ultimately show ?thesis by blast
qed

text \<open>One sort and one iteration order that the language allows.\<close>

definition insertion_sort :: "(nat \<Rightarrow> u8) \<Rightarrow> nat list \<Rightarrow> nat list" where
  "insertion_sort f = sort_key (\<lambda>i. 255 - unat (f i))"

theorem search_order_permutation_witness:
  "\<exists>ord. UpdateSearchCache insertion_sort remdups
     [(arg_type NodeVar ''_x'', arg_type EdgeAccessVarPosPerm ''_e'', arg_type NodeVar ''_y''),
      (arg_addr (Addr 0 1) [], arg_type EdgeAccessVarPosPerm [], arg_type EdgeAccessVarPosPerm ''_e'')] = Some ord \<and>
     mset ord = mset [0, 1]"
proof -
  have "mset (insertion_sort f xs) = mset xs" for f xs by (simp add: insertion_sort_def)
  from search_order_permutation [where sort_by = insertion_sort and set_order = remdups and ts =
     "[(arg_type NodeVar ''_x'', arg_type EdgeAccessVarPosPerm ''_e'', arg_type NodeVar ''_y''),
       (arg_addr (Addr 0 1) [], arg_type EdgeAccessVarPosPerm [], arg_type EdgeAccessVarPosPerm ''_e'')]",
      OF this set_remdups]
  show ?thesis by simp
qed

end
