(* ===== verification/Sc_Template_Search.thy ===== *)
theory Sc_Template_Search
  imports Sc_Template_Order Sc_Iterator3
begin

text \<open>
  Search by a template, second part: the backtracking machine behind \<^verbatim>\<open>DoIter\<close> of
  \<^verbatim>\<open>sc-memory/sc-memory/sc_template_search.cpp\<close>, and the setting of parameters.

  A search does not change the memory, so an iterator is the list of the triples that it has
  still to deliver; the argument \<open>deliver\<close> gives this list for a new iterator, and
  \<open>in_struct\<close> is \<^verbatim>\<open>CheckInStruct\<close> for the structure that the search is restricted to, constantly
  true when there is none. The argument \<open>repl_order\<close> is the iteration order of the hash table
  of replacements. An exception ends a search; the state it leaves behind is not modelled. \<open>None\<close> is
  a vector read out of range, an empty stack or a reference to a name that is not bound.
\<close>

subsection \<open>The state of a search\<close>

type_synonym addr_triple = "sc_addr \<times> sc_addr \<times> sc_addr"

type_synonym iterator_request = "sc_iterator3_type \<times> sc_iterator_param \<times> sc_iterator_param \<times> sc_iterator_param"

record search_state =
  processOrder :: "nat list"
  iterators :: "addr_triple list list"
  edges :: "sc_addr list"
  finishIdx :: nat
  newIteration :: bool
  isFinished :: bool
  m_usedEdges :: "sc_addr set"
  m_resultAddrs :: "sc_addr list"
  m_repls :: "string \<rightharpoonup> sc_addr \<times> nat"
  m_result :: ScTemplateNamedStruct

definition Reset ::
    "((nat \<Rightarrow> u8) \<Rightarrow> nat list \<Rightarrow> nat list) \<Rightarrow> (nat list \<Rightarrow> nat list) \<Rightarrow> triple list \<Rightarrow> search_state option" where
  "Reset sort_by set_order ts = do {
     ord \<leftarrow> UpdateSearchCache sort_by set_order ts;
     Some \<lparr>processOrder = ord, iterators = [], edges = replicate (length ts) SC_ADDR_MAKE_EMPTY,
       finishIdx = length ts - 1, newIteration = True, isFinished = False, m_usedEdges = {},
       m_resultAddrs = replicate (3 * length ts) SC_ADDR_MAKE_EMPTY, m_repls = (\<lambda>_. None),
       m_result = m_struct builder_new\<rparr>
   }"

definition search_ResolveAddr :: "(string \<rightharpoonup> sc_addr \<times> nat) \<Rightarrow> ScTemplateArg \<Rightarrow> sc_addr" where
  "search_ResolveAddr repls v = (case m_kind v of
       Kind_Addr \<Rightarrow> m_addrValue v
     | Kind_None \<Rightarrow> SC_ADDR_MAKE_EMPTY
     | _ \<Rightarrow> if m_kind v = Kind_Replace \<or> m_replacementName v \<noteq> []
            then (case repls (m_replacementName v) of Some (a, _) \<Rightarrow> a | None \<Rightarrow> SC_ADDR_MAKE_EMPTY)
            else SC_ADDR_MAKE_EMPTY)"

definition PrepareType :: "ScType \<Rightarrow> ScType" where
  "PrepareType t = (if HasConstancyFlag t then UpConstType t else t)"

definition CreateIterator :: "(string \<rightharpoonup> sc_addr \<times> nat) \<Rightarrow> triple \<Rightarrow> iterator_request option" where
  "CreateIterator repls t = (case t of (x, y, z) \<Rightarrow>
     let sourceAddr = search_ResolveAddr repls x; edgeAddr = search_ResolveAddr repls y;
         targetAddr = search_ResolveAddr repls z;
         T = (\<lambda>v. ParamType (PrepareType (m_typeValue v)))
     in if IsValid sourceAddr then
          (if \<not> IsValid edgeAddr then
             (if IsValid targetAddr then Some (sc_iterator3_f_a_f, ParamAddr sourceAddr, T y, ParamAddr targetAddr)
              else Some (sc_iterator3_f_a_a, ParamAddr sourceAddr, T y, T z))
           else
             (if IsValid targetAddr
              then Some (sc_iterator3_f_f_f, ParamAddr sourceAddr, ParamAddr edgeAddr, ParamAddr targetAddr)
              else Some (sc_iterator3_f_f_a, ParamAddr sourceAddr, ParamAddr edgeAddr, T z)))
        else if IsValid targetAddr then
          (if IsValid edgeAddr then Some (sc_iterator3_a_f_f, T x, ParamAddr edgeAddr, ParamAddr targetAddr)
           else Some (sc_iterator3_a_a_f, T x, T y, ParamAddr targetAddr))
        else if IsValid edgeAddr \<and> \<not> IsValid targetAddr then Some (sc_iterator3_a_f_a, T x, ParamAddr edgeAddr, T z)
        else None)"

definition UnrefReplacement :: "ScTemplateArg \<Rightarrow> (string \<rightharpoonup> sc_addr \<times> nat) \<Rightarrow> (string \<rightharpoonup> sc_addr \<times> nat) option" where
  "UnrefReplacement v repls =
     (if m_replacementName v \<noteq> [] then
        (case repls (m_replacementName v) of
           None \<Rightarrow> None
         | Some (a, k) \<Rightarrow>
             Some (if k > 1 then repls(m_replacementName v \<mapsto> (a, k - 1)) else repls(m_replacementName v := None)))
      else Some repls)"

definition RefReplacement :: "ScTemplateArg \<Rightarrow> sc_addr \<Rightarrow> (string \<rightharpoonup> sc_addr \<times> nat) \<Rightarrow> (string \<rightharpoonup> sc_addr \<times> nat)" where
  "RefReplacement v addr repls =
     (if m_replacementName v \<noteq> [] then
        (case repls (m_replacementName v) of
           None \<Rightarrow> repls(m_replacementName v \<mapsto> (addr, 1))
         | Some (a, k) \<Rightarrow> repls(m_replacementName v \<mapsto> (a, k + 1)))
      else repls)"

definition unref_triple :: "triple \<Rightarrow> (string \<rightharpoonup> sc_addr \<times> nat) \<Rightarrow> (string \<rightharpoonup> sc_addr \<times> nat) option" where
  "unref_triple t repls = (case t of (x, y, z) \<Rightarrow> do {
     r1 \<leftarrow> UnrefReplacement x repls;
     r2 \<leftarrow> UnrefReplacement y r1;
     UnrefReplacement z r2
   })"

definition ref_triple :: "triple \<Rightarrow> addr_triple \<Rightarrow> (string \<rightharpoonup> sc_addr \<times> nat) \<Rightarrow> (string \<rightharpoonup> sc_addr \<times> nat)" where
  "ref_triple t p repls = (case t of (x, y, z) \<Rightarrow> case p of (a, b, c) \<Rightarrow>
     RefReplacement z c (RefReplacement y b (RefReplacement x a repls)))"

text \<open>The names of the template that are bound, in the order of the table, then the addresses.\<close>

definition MakeResult ::
    "(string list \<Rightarrow> string list) \<Rightarrow> triple list \<Rightarrow> (string \<rightharpoonup> sc_addr \<times> nat) \<Rightarrow> sc_addr list \<Rightarrow> ScTemplateNamedStruct" where
  "MakeResult repl_order ts repls addrs =
     (let names = repl_order (remdups (filter (\<lambda>n. repls n \<noteq> None) (concat (map triple_names ts))));
          b = fold (\<lambda>n b. case repls n of Some (a, _) \<Rightarrow> snd (builder_Add_named n a b) | None \<Rightarrow> b) names builder_new
      in m_struct (fold builder_Add addrs b))"

subsection \<open>One round of \<^verbatim>\<open>DoIter\<close>\<close>

text \<open>
  The inner loop over \<^verbatim>\<open>it->Next()\<close> skips what is outside the structure and edges in use.
\<close>

fun next_match :: "(sc_addr \<Rightarrow> bool) \<Rightarrow> sc_addr set \<Rightarrow> addr_triple list \<Rightarrow> (addr_triple \<times> addr_triple list) option" where
  "next_match in_struct used [] = None"
| "next_match in_struct used ((a, b, c) # rs) =
     (if \<not> (in_struct a \<and> in_struct b \<and> in_struct c) then next_match in_struct used rs
      else if b \<in> used then next_match in_struct used rs
      else Some ((a, b, c), rs))"

definition search_step ::
    "(iterator_request \<Rightarrow> addr_triple list) \<Rightarrow> (sc_addr \<Rightarrow> bool) \<Rightarrow> (string list \<Rightarrow> string list) \<Rightarrow> triple list \<Rightarrow>
     search_state \<Rightarrow> ((exception + bool) \<times> search_state) option" where
  "search_step deliver in_struct repl_order ts st =
     (let orderIndex = (if newIteration st then length (iterators st) else length (iterators st) - 1) in
      if \<not> orderIndex < length (processOrder st) then None
      else let constrIndex = processOrder st ! orderIndex in
      if \<not> constrIndex < length ts then Some (Inl ExceptionAssert, st)
      else let t = ts ! constrIndex in do {
        (rest, st1) \<leftarrow>
          (if newIteration st then
             (case CreateIterator (m_repls st) t of
                None \<Rightarrow> Some (None, st)
              | Some q \<Rightarrow> Some (Some (deliver q), st\<lparr>iterators := deliver q # iterators st\<rparr>))
           else do {
             repls \<leftarrow> unref_triple t (m_repls st);
             (case iterators st of
                [] \<Rightarrow> None
              | r # _ \<Rightarrow> Some (Some r, st\<lparr>m_repls := repls, m_usedEdges := m_usedEdges st - {edges st ! orderIndex}\<rparr>))
           });
        (case rest of
           None \<Rightarrow> Some (Inl ExceptionInvalidState, st1)
         | Some r \<Rightarrow>
             (case next_match in_struct (m_usedEdges st1) r of
                None \<Rightarrow> Some (Inr False, st1\<lparr>iterators := tl (iterators st1), newIteration := False\<rparr>)
              | Some ((a, b, c), r') \<Rightarrow>
                  (let addrs = (m_resultAddrs st1)[3 * constrIndex := a, 3 * constrIndex + 1 := b, 3 * constrIndex + 2 := c];
                       st2 = st1\<lparr>iterators := r' # tl (iterators st1), m_usedEdges := insert b (m_usedEdges st1),
                         edges := (edges st1)[orderIndex := b], m_resultAddrs := addrs,
                         m_repls := ref_triple t (a, b, c) (m_repls st1)\<rparr>
                   in if orderIndex = finishIdx st2
                      then Some (Inr True, st2\<lparr>m_result := MakeResult repl_order ts (m_repls st2) addrs, newIteration := False\<rparr>)
                      else Some (Inr False, st2\<lparr>newIteration := True\<rparr>))))
      })"

partial_function (option) search_loop ::
    "(iterator_request \<Rightarrow> addr_triple list) \<Rightarrow> (sc_addr \<Rightarrow> bool) \<Rightarrow> (string list \<Rightarrow> string list) \<Rightarrow> triple list \<Rightarrow>
     search_state \<Rightarrow> ((exception + bool) \<times> search_state) option" where
  "search_loop deliver in_struct repl_order ts st = do {
     (r, st1) \<leftarrow> search_step deliver in_struct repl_order ts st;
     (case r of
        Inl e \<Rightarrow> Some (Inl e, st1)
      | Inr found \<Rightarrow>
          if found \<or> iterators st1 = []
          then Some (Inr found, if iterators st1 = [] then st1\<lparr>isFinished := True\<rparr> else st1)
          else search_loop deliver in_struct repl_order ts st1)
   }"

definition DoIter ::
    "(iterator_request \<Rightarrow> addr_triple list) \<Rightarrow> (sc_addr \<Rightarrow> bool) \<Rightarrow> (string list \<Rightarrow> string list) \<Rightarrow> triple list \<Rightarrow>
     search_state \<Rightarrow> ((exception + bool) \<times> search_state) option" where
  "DoIter deliver in_struct repl_order ts st =
     (if isFinished st then Some (Inr False, st) else search_loop deliver in_struct repl_order ts st)"

text \<open>The caller's loop: \<^verbatim>\<open>begin()\<close>, then \<^verbatim>\<open>operator ++\<close> until the end, reading the result each time.\<close>

partial_function (option) search_all ::
    "(iterator_request \<Rightarrow> addr_triple list) \<Rightarrow> (sc_addr \<Rightarrow> bool) \<Rightarrow> (string list \<Rightarrow> string list) \<Rightarrow> triple list \<Rightarrow>
     search_state \<Rightarrow> (exception + ScTemplateNamedStruct list) option" where
  "search_all deliver in_struct repl_order ts st = do {
     (r, st1) \<leftarrow> DoIter deliver in_struct repl_order ts st;
     (case r of
        Inl e \<Rightarrow> Some (Inl e)
      | Inr found \<Rightarrow>
          if \<not> found then Some (Inr [])
          else do {
            q \<leftarrow> search_all deliver in_struct repl_order ts st1;
            (case q of Inl e \<Rightarrow> Some (Inl e) | Inr rs \<Rightarrow> Some (Inr (m_result st1 # rs)))
          })
   }"

end
