(* ===== verification/Sc_Template_Search_Laws.thy ===== *)
theory Sc_Template_Search_Laws
  imports Sc_Template_Search
begin

text \<open>
  The backtracking machine of the template search equals the textbook enumeration: the
  reference \<open>solve\<close> goes through the triples in the order of the search and collects, depth
  first, all ways to pick a delivered triple for each of them with connectors used once.
\<close>

subsection \<open>The reference enumeration\<close>

type_synonym repls = "string \<rightharpoonup> sc_addr \<times> nat"

definition edge_of :: "addr_triple \<Rightarrow> sc_addr" where "edge_of p = fst (snd p)"

definition fits_in :: "(sc_addr \<Rightarrow> bool) \<Rightarrow> sc_addr set \<Rightarrow> addr_triple \<Rightarrow> bool" where
  "fits_in in_struct used p \<longleftrightarrow> (case p of (a, b, c) \<Rightarrow> in_struct a \<and> in_struct b \<and> in_struct c \<and> b \<notin> used)"

definition candidates :: "(iterator_request \<Rightarrow> addr_triple list) \<Rightarrow> repls \<Rightarrow> triple \<Rightarrow> addr_triple list" where
  "candidates deliver r t = (case CreateIterator r t of Some q \<Rightarrow> deliver q | None \<Rightarrow> [])"

fun solve ::
    "(iterator_request \<Rightarrow> addr_triple list) \<Rightarrow> (sc_addr \<Rightarrow> bool) \<Rightarrow> triple list \<Rightarrow> repls \<Rightarrow> sc_addr set \<Rightarrow> addr_triple list list" where
  "solve D I [] r u = [[]]"
| "solve D I (t # ts) r u = concat (map (\<lambda>p. map ((#) p) (solve D I ts (ref_triple t p r) (insert (edge_of p) u)))
     (filter (fits_in I u) (candidates D r t)))"

text \<open>The number of rounds that the machine spends on a subtree.\<close>

fun rounds :: "(iterator_request \<Rightarrow> addr_triple list) \<Rightarrow> (sc_addr \<Rightarrow> bool) \<Rightarrow> triple list \<Rightarrow> repls \<Rightarrow> sc_addr set \<Rightarrow> nat" where
  "rounds D I [] r u = 0"
| "rounds D I (t # ts) r u = 1 + sum_list (map (\<lambda>p. 1 + rounds D I ts (ref_triple t p r) (insert (edge_of p) u))
     (filter (fits_in I u) (candidates D r t)))"

definition alts where
  "alts D I t ts r u ps = concat (map (\<lambda>p. map ((#) p) (solve D I ts (ref_triple t p r) (insert (edge_of p) u)))
     (filter (fits_in I u) ps))"

definition alt_rounds where
  "alt_rounds D I t ts r u ps = 1 + sum_list (map (\<lambda>p. 1 + rounds D I ts (ref_triple t p r) (insert (edge_of p) u))
     (filter (fits_in I u) ps))"

lemma next_match_None: "next_match I u ps = None \<longleftrightarrow> filter (fits_in I u) ps = []"
  by (induction I u ps rule: next_match.induct) (auto simp: fits_in_def)

lemma next_match_Some: "next_match I u ps = Some (p, qs) \<Longrightarrow> filter (fits_in I u) ps = p # filter (fits_in I u) qs \<and> fits_in I u p"
  by (induction I u ps rule: next_match.induct) (auto simp: fits_in_def split: if_splits)

subsection \<open>References to names\<close>

definition counted :: "repls \<Rightarrow> bool" where
  "counted r \<longleftrightarrow> (\<forall>n a k. r n = Some (a, k) \<longrightarrow> k \<ge> 1)"

lemma counted_ref_triple: "counted r \<Longrightarrow> counted (ref_triple t p r)"
  by (cases t; cases p) (auto simp: counted_def ref_triple_def RefReplacement_def split: option.splits if_splits)

lemma counted_ref: "counted r \<Longrightarrow> counted (RefReplacement v a r)"
  by (auto simp: counted_def RefReplacement_def split: option.splits if_splits)

lemma unref_ref_same:
  assumes "counted r" and "m_replacementName w = m_replacementName v"
  shows "UnrefReplacement w (RefReplacement v a r) = Some r"
proof -
  have "k \<ge> 1" if "r n = Some (b, k)" for n b k using assms(1) that by (auto simp: counted_def)
  then show ?thesis using assms(2)
    by (cases "r (m_replacementName v)")
       (auto simp: UnrefReplacement_def RefReplacement_def fun_eq_iff Suc_le_eq)
qed

lemma unref_ref_other:
  "m_replacementName w \<noteq> m_replacementName v \<Longrightarrow>
   UnrefReplacement w (RefReplacement v a r) = map_option (RefReplacement v a) (UnrefReplacement w r)"
  by (auto simp: UnrefReplacement_def RefReplacement_def fun_upd_twist split: option.split)

lemma unref_ref_triple:
  assumes "counted r"
  shows "unref_triple t (ref_triple t p r) = Some r"
proof -
  obtain x y z a b c where tp: "t = (x, y, z)" "p = (a, b, c)" by (cases t; cases p)
  let ?x = "m_replacementName x" and ?y = "m_replacementName y" and ?z = "m_replacementName z"
  note C = assms counted_ref
  note S = unref_ref_same unref_ref_other
  consider "?z = ?x" "?y = ?x" | "?z = ?x" "?y \<noteq> ?x" | "?z \<noteq> ?x" "?y = ?x"
    | "?z \<noteq> ?x" "?y \<noteq> ?x" "?z = ?y" | "?z \<noteq> ?x" "?y \<noteq> ?x" "?z \<noteq> ?y" by blast
  then show ?thesis unfolding tp ref_triple_def unref_triple_def by cases (simp_all add: C S)
qed

subsection \<open>Frames\<close>

text \<open>
  A frame is the triple picked on a level with what its iterator has still to deliver; the
  frame of the deepest level comes first, as on the stack of iterators.
\<close>

type_synonym frames = "(addr_triple \<times> addr_triple list) list"

fun bound :: "triple list \<Rightarrow> frames \<Rightarrow> repls" where
  "bound plan [] = (\<lambda>_. None)"
| "bound plan ((p, ps) # fs) = ref_triple (plan ! length fs) p (bound plan fs)"

definition taken :: "frames \<Rightarrow> sc_addr set" where
  "taken fs = (edge_of \<circ> fst) ` set fs"

definition path :: "frames \<Rightarrow> addr_triple list" where
  "path fs = rev (map fst fs)"

lemma counted_bound: "counted (bound plan fs)"
  by (induction plan fs rule: bound.induct) (simp_all add: counted_def [of "\<lambda>_. None"] counted_ref_triple)

text \<open>The solutions that are still to come, and the rounds that they cost.\<close>

fun backtrack ::
    "(iterator_request \<Rightarrow> addr_triple list) \<Rightarrow> (sc_addr \<Rightarrow> bool) \<Rightarrow> triple list \<Rightarrow> frames \<Rightarrow> addr_triple list list" where
  "backtrack D I plan [] = []"
| "backtrack D I plan ((p, ps) # fs) = map ((@) (path fs))
     (alts D I (plan ! length fs) (drop (Suc (length fs)) plan) (bound plan fs) (taken fs) ps) @ backtrack D I plan fs"

fun back_rounds ::
    "(iterator_request \<Rightarrow> addr_triple list) \<Rightarrow> (sc_addr \<Rightarrow> bool) \<Rightarrow> triple list \<Rightarrow> frames \<Rightarrow> nat" where
  "back_rounds D I plan [] = 0"
| "back_rounds D I plan ((p, ps) # fs) =
     alt_rounds D I (plan ! length fs) (drop (Suc (length fs)) plan) (bound plan fs) (taken fs) ps + back_rounds D I plan fs"

definition ahead where
  "ahead D I plan fresh fs = (if fresh
     then map ((@) (path fs)) (solve D I (drop (length fs) plan) (bound plan fs) (taken fs)) @ backtrack D I plan fs
     else backtrack D I plan fs)"

definition ahead_rounds where
  "ahead_rounds D I plan fresh fs = (if fresh
     then rounds D I (drop (length fs) plan) (bound plan fs) (taken fs) + back_rounds D I plan fs
     else back_rounds D I plan fs)"

text \<open>The machine in a state with these frames.\<close>

definition frames_of :: "triple list \<Rightarrow> nat list \<Rightarrow> search_state \<Rightarrow> frames \<Rightarrow> bool" where
  "frames_of ts ord st fs \<longleftrightarrow>
     processOrder st = ord \<and> iterators st = map snd fs \<and> finishIdx st = length ts - 1 \<and> \<not> isFinished st \<and>
     length fs \<le> length ts \<and> m_usedEdges st = taken fs \<and> distinct (map (edge_of \<circ> fst) fs) \<and>
     m_repls st = bound (map ((!) ts) ord) fs \<and>
     length (edges st) = length ts \<and> (\<forall>i < length fs. edges st ! i = edge_of (path fs ! i)) \<and>
     length (m_resultAddrs st) = 3 * length ts \<and>
     (\<forall>i < length fs. (m_resultAddrs st ! (3 * ord ! i), m_resultAddrs st ! (3 * ord ! i + 1),
        m_resultAddrs st ! (3 * ord ! i + 2)) = path fs ! i)"

lemma alts_Cons:
  assumes "next_match I u ps = Some (p, qs)"
  shows "alts D I t ts r u ps = map ((#) p) (solve D I ts (ref_triple t p r) (insert (edge_of p) u)) @ alts D I t ts r u qs"
    "alt_rounds D I t ts r u ps = 1 + rounds D I ts (ref_triple t p r) (insert (edge_of p) u) + alt_rounds D I t ts r u qs"
  using next_match_Some [OF assms] by (simp_all add: alts_def alt_rounds_def)

lemma alts_Nil:
  assumes "next_match I u ps = None"
  shows "alts D I t ts r u ps = []" "alt_rounds D I t ts r u ps = 1"
  using assms unfolding next_match_None by (simp_all add: alts_def alt_rounds_def)

text \<open>What the second half of a round does, once the level \<open>k\<close> has its iterator on the stack.\<close>

definition advance ::
    "(sc_addr \<Rightarrow> bool) \<Rightarrow> (string list \<Rightarrow> string list) \<Rightarrow> triple list \<Rightarrow> nat \<Rightarrow> nat \<Rightarrow> addr_triple list \<Rightarrow>
     search_state \<Rightarrow> (exception + bool) \<times> search_state" where
  "advance I repl_order ts k i ps st1 = (case next_match I (m_usedEdges st1) ps of
       None \<Rightarrow> (Inr False, st1\<lparr>iterators := tl (iterators st1), newIteration := False\<rparr>)
     | Some ((a, b, c), r') \<Rightarrow>
         (let addrs = (m_resultAddrs st1)[3 * i := a, 3 * i + 1 := b, 3 * i + 2 := c];
              st2 = st1\<lparr>iterators := r' # tl (iterators st1), m_usedEdges := insert b (m_usedEdges st1),
                edges := (edges st1)[k := b], m_resultAddrs := addrs,
                m_repls := ref_triple (ts ! i) (a, b, c) (m_repls st1)\<rparr>
          in if k = finishIdx st2
             then (Inr True, st2\<lparr>m_result := MakeResult repl_order ts (m_repls st2) addrs, newIteration := False\<rparr>)
             else (Inr False, st2\<lparr>newIteration := True\<rparr>)))"

text \<open>The names bound by a list of picked triples.\<close>

fun binds :: "triple list \<Rightarrow> addr_triple list \<Rightarrow> repls \<Rightarrow> repls" where
  "binds (t # ts) (p # ps) r = binds ts ps (ref_triple t p r)"
| "binds _ _ r = r"

lemma binds_Nil [simp]: "binds plan [] r = r"
  by (cases plan) simp_all

lemma binds_snoc:
  "length qs < length plan \<Longrightarrow> binds plan (qs @ [p]) r = ref_triple (plan ! length qs) p (binds plan qs r)"
proof (induction plan arbitrary: qs r)
  case (Cons t ts)
  then show ?case by (cases qs) simp_all
qed simp

lemma bound_path: "length fs \<le> length plan \<Longrightarrow> bound plan fs = binds plan (path fs) (\<lambda>_. None)"
  by (induction plan fs rule: bound.induct) (simp_all add: path_def binds_snoc)

text \<open>Every name stands for the first address picked for it.\<close>

definition picks_of :: "triple \<Rightarrow> addr_triple \<Rightarrow> (string \<times> sc_addr) list" where
  "picks_of t p = (case t of (x, y, z) \<Rightarrow> case p of (a, b, c) \<Rightarrow> filter (\<lambda>(n, _). n \<noteq> [])
     [(m_replacementName x, a), (m_replacementName y, b), (m_replacementName z, c)])"

lemma ref_first: "map_option fst (RefReplacement v a r n) =
    (case map_option fst (r n) of Some b \<Rightarrow> Some b | None \<Rightarrow> if n \<noteq> [] \<and> n = m_replacementName v then Some a else None)"
  by (auto simp: RefReplacement_def split: option.splits)

lemma ref_triple_first:
  "map_option fst (ref_triple t p r n) = (case map_option fst (r n) of Some b \<Rightarrow> Some b | None \<Rightarrow> map_of (picks_of t p) n)"
  by (cases t; cases p) (auto simp: ref_triple_def ref_first picks_of_def split: option.split)

lemma binds_first:
  "map_option fst (binds plan sol r n) =
     (case map_option fst (r n) of Some b \<Rightarrow> Some b | None \<Rightarrow> map_of (concat (map2 picks_of plan sol)) n)"
proof (induction plan sol r rule: binds.induct)
  case (1 t ts p ps r)
  then show ?case by (simp only: binds.simps) (auto simp: ref_triple_first map_add_def split: option.split)
qed (auto split: option.split)

definition reports ::
    "(string list \<Rightarrow> string list) \<Rightarrow> triple list \<Rightarrow> nat list \<Rightarrow> addr_triple list \<Rightarrow> ScTemplateNamedStruct \<Rightarrow> bool" where
  "reports repl_order ts ord sol res \<longleftrightarrow> (\<exists>addrs. length addrs = 3 * length ts \<and>
     (\<forall>i < length ts. (addrs ! (3 * ord ! i), addrs ! (3 * ord ! i + 1), addrs ! (3 * ord ! i + 2)) = sol ! i) \<and>
     res = MakeResult repl_order ts (binds (map ((!) ts) ord) sol (\<lambda>_. None)) addrs)"

lemma write_triple:
  assumes "length addrs = 3 * n" and "i < n" and "addrs' = addrs[3 * i := a, 3 * i + 1 := b, 3 * i + 2 := c]"
  shows "length addrs' = 3 * n" "(addrs' ! (3 * i), addrs' ! (3 * i + 1), addrs' ! (3 * i + 2)) = (a, b, c)"
    "j \<noteq> i \<Longrightarrow> m < 3 \<Longrightarrow> addrs' ! (3 * j + m) = addrs ! (3 * j + m)"
  using assms by (auto simp: nth_list_update)

lemma path_Cons: "path ((p, ps) # fs) = path fs @ [p]" "length (path fs) = length fs"
  by (simp_all add: path_def)

lemma advance_ok:
  assumes st: "frames_of ts ord (st1\<lparr>iterators := map snd fs\<rparr>) fs" "iterators st1 = ps # map snd fs"
    and k: "length fs < length ts" and ord: "distinct ord" "set ord = {..<length ts}" "length ord = length ts"
    and adv: "advance I repl_order ts (length fs) (ord ! length fs) ps st1 = (r, st')"
  shows "case next_match I (taken fs) ps of
      None \<Rightarrow> r = Inr False \<and> frames_of ts ord st' fs \<and> \<not> newIteration st'
    | Some (p, qs) \<Rightarrow> frames_of ts ord st' ((p, qs) # fs) \<and>
        (if Suc (length fs) = length ts
         then r = Inr True \<and> \<not> newIteration st' \<and> reports repl_order ts ord (path ((p, qs) # fs)) (m_result st')
         else r = Inr False \<and> newIteration st')"
proof -
  let ?k = "length fs" and ?plan = "map ((!) ts) ord"
  have used: "m_usedEdges st1 = taken fs" using st(1) by (simp add: frames_of_def)
  have i: "ord ! ?k < length ts" using k ord(2,3) nth_mem by fastforce
  have plan: "?plan ! ?k = ts ! (ord ! ?k)" using k ord(3) by simp
  show ?thesis
  proof (cases "next_match I (taken fs) ps")
    case None
    then have "r = Inr False" "st' = st1\<lparr>iterators := map snd fs, newIteration := False\<rparr>"
      using adv st(2) by (auto simp: advance_def used)
    then show ?thesis using None st(1) by (simp add: frames_of_def)
  next
    case (Some pq)
    obtain a b c qs where pq: "pq = ((a, b, c), qs)" by (metis surj_pair)
    let ?p = "(a, b, c)" and ?addrs = "(m_resultAddrs st1)[3 * ord ! ?k := a, 3 * ord ! ?k + 1 := b, 3 * ord ! ?k + 2 := c]"
    let ?fs = "(?p, qs) # fs"
    define st2 where "st2 = st1\<lparr>iterators := qs # map snd fs, m_usedEdges := insert b (taken fs),
       edges := (edges st1)[?k := b], m_resultAddrs := ?addrs, m_repls := bound ?plan ?fs\<rparr>"
    have b: "b \<notin> taken fs" using next_match_Some [OF Some [unfolded pq]] by (simp add: fits_in_def)
    have len: "length (m_resultAddrs st1) = 3 * length ts" using st(1) by (simp add: frames_of_def)
    note W = write_triple [where a = a and b = b and c = c, OF len i refl]
    have old: "(m_resultAddrs st1 ! (3 * ord ! j), m_resultAddrs st1 ! (3 * ord ! j + 1), m_resultAddrs st1 ! (3 * ord ! j + 2)) =
        path fs ! j" "edges st1 ! j = edge_of (path fs ! j)" if "j < ?k" for j
      using st(1) that by (simp_all add: frames_of_def)
    have ne: "ord ! j \<noteq> ord ! ?k" if "j < ?k" for j using ord(1,3) k that by (simp add: nth_eq_iff_index_eq)
    have entry: "(?addrs ! (3 * ord ! j), ?addrs ! (3 * ord ! j + 1), ?addrs ! (3 * ord ! j + 2)) = path ?fs ! j"
      if "j < Suc ?k" for j
    proof (cases "j = ?k")
      case True
      then show ?thesis using W(2) by (simp add: path_Cons nth_append)
    next
      case False
      then have j: "j < ?k" using that by simp
      then show ?thesis using old(1) [OF j] W(3) [OF ne [OF j], of 0] W(3) [OF ne [OF j], of 1] W(3) [OF ne [OF j], of 2]
        by (simp add: path_Cons nth_append)
    qed
    have ed: "edges st2 ! j = edge_of (path ?fs ! j)" if "j < Suc ?k" for j
      using that old(2) [of j] st(1) k by (cases "j = ?k") (auto simp: st2_def path_Cons nth_append edge_of_def frames_of_def)
    have F: "frames_of ts ord (st2\<lparr>m_result := w, newIteration := v\<rparr>) ?fs" "frames_of ts ord (st2\<lparr>newIteration := v\<rparr>) ?fs"
      for v w
      using st(1) k b W(1) entry ed unfolding frames_of_def
      by (simp_all add: st2_def taken_def edge_of_def image_comp [symmetric])
    have adv': "(r, st') = (if Suc ?k = length ts
        then (Inr True, st2\<lparr>m_result := MakeResult repl_order ts (m_repls st2) ?addrs, newIteration := False\<rparr>)
        else (Inr False, st2\<lparr>newIteration := True\<rparr>))"
    proof -
      have "(?k = finishIdx st1) = (Suc ?k = length ts)" "m_repls st1 = bound ?plan fs"
        using st(1) k by (auto simp: frames_of_def)
      then show ?thesis unfolding adv [symmetric] advance_def used Some pq
        using st(2) plan by (simp add: st2_def Let_def)
    qed
    show ?thesis
    proof (cases "Suc ?k = length ts")
      case True
      have "binds ?plan (path ?fs) (\<lambda>_. None) = bound ?plan ?fs"
        by (rule bound_path [symmetric]) (use k ord(3) in simp)
      then have "reports repl_order ts ord (path ?fs) (MakeResult repl_order ts (m_repls st2) ?addrs)"
        unfolding reports_def using W(1) entry True by (intro exI [of _ ?addrs]) (simp add: st2_def del: bound.simps)
      then show ?thesis using adv' True Some pq F(1) [where v = False] by simp
    next
      case False
      then show ?thesis using adv' Some pq F(2) [where v = True] by simp
    qed
  qed
qed

subsection \<open>No triple without a fixed item\<close>

definition resolvable :: "string set \<Rightarrow> ScTemplateArg \<Rightarrow> bool" where
  "resolvable K v \<longleftrightarrow> IsAddr v \<and> IsValid (m_addrValue v) \<or> IsType v \<and> m_replacementName v \<noteq> [] \<and> m_replacementName v \<in> K"

definition names_of :: "triple list \<Rightarrow> string set" where
  "names_of ts = (\<Union>t \<in> set ts. set (triple_names t))"

definition searchable :: "triple list \<Rightarrow> bool" where
  "searchable plan \<longleftrightarrow> (\<forall>k < length plan. \<exists>v \<in> items_of (plan ! k). resolvable (names_of (take k plan)) v)"

text \<open>Addresses from a set that does not have the empty address, such as the live elements.\<close>

definition in3 :: "sc_addr set \<Rightarrow> addr_triple \<Rightarrow> bool" where
  "in3 A p \<longleftrightarrow> (case p of (a, b, c) \<Rightarrow> a \<in> A \<and> b \<in> A \<and> c \<in> A)"

definition in_frames :: "sc_addr set \<Rightarrow> frames \<Rightarrow> bool" where
  "in_frames A fs \<longleftrightarrow> (\<forall>(p, ps) \<in> set fs. in3 A p \<and> (\<forall>q \<in> set ps. in3 A q))"

definition in_repls :: "sc_addr set \<Rightarrow> repls \<Rightarrow> bool" where
  "in_repls A r \<longleftrightarrow> (\<forall>n a k. r n = Some (a, k) \<longrightarrow> a \<in> A)"

text \<open>The iterators that the search can ask for deliver such addresses.\<close>

definition delivers_in :: "sc_addr set \<Rightarrow> (iterator_request \<Rightarrow> addr_triple list) \<Rightarrow> triple list \<Rightarrow> bool" where
  "delivers_in A D plan \<longleftrightarrow> (\<forall>k < length plan. \<forall>r. in_repls A r \<and> dom r = names_of (take k plan) \<longrightarrow>
     (\<forall>p \<in> set (candidates D r (plan ! k)). in3 A p))"

lemma dom_ref: "dom (RefReplacement v a r) = dom r \<union> ({m_replacementName v} - {[]})"
  by (auto simp: RefReplacement_def split: option.splits)

lemma dom_ref_triple: "dom (ref_triple t p r) = dom r \<union> set (triple_names t)"
  by (cases t; cases p) (auto simp: ref_triple_def dom_ref triple_names_def)

lemma valid_ref_triple:
  assumes "in_repls A r" "in3 A p"
  shows "in_repls A (ref_triple t p r)"
proof -
  have R: "in_repls A (RefReplacement v a r')" if "in_repls A r'" "a \<in> A" for v a r'
    using that by (auto simp: in_repls_def RefReplacement_def split: option.splits if_splits)
  show ?thesis using assms R by (cases t; cases p) (auto simp: ref_triple_def in3_def)
qed

lemma bound_names:
  assumes "in_frames A fs" and "length fs \<le> length plan"
  shows "dom (bound plan fs) = names_of (take (length fs) plan)" "in_repls A (bound plan fs)"
proof -
  have "dom (bound plan fs) = names_of (take (length fs) plan) \<and> in_repls A (bound plan fs)"
    using assms
  proof (induction fs)
    case Nil
    then show ?case by (simp add: names_of_def in_repls_def)
  next
    case (Cons f fs)
    obtain p ps where f: "f = (p, ps)" by (cases f)
    have "take (Suc (length fs)) plan = take (length fs) plan @ [plan ! length fs]"
      using Cons.prems(2) by (simp add: take_Suc_conv_app_nth)
    then have "names_of (take (Suc (length fs)) plan) = names_of (take (length fs) plan) \<union> set (triple_names (plan ! length fs))"
      by (simp add: names_of_def Un_commute)
    with Cons f show ?case by (simp add: in_frames_def dom_ref_triple valid_ref_triple)
  qed
  then show "dom (bound plan fs) = names_of (take (length fs) plan)" "in_repls A (bound plan fs)" by blast+
qed

lemma resolve_valid:
  assumes "resolvable K v" and "K \<subseteq> dom r" and "in_repls A r" and "\<forall>a \<in> A. IsValid a"
  shows "IsValid (search_ResolveAddr r v)"
proof (cases "IsAddr v")
  case True
  then show ?thesis using assms(1) by (auto simp: resolvable_def search_ResolveAddr_def item_tests)
next
  case False
  then have v: "m_kind v = Kind_Type" "m_replacementName v \<noteq> []" "m_replacementName v \<in> dom r"
    using assms(1,2) by (auto simp: resolvable_def item_tests)
  then obtain a k where "r (m_replacementName v) = Some (a, k)" by (auto simp: dom_def)
  then show ?thesis using v(1,2) assms(3,4) by (auto simp: search_ResolveAddr_def in_repls_def)
qed

lemma create_iterator_found:
  assumes "\<exists>v \<in> items_of t. resolvable K v" and "K \<subseteq> dom r" and "in_repls A r" and "\<forall>a \<in> A. IsValid a"
  shows "\<exists>q. CreateIterator r t = Some q"
proof -
  obtain x y z where t: "t = (x, y, z)" by (cases t)
  then have "IsValid (search_ResolveAddr r x) \<or> IsValid (search_ResolveAddr r y) \<or> IsValid (search_ResolveAddr r z)"
    using assms(1) resolve_valid [OF _ assms(2-4)] by (auto simp: items_of_def)
  then show ?thesis unfolding t CreateIterator_def by (auto simp: Let_def)
qed

lemma next_match_set: "next_match I u ps = Some (p, qs) \<Longrightarrow> p \<in> set ps \<and> set qs \<subseteq> set ps"
  by (induction I u ps rule: next_match.induct) (auto split: if_splits)

subsection \<open>One round\<close>

lemma step_fresh:
  assumes st: "frames_of ts ord st fs" "newIteration st" and k: "length fs < length ts"
    and ord: "set ord = {..<length ts}" "length ord = length ts"
    and q: "CreateIterator (bound (map ((!) ts) ord) fs) (ts ! (ord ! length fs)) = Some q"
  shows "search_step D I repl_order ts st =
     Some (advance I repl_order ts (length fs) (ord ! length fs) (D q) (st\<lparr>iterators := D q # iterators st\<rparr>))"
proof -
  have "ord ! length fs < length ts" using k ord nth_mem by fastforce
  moreover have "length (iterators st) = length fs" "processOrder st = ord" "m_repls st = bound (map ((!) ts) ord) fs"
    using st(1) by (simp_all add: frames_of_def)
  ultimately show ?thesis using st(2) k ord(2) q
    by (simp add: search_step_def advance_def Let_def split: option.split)
qed

lemma taken_Cons: "distinct (map (edge_of \<circ> fst) ((p, ps) # fs)) \<Longrightarrow> taken ((p, ps) # fs) - {edge_of p} = taken fs"
  by (auto simp: taken_def)

lemma step_again:
  assumes st: "frames_of ts ord st ((p, ps) # fs)" "\<not> newIteration st"
    and ord: "set ord = {..<length ts}" "length ord = length ts"
  shows "search_step D I repl_order ts st =
     Some (advance I repl_order ts (length fs) (ord ! length fs) ps
       (st\<lparr>m_repls := bound (map ((!) ts) ord) fs, m_usedEdges := taken fs\<rparr>))"
proof -
  let ?plan = "map ((!) ts) ord"
  have F: "length fs < length ts" "iterators st = ps # map snd fs" "processOrder st = ord"
    "m_repls st = ref_triple (?plan ! length fs) p (bound ?plan fs)" "m_usedEdges st = taken ((p, ps) # fs)"
    "edges st ! length fs = edge_of p" "distinct (map (edge_of \<circ> fst) ((p, ps) # fs))"
    using st(1) by (auto simp: frames_of_def path_Cons nth_append)
  have "ord ! length fs < length ts" using F(1) ord nth_mem by fastforce
  moreover have "unref_triple (ts ! (ord ! length fs)) (m_repls st) = Some (bound ?plan fs)"
    using unref_ref_triple [OF counted_bound] F(1,4) ord(2) by simp
  moreover have "m_usedEdges st - {edges st ! length fs} = taken fs" using F(5,6) taken_Cons [OF F(7)] by simp
  ultimately show ?thesis using st(2) F(1-3) ord(2)
    by (simp add: search_step_def advance_def Let_def split: option.split)
qed

text \<open>
  The common part: a level whose iterator is on the stack moves on, and what is ahead is
  unchanged or loses the solution that is reported.
\<close>

definition moved ::
    "sc_addr set \<Rightarrow> (iterator_request \<Rightarrow> addr_triple list) \<Rightarrow> (sc_addr \<Rightarrow> bool) \<Rightarrow> (string list \<Rightarrow> string list) \<Rightarrow> triple list \<Rightarrow> nat list \<Rightarrow>
     addr_triple list list \<Rightarrow> nat \<Rightarrow> exception + bool \<Rightarrow> search_state \<Rightarrow> bool" where
  "moved A D I repl_order ts ord sols n r st' \<longleftrightarrow> (\<exists>fs'. frames_of ts ord st' fs' \<and> in_frames A fs' \<and>
     (let plan = map ((!) ts) ord in
      (newIteration st' \<longrightarrow> fs' \<noteq> [] \<and> length fs' < length ts) \<and> ahead_rounds D I plan (newIteration st') fs' < n \<and>
      (r = Inr False \<and> ahead D I plan (newIteration st') fs' = sols \<or>
       r = Inr True \<and> \<not> newIteration st' \<and> fs' \<noteq> [] \<and> sols = path fs' # backtrack D I plan fs' \<and>
         reports repl_order ts ord (path fs') (m_result st'))))"

lemma advance_moves:
  assumes st: "frames_of ts ord (st1\<lparr>iterators := map snd fs\<rparr>) fs" "iterators st1 = ps # map snd fs"
    and k: "length fs < length ts" and ord: "distinct ord" "set ord = {..<length ts}" "length ord = length ts"
    and v: "in_frames A fs" "\<forall>q \<in> set ps. in3 A q"
    and adv: "advance I repl_order ts (length fs) (ord ! length fs) ps st1 = (r, st')"
  defines "plan \<equiv> map ((!) ts) ord"
  defines "t \<equiv> plan ! length fs" and "rest \<equiv> drop (Suc (length fs)) plan"
  shows "moved A D I repl_order ts ord
     (map ((@) (path fs)) (alts D I t rest (bound plan fs) (taken fs) ps) @ backtrack D I plan fs)
     (alt_rounds D I t rest (bound plan fs) (taken fs) ps + back_rounds D I plan fs) r st'"
proof (cases "next_match I (taken fs) ps")
  case None
  with advance_ok [OF st k ord adv] have "r = Inr False" "frames_of ts ord st' fs" "\<not> newIteration st'" by simp_all
  then show ?thesis unfolding moved_def using v(1) alts_Nil [OF None]
    by (intro exI [of _ fs]) (simp add: ahead_def ahead_rounds_def plan_def Let_def)
next
  case (Some pq)
  obtain p qs where pq: "pq = (p, qs)" by (cases pq)
  let ?fs = "(p, qs) # fs" and ?r = "bound plan fs" and ?u = "taken fs"
  note N = Some [unfolded pq]
  have A: "frames_of ts ord st' ?fs" "if Suc (length fs) = length ts
         then r = Inr True \<and> \<not> newIteration st' \<and> reports repl_order ts ord (path ?fs) (m_result st')
         else r = Inr False \<and> newIteration st'"
    using advance_ok [OF st k ord adv] N by simp_all
  have V: "in_frames A ?fs" using v next_match_set [OF N] by (auto simp: in_frames_def)
  have b: "bound plan ?fs = ref_triple t p ?r" "taken ?fs = insert (edge_of p) ?u" "drop (length ?fs) plan = rest"
    by (simp_all add: t_def taken_def rest_def)
  have sols: "map ((@) (path fs)) (alts D I t rest ?r ?u ps) @ backtrack D I plan fs =
      map ((@) (path ?fs)) (solve D I rest (bound plan ?fs) (taken ?fs)) @ backtrack D I plan ?fs"
    unfolding alts_Cons(1) [OF N] b(1,2) by (simp add: path_Cons comp_def t_def rest_def)
  have rnds: "alt_rounds D I t rest ?r ?u ps + back_rounds D I plan fs =
      1 + rounds D I rest (bound plan ?fs) (taken ?fs) + back_rounds D I plan ?fs"
    unfolding alts_Cons(2) [OF N] b(1,2) by (simp add: t_def rest_def)
  show ?thesis
  proof (cases "Suc (length fs) = length ts")
    case True
    then have "rest = []" using ord(3) by (simp add: rest_def plan_def)
    then show ?thesis unfolding moved_def sols rnds using A V True
      by (intro exI [of _ ?fs]) (simp add: ahead_def ahead_rounds_def Let_def plan_def [symmetric] del: backtrack.simps back_rounds.simps bound.simps)
  next
    case False
    then have "length ?fs < length ts" using k by simp
    then show ?thesis unfolding moved_def sols rnds using A V False b(3)
      by (intro exI [of _ ?fs]) (simp add: ahead_def ahead_rounds_def Let_def plan_def [symmetric] del: backtrack.simps back_rounds.simps bound.simps)
  qed
qed

lemma search_step_moves:
  assumes st: "frames_of ts ord st fs" "in_frames A fs" and ord: "distinct ord" "set ord = {..<length ts}" "length ord = length ts"
    and se: "searchable (map ((!) ts) ord)" and D: "delivers_in A D (map ((!) ts) ord)" "\<forall>a \<in> A. IsValid a"
    and k: "if newIteration st then length fs < length ts else fs \<noteq> []"
  shows "\<exists>r st'. search_step D I repl_order ts st = Some (r, st') \<and>
     moved A D I repl_order ts ord (ahead D I (map ((!) ts) ord) (newIteration st) fs)
       (ahead_rounds D I (map ((!) ts) ord) (newIteration st) fs) r st'"
proof (cases "newIteration st")
  case True
  let ?plan = "map ((!) ts) ord"
  have k: "length fs < length ts" using k True by simp
  have t: "?plan ! length fs = ts ! (ord ! length fs)" using k ord(3) by simp
  have "\<exists>v \<in> items_of (?plan ! length fs). resolvable (names_of (take (length fs) ?plan)) v"
    using se k ord(3) by (simp add: searchable_def)
  then obtain q where q: "CreateIterator (bound ?plan fs) (?plan ! length fs) = Some q"
    using create_iterator_found [OF _ _ _ D(2)] bound_names [OF st(2)] k ord(3) by (metis length_map less_imp_le order_refl)
  obtain r st' where a: "advance I repl_order ts (length fs) (ord ! length fs) (D q) (st\<lparr>iterators := D q # iterators st\<rparr>) = (r, st')"
    by fastforce
  have d: "drop (length fs) ?plan = ?plan ! length fs # drop (Suc (length fs)) ?plan"
    using Cons_nth_drop_Suc [of "length fs" ?plan] k ord(3) by simp
  have c: "candidates D (bound ?plan fs) (?plan ! length fs) = D q" by (simp add: candidates_def q)
  have it: "iterators st = map snd fs" using st(1) by (simp add: frames_of_def)
  then have "frames_of ts ord (st\<lparr>iterators := D q # iterators st, iterators := map snd fs\<rparr>) fs"
    using st(1) by (simp add: frames_of_def)
  moreover have "\<forall>p \<in> set (D q). in3 A p"
    using D(1) k ord(3) bound_names [OF st(2), of ?plan] unfolding delivers_in_def c [symmetric] by simp
  ultimately
  have "moved A D I repl_order ts ord (ahead D I ?plan True fs) (ahead_rounds D I ?plan True fs) r st'"
    using advance_moves [OF _ _ k ord st(2) _ a, where D = D] it
    unfolding ahead_def ahead_rounds_def d by (simp add: c alts_def alt_rounds_def)
  moreover have "search_step D I repl_order ts st = Some (r, st')"
    using step_fresh [OF st(1) True k ord(2,3) q [unfolded t], of D I repl_order] a by simp
  ultimately show ?thesis using True by simp
next
  case False
  then obtain p ps gs where fs: "fs = (p, ps) # gs" using k by (cases fs) auto
  let ?st = "st\<lparr>m_repls := bound (map ((!) ts) ord) gs, m_usedEdges := taken gs\<rparr>"
  obtain r st' where a: "advance I repl_order ts (length gs) (ord ! length gs) ps ?st = (r, st')" by fastforce
  have F: "frames_of ts ord (?st\<lparr>iterators := map snd gs\<rparr>) gs" "iterators ?st = ps # map snd gs" "length gs < length ts"
    using st(1) unfolding fs by (auto simp: frames_of_def path_Cons nth_append)
  have v: "in_frames A gs" "\<forall>q \<in> set ps. in3 A q" using st(2) unfolding fs by (auto simp: in_frames_def)
  have "moved A D I repl_order ts ord (ahead D I (map ((!) ts) ord) False fs) (ahead_rounds D I (map ((!) ts) ord) False fs) r st'"
    using advance_moves [OF F ord v a, where D = D] by (simp add: ahead_def ahead_rounds_def fs)
  then show ?thesis using step_again [OF st(1) [unfolded fs] False ord(2,3), of D I repl_order] a False by simp
qed

subsection \<open>The whole search\<close>

lemma search_loop_ok:
  assumes "frames_of ts ord st fs" "in_frames A fs" and ord: "distinct ord" "set ord = {..<length ts}" "length ord = length ts"
    and se: "searchable (map ((!) ts) ord)" and D: "delivers_in A D (map ((!) ts) ord)" "\<forall>a \<in> A. IsValid a"
    and "if newIteration st then length fs < length ts else fs \<noteq> []"
    and "ahead D I (map ((!) ts) ord) (newIteration st) fs = sols"
  shows "\<exists>st'. case sols of
      [] \<Rightarrow> search_loop D I repl_order ts st = Some (Inr False, st')
    | sol # sols' \<Rightarrow> search_loop D I repl_order ts st = Some (Inr True, st') \<and> reports repl_order ts ord sol (m_result st') \<and>
        (\<exists>fs'. frames_of ts ord st' fs' \<and> in_frames A fs' \<and> \<not> newIteration st' \<and> fs' \<noteq> [] \<and>
           backtrack D I (map ((!) ts) ord) fs' = sols')"
  using assms(1,2,9,10)
proof (induction "ahead_rounds D I (map ((!) ts) ord) (newIteration st) fs" arbitrary: st fs rule: less_induct)
  case less
  let ?plan = "map ((!) ts) ord"
  obtain r st1 where 1: "search_step D I repl_order ts st = Some (r, st1)"
    "moved A D I repl_order ts ord sols (ahead_rounds D I ?plan (newIteration st) fs) r st1"
    using search_step_moves [where D = D, OF less.prems(1,2) ord se D less.prems(3)] less.prems(4) by blast
  then obtain gs where g: "frames_of ts ord st1 gs" "in_frames A gs" "newIteration st1 \<Longrightarrow> gs \<noteq> [] \<and> length gs < length ts"
    "ahead_rounds D I ?plan (newIteration st1) gs < ahead_rounds D I ?plan (newIteration st) fs"
    "r = Inr False \<and> ahead D I ?plan (newIteration st1) gs = sols \<or>
     r = Inr True \<and> \<not> newIteration st1 \<and> gs \<noteq> [] \<and> sols = path gs # backtrack D I ?plan gs \<and>
         reports repl_order ts ord (path gs) (m_result st1)"
    by (auto simp: moved_def Let_def)
  have it: "iterators st1 = [] \<longleftrightarrow> gs = []" using g(1) by (simp add: frames_of_def)
  from g(5) show ?case
  proof
    assume "r = Inr True \<and> \<not> newIteration st1 \<and> gs \<noteq> [] \<and> sols = path gs # backtrack D I ?plan gs \<and>
         reports repl_order ts ord (path gs) (m_result st1)"
    moreover from this have "search_loop D I repl_order ts st = Some (Inr True, st1)"
      using 1(1) it by (subst search_loop.simps) simp
    ultimately show ?thesis using g(1,2) by auto
  next
    assume r: "r = Inr False \<and> ahead D I ?plan (newIteration st1) gs = sols"
    show ?thesis
    proof (cases "gs = []")
      case True
      then have "iterators st1 = []" using it by simp
      then have l: "search_loop D I repl_order ts st = Some (Inr False, st1\<lparr>isFinished := True\<rparr>)"
        using 1(1) r by (subst search_loop.simps) simp
      have "\<not> newIteration st1" using g(3) True by blast
      then have "sols = []" using r True by (simp add: ahead_def)
      then show ?thesis using l by simp
    next
      case False
      then have eq: "search_loop D I repl_order ts st = search_loop D I repl_order ts st1"
        using 1(1) r it by (subst search_loop.simps) simp
      have "if newIteration st1 then length gs < length ts else gs \<noteq> []" using g(3) False by simp
      from less.hyps [OF g(4,1,2) this] r show ?thesis unfolding eq by blast
    qed
  qed
qed

lemma search_all_backtrack:
  assumes "frames_of ts ord st fs" "in_frames A fs" and ord: "distinct ord" "set ord = {..<length ts}" "length ord = length ts"
    and se: "searchable (map ((!) ts) ord)" and D: "delivers_in A D (map ((!) ts) ord)" "\<forall>a \<in> A. IsValid a"
    and "if newIteration st then length fs < length ts else fs \<noteq> []"
    and "ahead D I (map ((!) ts) ord) (newIteration st) fs = sols"
  shows "\<exists>rs. search_all D I repl_order ts st = Some (Inr rs) \<and> list_all2 (reports repl_order ts ord) sols rs"
  using assms(1,2,9,10)
proof (induction sols arbitrary: st fs)
  case Nil
  from search_loop_ok [OF Nil.prems(1,2) ord se D Nil.prems(3,4), of repl_order]
  obtain st' where "search_loop D I repl_order ts st = Some (Inr False, st')" by auto
  moreover have "\<not> isFinished st" using Nil.prems(1) by (simp add: frames_of_def)
  ultimately show ?case by (subst search_all.simps) (simp add: DoIter_def)
next
  case (Cons sol sols)
  from search_loop_ok [OF Cons.prems(1,2) ord se D Cons.prems(3,4), of repl_order]
  obtain st' fs' where l: "search_loop D I repl_order ts st = Some (Inr True, st')" "reports repl_order ts ord sol (m_result st')"
    "frames_of ts ord st' fs'" "in_frames A fs'" "\<not> newIteration st'" "fs' \<noteq> []" "backtrack D I (map ((!) ts) ord) fs' = sols"
    by auto
  then obtain rs where "search_all D I repl_order ts st' = Some (Inr rs)" "list_all2 (reports repl_order ts ord) sols rs"
    using Cons.IH [OF l(3,4)] by (auto simp: ahead_def)
  moreover have "\<not> isFinished st" using Cons.prems(1) by (simp add: frames_of_def)
  ultimately have "search_all D I repl_order ts st = Some (Inr (m_result st' # rs))"
    using l(1) by (subst search_all.simps) (simp add: DoIter_def)
  with l(2) \<open>list_all2 (reports repl_order ts ord) sols rs\<close> show ?case by auto
qed

text \<open>
  A search run to its end delivers exactly what the depth first enumeration of the
  triples gives, in its order: for each way to pick a delivered triple for every triple of the
  template, with each connector used once and everything inside the structure, one result
  with the addresses of the picked triples and the names bound to the first address picked
  for them. It ends, throws no exception and reads no vector out of range, provided that every
  triple has a fixed item when its turn comes.
\<close>

lemma search_enumerates:
  assumes "ts \<noteq> []" and "\<And>f xs. mset (sort_by f xs) = mset xs" and "\<And>xs. set (set_order xs) = set xs"
    and "UpdateSearchCache sort_by set_order ts = Some ord" and "searchable (map ((!) ts) ord)"
    and "delivers_in A deliver (map ((!) ts) ord)" and "\<forall>a \<in> A. IsValid a"
  shows "\<exists>st rs. Reset sort_by set_order ts = Some st \<and> search_all deliver in_struct repl_order ts st = Some (Inr rs) \<and>
     list_all2 (reports repl_order ts ord)
       (solve deliver in_struct (map ((!) ts) ord) (\<lambda>_. None) {}) rs"
proof -
  have "\<exists>ord. UpdateSearchCache sort_by set_order ts = Some ord \<and> distinct ord \<and> set ord = {..<length ts}"
    by (rule search_order_complete [OF assms(2)]) (simp add: assms(3))
  then have ord: "distinct ord" "set ord = {..<length ts}" using assms(4) by auto
  then have len: "length ord = length ts" by (metis distinct_card card_lessThan)
  obtain st where st: "Reset sort_by set_order ts = Some st" using assms(4) by (simp add: Reset_def)
  then have "frames_of ts ord st []" "newIteration st" using assms(4)
    by (auto simp: Reset_def frames_of_def taken_def path_def)
  moreover have "ahead deliver in_struct (map ((!) ts) ord) True [] = solve deliver in_struct (map ((!) ts) ord) (\<lambda>_. None) {}"
    by (simp add: ahead_def path_def taken_def map_idI)
  ultimately show ?thesis
    using search_all_backtrack [of ts ord st "[]" A deliver in_struct _ repl_order] ord len assms(1,5-7) st
    by (auto simp: in_frames_def)
qed

end
