(* ===== verification/Sc_Template_Search_Memory.thy ===== *)
theory Sc_Template_Search_Memory
  imports Sc_Template_Search_Laws Sc_Iterator3_Laws
begin

text \<open>
  The template search over the triple iterators of the storage: with the iterators of
  \<open>Sc_Iterator3\<close> as the source of triples, the results of a search are the embeddings of the
  template in the graph, each of them once.
\<close>

subsection \<open>The iterators behind a request\<close>

text \<open>
  \<^verbatim>\<open>ScIterator3\<close> calls the constructor of the kind asked for; the triples are what the
  iterator delivers until its end, on the storage as it is when the search starts (iterators
  change nothing but counters of references).
\<close>

definition new_iterator ::
    "sc_memory_context \<Rightarrow> iterator_request \<Rightarrow> sc_storage \<Rightarrow> (sc_iterator3 option \<times> sc_storage) option" where
  "new_iterator ctx q s = (case q of (k, p0, p1, p2) \<Rightarrow> (case k of
      sc_iterator3_f_a_a \<Rightarrow> sc_iterator3_f_a_a_new ctx (param_addr p0) (param_type p1) (param_type p2) s
    | sc_iterator3_a_a_f \<Rightarrow> sc_iterator3_a_a_f_new ctx (param_type p0) (param_type p1) (param_addr p2) s
    | sc_iterator3_f_a_f \<Rightarrow> sc_iterator3_f_a_f_new ctx (param_addr p0) (param_type p1) (param_addr p2) s
    | sc_iterator3_a_f_a \<Rightarrow> sc_iterator3_a_f_a_new ctx (param_type p0) (param_addr p1) (param_type p2) s
    | sc_iterator3_f_f_a \<Rightarrow> sc_iterator3_f_f_a_new ctx (param_addr p0) (param_addr p1) (param_type p2) s
    | sc_iterator3_a_f_f \<Rightarrow> sc_iterator3_a_f_f_new ctx (param_type p0) (param_addr p1) (param_addr p2) s
    | sc_iterator3_f_f_f \<Rightarrow> sc_iterator3_f_f_f_new ctx (param_addr p0) (param_addr p1) (param_addr p2) s))"

definition iterator_triples :: "sc_type \<Rightarrow> sc_memory_context \<Rightarrow> sc_storage \<Rightarrow> iterator_request \<Rightarrow> addr_triple list" where
  "iterator_triples u ctx s q = (case new_iterator ctx q s of
      Some (Some it, s1) \<Rightarrow> (case iterate3 u it s1 of Some (ps, _, _) \<Rightarrow> ps | None \<Rightarrow> [])
    | _ \<Rightarrow> [])"

text \<open>A storage on which every iterator of the caller runs to its end.\<close>

definition browsable :: "sc_memory_context \<Rightarrow> sc_storage \<Rightarrow> bool" where
  "browsable ctx s \<longleftrightarrow> graph_ok s \<and> (\<forall>x \<in> live s. room 4 s x \<and> readable ctx s x)"

lemma browsableD:
  assumes "browsable ctx s"
  shows "graph_ok s" "\<And>x. x \<in> live s \<Longrightarrow> room 4 s x" "\<And>x. x \<in> live s \<Longrightarrow> readable ctx s x"
  using assms by (simp_all add: browsable_def)

definition joins :: "sc_storage \<Rightarrow> addr_triple \<Rightarrow> bool" where
  "joins s p \<longleftrightarrow> (case p of (a, b, c) \<Rightarrow> b \<in> arcs s \<and> arc_begin (arc (el_at s b)) = a \<and> arc_end (arc (el_at s b)) = c)"

lemma joins_live:
  assumes "browsable ctx s" "joins s (a, b, c)"
  shows "a \<in> live s" "b \<in> live s" "c \<in> live s"
  using assms arcs_live by (auto simp: browsable_def joins_def graph_ok_def)

lemma f_a_a_triples:
  assumes s: "browsable ctx s" and el: "el \<in> live s"
  shows "distinct (iterator_triples u ctx s (sc_iterator3_f_a_a, ParamAddr el, ParamType t, ParamType v))"
    "set (iterator_triples u ctx s (sc_iterator3_f_a_a, ParamAddr el, ParamType t, ParamType v)) =
     {(a, b, c). joins s (a, b, c) \<and> a = el \<and> fits ctx s t b \<and> fits ctx s v c}"
proof -
  obtain xs where xs: "out_list s el xs" using graph_ok_lists [OF browsableD(1) [OF s]] by blast
  let ?h = "\<lambda>x. fits ctx s t x \<and> fits ctx s v (arc_end (arc (el_at s x)))"
  have "\<exists>it s1 it' s2 s3. sc_iterator3_f_a_a_new ctx el t v s = Some (Some it, s1) \<and>
     iterate3 u it s1 = Some (map (\<lambda>x. (el, x, arc_end (arc (el_at s x)))) (filter ?h xs), it', s2) \<and>
     sc_iterator3_free it' s2 = Some s3 \<and> graph_ok s3 \<and> el_at s3 = el_at s \<and> held s3 = held s \<and>
     (\<forall>x. unat (refs s3 x) = unat (refs s x) + of_bool (x \<in> set xs \<and> \<not> ?h x))"
    unfolding sc_iterator3_f_a_a_new_def using el xs browsableD(3) [OF s el]
    by (intro f_a_a.delivers [OF browsableD(1) [OF s] refl _ _ _ _ browsableD(2) [OF s]])
       (auto simp: iterator_matches iterator_fields fun_eq_iff out_list_def)
  then have eq: "iterator_triples u ctx s (sc_iterator3_f_a_a, ParamAddr el, ParamType t, ParamType v) =
      map (\<lambda>x. (el, x, arc_end (arc (el_at s x)))) (filter ?h xs)"
    by (auto simp: iterator_triples_def new_iterator_def)
  have "distinct xs" "set xs = {x \<in> arcs s. arc_begin (arc (el_at s x)) = el}"
    using xs by (auto simp: out_list_def out.chain_def)
  then show "distinct (iterator_triples u ctx s (sc_iterator3_f_a_a, ParamAddr el, ParamType t, ParamType v))"
    "set (iterator_triples u ctx s (sc_iterator3_f_a_a, ParamAddr el, ParamType t, ParamType v)) =
     {(a, b, c). joins s (a, b, c) \<and> a = el \<and> fits ctx s t b \<and> fits ctx s v c}"
    unfolding eq by (auto simp: distinct_map inj_on_def joins_def)
qed

lemma a_a_f_triples:
  assumes s: "browsable ctx s" and el: "el \<in> live s"
  shows "distinct (iterator_triples u ctx s (sc_iterator3_a_a_f, ParamType v, ParamType t, ParamAddr el))"
    "set (iterator_triples u ctx s (sc_iterator3_a_a_f, ParamType v, ParamType t, ParamAddr el)) =
     {(a, b, c). joins s (a, b, c) \<and> c = el \<and> fits ctx s t b \<and> fits ctx s v a}"
proof -
  obtain xs where xs: "in_list s el xs" using graph_ok_lists [OF browsableD(1) [OF s]] by blast
  let ?h = "\<lambda>x. fits ctx s t x \<and> fits ctx s v (arc_begin (arc (el_at s x)))"
  have "\<exists>it s1 it' s2 s3. sc_iterator3_a_a_f_new ctx v t el s = Some (Some it, s1) \<and>
     iterate3 u it s1 = Some (map (\<lambda>x. (arc_begin (arc (el_at s x)), x, el)) (filter ?h xs), it', s2) \<and>
     sc_iterator3_free it' s2 = Some s3 \<and> graph_ok s3 \<and> el_at s3 = el_at s \<and> held s3 = held s \<and>
     (\<forall>x. unat (refs s3 x) = unat (refs s x) + of_bool (x \<in> set xs \<and> \<not> ?h x))"
    unfolding sc_iterator3_a_a_f_new_def using el xs browsableD(3) [OF s el]
    by (intro a_a_f.delivers [OF browsableD(1) [OF s] refl _ _ _ _ browsableD(2) [OF s]])
       (auto simp: iterator_matches iterator_fields fun_eq_iff in_list_def)
  then have eq: "iterator_triples u ctx s (sc_iterator3_a_a_f, ParamType v, ParamType t, ParamAddr el) =
      map (\<lambda>x. (arc_begin (arc (el_at s x)), x, el)) (filter ?h xs)"
    by (auto simp: iterator_triples_def new_iterator_def)
  have "distinct xs" "set xs = {x \<in> arcs s. arc_end (arc (el_at s x)) = el}"
    using xs by (auto simp: in_list_def inn.chain_def)
  then show "distinct (iterator_triples u ctx s (sc_iterator3_a_a_f, ParamType v, ParamType t, ParamAddr el))"
    "set (iterator_triples u ctx s (sc_iterator3_a_a_f, ParamType v, ParamType t, ParamAddr el)) =
     {(a, b, c). joins s (a, b, c) \<and> c = el \<and> fits ctx s t b \<and> fits ctx s v a}"
    unfolding eq by (auto simp: distinct_map inj_on_def joins_def)
qed

lemma f_a_f_triples:
  assumes s: "browsable ctx s" and b: "b \<in> live s" and e: "e \<in> live s"
  shows "distinct (iterator_triples u ctx s (sc_iterator3_f_a_f, ParamAddr b, ParamType t, ParamAddr e))"
    "set (iterator_triples u ctx s (sc_iterator3_f_a_f, ParamAddr b, ParamType t, ParamAddr e)) =
     {(a, y, c). joins s (a, y, c) \<and> a = b \<and> c = e \<and> fits ctx s t y}"
proof -
  obtain xs where xs: "in_list s e xs" using graph_ok_lists [OF browsableD(1) [OF s]] by blast
  let ?h = "\<lambda>x. arc_begin (arc (el_at s x)) = b \<and> fits ctx s t x"
  have "\<exists>it s1 it' s2 s3. sc_iterator3_f_a_f_new ctx b t e s = Some (Some it, s1) \<and>
     iterate3 u it s1 = Some (map (\<lambda>x. (b, x, e)) (filter ?h xs), it', s2) \<and>
     sc_iterator3_free it' s2 = Some s3 \<and> graph_ok s3 \<and> el_at s3 = el_at s \<and> held s3 = held s \<and>
     (\<forall>x. unat (refs s3 x) = unat (refs s x) + of_bool (x \<in> set xs \<and> \<not> ?h x))"
    unfolding sc_iterator3_f_a_f_new_def using b e xs browsableD(3) [OF s b] browsableD(3) [OF s e]
    by (intro f_a_f.delivers [OF browsableD(1) [OF s] refl _ _ _ _ browsableD(2) [OF s]])
       (auto simp: iterator_matches iterator_fields fun_eq_iff in_list_def)
  then have eq: "iterator_triples u ctx s (sc_iterator3_f_a_f, ParamAddr b, ParamType t, ParamAddr e) =
      map (\<lambda>x. (b, x, e)) (filter ?h xs)"
    by (auto simp: iterator_triples_def new_iterator_def)
  have "distinct xs" "set xs = {x \<in> arcs s. arc_end (arc (el_at s x)) = e}"
    using xs by (auto simp: in_list_def inn.chain_def)
  then show "distinct (iterator_triples u ctx s (sc_iterator3_f_a_f, ParamAddr b, ParamType t, ParamAddr e))"
    "set (iterator_triples u ctx s (sc_iterator3_f_a_f, ParamAddr b, ParamType t, ParamAddr e)) =
     {(a, y, c). joins s (a, y, c) \<and> a = b \<and> c = e \<and> fits ctx s t y}"
    unfolding eq by (auto simp: distinct_map inj_on_def joins_def)
qed

subsection \<open>The candidates for one triple\<close>

text \<open>An item matches an element: the address it stands for already, or a type that fits.\<close>

definition item_matches :: "sc_memory_context \<Rightarrow> sc_storage \<Rightarrow> repls \<Rightarrow> ScTemplateArg \<Rightarrow> sc_addr \<Rightarrow> bool" where
  "item_matches ctx s r v a \<longleftrightarrow> (let w = search_ResolveAddr r v in
     if IsValid w then a = w else fits ctx s (PrepareType (m_typeValue v)) a)"

definition triple_matches :: "sc_memory_context \<Rightarrow> sc_storage \<Rightarrow> repls \<Rightarrow> triple \<Rightarrow> addr_triple \<Rightarrow> bool" where
  "triple_matches ctx s r t p \<longleftrightarrow> joins s p \<and> (case t of (x, y, z) \<Rightarrow> case p of (a, b, c) \<Rightarrow>
     item_matches ctx s r x a \<and> item_matches ctx s r y b \<and> item_matches ctx s r z c)"

text \<open>The connector is given by its type and has no address yet; fixed items are elements.\<close>

definition plain_triple :: "sc_storage \<Rightarrow> string set \<Rightarrow> triple \<Rightarrow> bool" where
  "plain_triple s K t \<longleftrightarrow> (case t of (x, y, z) \<Rightarrow>
     IsType y \<and> m_replacementName y \<notin> K \<and> (\<forall>v \<in> {x, z}. IsAddr v \<longrightarrow> m_addrValue v \<in> live s) \<and>
     (\<exists>v \<in> {x, z}. resolvable K v))"

lemma live_valid: "graph_ok s \<Longrightarrow> a \<in> live s \<Longrightarrow> IsValid a"
  using graph_ok_storage [of s] by (auto simp: IsValid_def)

lemma resolved_live:
  assumes "in_repls (live s) r" and "IsAddr v \<longrightarrow> m_addrValue v \<in> live s" and "IsValid (search_ResolveAddr r v)"
  shows "search_ResolveAddr r v \<in> live s"
  using assms
  by (auto simp: search_ResolveAddr_def in_repls_def item_tests IsValid_def split: Kind.splits option.splits if_splits)

lemma candidates_match:
  assumes s: "browsable ctx s" and r: "in_repls (live s) r" and t: "plain_triple s (dom r) t"
  shows "distinct (candidates (iterator_triples u ctx s) r t)"
    "set (candidates (iterator_triples u ctx s) r t) = {p. triple_matches ctx s r t p}"
proof -
  obtain x y z where xyz: "t = (x, y, z)" by (cases t)
  let ?x = "search_ResolveAddr r x" and ?z = "search_ResolveAddr r z"
  have ok: "\<forall>a \<in> live s. IsValid a" using live_valid [OF browsableD(1) [OF s]] by blast
  have y: "\<not> IsValid (search_ResolveAddr r y)"
    using t by (auto simp: xyz plain_triple_def search_ResolveAddr_def item_tests IsValid_def dom_def split: option.splits)
  have xz: "IsValid ?x \<or> IsValid ?z"
    using t resolve_valid [OF _ order_refl r ok] by (auto simp: xyz plain_triple_def)
  have lx: "IsValid ?x \<Longrightarrow> ?x \<in> live s" and lz: "IsValid ?z \<Longrightarrow> ?z \<in> live s"
    using t resolved_live [OF r] by (auto simp: xyz plain_triple_def)
  consider (both) "IsValid ?x" "IsValid ?z" | (source) "IsValid ?x" "\<not> IsValid ?z" | (target) "\<not> IsValid ?x" "IsValid ?z"
    using xz by blast
  then have "distinct (candidates (iterator_triples u ctx s) r t) \<and>
      set (candidates (iterator_triples u ctx s) r t) = {p. triple_matches ctx s r t p}"
  proof cases
    case both
    then show ?thesis using f_a_f_triples [OF s lx lz] y
      by (auto simp: xyz candidates_def CreateIterator_def Let_def triple_matches_def item_matches_def)
  next
    case source
    then show ?thesis using f_a_a_triples [OF s lx] y
      by (auto simp: xyz candidates_def CreateIterator_def Let_def triple_matches_def item_matches_def)
  next
    case target
    then show ?thesis using a_a_f_triples [OF s lz] y
      by (auto simp: xyz candidates_def CreateIterator_def Let_def triple_matches_def item_matches_def)
  qed
  then show "distinct (candidates (iterator_triples u ctx s) r t)"
    "set (candidates (iterator_triples u ctx s) r t) = {p. triple_matches ctx s r t p}" by blast+
qed

subsection \<open>Embeddings of a template\<close>

text \<open>
  A choice of one connector with its ends for every triple, each connector at most once and
  everything inside the structure, that agrees with the template triple by triple: fixed items
  and names bound by the earlier triples keep their addresses, other items fit by type.
\<close>

definition inside :: "(sc_addr \<Rightarrow> bool) \<Rightarrow> addr_triple \<Rightarrow> bool" where
  "inside in_struct p \<longleftrightarrow> (case p of (a, b, c) \<Rightarrow> in_struct a \<and> in_struct b \<and> in_struct c)"

definition embedding_from ::
    "sc_memory_context \<Rightarrow> sc_storage \<Rightarrow> (sc_addr \<Rightarrow> bool) \<Rightarrow> repls \<Rightarrow> triple list \<Rightarrow> addr_triple list \<Rightarrow> bool" where
  "embedding_from ctx s in_struct r plan sol \<longleftrightarrow> length sol = length plan \<and> distinct (map edge_of sol) \<and>
     (\<forall>p \<in> set sol. inside in_struct p) \<and>
     (\<forall>k < length plan. triple_matches ctx s (binds (take k plan) (take k sol) r) (plan ! k) (sol ! k))"

abbreviation embedding where "embedding ctx s in_struct \<equiv> embedding_from ctx s in_struct (\<lambda>_. None)"

definition plain_from :: "sc_storage \<Rightarrow> string set \<Rightarrow> triple list \<Rightarrow> bool" where
  "plain_from s K plan \<longleftrightarrow> (\<forall>k < length plan. plain_triple s (K \<union> names_of (take k plan)) (plan ! k))"

abbreviation plain_plan where "plain_plan s \<equiv> plain_from s {}"

lemma names_of_Cons: "names_of [] = {}" "names_of (t # ts) = set (triple_names t) \<union> names_of ts"
  by (simp_all add: names_of_def)

lemma plain_from_Cons:
  "plain_from s K (t # ts) \<longleftrightarrow> plain_triple s K t \<and> plain_from s (K \<union> set (triple_names t)) ts"
  by (simp add: plain_from_def All_less_Suc2 names_of_Cons Un_assoc)

lemma embedding_from_Nil: "embedding_from ctx s I r [] sol \<longleftrightarrow> sol = []"
  by (auto simp: embedding_from_def)

lemma embedding_from_Cons:
  "embedding_from ctx s I r (t # ts) sol \<longleftrightarrow> (\<exists>p ps. sol = p # ps \<and> triple_matches ctx s r t p \<and> inside I p \<and>
     edge_of p \<notin> edge_of ` set ps \<and> embedding_from ctx s I (ref_triple t p r) ts ps)"
  by (cases sol) (auto simp: embedding_from_def All_less_Suc2)

lemma distinct_branches:
  assumes "distinct ps" and "\<And>p. p \<in> set ps \<Longrightarrow> distinct (f p)"
  shows "distinct (concat (map (\<lambda>p. map ((#) p) (f p)) ps))"
  using assms by (induction ps) (auto simp: distinct_map)

lemma triple_matches_in3:
  assumes "browsable ctx s" "triple_matches ctx s r t p"
  shows "in3 (live s) p"
  using assms joins_live [OF assms(1)] by (cases p) (auto simp: triple_matches_def in3_def)

lemma solve_embeddings:
  assumes s: "browsable ctx s" and "in_repls (live s) r" and "plain_from s (dom r) ts"
  shows "distinct (solve (iterator_triples u ctx s) I ts r used) \<and>
     (\<forall>sol. sol \<in> set (solve (iterator_triples u ctx s) I ts r used) \<longleftrightarrow>
       embedding_from ctx s I r ts sol \<and> edge_of ` set sol \<inter> used = {})"
  using assms(2,3)
proof (induction ts arbitrary: r used)
  case Nil
  then show ?case by (auto simp: embedding_from_Nil)
next
  case (Cons t ts)
  let ?D = "iterator_triples u ctx s"
  have t: "plain_triple s (dom r) t" and rest: "plain_from s (dom (ref_triple t p r)) ts" for p
    using Cons.prems(2) by (simp_all add: plain_from_Cons dom_ref_triple)
  note C = candidates_match [OF s Cons.prems(1) t, of u]
  have R: "in_repls (live s) (ref_triple t p r)" if "p \<in> set (candidates ?D r t)" for p
    using that C(2) valid_ref_triple [OF Cons.prems(1) triple_matches_in3 [OF s]] by blast
  have IH: "ps \<in> set (solve ?D I ts (ref_triple t p r) v) \<longleftrightarrow>
      embedding_from ctx s I (ref_triple t p r) ts ps \<and> edge_of ` set ps \<inter> v = {}"
    if "p \<in> set (candidates ?D r t)" for p ps v
    using Cons.IH [OF R [OF that] rest] by blast
  have "sol \<in> set (solve ?D I (t # ts) r used) \<longleftrightarrow>
      embedding_from ctx s I r (t # ts) sol \<and> edge_of ` set sol \<inter> used = {}" for sol
  proof (cases sol)
    case (Cons p ps)
    have "sol \<in> set (solve ?D I (t # ts) r used) \<longleftrightarrow> p \<in> set (candidates ?D r t) \<and> fits_in I used p \<and>
        ps \<in> set (solve ?D I ts (ref_triple t p r) (insert (edge_of p) used))"
      by (cases p) (auto simp: Cons)
    also have "\<dots> \<longleftrightarrow> p \<in> set (candidates ?D r t) \<and> fits_in I used p \<and>
        embedding_from ctx s I (ref_triple t p r) ts ps \<and> edge_of ` set ps \<inter> insert (edge_of p) used = {}"
      by (simp add: IH cong: conj_cong)
    also have "\<dots> \<longleftrightarrow> embedding_from ctx s I r (t # ts) sol \<and> edge_of ` set sol \<inter> used = {}"
      unfolding C(2) by (auto simp: Cons embedding_from_Cons fits_in_def inside_def edge_of_def split: prod.splits)
    finally show ?thesis .
  qed (auto simp: embedding_from_Cons)
  moreover have "distinct (solve ?D I (t # ts) r used)"
    unfolding solve.simps by (rule distinct_branches) (use C(1) Cons.IH [OF R rest] in auto)
  ultimately show ?case by blast
qed

lemma plain_plan_runs:
  assumes s: "browsable ctx s" and plan: "plain_plan s plan"
  shows "searchable plan" "delivers_in (live s) (iterator_triples u ctx s) plan"
proof -
  have p: "plain_triple s (names_of (take k plan)) (plan ! k)" if "k < length plan" for k
    using plan that by (simp add: plain_from_def)
  then show "searchable plan"
    by (fastforce simp: searchable_def plain_triple_def items_of_def split: prod.splits)
  show "delivers_in (live s) (iterator_triples u ctx s) plan"
    using candidates_match(2) [OF s, of _ _ u] p triple_matches_in3 [OF s] by (auto simp: delivers_in_def)
qed


text \<open>All members of a class, in the sample storage: the template has one result.\<close>

definition members_template :: "triple list" where
  "members_template = [(arg_addr sample_n1 ''_class'', arg_type EdgeAccessVarPosPerm ''_edge'', arg_type NodeVar ''_member'')]"

lemma sample_browsable: "browsable sample_ctx sample"
  by (simp add: browsable_def sample_graph_ok sample_counters sample_readable)

lemma members_order: "UpdateSearchCache insertion_sort remdups members_template = Some [0]"
  by (simp add: UpdateSearchCache_def members_template_def insertion_sort_def Let_def order_rounds.simps)

lemma members_embedding:
  "embedding sample_ctx sample (\<lambda>_. True) members_template sol \<longleftrightarrow> sol = [(sample_n1, sample_arc, sample_n2)]"
proof -
  have "fits sample_ctx sample (PrepareType EdgeAccessVarPosPerm) sample_arc"
    "fits sample_ctx sample (PrepareType NodeVar) sample_n2"
    by (simp_all add: fits_def sample_readable sc_iterator_compare_type_def sample_el_at sample_element_def
        sc_flags_remove_def PrepareType_def UpConstType_def type_tests sc_bits)
  moreover have "joins sample p \<longleftrightarrow> p = (sample_n1, sample_arc, sample_n2)" for p
    by (cases p) (auto simp: joins_def sample_arcs sample_el_at sample_element_def)
  ultimately show ?thesis
    by (auto simp: embedding_from_Cons embedding_from_Nil members_template_def triple_matches_def item_matches_def
        search_ResolveAddr_def arg_addr_def arg_type_def inside_def IsValid_def SC_ADDR_MAKE_EMPTY_def)
qed


end
