(* ===== verification/Sc_Template_Apply.thy ===== *)
theory Sc_Template_Apply
  imports Sc_Template Sc_Iterator3_Laws
begin

text \<open>
  Parameters of a template search: \<^verbatim>\<open>ApplyParameters\<close> of \<^verbatim>\<open>sc_template_search.cpp\<close> fixes named
  variables of the template to given elements before the search begins.
\<close>

definition GetElementType :: "sc_memory_context \<Rightarrow> sc_addr \<Rightarrow> sc_storage \<Rightarrow> (ScType \<times> sc_storage) option" where
  "GetElementType ctx a s = do {
     (r, ty, s1) \<leftarrow> sc_storage_get_element_type ctx a s;
     Some (if r = SC_RESULT_OK then (case ty of Some t \<Rightarrow> t | None \<Rightarrow> 0) else 0, s1)
   }"

text \<open>One round of the loop over the parameters.\<close>

definition apply_param ::
    "sc_memory_context \<Rightarrow> string \<Rightarrow> sc_addr \<Rightarrow> ScTemplateData \<Rightarrow> sc_storage \<Rightarrow>
     ((exception + ScTemplateData) \<times> sc_storage) option" where
  "apply_param ctx name a d s = (case m_repl d name of
       None \<Rightarrow> Some (Inl ExceptionItemNotFound, s)
     | Some i \<Rightarrow>
         if \<not> i < length (m_elements d) then Some (Inl ExceptionAssert, s)
         else let item = m_elements d ! i in
           if \<not> IsType item then Some (Inl ExceptionInvalidParams, s)
           else if \<not> IsVar (m_typeValue item) then Some (Inl ExceptionInvalidParams, s)
           else do {
             (paramType, s1) \<leftarrow> GetElementType ctx a s;
             if IsVar paramType then Some (Inl ExceptionInvalidParams, s1)
             else if \<not> CanAssignParam (m_typeValue item) paramType then Some (Inl ExceptionInvalidParams, s1)
             else Some (Inr (d\<lparr>m_elements := (m_elements d)
                    [i := item\<lparr>m_kind := Kind_Addr, m_typeValue := Unknown, m_addrValue := a\<rparr>]\<rparr>), s1)
           })"

fun apply_params ::
    "sc_memory_context \<Rightarrow> ScTemplateParams \<Rightarrow> ScTemplateData \<Rightarrow> sc_storage \<Rightarrow>
     ((exception + ScTemplateData) \<times> sc_storage) option" where
  "apply_params ctx [] d s = Some (Inr d, s)"
| "apply_params ctx ((name, a) # ps) d s = do {
     (r, s1) \<leftarrow> apply_param ctx name a d s;
     (case r of Inl e \<Rightarrow> Some (Inl e, s1) | Inr d1 \<Rightarrow> apply_params ctx ps d1 s1)
   }"

text \<open>The template that \<^verbatim>\<open>begin()\<close> searches for: with parameters a copy, else the template itself.\<close>

definition ApplyParameters ::
    "sc_memory_context \<Rightarrow> ScTemplateParams \<Rightarrow> ScTemplateData \<Rightarrow> sc_storage \<Rightarrow>
     ((exception + ScTemplateData) \<times> sc_storage) option" where
  "ApplyParameters ctx params d s = (if params = [] then Some (Inr d, s) else apply_params ctx params d s)"

subsection \<open>What the parameters do\<close>

definition assigned :: "ScTemplateData \<Rightarrow> nat \<Rightarrow> sc_addr \<Rightarrow> ScTemplateData" where
  "assigned d i a = d\<lparr>m_elements := (m_elements d)
     [i := (m_elements d ! i)\<lparr>m_kind := Kind_Addr, m_typeValue := Unknown, m_addrValue := a\<rparr>]\<rparr>"

definition assignable :: "sc_storage \<Rightarrow> ScTemplateData \<Rightarrow> string \<Rightarrow> sc_addr \<Rightarrow> bool" where
  "assignable s d n a \<longleftrightarrow> (\<exists>i. m_repl d n = Some i \<and> IsType (m_elements d ! i) \<and>
     CanAssignParam (m_typeValue (m_elements d ! i)) (sc_flags_remove (el_type (el_at s a))))"

text \<open>Parameters are accepted when each names a variable of its own that can take the element.\<close>

definition acceptable :: "sc_storage \<Rightarrow> ScTemplateData \<Rightarrow> ScTemplateParams \<Rightarrow> bool" where
  "acceptable s d ps \<longleftrightarrow> distinct (map (m_repl d \<circ> fst) ps) \<and> (\<forall>(n, a) \<in> set ps. assignable s d n a)"

definition param_of :: "ScTemplateData \<Rightarrow> ScTemplateParams \<Rightarrow> nat \<Rightarrow> sc_addr option" where
  "param_of d ps i = map_of (map (\<lambda>(n, a). (m_repl d n, a)) ps) (Some i)"

lemma assigned_frame [simp]:
  "m_repl (assigned d i a) = m_repl d" "m_triples (assigned d i a) = m_triples d"
  "length (m_elements (assigned d i a)) = length (m_elements d)"
  "i < length (m_elements d) \<Longrightarrow> m_elements (assigned d i a) ! j = (if j = i
     then (m_elements d ! i)\<lparr>m_kind := Kind_Addr, m_typeValue := Unknown, m_addrValue := a\<rparr> else m_elements d ! j)"
  by (simp_all add: assigned_def)

lemma data_ok_assigned:
  assumes d: "data_ok d" and i: "i < length (m_elements d)" "IsType (m_elements d ! i)" and a: "IsValid a"
  shows "data_ok (assigned d i a)"
proof -
  let ?v = "(m_elements d ! i)\<lparr>m_kind := Kind_Addr, m_typeValue := Unknown, m_addrValue := a\<rparr>"
  have "set (m_elements (assigned d i a)) \<subseteq> insert ?v (set (m_elements d))"
    unfolding assigned_def by (simp add: set_update_subset_insert)
  moreover have "item_ok ?v" using a by (simp add: item_ok_def item_tests)
  ultimately have "\<forall>v \<in> set (m_elements (assigned d i a)). item_ok v" using data_okD(2) [OF d] by blast
  moreover have "IsAddr (m_elements (assigned d i a) ! j) \<and> m_addrValue (m_elements (assigned d i a) ! j) = b"
    if "m_repl d (ToString b) = Some j" for b j
    using data_okD(4) [OF d that] i by (auto simp: item_tests)
  ultimately show ?thesis using d i unfolding data_ok_def by (simp add: item_tests)
qed

lemma apply_param_eq:
  assumes s: "storage_ok s" and a: "a \<in> live s" "readable ctx s a" and d: "data_ok d"
  shows "\<exists>r. apply_param ctx n a d s = Some (r, s) \<and>
     (case r of Inl _ \<Rightarrow> \<not> assignable s d n a
      | Inr d' \<Rightarrow> assignable s d n a \<and> d' = assigned d (the (m_repl d n)) a)"
proof (cases "m_repl d n")
  case None
  then show ?thesis by (simp add: apply_param_def assignable_def)
next
  case (Some i)
  have "GetElementType ctx a s = Some (sc_flags_remove (el_type (el_at s a)), s)"
    using get_element_type_eq [OF s a(1)] a(2) by (simp add: GetElementType_def)
  then show ?thesis using Some data_okD(1) [OF d Some]
    by (auto simp: apply_param_def assignable_def assigned_def Let_def CanAssignParam_def)
qed

lemma acceptable_Cons:
  assumes "data_ok d"
  shows "acceptable s d ((n, a) # ps) \<longleftrightarrow> assignable s d n a \<and> acceptable s (assigned d (the (m_repl d n)) a) ps"
proof (cases "assignable s d n a")
  case True
  then obtain i where i: "m_repl d n = Some i" "i < length (m_elements d)"
    using data_okD(1) [OF assms] by (auto simp: assignable_def)
  have "assignable s (assigned d i a) m b \<longleftrightarrow> m_repl d m \<noteq> Some i \<and> assignable s d m b" for m b
    using i(2) by (auto simp: assignable_def item_tests)
  moreover have "Some i \<notin> (m_repl d \<circ> fst) ` set ps \<longleftrightarrow> (\<forall>(m, b) \<in> set ps. m_repl d m \<noteq> Some i)" by (auto simp: image_iff)
  ultimately show ?thesis using True i by (auto simp: acceptable_def)
qed (simp add: acceptable_def)

lemma param_of_Cons: "param_of d ((n, a) # ps) i = (if m_repl d n = Some i then Some a else param_of d ps i)"
  by (auto simp: param_of_def)

lemma param_of_assigned [simp]: "param_of (assigned d j b) ps i = param_of d ps i"
  by (simp add: param_of_def)

lemma apply_params_eq:
  assumes s: "storage_ok s" and "\<forall>(n, a) \<in> set ps. a \<in> live s \<and> readable ctx s a" and "data_ok d"
  shows "\<exists>r. apply_params ctx ps d s = Some (r, s) \<and>
     (case r of Inl _ \<Rightarrow> \<not> acceptable s d ps
      | Inr d' \<Rightarrow> acceptable s d ps \<and> data_ok d' \<and> m_repl d' = m_repl d \<and> m_triples d' = m_triples d \<and>
          length (m_elements d') = length (m_elements d) \<and>
          (\<forall>i < length (m_elements d). m_elements d' ! i = (case param_of d ps i of
             Some a \<Rightarrow> (m_elements d ! i)\<lparr>m_kind := Kind_Addr, m_typeValue := Unknown, m_addrValue := a\<rparr>
           | None \<Rightarrow> m_elements d ! i)))"
  using assms(2,3)
proof (induction ps arbitrary: d)
  case Nil
  then show ?case by (simp add: acceptable_def param_of_def)
next
  case (Cons p ps)
  obtain n a where p: "p = (n, a)" by (cases p)
  have a: "a \<in> live s" "readable ctx s a" using Cons.prems(1) p by auto
  obtain r where r: "apply_param ctx n a d s = Some (r, s)"
    "case r of Inl _ \<Rightarrow> \<not> assignable s d n a
      | Inr d' \<Rightarrow> assignable s d n a \<and> d' = assigned d (the (m_repl d n)) a"
    using apply_param_eq [OF s a Cons.prems(2)] by blast
  show ?case
  proof (cases r)
    case (Inl e)
    then show ?thesis using r p by (simp add: acceptable_Cons [OF Cons.prems(2)])
  next
    case (Inr d1)
    then have as: "assignable s d n a" and d1: "d1 = assigned d (the (m_repl d n)) a" using r(2) by auto
    obtain i where i: "m_repl d n = Some i" "i < length (m_elements d)" "IsType (m_elements d ! i)"
      using as data_okD(1) [OF Cons.prems(2)] by (auto simp: assignable_def)
    have "data_ok d1" unfolding d1 using i a(1) s
      by (auto intro!: data_ok_assigned [OF Cons.prems(2)] simp: IsValid_def)
    then obtain r' where r': "apply_params ctx ps d1 s = Some (r', s)"
     "case r' of Inl _ \<Rightarrow> \<not> acceptable s d1 ps
      | Inr d' \<Rightarrow> acceptable s d1 ps \<and> data_ok d' \<and> m_repl d' = m_repl d1 \<and> m_triples d' = m_triples d1 \<and>
          length (m_elements d') = length (m_elements d1) \<and>
          (\<forall>i < length (m_elements d1). m_elements d' ! i = (case param_of d1 ps i of
             Some a \<Rightarrow> (m_elements d1 ! i)\<lparr>m_kind := Kind_Addr, m_typeValue := Unknown, m_addrValue := a\<rparr>
           | None \<Rightarrow> m_elements d1 ! i))"
      using Cons.IH [of d1] Cons.prems(1) by auto
    have run: "apply_params ctx (p # ps) d s = Some (r', s)" using r(1) Inr r'(1) p by simp
    have ac: "acceptable s d (p # ps) \<longleftrightarrow> acceptable s d1 ps" using acceptable_Cons [OF Cons.prems(2)] as d1 p by simp
    show ?thesis
    proof (cases r')
      case (Inl e)
      then show ?thesis using run r'(2) ac by simp
    next
      case (Inr d')
      then have "acceptable s d1 ps" using r'(2) by simp
      then have "param_of d ps i = None" using ac i(1)
        by (force simp: acceptable_def p param_of_def map_of_eq_None_iff)
      then show ?thesis using run r'(2) ac Inr i by (auto simp: d1 p param_of_Cons split: option.split)
    qed
  qed
qed

text \<open>
  C18. \<^verbatim>\<open>ApplyParameters\<close> over live, readable elements returns and does not change the memory. It
  accepts the parameters exactly when every name is an item of the template given by a type, no
  item is named twice, and the type of the element can stand for the variable. Then the
  template is the same but for the named items, which are now fixed to the elements; else it
  throws.
\<close>

theorem apply_parameters_correct:
  assumes "storage_ok s" and "\<forall>(n, a) \<in> set params. a \<in> live s \<and> readable ctx s a" and "data_ok d"
  shows "\<exists>r. ApplyParameters ctx params d s = Some (r, s) \<and>
     (case r of Inl _ \<Rightarrow> \<not> acceptable s d params
      | Inr d' \<Rightarrow> acceptable s d params \<and> data_ok d' \<and> m_repl d' = m_repl d \<and> m_triples d' = m_triples d \<and>
          length (m_elements d') = length (m_elements d) \<and>
          (\<forall>i < length (m_elements d). m_elements d' ! i = (case param_of d params i of
             Some a \<Rightarrow> (m_elements d ! i)\<lparr>m_kind := Kind_Addr, m_typeValue := Unknown, m_addrValue := a\<rparr>
           | None \<Rightarrow> m_elements d ! i)))"
proof (cases "params = []")
  case True
  then show ?thesis using assms(3) by (simp add: ApplyParameters_def acceptable_def param_of_def)
next
  case False
  then show ?thesis unfolding ApplyParameters_def using apply_params_eq [OF assms] by simp
qed

theorem apply_parameters_correct_witness:
  "\<exists>d'. ApplyParameters sample_ctx [(''_member'', sample_n2)] member_template sample = Some (Inr d', sample) \<and>
     m_elements d' ! 2 = arg_addr sample_n2 ''_member'' \<and> data_ok d'"
proof -
  have m: "m_elements member_template = [arg_addr (Addr 0 1) ''_class'', arg_type EdgeAccessVarPosPerm ''_edge'',
      arg_type NodeVar ''_member'']" "m_repl member_template ''_member'' = Some 2"
    by (simp_all add: member_template_eq)
  have acc: "acceptable sample member_template [(''_member'', sample_n2)]"
    by (simp add: acceptable_def assignable_def m item_tests arg_type_def CanAssignParam_def sample_el_at
        sample_element_def sc_flags_remove_def type_tests sc_bits)
  have "\<forall>(n, a) \<in> set [(''_member'', sample_n2)]. a \<in> live sample \<and> readable sample_ctx sample a"
    using sample_members(2) sample_readable by simp
  from apply_parameters_correct [OF sample_storage_ok this member_template_ok] show ?thesis
    apply (elim exE conjE)
    subgoal for r using acc by (cases r) (auto simp: param_of_def m arg_addr_def arg_type_def)
    done
qed

end
