(* ===== verification/Sc_Base64.thy ===== *)
theory Sc_Base64
  imports Sc_Prelude
begin

text \<open>
  The base64 coder of the C++ utilities (\<^verbatim>\<open>sc-memory/sc-memory/utils/sc_base64.cpp\<close>).
  The arrays \<^verbatim>\<open>char_array_3\<close> and \<^verbatim>\<open>char_array_4\<close> with their fill index \<open>i\<close> are the list of
  the bytes (characters) that are in them; arithmetic is on 8 bit words, to which the source
  cuts every result.
\<close>

subsection \<open>The alphabet\<close>

definition base64_chars :: string where
  "base64_chars = ''ABCDEFGHIJKLMNOPQRSTUVWXYZabcdefghijklmnopqrstuvwxyz0123456789+/''"

definition isalnum :: "char \<Rightarrow> bool" where
  "isalnum c \<longleftrightarrow> (let n = (of_char c :: nat) in
     (48 \<le> n \<and> n \<le> 57) \<or> (65 \<le> n \<and> n \<le> 90) \<or> (97 \<le> n \<and> n \<le> 122))"

definition is_base64 :: "char \<Rightarrow> bool" where
  "is_base64 c \<longleftrightarrow> isalnum c \<or> c = CHR ''+'' \<or> c = CHR ''/''"

text \<open>\<^verbatim>\<open>std::string::find\<close> of one character, cut to a byte; not found is \<^verbatim>\<open>npos\<close>, all ones.\<close>

fun find_from :: "u8 \<Rightarrow> string \<Rightarrow> char \<Rightarrow> u8" where
  "find_from k [] c = 0xff"
| "find_from k (x # xs) c = (if x = c then k else find_from (k + 1) xs c)"

definition sextet :: "char \<Rightarrow> u8" where
  "sextet c = find_from 0 base64_chars c"

definition letter :: "u8 \<Rightarrow> char" where
  "letter x = base64_chars ! unat x"

subsection \<open>Encoding\<close>

definition to_4 :: "u8 \<Rightarrow> u8 \<Rightarrow> u8 \<Rightarrow> u8 list" where
  "to_4 a b c =
     [drop_bit 2 (a AND 0xfc),
      push_bit 4 (a AND 0x03) + drop_bit 4 (b AND 0xf0),
      push_bit 2 (b AND 0x0f) + drop_bit 6 (c AND 0xc0),
      c AND 0x3f]"

fun encode_loop :: "u8 list \<Rightarrow> u8 list \<Rightarrow> string" where
  "encode_loop buf (x # xs) =
     (case buf @ [x] of
        [a, b, c] \<Rightarrow> map letter (to_4 a b c) @ encode_loop [] xs
      | buf' \<Rightarrow> encode_loop buf' xs)"
| "encode_loop buf [] =
     (case buf of
        [] \<Rightarrow> []
      | _ \<Rightarrow> (let p = buf @ replicate (3 - length buf) 0 in
          map letter (take (length buf + 1) (to_4 (p ! 0) (p ! 1) (p ! 2))) @
          replicate (3 - length buf) CHR ''=''))"

definition Encode :: "u8 list \<Rightarrow> string" where
  "Encode xs = encode_loop [] xs"

subsection \<open>Decoding\<close>

definition to_3 :: "u8 \<Rightarrow> u8 \<Rightarrow> u8 \<Rightarrow> u8 \<Rightarrow> u8 list" where
  "to_3 a b c d =
     [push_bit 2 a + drop_bit 4 (b AND 0x30),
      push_bit 4 (b AND 0xf) + drop_bit 2 (c AND 0x3c),
      push_bit 6 (c AND 0x3) + d]"

text \<open>The missing characters of the last group are null characters, looked up like the others.\<close>

definition decode_tail :: "string \<Rightarrow> u8 list" where
  "decode_tail buf =
     (if buf = [] then []
      else (let p = map sextet (buf @ replicate (4 - length buf) (CHR 0x00)) in
        take (length buf - 1) (to_3 (p ! 0) (p ! 1) (p ! 2) (p ! 3))))"

fun decode_loop :: "u32 \<Rightarrow> string \<Rightarrow> string \<Rightarrow> u8 list" where
  "decode_loop in_len buf [] = decode_tail buf"
| "decode_loop in_len buf (c # cs) =
     (if in_len \<noteq> 0 \<and> c \<noteq> CHR ''='' \<and> is_base64 c then
        (case map sextet (buf @ [c]) of
           [p, q, r, t] \<Rightarrow> to_3 p q r t @ decode_loop (in_len - 1) [] cs
         | _ \<Rightarrow> decode_loop (in_len - 1) (buf @ [c]) cs)
      else decode_tail buf)"

definition Decode :: "string \<Rightarrow> u8 list" where
  "Decode cs = decode_loop (of_nat (length cs)) [] cs"

subsection \<open>Decoding what was encoded\<close>

lemma alphabet_check:
  "list_all (\<lambda>n. sextet (letter (of_nat n)) = of_nat n \<and> is_base64 (letter (of_nat n)) \<and>
     letter (of_nat n) \<noteq> CHR ''='') [0..<64]"
  by code_simp

lemma alphabet:
  assumes "x < 64"
  shows "sextet (letter x) = x" "is_base64 (letter x)" "letter x \<noteq> CHR ''=''"
proof -
  have "unat x \<in> set [0..<64]" using assms by (simp add: word_less_nat_alt)
  with alphabet_check have "sextet (letter (of_nat (unat x))) = of_nat (unat x) \<and>
      is_base64 (letter (of_nat (unat x))) \<and> letter (of_nat (unat x)) \<noteq> CHR ''=''"
    by (simp only: list_all_iff) blast
  then show "sextet (letter x) = x" "is_base64 (letter x)" "letter x \<noteq> CHR ''=''" by simp_all
qed

text \<open>The bits of a byte, one by one.\<close>

lemma all_8: "(\<forall>n < 8. P n) \<longleftrightarrow> P (0::nat) \<and> P 1 \<and> P 2 \<and> P 3 \<and> P 4 \<and> P 5 \<and> P 6 \<and> P 7"
  by (simp add: numeral_eq_Suc All_less_Suc) blast

lemma byte_eq: "(x :: u8) = y \<longleftrightarrow> (\<forall>n < 8. bit x n = bit y n)"
  by (auto simp: bit_eq_iff)

lemma small_byte: "x < 64 \<longleftrightarrow> \<not> bit (x :: u8) 6 \<and> \<not> bit x 7"
proof -
  have "x < 2 ^ 6 \<longleftrightarrow> x AND mask 6 = x"
    using and_mask_less_size [of 6 x] less_mask_eq [of x 6] by (auto simp: word_size)
  then have "x < 64 \<longleftrightarrow> x AND mask 6 = x" by simp
  also have "\<dots> \<longleftrightarrow> \<not> bit x 6 \<and> \<not> bit x 7" by (simp add: byte_eq all_8 bit_simps)
  finally show ?thesis .
qed

text \<open>The sums of the coder add disjoint groups of bits.\<close>

lemma disjoint_add: "(\<forall>n < 8. \<not> (bit x n \<and> bit y n)) \<Longrightarrow> (x :: u8) + y = x OR y"
  by (rule disjunctive_add_eq_or) (auto simp: bit_eq_iff bit_simps)

lemma to_4_or:
  "to_4 a b c =
     [drop_bit 2 (a AND 0xfc),
      push_bit 4 (a AND 0x03) OR drop_bit 4 (b AND 0xf0),
      push_bit 2 (b AND 0x0f) OR drop_bit 6 (c AND 0xc0),
      c AND 0x3f]"
proof -
  have "push_bit 4 (a AND 0x03) + drop_bit 4 (b AND 0xf0) = push_bit 4 (a AND 0x03) OR drop_bit 4 (b AND 0xf0)"
    "push_bit 2 (b AND 0x0f) + drop_bit 6 (c AND 0xc0) = push_bit 2 (b AND 0x0f) OR drop_bit 6 (c AND 0xc0)"
    by (rule disjoint_add, unfold all_8, simp add: bit_simps)+
  then show ?thesis unfolding to_4_def by (simp only:)
qed

lemma to_3_or:
  assumes "d < 64"
  shows "to_3 a b c d =
     [push_bit 2 a OR drop_bit 4 (b AND 0x30),
      push_bit 4 (b AND 0xf) OR drop_bit 2 (c AND 0x3c),
      push_bit 6 (c AND 0x3) OR d]"
proof -
  have "push_bit 2 a + drop_bit 4 (b AND 0x30) = push_bit 2 a OR drop_bit 4 (b AND 0x30)"
    "push_bit 4 (b AND 0xf) + drop_bit 2 (c AND 0x3c) = push_bit 4 (b AND 0xf) OR drop_bit 2 (c AND 0x3c)"
    "push_bit 6 (c AND 0x3) + d = push_bit 6 (c AND 0x3) OR d"
    by (rule disjoint_add, unfold all_8, simp add: bit_simps assms [unfolded small_byte])+
  then show ?thesis unfolding to_3_def by (simp only:)
qed

lemma to_4_small: "\<forall>x \<in> set (to_4 a b c). x < 64"
  by (simp add: to_4_or small_byte bit_simps)

lemma to_3_to_4:
  assumes "to_4 a b c = [p, q, r, t]"
  shows "to_3 p q r t = [a, b, c]"
proof -
  have t: "t < 64" using to_4_small [of a b c] assms by simp
  have e: "p = drop_bit 2 (a AND 0xfc)" "q = push_bit 4 (a AND 0x03) OR drop_bit 4 (b AND 0xf0)"
    "r = push_bit 2 (b AND 0x0f) OR drop_bit 6 (c AND 0xc0)" "t = c AND 0x3f"
    using assms unfolding to_4_or by simp_all
  have "push_bit 2 p OR drop_bit 4 (q AND 0x30) = a" "push_bit 4 (q AND 0xf) OR drop_bit 2 (r AND 0x3c) = b"
    "push_bit 6 (r AND 0x3) OR t = c"
    unfolding e byte_eq all_8 by (simp_all add: bit_simps)
  then show ?thesis by (simp add: to_3_or [OF t])
qed

text \<open>One round of the decoder on a letter, and its end at the padding.\<close>

lemma decode_letter:
  assumes "x < 64" and "length cs < 2 ^ 32 - 1"
  shows "decode_loop (of_nat (Suc (length cs))) buf (letter x # cs) =
     (case map sextet (buf @ [letter x]) of
        [p, q, r, t] \<Rightarrow> to_3 p q r t @ decode_loop (of_nat (length cs)) [] cs
      | _ \<Rightarrow> decode_loop (of_nat (length cs)) (buf @ [letter x]) cs)"
proof -
  have "(of_nat (Suc (length cs)) :: u32) \<noteq> 0"
    using assms(2) by (subst word_of_nat_eq_0_iff) (auto dest: dvd_imp_le)
  moreover have "(of_nat (Suc (length cs)) :: u32) - 1 = of_nat (length cs)" by simp
  ultimately show ?thesis using alphabet [OF assms(1)]
    by (simp del: of_nat_Suc cong del: list.case_cong_weak)
qed

lemma decode_padding: "decode_loop n buf (CHR ''='' # cs) = decode_tail buf"
  by simp

lemma decode_4:
  assumes "p < 64" "q < 64" "r < 64" "t < 64" and "length cs < 2 ^ 32 - 4"
  shows "decode_loop (of_nat (Suc (Suc (Suc (Suc (length cs)))))) []
       (letter p # letter q # letter r # letter t # cs) =
     to_3 p q r t @ decode_loop (of_nat (length cs)) [] cs"
proof -
  note step = decode_letter [where cs = "letter q # letter r # letter t # cs" and x = p]
    decode_letter [where cs = "letter r # letter t # cs" and x = q]
    decode_letter [where cs = "letter t # cs" and x = r] decode_letter [where cs = cs and x = t]
  show ?thesis using assms
    by (simp del: decode_loop.simps of_nat_Suc add: step [unfolded list.size add_0_right add_Suc_right] alphabet)
qed

lemma threes [case_names none one two more]:
  assumes "P []" "\<And>a. P [a]" "\<And>a b. P [a, b]" "\<And>a b c xs. P xs \<Longrightarrow> P (a # b # c # xs)"
  shows "P xs"
proof (induction xs rule: length_induct)
  case (1 xs)
  consider "xs = []" | a where "xs = [a]" | a b where "xs = [a, b]" | a b c ys where "xs = a # b # c # ys"
    by (metis list.exhaust)
  then show ?case using assms 1 by cases auto
qed

lemma encode_3:
  "encode_loop [] (a # b # c # xs) = map letter (to_4 a b c) @ encode_loop [] xs"
  by simp

lemma encode_tail:
  "encode_loop [] [a] = map letter (take 2 (to_4 a 0 0)) @ ''==''"
  "encode_loop [] [a, b] = map letter (take 3 (to_4 a b 0)) @ ''=''"
  by (simp_all add: eval_nat_numeral)

lemma to_4_shape: obtains p q r t where "to_4 a b c = [p, q, r, t]" "p < 64" "q < 64" "r < 64" "t < 64"
  using to_4_small [of a b c] that unfolding to_4_def by simp

lemma encode_length: "length (encode_loop [] xs) = 4 * ((length xs + 2) div 3)"
proof (induction xs rule: threes)
  case (more a b c xs)
  have "(length (a # b # c # xs) + 2) div 3 = Suc ((length xs + 2) div 3)" by simp
  with more show ?case by (simp del: encode_loop.simps add: encode_3 to_4_def)
qed (simp_all del: encode_loop.simps add: encode_tail to_4_def, simp)

text \<open>The last group: only the first bytes of the decoded three count.\<close>

lemma tail_2: "to_4 a 0 0 = [p, q, r, t] \<Longrightarrow> take 1 (to_3 p q x y) = [a]"
  using to_3_to_4 [of a 0 0] by (simp add: to_3_def)

lemma tail_3: "to_4 a b 0 = [p, q, r, t] \<Longrightarrow> take 2 (to_3 p q r y) = [a, b]"
  using to_3_to_4 [of a b 0] by (simp add: to_3_def eval_nat_numeral)

lemma decode_encode:
  assumes "length (encode_loop [] xs) < 2 ^ 32"
  shows "decode_loop (of_nat (length (encode_loop [] xs))) [] (encode_loop [] xs) = xs"
  using assms
proof (induction xs rule: threes)
  case none then show ?case by (simp add: decode_tail_def)
next
  case (one a)
  obtain p q r t where 4: "to_4 a 0 0 = [p, q, r, t]" "p < 64" "q < 64" by (rule to_4_shape)
  have "decode_loop 4 [] [letter p, letter q, CHR ''='', CHR ''=''] = decode_tail [letter p, letter q]"
    using alphabet [OF 4(2)] alphabet [OF 4(3)] by simp
  also have "\<dots> = [a]" using tail_2 [OF 4(1)] by (simp add: decode_tail_def alphabet 4 Let_def)
  finally show ?case by (simp del: encode_loop.simps add: encode_tail 4(1) eval_nat_numeral)
next
  case (two a b)
  obtain p q r t where 4: "to_4 a b 0 = [p, q, r, t]" "p < 64" "q < 64" "r < 64" by (rule to_4_shape)
  have "decode_loop 4 [] [letter p, letter q, letter r, CHR ''=''] = decode_tail [letter p, letter q, letter r]"
    using alphabet [OF 4(2)] alphabet [OF 4(3)] alphabet [OF 4(4)] by simp
  also have "\<dots> = [a, b]" using tail_3 [OF 4(1)] by (simp add: decode_tail_def alphabet 4 Let_def numeral_2_eq_2)
  finally show ?case by (simp del: encode_loop.simps add: encode_tail 4(1) eval_nat_numeral)
next
  case (more a b c xs)
  obtain p q r t where 4: "to_4 a b c = [p, q, r, t]" "p < 64" "q < 64" "r < 64" "t < 64" by (rule to_4_shape)
  let ?E = "encode_loop [] xs"
  have E: "encode_loop [] (a # b # c # xs) = letter p # letter q # letter r # letter t # ?E"
    by (simp only: encode_3 4(1) list.map append.simps)
  have l: "length ?E < 2 ^ 32 - 4" using more.prems unfolding E by simp
  then have "decode_loop (of_nat (length ?E)) [] ?E = xs" using more.IH by simp
  with decode_4 [OF 4(2-5) l] to_3_to_4 [OF 4(1)] show ?case unfolding E by simp
qed



end
