(* ===== verification/Sc_Helper.thy ===== *)
theory Sc_Helper
  imports Sc_Iterator5 Sc_Link Sc_Segment_File
begin

text \<open>
  System identifiers (\<^verbatim>\<open>sc-core/sc_helper.c\<close>): an element has a system identifier when a
  connector leads from it to a link with the identifier as content and the keynode
  \<^verbatim>\<open>nrel_system_identifier\<close> marks this connector. The functions \<^verbatim>\<open>sc_memory_*\<close> that the source
  calls forward to the storage and are left out. A failed assertion is \<open>None\<close>.
\<close>

subsection \<open>State\<close>

text \<open>The array of keynodes has one entry; \<open>None\<close> is the null pointer.\<close>

record sc_helper =
  sc_helper_is_initialized :: bool
  sc_keynodes :: "sc_addr option"

definition nrel_system_identifier :: bytes where
  "nrel_system_identifier = map of_char ''nrel_system_identifier''"

definition memory_stream :: "bytes \<Rightarrow> sc_stream option" where
  "memory_stream data = do {
     st \<leftarrow> sc_stream_memory_new (Some data) (of_nat (length data)) SC_STREAM_FLAG_READ False;
     st
   }"

subsection \<open>The elements that a link identifies\<close>

text \<open>
  The first element that the link identifies: a new iterator, one step, destruction. The step of the
  null iterator is false and its destruction does nothing.
\<close>

definition identified_by ::
    "sc_type \<Rightarrow> sc_memory_context \<Rightarrow> sc_addr \<Rightarrow> sc_addr \<Rightarrow> sc_storage \<Rightarrow> (sc_addr option \<times> sc_storage) option" where
  "identified_by u ctx k l s = do {
     (new, s1) \<leftarrow> sc_iterator5_a_a_f_a_f_new ctx 0 (sc_type_arc_common OR sc_type_const) l sc_type_arc_pos_const_perm k s;
     (case new of
        None \<Rightarrow> Some (None, s1)
      | Some it \<Rightarrow> do {
          (more, it1, s2) \<leftarrow> sc_iterator5_next u it s1;
          a \<leftarrow> sc_iterator5_value it1 0;
          s3 \<leftarrow> sc_iterator5_free it1 s2;
          Some (if more then Some a else None, s3)
        })
   }"

fun find_identified ::
    "sc_type \<Rightarrow> sc_memory_context \<Rightarrow> sc_addr \<Rightarrow> sc_addr list \<Rightarrow> sc_addr option \<Rightarrow> sc_storage \<Rightarrow>
     (sc_result \<times> sc_addr option \<times> sc_storage) option" where
  "find_identified u ctx k [] found s =
     Some (if found \<noteq> None then SC_RESULT_OK else SC_RESULT_ERROR, found, s)"
| "find_identified u ctx k (l # ls) found s = do {
     (r, s1) \<leftarrow> identified_by u ctx k l s;
     (case r of
        None \<Rightarrow> find_identified u ctx k ls found s1
      | Some a \<Rightarrow>
          (case found of
             None \<Rightarrow> find_identified u ctx k ls (Some a) s1
           | Some b \<Rightarrow> Some (SC_RESULT_ERROR_INVALID_STATE, Some b, s1)))
   }"

text \<open>The result, and what is written to \<^verbatim>\<open>*result_addr\<close>.\<close>

definition sc_helper_find_element_by_system_identifier ::
    "'db rocksdb \<Rightarrow> (bytes \<Rightarrow> bytes) \<Rightarrow> sc_type \<Rightarrow> sc_memory_context \<Rightarrow> bytes \<Rightarrow> sc_helper \<Rightarrow> sc_storage \<Rightarrow> 'db \<Rightarrow>
     (sc_result \<times> sc_addr option \<times> sc_storage) option" where
  "sc_helper_find_element_by_system_identifier db sha u ctx data h s d = do {
     g_assert (sc_helper_is_initialized h);
     k \<leftarrow> sc_keynodes h;
     st \<leftarrow> memory_stream data;
     (r, links, _, _, s1) \<leftarrow> sc_storage_find_links_with_content db sha ctx st s d;
     if r = SC_RESULT_OK then do { ls \<leftarrow> links; find_identified u ctx k ls None s1 }
     else Some (SC_RESULT_ERROR, None, s1)
   }"

subsection \<open>Setting and reading\<close>

fun any_identified ::
    "sc_type \<Rightarrow> sc_memory_context \<Rightarrow> sc_addr \<Rightarrow> sc_addr list \<Rightarrow> sc_storage \<Rightarrow> (bool \<times> sc_storage) option" where
  "any_identified u ctx k [] s = Some (False, s)"
| "any_identified u ctx k (l # ls) s = do {
     (r, s1) \<leftarrow> identified_by u ctx k l s;
     if r \<noteq> None then Some (True, s1) else any_identified u ctx k ls s1
   }"

definition sc_helper_set_system_identifier ::
    "'db rocksdb \<Rightarrow> (bytes \<Rightarrow> bytes) \<Rightarrow> sc_type \<Rightarrow> sc_memory_context \<Rightarrow> sc_addr \<Rightarrow> bytes \<Rightarrow> sc_helper \<Rightarrow> sc_storage \<Rightarrow> 'db \<Rightarrow>
     (sc_result \<times> sc_storage \<times> 'db) option" where
  "sc_helper_set_system_identifier db sha u ctx addr data h s d = do {
     k \<leftarrow> sc_keynodes h;
     st \<leftarrow> memory_stream data;
     (r, links, _, st1, s1) \<leftarrow> sc_storage_find_links_with_content db sha ctx st s d;
     (used, s2) \<leftarrow> (if r = SC_RESULT_OK then do { ls \<leftarrow> links; any_identified u ctx k ls s1 } else Some (False, s1));
     if used then Some (SC_RESULT_ERROR_INVALID_PARAMS, s2, d)
     else do {
       (idtf_addr, s3) \<leftarrow> sc_storage_link_new ctx True s2;
       (r2, _, s4, d1) \<leftarrow> sc_storage_set_link_content db sha ctx idtf_addr st1 s3 d;
       if r2 \<noteq> SC_RESULT_OK then Some (SC_RESULT_ERROR, s4, d1)
       else do {
         (arc_addr, s5) \<leftarrow> sc_storage_arc_new ctx (sc_type_arc_common OR sc_type_const) addr idtf_addr s4;
         if SC_ADDR_IS_EMPTY arc_addr then Some (SC_RESULT_ERROR, s5, d1)
         else do {
           (arc_addr2, s6) \<leftarrow> sc_storage_arc_new ctx sc_type_arc_pos_const_perm k arc_addr s5;
           if SC_ADDR_IS_EMPTY arc_addr2 then Some (SC_RESULT_ERROR, s6, d1) else Some (SC_RESULT_OK, s6, d1)
         }
       }
     }
   }"

text \<open>The loop keeps the last link that it sees.\<close>

definition sc_helper_get_system_identifier_link ::
    "sc_type \<Rightarrow> sc_memory_context \<Rightarrow> sc_addr \<Rightarrow> sc_helper \<Rightarrow> sc_storage \<Rightarrow>
     (sc_result \<times> sc_addr option \<times> sc_storage) option" where
  "sc_helper_get_system_identifier_link u ctx el h s = do {
     k \<leftarrow> sc_keynodes h;
     (new, s1) \<leftarrow> sc_iterator5_f_a_a_a_f_new ctx el (sc_type_arc_common OR sc_type_const) sc_type_link
        sc_type_arc_pos_const_perm k s;
     it \<leftarrow> new;
     (rs, it1, s2) \<leftarrow> iterate5 u it s1;
     s3 \<leftarrow> sc_iterator5_free it1 s2;
     Some (if rs = [] then (SC_RESULT_ERROR, None, s3) else (SC_RESULT_OK, Some (last rs ! 2), s3))
   }"

definition sc_helper_get_keynode :: "sc_helper \<Rightarrow> sc_result \<times> sc_addr option" where
  "sc_helper_get_keynode h =
     (if \<not> sc_helper_is_initialized h \<or> sc_keynodes h = None then (SC_RESULT_ERROR, None)
      else (SC_RESULT_OK, sc_keynodes h))"

text \<open>The conversion to UTF-8 is a function of glib and a parameter here.\<close>

definition sc_helper_resolve_system_identifier ::
    "(bytes \<Rightarrow> bytes option) \<Rightarrow> 'db rocksdb \<Rightarrow> (bytes \<Rightarrow> bytes) \<Rightarrow> sc_type \<Rightarrow> sc_memory_context \<Rightarrow> bytes \<Rightarrow> sc_helper \<Rightarrow>
     sc_storage \<Rightarrow> 'db \<Rightarrow> (bool \<times> sc_addr option \<times> sc_storage) option" where
  "sc_helper_resolve_system_identifier to_utf8 db sha u ctx system_idtf h s d = (case to_utf8 system_idtf of
       None \<Rightarrow> Some (False, None, s)
     | Some keynode_idtf \<Rightarrow> do {
         (r, a, s1) \<leftarrow> sc_helper_find_element_by_system_identifier db sha u ctx keynode_idtf h s d;
         Some (r = SC_RESULT_OK, a, s1)
       })"

subsection \<open>Initialisation\<close>

text \<open>The results of one iterator; a second element with the identifier ends the process.\<close>

fun keynode_results :: "sc_addr list list \<Rightarrow> sc_addr option \<Rightarrow> sc_addr option option" where
  "keynode_results [] found = Some found"
| "keynode_results (r # rs) found =
     (if r ! 0 = r ! 4 then (if found = None then keynode_results rs (Some (r ! 0)) else None)
      else keynode_results rs found)"

fun keynode_links ::
    "sc_type \<Rightarrow> sc_memory_context \<Rightarrow> sc_addr list \<Rightarrow> sc_addr option \<Rightarrow> sc_storage \<Rightarrow> (sc_addr option \<times> sc_storage) option" where
  "keynode_links u ctx [] found s = Some (found, s)"
| "keynode_links u ctx (l # ls) found s = do {
     (new, s1) \<leftarrow> sc_iterator5_a_a_f_a_a_new ctx (sc_type_node OR sc_type_const OR sc_type_node_norole)
        (sc_type_arc_common OR sc_type_const) l sc_type_arc_pos_const_perm
        (sc_type_const OR sc_type_node OR sc_type_node_norole) s;
     (case new of
        None \<Rightarrow> keynode_links u ctx ls found s1
      | Some it \<Rightarrow> do {
          (rs, it1, s2) \<leftarrow> iterate5 u it s1;
          found1 \<leftarrow> keynode_results rs found;
          s3 \<leftarrow> sc_iterator5_free it1 s2;
          keynode_links u ctx ls found1 s3
        })
   }"

definition resolve_nrel_system_identifier ::
    "'db rocksdb \<Rightarrow> (bytes \<Rightarrow> bytes) \<Rightarrow> sc_type \<Rightarrow> sc_memory_context \<Rightarrow> sc_storage \<Rightarrow> 'db \<Rightarrow>
     (sc_addr option \<times> sc_storage) option" where
  "resolve_nrel_system_identifier db sha u ctx s d = do {
     st \<leftarrow> memory_stream nrel_system_identifier;
     (r, links, _, _, s1) \<leftarrow> sc_storage_find_links_with_content db sha ctx st s d;
     if r = SC_RESULT_OK then do { ls \<leftarrow> links; keynode_links u ctx ls None s1 } else Some (None, s1)
   }"

definition sc_helper_init ::
    "'db rocksdb \<Rightarrow> (bytes \<Rightarrow> bytes) \<Rightarrow> sc_type \<Rightarrow> sc_memory_context \<Rightarrow> sc_storage \<Rightarrow> 'db \<Rightarrow>
     (sc_result \<times> sc_helper \<times> sc_storage \<times> 'db) option" where
  "sc_helper_init db sha u ctx s d = do {
     (k, s1) \<leftarrow> resolve_nrel_system_identifier db sha u ctx s d;
     (k1, s2, d1) \<leftarrow> (case k of
         Some a \<Rightarrow> Some (a, s1, d)
       | None \<Rightarrow> do {
           (addr, s2) \<leftarrow> sc_storage_node_new ctx (sc_type_const OR sc_type_node_norole) s1;
           (link, s3) \<leftarrow> sc_storage_link_new ctx True s2;
           st \<leftarrow> memory_stream nrel_system_identifier;
           (_, _, s4, d1) \<leftarrow> sc_storage_set_link_content db sha ctx link st s3 d;
           (arc', s5) \<leftarrow> sc_storage_arc_new ctx (sc_type_arc_common OR sc_type_const) addr link s4;
           (_, s6) \<leftarrow> sc_storage_arc_new ctx sc_type_arc_pos_const_perm addr arc' s5;
           Some (addr, s6, d1)
         });
     Some (SC_RESULT_OK, \<lparr>sc_helper_is_initialized = True, sc_keynodes = Some k1\<rparr>, s2, d1)
   }"

subsection \<open>Checks\<close>

definition sc_helper_check_arc ::
    "sc_type \<Rightarrow> sc_memory_context \<Rightarrow> sc_addr \<Rightarrow> sc_addr \<Rightarrow> sc_type \<Rightarrow> sc_storage \<Rightarrow> (bool \<times> sc_storage) option" where
  "sc_helper_check_arc u ctx beg_el end_el ty s = do {
     (new, s1) \<leftarrow> sc_iterator3_f_a_f_new ctx beg_el ty end_el s;
     (case new of
        None \<Rightarrow> Some (False, s1)
      | Some it \<Rightarrow> do {
          (res, it1, s2) \<leftarrow> sc_iterator3_next u it s1;
          s3 \<leftarrow> sc_iterator3_free it1 s2;
          Some (res, s3)
        })
   }"

definition sc_helper_check_version_equal :: "u8 \<Rightarrow> u8 \<Rightarrow> u8 \<Rightarrow> bool" where
  "sc_helper_check_version_equal major minor patch \<longleftrightarrow>
     sc_version_compare SC_VERSION \<lparr>ver_major = major, ver_minor = minor, ver_patch = patch, ver_suffix = []\<rparr> = 0"

end
