(* ===== verification/Sc_Helper_Laws.thy ===== *)
theory Sc_Helper_Laws
  imports Sc_Helper Sc_Iterator5_Laws Sc_Link_Props
begin

text \<open>
  What the functions on system identifiers find. The relation \<open>names\<close> is the shape in the graph
  that gives an element its identifier.
\<close>

subsection \<open>The elements that a link names\<close>

abbreviation idtf_type :: sc_type where "idtf_type \<equiv> sc_type_arc_common OR sc_type_const"

definition names :: "sc_memory_context \<Rightarrow> sc_storage \<Rightarrow> sc_addr \<Rightarrow> sc_addr \<Rightarrow> sc_addr \<Rightarrow> bool" where
  "names ctx s k l a \<longleftrightarrow> (\<exists>x \<in> arcs s. arc_begin (arc (el_at s x)) = a \<and> arc_end (arc (el_at s x)) = l \<and>
     fits ctx s idtf_type x \<and> fits ctx s 0 a \<and>
     (\<exists>y \<in> arcs s. arc_begin (arc (el_at s y)) = k \<and> arc_end (arc (el_at s y)) = x \<and>
        fits ctx s sc_type_arc_pos_const_perm y))"

text \<open>The connectors to a link that the iterator passes on, and its results.\<close>

definition idtf_arcs :: "sc_memory_context \<Rightarrow> sc_storage \<Rightarrow> sc_addr \<Rightarrow> sc_addr list" where
  "idtf_arcs ctx s l = filter (\<lambda>x. fits ctx s idtf_type x \<and> fits ctx s 0 (arc_begin (arc (el_at s x)))) (in_arcs s l)"

definition idtf_marks :: "sc_memory_context \<Rightarrow> sc_storage \<Rightarrow> sc_addr \<Rightarrow> sc_addr \<Rightarrow> sc_addr list" where
  "idtf_marks ctx s k x = filter (\<lambda>y. arc_begin (arc (el_at s y)) = k \<and> fits ctx s sc_type_arc_pos_const_perm y) (in_arcs s x)"

definition idtf_results :: "sc_memory_context \<Rightarrow> sc_storage \<Rightarrow> sc_addr \<Rightarrow> sc_addr \<Rightarrow> sc_addr list list" where
  "idtf_results ctx s k l = concat (map (\<lambda>x. map (\<lambda>y. [arc_begin (arc (el_at s x)), x, l, y, k]) (idtf_marks ctx s k x))
     (idtf_arcs ctx s l))"

lemma in_arcs_set:
  assumes "graph_ok s" "b \<in> live s"
  shows "distinct (in_arcs s b)" "set (in_arcs s b) = {x \<in> arcs s. arc_end (arc (el_at s x)) = b}"
  using in_arcs_list [OF assms(1), of b] assms(2) by (auto simp: in_list_def inn.chain_def)

lemma names_results:
  assumes "graph_ok s" "l \<in> live s"
  shows "names ctx s k l a \<longleftrightarrow> a \<in> hd ` set (idtf_results ctx s k l)"
proof -
  have "x \<in> arcs s \<Longrightarrow> set (in_arcs s x) = {y \<in> arcs s. arc_end (arc (el_at s y)) = x}" for x
    using in_arcs_set(2) [OF assms(1)] arcs_live by blast
  then show ?thesis using in_arcs_set(2) [OF assms]
    by (auto simp: names_def idtf_results_def idtf_arcs_def idtf_marks_def image_iff)
qed

text \<open>A bound on the references that one look at a link can add to a counter.\<close>

lemma results_bound:
  assumes "graph_ok s" "l \<in> live s"
  shows "length (idtf_results ctx s k l) \<le> card (arcs s)" "length (idtf_arcs ctx s l) \<le> card (arcs s)"
proof -
  let ?A = "idtf_arcs ctx s l" and ?M = "\<lambda>x. set (idtf_marks ctx s k x)"
  have A: "distinct ?A" "set ?A \<subseteq> arcs s" using in_arcs_set [OF assms] by (auto simp: idtf_arcs_def)
  have M: "distinct (idtf_marks ctx s k x)" "?M x \<subseteq> {y \<in> arcs s. arc_end (arc (el_at s y)) = x}" if "x \<in> set ?A" for x
  proof -
    have "x \<in> live s" using that A(2) arcs_live by blast
    then show "distinct (idtf_marks ctx s k x)" "?M x \<subseteq> {y \<in> arcs s. arc_end (arc (el_at s y)) = x}"
      using in_arcs_set [OF assms(1)] by (auto simp: idtf_marks_def)
  qed
  show "length ?A \<le> card (arcs s)" using A by (metis card_mono distinct_card finite_sc_addr)
  have "length (idtf_results ctx s k l) = sum_list (map (\<lambda>x. card (?M x)) ?A)"
    using M(1) by (simp add: idtf_results_def length_concat comp_def distinct_card cong: map_cong)
  also have "\<dots> = (\<Sum>x \<in> set ?A. card (?M x))" using A(1) by (simp add: sum_list_distinct_conv_sum_set)
  also have "\<dots> = card (\<Union>x \<in> set ?A. ?M x)"
    using M(2) by (intro card_UN_disjoint [symmetric]) (simp, simp, blast)
  also have "\<dots> \<le> card (arcs s)" using M(2) by (intro card_mono) auto
  finally show "length (idtf_results ctx s k l) \<le> card (arcs s)" .
qed

definition look_cost :: "sc_storage \<Rightarrow> nat" where
  "look_cost s = 4 + 7 * card (arcs s)"

lemma identified_by_ok:
  assumes c: "covered (n + look_cost s) [] s" and l: "l \<in> live s" "readable ctx s l" and k: "k \<in> live s" "readable ctx s k"
  shows "\<exists>r s'. identified_by u ctx k l s = Some (r, s') \<and> covered n [] s' \<and> unmoved s s' \<and>
     (case r of None \<Rightarrow> \<forall>a. \<not> names ctx s k l a | Some a \<Rightarrow> names ctx s k l a)"
proof -
  note ok = covered_graph [OF c]
  define ms where "ms = map (\<lambda>x. (arc_begin (arc (el_at s x)), x, l)) (idtf_arcs ctx s l)"
  define cc where "cc = (sc_iterator5_a_a_f_a_f, ParamType 0, ParamType idtf_type, ParamAddr l,
     ParamType sc_type_arc_pos_const_perm, ParamAddr k, ctx)"
  let ?qs = "idtf_results ctx s k l"
  let ?m = "fresh ctx sc_iterator3_a_a_f (ParamType 0) (ParamType idtf_type) (ParamAddr l)"
  have Q: "?qs = concat (map (\<lambda>m. map (\<lambda>a. [fst m, fst (snd m), fix2 cc, fst (snd a), fix4 cc])
      (attrs_fixed cc s (conn m))) ms)"
    by (simp add: idtf_results_def idtf_marks_def ms_def cc_def comp_def)
  have "covered ((n + (1 + length ?qs + 6 * length ms)) + 3) [] s"
    using results_bound(1) [OF ok l(1), of ctx k] results_bound(2) [OF ok l(1), of ctx]
    by (intro covered_mono [OF c]) (simp add: look_cost_def ms_def)
  then have "\<exists>s1. sc_iterator3_a_a_f_new ctx 0 idtf_type l s = Some (Some ?m, s1) \<and>
      covered (n + (1 + length ?qs + 6 * length ms)) [?m] s1 \<and> unmoved s s1 \<and> a_a_f.delivers_rest ?m s ms"
    unfolding sc_iterator3_a_a_f_new_def ms_def idtf_arcs_def using l in_arcs_list [OF ok, of l]
    by (intro a_a_f.new_delivers [OF _ refl])
       (auto simp: iterator_matches iterator_fields in_list_def fun_eq_iff)
  then obtain s1 where s1: "sc_iterator3_a_a_f_new ctx 0 idtf_type l s = Some (Some ?m, s1)"
    "covered (n + (1 + length ?qs + 6 * length ms)) [?m] s1" "unmoved s s1" "a_a_f.delivers_rest ?m s ms" by blast
  have "\<exists>it s1 it' s2 s3. sc_iterator5_new ctx sc_iterator5_a_a_f_a_f (ParamType 0) (ParamType idtf_type) (ParamAddr l)
       (ParamType sc_type_arc_pos_const_perm) (ParamAddr k) s = Some (Some it, s1) \<and>
     sc_iterator5_next u it s1 = Some (?qs \<noteq> [], it', s2) \<and> (?qs \<noteq> [] \<longrightarrow> results5 it' = hd ?qs) \<and>
     sc_iterator5_free it' s2 = Some s3 \<and> covered n [] s3 \<and> unmoved s s3"
  proof (rule a_a_f_a_f.first5 [OF _ s1(2,3) _ cc_def _ _ _ Q])
    show "conn x \<in> arcs s \<and> readable ctx s (conn x)" if "x \<in> set ms" for x
      using that in_arcs_set(2) [OF ok l(1)] by (auto simp: ms_def idtf_arcs_def fits_def)
  qed (use s1 k in \<open>auto simp: main_new_def yields_def check_shape5_def is_type_def cc_def\<close>)
  then obtain it s2 it' s3 s4 where i:
    "sc_iterator5_a_a_f_a_f_new ctx 0 idtf_type l sc_type_arc_pos_const_perm k s = Some (Some it, s2)"
    "sc_iterator5_next u it s2 = Some (?qs \<noteq> [], it', s3)" "?qs \<noteq> [] \<longrightarrow> results5 it' = hd ?qs"
    "sc_iterator5_free it' s3 = Some s4" "covered n [] s4" "unmoved s s4"
    unfolding sc_iterator5_a_a_f_a_f_new_def by blast
  have run: "identified_by u ctx k l s = Some (if ?qs \<noteq> [] then Some (r0 it') else None, s4)"
    using i(1,2,4) by (simp add: identified_by_def sc_iterator5_value_def)
  have "names ctx s k l (r0 it')" if "?qs \<noteq> []"
    using i(3) that unfolding names_results [OF ok l(1)] by (auto simp: results5_def intro!: image_eqI [of _ _ "hd ?qs"])
       (metis hd_in_set list.sel(1))
  moreover have "\<forall>a. \<not> names ctx s k l a" if "?qs = []" using that by (simp add: names_results [OF ok l(1)])
  ultimately show ?thesis using run i(5,6) by auto
qed

subsection \<open>Searching by an identifier\<close>

lemma unmoved_views:
  assumes "unmoved s s'"
  shows "names ctx s' k l a = names ctx s k l a" "look_cost s' = look_cost s" "readable ctx s' x = readable ctx s x"
    "live s' = live s"
  using assms unmoved_live [OF assms] by (simp_all add: names_def unmoved_def fits_def readable_def look_cost_def)

text \<open>What a search relies on: the keynode and the links are there and may be read, with room in the counters.\<close>

definition searchable :: "sc_memory_context \<Rightarrow> sc_addr \<Rightarrow> nat \<Rightarrow> sc_addr list \<Rightarrow> sc_storage \<Rightarrow> bool" where
  "searchable ctx k n ls s \<longleftrightarrow> covered (n + length ls * look_cost s) [] s \<and> k \<in> live s \<and> readable ctx s k \<and>
     (\<forall>l \<in> set ls. l \<in> live s \<and> readable ctx s l)"

abbreviation is_named :: "sc_memory_context \<Rightarrow> sc_storage \<Rightarrow> sc_addr \<Rightarrow> sc_addr \<Rightarrow> bool" where
  "is_named ctx s k l \<equiv> \<exists>a. names ctx s k l a"

lemma searchable_covered: "searchable ctx k n ls s \<Longrightarrow> covered n [] s"
  unfolding searchable_def using covered_mono by (metis le_add1)

lemma identified_step:
  assumes "searchable ctx k n (l # ls) s"
  obtains r s' where "identified_by u ctx k l s = Some (r, s')" "searchable ctx k n ls s'" "unmoved s s'"
    "case r of None \<Rightarrow> \<not> is_named ctx s k l | Some a \<Rightarrow> names ctx s k l a"
proof -
  note A = assms [unfolded searchable_def]
  have "covered ((n + length ls * look_cost s) + look_cost s) [] s" using A by (simp add: algebra_simps)
  from identified_by_ok [OF this, of l ctx k u] A obtain r s' where
    r: "identified_by u ctx k l s = Some (r, s')" "covered (n + length ls * look_cost s) [] s'" "unmoved s s'"
    "case r of None \<Rightarrow> \<forall>a. \<not> names ctx s k l a | Some a \<Rightarrow> names ctx s k l a" by auto
  show thesis
    by (rule that [OF r(1) _ r(3)]) (use A r in \<open>simp_all add: searchable_def unmoved_views [OF r(3)] split: option.splits\<close>)
qed

lemma find_identified_after:
  assumes "searchable ctx k n ls s"
  shows "\<exists>s'. unmoved s s' \<and> covered n [] s' \<and> find_identified u ctx k ls (Some b) s =
     Some (if filter (is_named ctx s k) ls = [] then SC_RESULT_OK else SC_RESULT_ERROR_INVALID_STATE, Some b, s')"
  using assms
proof (induction ls arbitrary: s)
  case Nil
  then show ?case using searchable_covered by (auto intro!: exI [of _ s])
next
  case (Cons l ls)
  from identified_step [OF Cons.prems] obtain r s1 where r: "identified_by u ctx k l s = Some (r, s1)"
    "searchable ctx k n ls s1" "unmoved s s1" "case r of None \<Rightarrow> \<not> is_named ctx s k l | Some a \<Rightarrow> names ctx s k l a" .
  show ?case
  proof (cases r)
    case None
    with Cons.IH [OF r(2)] r show ?thesis
      by (auto simp: unmoved_views [OF r(3)] cong: if_cong intro: unmoved_trans)
  next
    case (Some a)
    with r searchable_covered [OF r(2)] show ?thesis by auto
  qed
qed

lemma find_identified_ok:
  assumes "searchable ctx k n ls s"
  shows "\<exists>r s'. find_identified u ctx k ls None s =
     Some (case filter (is_named ctx s k) ls of [] \<Rightarrow> SC_RESULT_ERROR | [l] \<Rightarrow> SC_RESULT_OK
        | _ \<Rightarrow> SC_RESULT_ERROR_INVALID_STATE, r, s') \<and> unmoved s s' \<and> covered n [] s' \<and>
     (case filter (is_named ctx s k) ls of [] \<Rightarrow> r = None | l # _ \<Rightarrow> \<exists>a. r = Some a \<and> names ctx s k l a)"
  using assms
proof (induction ls arbitrary: s)
  case Nil
  then show ?case using searchable_covered by (auto intro!: exI [of _ s])
next
  case (Cons l ls)
  from identified_step [OF Cons.prems] obtain r s1 where r: "identified_by u ctx k l s = Some (r, s1)"
    "searchable ctx k n ls s1" "unmoved s s1" "case r of None \<Rightarrow> \<not> is_named ctx s k l | Some a \<Rightarrow> names ctx s k l a" .
  show ?case
  proof (cases r)
    case None
    have "names ctx s1 = names ctx s" using unmoved_views(1) [OF r(3)] by (intro ext)
    with None Cons.IH [OF r(2)] r unmoved_trans [OF r(3)] show ?thesis by (simp cong: list.case_cong) blast
  next
    case (Some a)
    with r find_identified_after [OF r(2), of u a] show ?thesis
      by (auto simp: unmoved_views [OF r(3)] intro: unmoved_trans split: list.splits)
  qed
qed

lemma any_identified_ok:
  assumes "searchable ctx k n ls s"
  shows "\<exists>s'. any_identified u ctx k ls s = Some (filter (is_named ctx s k) ls \<noteq> [], s') \<and> unmoved s s' \<and> covered n [] s'"
  using assms
proof (induction ls arbitrary: s)
  case Nil
  then show ?case using searchable_covered by (auto intro!: exI [of _ s])
next
  case (Cons l ls)
  from identified_step [OF Cons.prems] obtain r s1 where r: "identified_by u ctx k l s = Some (r, s1)"
    "searchable ctx k n ls s1" "unmoved s s1" "case r of None \<Rightarrow> \<not> is_named ctx s k l | Some a \<Rightarrow> names ctx s k l a" .
  with Cons.IH [OF r(2)] searchable_covered [OF r(2)] show ?case
    by (cases r) (auto simp: unmoved_views [OF r(3)] intro: unmoved_trans)
qed

lemma memory_stream_ok:
  assumes "length data < 2 ^ 32"
  obtains st where "memory_stream data = Some st" "stream_ok st" "whole st = data"
  using memory_new_ok [of data "of_nat (length data)" False] assms by (auto simp: memory_stream_def unat_of_nat)

text \<open>The links that the search by content passes on.\<close>

lemma idtf_links:
  assumes "fm_wf db d" and "length data < 2 ^ 32" and "storage_ok s"
    and L: "L = filter (readable ctx s) (links_of (fm_abs db d) (sum_of sha data))"
    and live: "\<forall>l \<in> set (links_of (fm_abs db d) (sum_of sha data)). l \<in> live s"
  obtains st r c st' where "memory_stream data = Some st" "stream_ok st'" "whole st' = data"
    "sc_storage_find_links_with_content db sha ctx st s d = Some (r, if L = [] then None else Some L, c, st', s)"
    "r = SC_RESULT_OK \<longleftrightarrow> L \<noteq> []"
proof -
  obtain st where st: "memory_stream data = Some st" "stream_ok st" "whole st = data" using memory_stream_ok [OF assms(2)] .
  have "\<forall>a \<in> set (links_of (fm_abs db d) (sum_of sha (whole st))). has_cell s a" using live by (simp add: st(3) live_def)
  from find_links_ok [OF assms(1) st(2) assms(3) this, of ctx] obtain st' where
    f: "sc_storage_find_links_with_content db sha ctx st s d =
     Some (if links_of (fm_abs db d) (sum_of sha data) = [] then (SC_RESULT_ERROR_IO, None, 0, st', s)
         else if L = [] then (SC_RESULT_ERROR_NOT_FOUND, None, 0, st', s)
         else (SC_RESULT_OK, Some L, length L, st', s))" "stream_ok st'" "whole st' = data"
    by (auto simp: st(3) Let_def L readable_def [abs_def])
  have "links_of (fm_abs db d) (sum_of sha data) = [] \<Longrightarrow> L = []" by (simp add: L)
  then show thesis
    by (cases "links_of (fm_abs db d) (sum_of sha data) = []"; cases "L = []") (use that [OF st(1) f(2,3)] f(1) in auto)
qed

lemma find_by_idtf_ok:
  assumes "fm_wf db d" and "length data < 2 ^ 32"
    and L: "L = filter (readable ctx s) (links_of (fm_abs db d) (sum_of sha data))"
    and live: "\<forall>l \<in> set (links_of (fm_abs db d) (sum_of sha data)). l \<in> live s" and "searchable ctx k n L s"
  shows "\<exists>r s'. sc_helper_find_element_by_system_identifier db sha u ctx data
       \<lparr>sc_helper_is_initialized = True, sc_keynodes = Some k\<rparr> s d =
     Some (case filter (is_named ctx s k) L of [] \<Rightarrow> SC_RESULT_ERROR | [l] \<Rightarrow> SC_RESULT_OK
        | _ \<Rightarrow> SC_RESULT_ERROR_INVALID_STATE, r, s') \<and> unmoved s s' \<and> covered n [] s' \<and>
     (case filter (is_named ctx s k) L of [] \<Rightarrow> r = None | l # _ \<Rightarrow> \<exists>a. r = Some a \<and> names ctx s k l a)"
proof -
  note cov = searchable_covered [OF assms(5)]
  have so: "storage_ok s" using cov by (simp add: covered_def graph_ok_def)
  show ?thesis
    by (rule idtf_links [OF assms(1,2) so L live])
       (use find_identified_ok [OF assms(5), of u] cov in
         \<open>cases "L = []"; auto simp: sc_helper_find_element_by_system_identifier_def\<close>)
qed

lemma used_ok:
  assumes "fm_wf db d" and "length data < 2 ^ 32"
    and L: "L = filter (readable ctx s) (links_of (fm_abs db d) (sum_of sha data))"
    and live: "\<forall>l \<in> set (links_of (fm_abs db d) (sum_of sha data)). l \<in> live s" and "searchable ctx k n L s"
  obtains st r links c st1 s2 where "memory_stream data = Some st"
    "sc_storage_find_links_with_content db sha ctx st s d = Some (r, links, c, st1, s)" "stream_ok st1" "whole st1 = data"
    "(if r = SC_RESULT_OK then do { ls \<leftarrow> links; any_identified u ctx k ls s } else Some (False, s)) =
       Some (filter (is_named ctx s k) L \<noteq> [], s2)" "unmoved s s2" "covered n [] s2"
proof -
  note cov = searchable_covered [OF assms(5)]
  have so: "storage_ok s" using cov by (simp add: covered_def graph_ok_def)
  obtain s2 where s2: "any_identified u ctx k L s = Some (filter (is_named ctx s k) L \<noteq> [], s2)" "unmoved s s2" "covered n [] s2"
    using any_identified_ok [OF assms(5)] by blast
  show thesis
    by (rule idtf_links [OF assms(1,2) so L live], rule that) (use s2 in \<open>auto split: if_splits\<close>)
qed

end
