(* ===== verification/Sc_Helper_Props.thy ===== *)
theory Sc_Helper_Props
  imports Sc_Helper_Laws Sc_Graph_Props
begin

text \<open>
  An identifier that was set is found. The names in a storage depend only on the rights of the elements and
  on the types and ends of the connectors, so that the effect of the creation of a link, of its content and
  of two connectors can be computed.
\<close>

subsection \<open>What identifiers depend on\<close>

text \<open>The rights of an element and, for a connector, its type and its ends.\<close>

type_synonym sight = "sc_addr \<rightharpoonup> sc_access_levels \<times> (sc_type \<times> sc_addr \<times> sc_addr) option"

definition seen :: "sc_storage \<Rightarrow> sight" where
  "seen s a = (if a \<in> live s then Some (el_access (el_at s a),
     if a \<in> arcs s then Some (el_type (el_at s a), arc_begin (arc (el_at s a)), arc_end (arc (el_at s a))) else None)
     else None)"

definition connects :: "sc_memory_context \<Rightarrow> sc_type \<Rightarrow> sight \<Rightarrow> sc_addr \<Rightarrow> sc_addr \<Rightarrow> sc_addr \<Rightarrow> bool" where
  "connects ctx it_ty g x b e \<longleftrightarrow> (\<exists>al t. g x = Some (al, Some (t, b, e)) \<and> sc_iterator_compare_type t it_ty \<and>
     sc_access_lvl_check_read (ctx_access ctx) al)"

definition open_to :: "sc_memory_context \<Rightarrow> sight \<Rightarrow> sc_addr \<Rightarrow> bool" where
  "open_to ctx g a \<longleftrightarrow> (\<exists>al r. g a = Some (al, r) \<and> sc_access_lvl_check_read (ctx_access ctx) al)"

lemma dom_seen: "dom (seen s) = live s"
  by (auto simp: seen_def split: if_splits)

lemma seen_ends:
  assumes "graph_ok s" and "connects ctx ty (seen s) x b e"
  shows "b \<in> live s" "e \<in> live s" "x \<in> arcs s"
  using assms by (auto simp: connects_def seen_def graph_ok_def split: if_splits)

lemma open_to_seen: "a \<in> live s \<Longrightarrow> open_to ctx (seen s) a \<longleftrightarrow> readable ctx s a"
  by (simp add: open_to_def seen_def readable_def)

lemma names_seen:
  assumes "graph_ok s"
  shows "names ctx s k l a \<longleftrightarrow> open_to ctx (seen s) a \<and>
     (\<exists>x y. connects ctx idtf_type (seen s) x a l \<and> connects ctx sc_type_arc_pos_const_perm (seen s) y k x)"
proof -
  have c: "connects ctx t (seen s) x b e \<longleftrightarrow>
      x \<in> arcs s \<and> arc_begin (arc (el_at s x)) = b \<and> arc_end (arc (el_at s x)) = e \<and> fits ctx s t x" for t x b e
    using arcs_live [of s] by (auto simp: connects_def seen_def fits_def readable_def split: if_splits)
  have "x \<in> arcs s \<Longrightarrow> fits ctx s 0 (arc_begin (arc (el_at s x))) \<longleftrightarrow> open_to ctx (seen s) (arc_begin (arc (el_at s x)))" for x
    using assms open_to_seen by (auto simp: graph_ok_def fits_def sc_iterator_compare_type_def)
  then show ?thesis unfolding names_def c by blast
qed

text \<open>A named link is still named, and nothing else is, when one element gets an identifier.\<close>

lemma names_extended:
  assumes g: "graph_ok s" "graph_ok s'"
    and v: "seen s' = (seen s)(l \<mapsto> (al, None), x \<mapsto> (al, Some (tx, a, l)), y \<mapsto> (al, Some (ty, k, x)))"
    and fresh: "l \<notin> live s" "x \<notin> live s" "y \<notin> live s" "distinct [l, x, y]"
    and al: "sc_access_lvl_check_read (ctx_access ctx) al"
    and ty: "sc_iterator_compare_type tx idtf_type" "sc_iterator_compare_type ty sc_type_arc_pos_const_perm"
    and a: "a \<in> live s" "readable ctx s a" and k: "k \<in> live s"
  shows "names ctx s' k l' a' \<longleftrightarrow> names ctx s k l' a' \<or> l' = l \<and> a' = a"
proof -
  have new: "connects ctx t (seen s') z b e \<longleftrightarrow> connects ctx t (seen s) z b e \<or>
      z = x \<and> b = a \<and> e = l \<and> sc_iterator_compare_type tx t \<or> z = y \<and> b = k \<and> e = x \<and> sc_iterator_compare_type ty t" for t z b e
  proof -
    have "seen s l = None" "seen s x = None" "seen s y = None" using fresh dom_seen by blast+
    then show ?thesis using fresh(4) al unfolding v by (auto simp: connects_def)
  qed
  have ops: "open_to ctx (seen s') b \<longleftrightarrow> open_to ctx (seen s) b" if "b \<in> live s" for b
    using that fresh unfolding v open_to_def by auto
  have aa: "open_to ctx (seen s) a" using a open_to_seen by blast
  show ?thesis unfolding names_seen [OF g(1)] names_seen [OF g(2)] new
    using seen_ends [OF g(1)] ops aa a k ty fresh arcs_live [of s]
    by auto (metis subsetD)+
qed

subsection \<open>The steps that give an identifier\<close>

lemma covered_nil: "covered n [] s \<longleftrightarrow> graph_ok s \<and>
   (\<forall>x \<in> live s. unat (refs s x) > 0 \<and> unat (refs s x) + n < 0xffffffff)"
  by (simp add: covered_def held_by_def)

lemma created_seen:
  assumes "created s a e s'" and "live s' = insert a (live s)" and "arcs s' = arcs s"
  shows "seen s' = (seen s)(a \<mapsto> (el_access e, None))"
proof -
  have "a \<notin> arcs s" using created_not_live [OF assms(1)] arcs_live by blast
  then show ?thesis using assms by (auto simp: seen_def created_def fun_eq_iff)
qed

lemma arc_created_seen:
  assumes "storage_ok s" "arc_created t b e al s a s'"
  shows "seen s' = (seen s)(a \<mapsto> (al, Some (arc_type t, b, e)))"
  using assms arc_created_sets [OF assms]
  by (auto simp: seen_def arc_created_def linked_heap_sel new_arc_def fun_eq_iff)

text \<open>Room for \<open>n\<close> more references and for \<open>m\<close> more elements.\<close>

definition ready :: "nat \<Rightarrow> nat \<Rightarrow> sc_storage \<Rightarrow> bool" where
  "ready n m s \<longleftrightarrow> covered n [] s \<and> Suc n < 0xffffffff \<and> max_loaded_segments s \<le> int SC_ADDR_SEG_MAX \<and>
     int (segments_num s + m) \<le> max_loaded_segments s"

definition blank :: "sc_storage \<Rightarrow> bool" where
  "blank s \<longleftrightarrow> (\<forall>a. el_type (el_at s a) = 0 \<longrightarrow> content (el_at s a) = replicate SC_CHECKSUM_LEN 0)"

lemma own_rights: "sc_access_lvl_check_read al al" "sc_access_lvl_check_write al al"
  by (simp_all add: sc_access_lvl_check_read_def sc_access_lvl_check_write_def)

lemma link_new_seen:
  assumes "ready n (Suc m) s" "blank s"
  obtains l s1 where "sc_storage_link_new ctx True s = Some (l, s1)" "ready n m s1" "l \<notin> live s"
    "seen s1 = (seen s)(l \<mapsto> (ctx_access ctx, None))" "arcs s1 = arcs s" "settable ctx l s1" "no_content (el_at s1 l)"
proof -
  note R = assms(1) [unfolded ready_def covered_nil]
  let ?t = "sc_type_link OR sc_type_const"
  have cap: "max_loaded_segments s \<le> int SC_ADDR_SEG_MAX" "int (segments_num s) < max_loaded_segments s" using R by auto
  obtain l s0 s1 where n: "sc_storage_append_el_into_segments ctx s = Some (Some l, s0)"
    "sc_storage_element_unlock l (set_el l (\<lambda>e. e\<lparr>el_type := ?t, el_access := ctx_access ctx\<rparr>) s0) = Some (SC_RESULT_OK, s1)"
    "created s l ((el_at s l)\<lparr>el_type := ?t, el_access := ctx_access ctx\<rparr>) s1"
    "graph_ok s1" "live s1 = insert l (live s)" "arcs s1 = arcs s"
    using new_element_spec [OF _ cap link_type [of True], of ctx "ctx_access ctx"] R by auto
  note c = n(3) [unfolded created_def]
  have ct: "content (el_at s l) = replicate SC_CHECKSUM_LEN 0" using assms(2) c by (simp add: blank_def)
  have b: "?t \<noteq> 0" "?t AND sc_flag_request_deletion = 0" "?t AND sc_type_link \<noteq> 0" "?t AND sc_flag_link_self_container = 0"
    by (simp_all add: sc_bits)
  show thesis
  proof (rule that)
    show "sc_storage_link_new ctx True s = Some (l, s1)"
      using n(1,2) by (simp add: sc_storage_link_new_def sc_storage_link_new_ext_def)
    show "ready n m s1" using R c n(4,5) by (auto simp: ready_def covered_nil)
    show "seen s1 = (seen s)(l \<mapsto> (ctx_access ctx, None))" using created_seen [OF n(3,5,6)] by simp
    show "settable ctx l s1" "no_content (el_at s1 l)"
      using c b ct own_rights by (simp_all add: settable_def sc_element_is_valid_def link_ok_def stored_in_cell_def no_content_def)
  qed (use n created_not_live [OF n(3)] in auto)
qed

lemma arc_new_seen:
  assumes "ready n (Suc m) s" and "b \<in> live s" "e \<in> live s" and "sc_type_node AND t = 0" "t AND sc_type_link = 0"
  obtains x s1 where "sc_storage_arc_new ctx t b e s = Some (x, s1)" "ready n m s1" "x \<notin> live s" "x \<noteq> SC_ADDR_MAKE_EMPTY"
    "seen s1 = (seen s)(x \<mapsto> (ctx_access ctx, Some (arc_type t, b, e)))" "arcs s1 = insert x (arcs s)"
proof -
  note R = assms(1) [unfolded ready_def covered_nil]
  have g: "graph_ok s" and cap: "max_loaded_segments s \<le> int SC_ADDR_SEG_MAX" "int (segments_num s) < max_loaded_segments s"
    using R by auto
  obtain x s1 where r: "sc_storage_arc_new_ext ctx t b e (ctx_access ctx) s = Some (x, s1)"
    "arc_created t b e (ctx_access ctx) s x s1" using arc_new_ext_spec [OF g cap assms(2-4)] by blast
  note sets = arc_created_sets [OF graph_ok_storage [OF g] r(2)]
  have "ready n m s1"
    using R sets r(2) arc_created_graph [OF g r(2) assms(2,3,5)] by (auto simp: ready_def covered_nil arc_created_def)
  then show thesis
    by (intro that [of x s1])
       (use r sets arc_created_seen [OF graph_ok_storage [OF g] r(2)] in \<open>auto simp: sc_storage_arc_new_def arc_created_def\<close>)
qed

lemma content_set_seen:
  assumes "ready n m s" and "settable ctx a s" "a \<in> live s" and sha: "sha_ok sha"
  shows "ready n m (content_event a (set_el a (new_cell sha v) s))" "seen (content_event a (set_el a (new_cell sha v) s)) = seen s"
    "arcs (content_event a (set_el a (new_cell sha v) s)) = arcs s"
proof -
  let ?s = "content_event a (set_el a (new_cell sha v) s)"
  note R = assms(1) [unfolded ready_def covered_nil] and S = assms(2) [unfolded settable_def]
  have e: "el_at ?s = (el_at s)(a := new_cell sha v (el_at s a))" "has_cell ?s = has_cell s" "refs ?s = refs s"
    using S by (simp_all add: content_event_def sc_state el_at_set_el_fun)
  have n: "arc (new_cell sha v e) = arc e" "first_out_arc (new_cell sha v e) = first_out_arc e"
    "first_in_arc (new_cell sha v e) = first_in_arc e" for e by (simp_all add: new_cell_def)
  have "el_type (el_at s a) AND sc_type_link \<noteq> 0" using S by simp
  then have na: "a \<notin> arcs s" using R by (auto simp: graph_ok_def)
  have v: "sc_element_is_valid (new_cell sha v (el_at s a))"
    using S new_cell_type(1,2) [of sha v "el_at s a"] by (auto simp: sc_element_is_valid_def)
  have L: "live ?s = live s" using assms(3) v by (auto simp: live_def e)
  show A: "arcs ?s = arcs s"
  proof -
    have "is_arc (new_cell sha v (el_at s a)) = is_arc (el_at s a)"
      using and_not_and [of sc_flag_link_self_container sc_type_arc_mask]
      by (simp add: is_arc_def new_cell_def sc_bits)
    then show ?thesis using L by (auto simp: arcs_def e)
  qed
  show "seen ?s = seen s" using na new_cell_type(4) [of sha v "el_at s a"] unfolding seen_def L A e(1) by auto
  have "graph_ok ?s"
  proof -
    have "out.chain (el_at ?s) (arcs s) (live s) = out.chain (el_at s) (arcs s) (live s)"
      "inn.chain (el_at ?s) (arcs s) (live s) = inn.chain (el_at s) (arcs s) (live s)"
      by (auto simp: e n intro!: out.chain_cong inn.chain_cong)
    moreover have "storage_ok ?s" using settable_after(1) [OF assms(2) sha, of v] by (simp add: settable_def)
    ultimately show ?thesis using R na unfolding graph_ok_def out_list_def in_list_def A L e(3) by (auto simp: e)
  qed
  then show "ready n m ?s" using R e L by (auto simp: ready_def covered_nil content_event_def sc_state)
qed

subsection \<open>Setting an identifier\<close>

text \<open>The cost of the search before and of one search after.\<close>

definition set_cost :: "nat \<Rightarrow> sc_storage \<Rightarrow> nat" where
  "set_cost n s = n * look_cost s + Suc n * (look_cost s + 14)"

lemma idtf_types:
  "sc_type_node AND idtf_type = 0" "idtf_type AND sc_type_link = 0"
  "sc_type_node AND sc_type_arc_pos_const_perm = 0" "sc_type_arc_pos_const_perm AND sc_type_link = 0"
  "sc_iterator_compare_type (arc_type idtf_type) idtf_type"
  "sc_iterator_compare_type (arc_type sc_type_arc_pos_const_perm) sc_type_arc_pos_const_perm"
  by (simp_all add: sc_iterator_compare_type_def arc_type_def sc_flags_remove_def sc_bits)

lemma unmoved_segments:
  assumes "unmoved s s'" "storage_ok s" "storage_ok s'"
  shows "segments_num s' = segments_num s"
proof -
  have "n < segments_num t \<longleftrightarrow> n < SC_ADDR_SEG_MAX \<and> has_cell t (Addr (of_nat n) 0)" if "storage_ok t" for t n
  proof -
    have "n < SC_ADDR_SEG_MAX" if "n < segments_num t"
      using that \<open>storage_ok t\<close> by (auto simp: storage_ok_def segment_ok_def) blast
    moreover have "n < segments_num t \<longleftrightarrow> segments t n \<noteq> None" using that by (simp add: storage_ok_def)
    moreover have "n < SC_ADDR_SEG_MAX \<Longrightarrow> seg_ix (Addr (of_nat n) 0) = n"
      by (simp add: unat_of_nat sc_limits)
    ultimately show ?thesis by (auto simp: has_cell_def sc_limits)
  qed
  from this [OF assms(2)] this [OF assms(3)] assms(1) have "n < segments_num s' \<longleftrightarrow> n < segments_num s" for n
    by (simp add: unmoved_def)
  then show ?thesis by (metis nat_neq_iff)
qed

lemma ready_unmoved:
  assumes "ready n m s" "unmoved s s'" "covered n' [] s'" "n' \<le> n"
  shows "ready n' m s'"
  using assms unmoved_segments [OF assms(2)]
  by (auto simp: ready_def covered_nil graph_ok_def unmoved_def)

text \<open>A storage with a new link \<open>l\<close>, a connector \<open>x\<close> to it and a mark \<open>y\<close> on the connector.\<close>

definition idtf_added ::
    "sc_memory_context \<Rightarrow> sc_addr \<Rightarrow> sc_addr \<Rightarrow> sc_addr \<Rightarrow> sc_storage \<Rightarrow> sc_storage \<Rightarrow> bool" where
  "idtf_added ctx k a l s s' \<longleftrightarrow> graph_ok s \<and> graph_ok s' \<and> l \<notin> live s \<and> (\<exists>x y. x \<notin> live s \<and> y \<notin> live s \<and> distinct [l, x, y] \<and>
     seen s' = (seen s)(l \<mapsto> (ctx_access ctx, None), x \<mapsto> (ctx_access ctx, Some (arc_type idtf_type, a, l)),
        y \<mapsto> (ctx_access ctx, Some (arc_type sc_type_arc_pos_const_perm, k, x))) \<and>
     arcs s' = insert y (insert x (arcs s)))"

lemma idtf_added_views:
  assumes "idtf_added ctx k a l s s'" and a: "a \<in> live s" "readable ctx s a" and k: "k \<in> live s"
  shows "l \<notin> live s" "l \<in> live s'" "readable ctx s' l" "look_cost s' = look_cost s + 14"
    "z \<in> live s \<Longrightarrow> z \<in> live s' \<and> readable ctx s' z = readable ctx s z"
    "names ctx s' k l' a' \<longleftrightarrow> names ctx s k l' a' \<or> l' = l \<and> a' = a"
proof -
  let ?al = "ctx_access ctx"
  from assms(1) obtain x y where g: "graph_ok s" "graph_ok s'" "l \<notin> live s" and fresh: "x \<notin> live s" "y \<notin> live s" "distinct [l, x, y]"
    and v: "seen s' = (seen s)(l \<mapsto> (?al, None), x \<mapsto> (?al, Some (arc_type idtf_type, a, l)),
      y \<mapsto> (?al, Some (arc_type sc_type_arc_pos_const_perm, k, x)))" and ar: "arcs s' = insert y (insert x (arcs s))"
    by (auto simp: idtf_added_def)
  have lv: "live s' = insert y (insert x (insert l (live s)))" using dom_seen [of s'] dom_seen [of s] unfolding v by auto
  have na: "x \<notin> arcs s" "y \<notin> insert x (arcs s)" using fresh arcs_live by auto
  show "l \<notin> live s" "l \<in> live s'" using g(3) lv by auto
  show "readable ctx s' l" using open_to_seen [of l s' ctx] fresh(3) own_rights unfolding v by (simp add: lv open_to_def)
  show "look_cost s' = look_cost s + 14" using na by (simp add: look_cost_def ar)
  show "z \<in> live s' \<and> readable ctx s' z = readable ctx s z" if "z \<in> live s"
  proof -
    have "seen s' z = seen s z" using that g(3) fresh unfolding v by auto
    with that show ?thesis using open_to_seen [of z s ctx] open_to_seen [of z s' ctx] by (simp add: lv open_to_def)
  qed
  show "names ctx s' k l' a' \<longleftrightarrow> names ctx s k l' a' \<or> l' = l \<and> a' = a"
    by (rule names_extended [OF g(1,2) v g(3) fresh own_rights(1) idtf_types(5,6) a k])
qed

lemma seen_live: "seen s' = (seen s)(a \<mapsto> v) \<Longrightarrow> live s' = insert a (live s)"
  using dom_seen [of s'] dom_seen [of s] by simp

text \<open>The four calls: a link, its content, and the two connectors.\<close>

lemma idtf_created:
  assumes db: "rocks_ok db" "fm_wf db d" "sha_ok sha" and st: "stream_ok st"
    and room: "\<forall>cs. length (links_of (fm_abs db d) cs) < 2 ^ 64 - 1"
    and s: "ready n 3 s" "blank s" and a: "a \<in> live s" and k: "k \<in> live s"
  obtains l s1 st' s2 d' x s3 y s4 where "sc_storage_link_new ctx True s = Some (l, s1)"
    "sc_storage_set_link_content db sha ctx l st s1 d = Some (SC_RESULT_OK, st', s2, d')"
    "sc_storage_arc_new ctx idtf_type a l s2 = Some (x, s3)" "x \<noteq> SC_ADDR_MAKE_EMPTY"
    "sc_storage_arc_new ctx sc_type_arc_pos_const_perm k x s3 = Some (y, s4)" "y \<noteq> SC_ADDR_MAKE_EMPTY"
    "fm_wf db d'" "links_of (fm_abs db d') (sum_of sha (whole st)) = links_of (fm_abs db d) (sum_of sha (whole st)) @ [l]"
    "ready n 0 s4" "idtf_added ctx k a l s s4"
proof -
  let ?al = "ctx_access ctx"
  have three: "3 = Suc (Suc (Suc 0))" by simp
  from link_new_seen [OF s(1) [unfolded three] s(2), of ctx] obtain l s1 where
    L: "sc_storage_link_new ctx True s = Some (l, s1)" "ready n (Suc (Suc 0)) s1" "l \<notin> live s"
    "seen s1 = (seen s)(l \<mapsto> (?al, None))" "arcs s1 = arcs s" "settable ctx l s1" "no_content (el_at s1 l)" .
  let ?s2 = "content_event l (set_el l (new_cell sha (whole st)) s1)"
  from set_link_content_ok [OF db(1,2) st L(6) db(3) room] obtain st' d' where
    C: "sc_storage_set_link_content db sha ctx l st s1 d = Some (SC_RESULT_OK, st', ?s2, d')" "fm_wf db d'"
    "fm_abs db d' = index_keep sha l (whole st) (index_forget sha l (el_at s1 l) (fm_abs db d))" by blast
  have "l \<in> live s1" by (simp add: seen_live [OF L(4)])
  note S2 = content_set_seen [OF L(2,6) this db(3), of "whole st"]
  note l2 = seen_live [OF S2(2) [unfolded L(4)]]
  from arc_new_seen [OF S2(1) _ _ idtf_types(1,2), of a l ctx] a obtain x s3 where
    X: "sc_storage_arc_new ctx idtf_type a l ?s2 = Some (x, s3)" "ready n (Suc 0) s3" "x \<notin> live ?s2" "x \<noteq> SC_ADDR_MAKE_EMPTY"
    "seen s3 = (seen ?s2)(x \<mapsto> (?al, Some (arc_type idtf_type, a, l)))" "arcs s3 = insert x (arcs ?s2)"
    by (auto simp: l2)
  note l3 = seen_live [OF X(5)]
  from arc_new_seen [OF X(2) _ _ idtf_types(3,4), of k x ctx] k obtain y s4 where
    Y: "sc_storage_arc_new ctx sc_type_arc_pos_const_perm k x s3 = Some (y, s4)" "ready n 0 s4" "y \<notin> live s3"
    "y \<noteq> SC_ADDR_MAKE_EMPTY" "seen s4 = (seen s3)(y \<mapsto> (?al, Some (arc_type sc_type_arc_pos_const_perm, k, x)))"
    "arcs s4 = insert y (arcs s3)" by (auto simp: l2 l3)
  have "distinct [l, x, y]" "x \<notin> live s" "y \<notin> live s" using X(3) Y(3) by (auto simp: l2 l3)
  then have "idtf_added ctx k a l s s4" unfolding idtf_added_def
    using s(1) Y(2) L(3) by (intro conjI exI [of _ x] exI [of _ y])
      (simp_all add: ready_def covered_nil Y(5,6) X(5,6) S2(2,3) L(4,5))
  moreover have "links_of (fm_abs db d') (sum_of sha (whole st)) = links_of (fm_abs db d) (sum_of sha (whole st)) @ [l]"
    using L(7) by (simp add: C(3) index_forget_def index_keep_def index_add_def index_store_def)
  ultimately show thesis using that [OF L(1) C(1) X(1,4) Y(1,4) C(2)] Y(2) by blast
qed

text \<open>The only link that names an element afterwards is the new one.\<close>

lemma named_after:
  assumes L: "L = filter (readable ctx s) (links_of (fm_abs db d) (sum_of sha data))"
    and live: "\<forall>l \<in> set (links_of (fm_abs db d) (sum_of sha data)). l \<in> live s"
    and unused: "\<forall>l \<in> set L. \<not> is_named ctx s k l"
    and add: "idtf_added ctx k a l s s'" and a: "a \<in> live s" "readable ctx s a" and k: "k \<in> live s" "readable ctx s k"
    and idx: "links_of (fm_abs db d') (sum_of sha data) = links_of (fm_abs db d) (sum_of sha data) @ [l]"
    and n: "covered (Suc (length L) * (look_cost s + 14)) [] s'"
  shows "L @ [l] = filter (readable ctx s') (links_of (fm_abs db d') (sum_of sha data))"
    "\<forall>l \<in> set (links_of (fm_abs db d') (sum_of sha data)). l \<in> live s'" "searchable ctx k 0 (L @ [l]) s'"
    "filter (is_named ctx s' k) (L @ [l]) = [l]" "names ctx s' k l a' \<longleftrightarrow> a' = a"
proof -
  note V = idtf_added_views [OF add a k(1)]
  show "L @ [l] = filter (readable ctx s') (links_of (fm_abs db d') (sum_of sha data))"
    unfolding idx L using V(3,5) live by (auto intro: filter_cong)
  show "\<forall>l \<in> set (links_of (fm_abs db d') (sum_of sha data)). l \<in> live s'"
    unfolding idx using V(2,5) live by auto
  show "searchable ctx k 0 (L @ [l]) s'"
    using V(2-5) n k live by (auto simp: searchable_def L)
  have "graph_ok s" using add by (simp add: idtf_added_def)
  then have "\<not> names ctx s k l a'" for a' using V(1) names_seen seen_ends(2) by blast
  then show "filter (is_named ctx s' k) (L @ [l]) = [l]" "names ctx s' k l a' \<longleftrightarrow> a' = a"
    using unused V(1) live by (auto simp: V(6) filter_empty_conv L)
qed

text \<open>A concrete storage with one identifier.\<close>

lemma sample_helper:
  "ready n 3 sample \<longleftrightarrow> Suc n < 0xffffffff" "blank sample" "readable ctx sample x" "\<not> names ctx sample k l a"
proof -
  show "ready n 3 sample \<longleftrightarrow> Suc n < 0xffffffff"
    using sample_graph_ok by (auto simp: ready_def covered_nil sample_live sample_refs) (auto simp: sample_def sc_limits)
  show "blank sample"
    by (auto simp: blank_def sample_el_at sample_element_def zero_element_def SC_CHECKSUM_LEN_def sc_bits)
  show "readable ctx sample x" using sample_access(1) by (simp add: readable_def)
  show "\<not> names ctx sample k l a" by (auto simp: names_def sample_arcs sample_el_at sample_element_def)
qed

lemma identified_sample:
  obtains l s' d' where "fm_wf map_db d'" "links_of (fm_abs map_db d') (sum_of some_sha [1, 2, 3]) = [l]"
    "covered (look_cost sample + 14) [] s'" "idtf_added sample_ctx sample_n1 sample_n2 l sample s'"
proof -
  have st: "stream_ok (byte_stream [1, 2, 3])" "whole (byte_stream [1, 2, 3]) = [1, 2, 3]" by (simp_all add: byte_stream_ok)
  have p: "\<forall>cs. length (links_of (fm_abs map_db Map.empty) cs) < 2 ^ 64 - 1" "ready (look_cost sample + 14) 3 sample"
    by (simp_all add: map_db_ok(3) sample_helper look_cost_def sample_arcs)
  show thesis
    by (rule idtf_created [OF map_db_ok(1,2) some_sha_ok st(1) p sample_helper(2) sample_members(2,1), of sample_ctx], rule that)
       (simp_all add: map_db_ok(3) ready_def st(2))
qed

text \<open>
  C11. \<^verbatim>\<open>sc_helper_find_element_by_system_identifier\<close> returns and leaves every element as it is. It fails
  when no indexed link that the caller may read names an element, succeeds when exactly one does, and then
  the result is an element that this link names; it reports an invalid state when there are several. A link
  names an element when a constant connector leads from the element to it and the keynode marks this
  connector, all of them readable.
\<close>

theorem find_identifier_correct:
  assumes "fm_wf db d" and "length data < 2 ^ 32"
    and "L = filter (readable ctx s) (links_of (fm_abs db d) (sum_of sha data))"
    and "\<forall>l \<in> set (links_of (fm_abs db d) (sum_of sha data)). l \<in> live s" and "searchable ctx k 0 L s"
  shows "\<exists>r s'. sc_helper_find_element_by_system_identifier db sha u ctx data
       \<lparr>sc_helper_is_initialized = True, sc_keynodes = Some k\<rparr> s d =
     Some (case filter (\<lambda>l. \<exists>a. names ctx s k l a) L of [] \<Rightarrow> SC_RESULT_ERROR | [l] \<Rightarrow> SC_RESULT_OK
        | _ \<Rightarrow> SC_RESULT_ERROR_INVALID_STATE, r, s') \<and> unmoved s s' \<and>
     (case filter (\<lambda>l. \<exists>a. names ctx s k l a) L of [] \<Rightarrow> r = None | l # _ \<Rightarrow> \<exists>a. r = Some a \<and> names ctx s k l a)"
  using find_by_idtf_ok [OF assms, of u] by blast

theorem find_identifier_correct_witness:
  "\<exists>l s d s'. links_of (fm_abs map_db d) (sum_of some_sha [1, 2, 3]) = [l] \<and> names sample_ctx s sample_n1 l sample_n2 \<and>
     sc_helper_find_element_by_system_identifier map_db some_sha 0 sample_ctx [1, 2, 3]
       \<lparr>sc_helper_is_initialized = True, sc_keynodes = Some sample_n1\<rparr> s d = Some (SC_RESULT_OK, Some sample_n2, s')"
proof -
  obtain l s d where i: "fm_wf map_db d" "links_of (fm_abs map_db d) (sum_of some_sha [1, 2, 3]) = [l]"
    "covered (look_cost sample + 14) [] s" "idtf_added sample_ctx sample_n1 sample_n2 l sample s" using identified_sample .
  have n: "[l] = filter (readable sample_ctx s) (links_of (fm_abs map_db d) (sum_of some_sha [1, 2, 3]))"
    "\<forall>l \<in> set (links_of (fm_abs map_db d) (sum_of some_sha [1, 2, 3])). l \<in> live s" "searchable sample_ctx sample_n1 0 [l] s"
    "filter (is_named sample_ctx s sample_n1) [l] = [l]" "\<And>a. names sample_ctx s sample_n1 l a \<longleftrightarrow> a = sample_n2"
    using named_after [of "[]" sample_ctx sample map_db Map.empty some_sha "[1, 2, 3]", OF _ _ _ i(4)] i(2,3)
    by (simp_all add: map_db_ok(3) sample_helper sample_members)
  from find_identifier_correct [OF i(1) _ n(1-3), of 0] n(4,5) i(2) show ?thesis by (auto split: list.splits)
qed

text \<open>
  C10. Setting a system identifier that no readable link gives to an element yet succeeds, and a search for
  it then succeeds and returns exactly this element. Free cells are assumed to be blank, every indexed
  address to be an element, and three segments to be free.
\<close>

theorem set_then_find:
  assumes db: "rocks_ok db" "fm_wf db d" "sha_ok sha" and data: "length data < 2 ^ 32"
    and room: "\<forall>cs. length (links_of (fm_abs db d) cs) < 2 ^ 64 - 1"
    and L: "L = filter (readable ctx s) (links_of (fm_abs db d) (sum_of sha data))"
    and live: "\<forall>l \<in> set (links_of (fm_abs db d) (sum_of sha data)). l \<in> live s"
    and unused: "\<forall>l \<in> set L. \<not> (\<exists>b. names ctx s k l b)"
    and s: "ready (set_cost (length L) s) 3 s" "blank s"
    and a: "a \<in> live s" "readable ctx s a" and k: "k \<in> live s" "readable ctx s k"
  shows "\<exists>s' d' s''. sc_helper_set_system_identifier db sha u ctx a data
       \<lparr>sc_helper_is_initialized = True, sc_keynodes = Some k\<rparr> s d = Some (SC_RESULT_OK, s', d') \<and>
     sc_helper_find_element_by_system_identifier db sha u ctx data
       \<lparr>sc_helper_is_initialized = True, sc_keynodes = Some k\<rparr> s' d' = Some (SC_RESULT_OK, Some a, s'')"
proof -
  let ?n = "Suc (length L) * (look_cost s + 14)"
  have se: "searchable ctx k ?n L s"
    using s(1) k live by (auto simp: searchable_def ready_def set_cost_def add.commute L)
  from used_ok [OF db(2) data L live se, of u] obtain st r links c st1 s2 where
    f: "memory_stream data = Some st" "sc_storage_find_links_with_content db sha ctx st s d = Some (r, links, c, st1, s)"
    "stream_ok st1" "whole st1 = data"
    "(if r = SC_RESULT_OK then do { ls \<leftarrow> links; any_identified u ctx k ls s } else Some (False, s)) =
       Some (filter (is_named ctx s k) L \<noteq> [], s2)" "unmoved s s2" "covered ?n [] s2" .
  have no: "filter (is_named ctx s k) L = []" using unused by (simp add: filter_empty_conv)
  note V = unmoved_views [OF f(6)]
  have s2: "ready ?n 3 s2" "blank s2" "a \<in> live s2" "k \<in> live s2"
    using ready_unmoved [OF s(1) f(6,7)] s(2) f(6) a k by (simp_all add: set_cost_def blank_def unmoved_def V)
  from idtf_created [OF db f(3) room s2] obtain l s1' st' s2' d' x s3 y s4 where
    I: "sc_storage_link_new ctx True s2 = Some (l, s1')"
    "sc_storage_set_link_content db sha ctx l st1 s1' d = Some (SC_RESULT_OK, st', s2', d')"
    "sc_storage_arc_new ctx idtf_type a l s2' = Some (x, s3)" "x \<noteq> SC_ADDR_MAKE_EMPTY"
    "sc_storage_arc_new ctx sc_type_arc_pos_const_perm k x s3 = Some (y, s4)" "y \<noteq> SC_ADDR_MAKE_EMPTY"
    "fm_wf db d'" "links_of (fm_abs db d') (sum_of sha (whole st1)) = links_of (fm_abs db d) (sum_of sha (whole st1)) @ [l]"
    "ready ?n 0 s4" "idtf_added ctx k a l s2 s4" .
  have set: "sc_helper_set_system_identifier db sha u ctx a data
      \<lparr>sc_helper_is_initialized = True, sc_keynodes = Some k\<rparr> s d = Some (SC_RESULT_OK, s4, d')"
    using f(1,2,5) I(1-6) no by (simp add: sc_helper_set_system_identifier_def)
  have L2: "L = filter (readable ctx s2) (links_of (fm_abs db d) (sum_of sha data))" unfolding L by (simp add: V [abs_def])
  have N: "L @ [l] = filter (readable ctx s4) (links_of (fm_abs db d') (sum_of sha data))"
    "\<forall>l \<in> set (links_of (fm_abs db d') (sum_of sha data)). l \<in> live s4" "searchable ctx k 0 (L @ [l]) s4"
    "filter (is_named ctx s4 k) (L @ [l]) = [l]" "\<And>a'. names ctx s4 k l a' \<longleftrightarrow> a' = a"
    using named_after [OF L2 _ _ I(10)] live unused a k I(8,9) by (simp_all add: V f(4) ready_def)
  from find_by_idtf_ok [OF I(7) data N(1-3), of u] set show ?thesis unfolding N(4) by (auto simp: N(5))
qed

theorem set_then_find_witness:
  "\<exists>s' d' s''. sc_helper_set_system_identifier map_db some_sha 0 sample_ctx sample_n2 [1, 2, 3]
       \<lparr>sc_helper_is_initialized = True, sc_keynodes = Some sample_n1\<rparr> sample Map.empty = Some (SC_RESULT_OK, s', d') \<and>
     sc_helper_find_element_by_system_identifier map_db some_sha 0 sample_ctx [1, 2, 3]
       \<lparr>sc_helper_is_initialized = True, sc_keynodes = Some sample_n1\<rparr> s' d' = Some (SC_RESULT_OK, Some sample_n2, s'')"
  by (rule set_then_find [OF map_db_ok(1,2) some_sha_ok, where L = "[]"])
     (simp_all add: map_db_ok(3) sample_helper sample_members set_cost_def look_cost_def sample_arcs)

subsection \<open>Checking a connector\<close>

text \<open>
  C29. \<^verbatim>\<open>sc_helper_check_arc\<close>, asked about two elements that the caller may read, returns and says
  whether a readable connector of the type leads from the first to the second. The elements stay as they
  are.
\<close>

theorem check_arc_correct:
  assumes c: "covered 4 [] s" and b: "b \<in> live s" "readable ctx s b" and e: "e \<in> live s" "readable ctx s e"
  shows "\<exists>s'. sc_helper_check_arc u ctx b e ty s =
     Some (\<exists>x \<in> arcs s. arc_begin (arc (el_at s x)) = b \<and> arc_end (arc (el_at s x)) = e \<and> fits ctx s ty x, s') \<and> unmoved s s'"
proof -
  note ok = covered_graph [OF c]
  define h where "h x \<longleftrightarrow> arc_begin (arc (el_at s x)) = b \<and> fits ctx s ty x" for x
  let ?it = "fresh ctx sc_iterator3_f_a_f (ParamAddr b) (ParamType ty) (ParamAddr e)"
  have "covered (Suc 0 + 3) [] s" using c by (simp add: numeral_eq_Suc)
  then have "\<exists>s1. guarded_new ctx [b, e] sc_iterator3_f_a_f (ParamAddr b) (ParamType ty) (ParamAddr e) s = Some (Some ?it, s1) \<and>
      covered (Suc 0) [?it] s1 \<and> unmoved s s1 \<and> f_a_f.delivers_rest ?it s (map (\<lambda>x. (b, x, e)) (filter h (in_arcs s e)))"
    using b e in_arcs_list [OF ok, of e]
    by (intro f_a_f.new_delivers [OF _ refl])
       (auto simp: h_def iterator_matches iterator_fields in_list_def fun_eq_iff)
  then obtain s1 where s1: "sc_iterator3_f_a_f_new ctx b ty e s = Some (Some ?it, s1)" "covered (Suc 0) [?it] s1" "unmoved s s1"
    "f_a_f.delivers_rest ?it s1 (map (\<lambda>x. (b, x, e)) (filter h (in_arcs s e)))"
    unfolding sc_iterator3_f_a_f_new_def using f_a_f.delivers_rest_cong by blast
  from f_a_f.next_delivers [OF s1(2,4), of u] obtain it' s2 where
    n: "sc_iterator3_next u ?it s1 = Some (filter h (in_arcs s e) \<noteq> [], it', s2)" "covered 0 [it'] s2" "unmoved s1 s2"
    by auto
  from free_covered [OF n(2)] obtain s3 where f: "sc_iterator3_free it' s2 = Some s3" "unmoved s2 s3" by blast
  have "filter h (in_arcs s e) \<noteq> [] \<longleftrightarrow>
      (\<exists>x \<in> arcs s. arc_begin (arc (el_at s x)) = b \<and> arc_end (arc (el_at s x)) = e \<and> fits ctx s ty x)"
    using in_arcs_set(2) [OF ok e(1)] by (auto simp: filter_empty_conv h_def)
  moreover have "unmoved s s3" using s1(3) n(3) f(2) unmoved_trans by blast
  ultimately show ?thesis using s1(1) n(1) f(1) by (simp add: sc_helper_check_arc_def)
qed

theorem check_arc_correct_witness:
  "\<exists>s'. sc_helper_check_arc 0 sample_ctx sample_n1 sample_n2 sc_type_arc_pos_const_perm sample = Some (True, s')"
proof -
  have "covered 4 [] sample" by (simp add: covered_nil sample_graph_ok sample_live sample_refs)
  moreover have "fits sample_ctx sample sc_type_arc_pos_const_perm sample_arc" 
    by (simp add: fits_def sample_helper sc_iterator_compare_type_def sample_el_at sample_element_def sc_flags_remove_def sc_bits)
  moreover have "arc_begin (arc (el_at sample sample_arc)) = sample_n1" "arc_end (arc (el_at sample sample_arc)) = sample_n2"
    by (simp_all add: sample_el_at sample_element_def)
  ultimately show ?thesis
    using check_arc_correct [of sample sample_n1 sample_ctx sample_n2 0 sc_type_arc_pos_const_perm] sample_members
    by (auto simp: sample_helper sample_arcs)
qed

end
