(* ===== verification/Sc_Sctp_Base.thy ===== *)
theory Sc_Sctp_Base
  imports Sc_Helper Sc_Free Sc_Event Sc_Context
begin

text \<open>
  The network server (\<^verbatim>\<open>sc-network/sctp_server\<close>): constants of the protocol, the binary form of its
  data, the state of the server and the steps all commands share. Data streams and sockets of Qt are
  byte lists; the raw read of \<^verbatim>\<open>QDataStream\<close> is a parameter.
\<close>

subsection \<open>Constants\<close>

definition SCTP_CMD_UNKNOWN :: u8 where "SCTP_CMD_UNKNOWN = 0x00"
definition SCTP_CMD_CHECK_ELEMENT :: u8 where "SCTP_CMD_CHECK_ELEMENT = 0x01"
definition SCTP_CMD_GET_ELEMENT_TYPE :: u8 where "SCTP_CMD_GET_ELEMENT_TYPE = 0x02"
definition SCTP_CMD_ERASE_ELEMENT :: u8 where "SCTP_CMD_ERASE_ELEMENT = 0x03"
definition SCTP_CMD_CREATE_NODE :: u8 where "SCTP_CMD_CREATE_NODE = 0x04"
definition SCTP_CMD_CREATE_LINK :: u8 where "SCTP_CMD_CREATE_LINK = 0x05"
definition SCTP_CMD_CREATE_ARC :: u8 where "SCTP_CMD_CREATE_ARC = 0x06"
definition SCTP_CMD_GET_ARC :: u8 where "SCTP_CMD_GET_ARC = 0x07"
definition SCTP_CMD_GET_LINK_CONTENT :: u8 where "SCTP_CMD_GET_LINK_CONTENT = 0x09"
definition SCTP_CMD_FIND_LINKS :: u8 where "SCTP_CMD_FIND_LINKS = 0x0a"
definition SCTP_CMD_SET_LINK_CONTENT :: u8 where "SCTP_CMD_SET_LINK_CONTENT = 0x0b"
definition SCTP_CMD_ITERATE_ELEMENTS :: u8 where "SCTP_CMD_ITERATE_ELEMENTS = 0x0c"
definition SCTP_CMD_ITERATE_CONSTRUCTION :: u8 where "SCTP_CMD_ITERATE_CONSTRUCTION = 0x0d"
definition SCTP_CMD_EVENT_CREATE :: u8 where "SCTP_CMD_EVENT_CREATE = 0x0e"
definition SCTP_CMD_EVENT_DESTROY :: u8 where "SCTP_CMD_EVENT_DESTROY = 0x0f"
definition SCTP_CMD_EVENT_EMIT :: u8 where "SCTP_CMD_EVENT_EMIT = 0x10"
definition SCTP_CMD_GENERATE_CONSTRUCTION :: u8 where "SCTP_CMD_GENERATE_CONSTRUCTION = 0x11"
definition SCTP_CMD_FIND_ELEMENT_BY_SYSITDF :: u8 where "SCTP_CMD_FIND_ELEMENT_BY_SYSITDF = 0xa0"
definition SCTP_CMD_SET_SYSIDTF :: u8 where "SCTP_CMD_SET_SYSIDTF = 0xa1"
definition SCTP_CMD_STATISTICS :: u8 where "SCTP_CMD_STATISTICS = 0xa2"

lemmas sctp_commands =
  SCTP_CMD_UNKNOWN_def SCTP_CMD_CHECK_ELEMENT_def SCTP_CMD_GET_ELEMENT_TYPE_def SCTP_CMD_ERASE_ELEMENT_def
  SCTP_CMD_CREATE_NODE_def SCTP_CMD_CREATE_LINK_def SCTP_CMD_CREATE_ARC_def SCTP_CMD_GET_ARC_def
  SCTP_CMD_GET_LINK_CONTENT_def SCTP_CMD_FIND_LINKS_def SCTP_CMD_SET_LINK_CONTENT_def
  SCTP_CMD_ITERATE_ELEMENTS_def SCTP_CMD_ITERATE_CONSTRUCTION_def SCTP_CMD_EVENT_CREATE_def
  SCTP_CMD_EVENT_DESTROY_def SCTP_CMD_EVENT_EMIT_def SCTP_CMD_GENERATE_CONSTRUCTION_def
  SCTP_CMD_FIND_ELEMENT_BY_SYSITDF_def SCTP_CMD_SET_SYSIDTF_def SCTP_CMD_STATISTICS_def

definition SCTP_ITERATOR_3F_A_A :: u8 where "SCTP_ITERATOR_3F_A_A = 0"
definition SCTP_ITERATOR_3A_A_F :: u8 where "SCTP_ITERATOR_3A_A_F = 1"
definition SCTP_ITERATOR_3F_A_F :: u8 where "SCTP_ITERATOR_3F_A_F = 2"
definition SCTP_ITERATOR_5F_A_A_A_F :: u8 where "SCTP_ITERATOR_5F_A_A_A_F = 3"
definition SCTP_ITERATOR_5A_A_F_A_F :: u8 where "SCTP_ITERATOR_5A_A_F_A_F = 4"
definition SCTP_ITERATOR_5F_A_F_A_F :: u8 where "SCTP_ITERATOR_5F_A_F_A_F = 5"
definition SCTP_ITERATOR_5F_A_F_A_A :: u8 where "SCTP_ITERATOR_5F_A_F_A_A = 6"
definition SCTP_ITERATOR_5F_A_A_A_A :: u8 where "SCTP_ITERATOR_5F_A_A_A_A = 7"
definition SCTP_ITERATOR_5A_A_F_A_A :: u8 where "SCTP_ITERATOR_5A_A_F_A_A = 8"
definition SCTP_ITERATOR_COUNT :: u8 where "SCTP_ITERATOR_COUNT = 9"

lemmas sctp_iterators =
  SCTP_ITERATOR_3F_A_A_def SCTP_ITERATOR_3A_A_F_def SCTP_ITERATOR_3F_A_F_def SCTP_ITERATOR_5F_A_A_A_F_def
  SCTP_ITERATOR_5A_A_F_A_F_def SCTP_ITERATOR_5F_A_F_A_F_def SCTP_ITERATOR_5F_A_F_A_A_def
  SCTP_ITERATOR_5F_A_A_A_A_def SCTP_ITERATOR_5A_A_F_A_A_def SCTP_ITERATOR_COUNT_def

definition SCTP_RESULT_OK :: u8 where "SCTP_RESULT_OK = 0"
definition SCTP_RESULT_FAIL :: u8 where "SCTP_RESULT_FAIL = 1"

datatype eSctpErrorCode =
    SCTP_NO_ERROR
  | SCTP_ERROR
  | SCTP_ERROR_UNKNOWN_CMD
  | SCTP_ERROR_CMD_READ_PARAMS
  | SCTP_ERROR_CMD_HEADER_READ_TIMEOUT
  | SCTP_ERROR_CMD_PARAM_READ_TIMEOUT

subsection \<open>State\<close>

text \<open>
  A client is served by one object of the class \<^verbatim>\<open>sctpCommand\<close>. The objects are numbered, as are the
  contexts and the subscriptions they hold.
\<close>

record sctpCommand =
  mSendData :: bytes
  mSendEventsCount :: u32
  mEventsSet :: "u32 set"
  mContext :: "ctx_ref option"

record sEventData =
  ed_event :: "event_ref option"
  ed_cmd :: nat
  ed_id :: u32

record 'db sctp_world =
  events :: event_world
  contexts :: context_state
  rocks :: 'db
  mEvents :: "u32 \<rightharpoonup> sEventData"
  mLastEventId :: u32
  commands :: "nat \<rightharpoonup> sctpCommand"

abbreviation memory :: "'db sctp_world \<Rightarrow> sc_storage" where
  "memory w \<equiv> store (events w)"

definition set_memory :: "sc_storage \<Rightarrow> 'db sctp_world \<Rightarrow> 'db sctp_world" where
  "set_memory s w = w\<lparr>events := (events w)\<lparr>store := s\<rparr>\<rparr>"

text \<open>
  What the server is given: the store of contents, the digest, an uninitialised value in the iterators,
  the order of a hash table, the checksum of a dying link, the keynodes, the statistics in a range of time,
  the raw read of Qt, and whether \<^verbatim>\<open>Q_ASSERT\<close> is compiled in.
\<close>

record 'db sctp_env =
  env_db :: "'db rocksdb"
  env_sha :: "bytes \<Rightarrow> bytes"
  env_uninit :: sc_type
  env_order :: "sc_addr list \<Rightarrow> sc_addr list"
  env_self_sum :: "sc_element \<Rightarrow> u8 list"
  env_helper :: sc_helper
  getStatisticsInTimeRange :: "64 word \<Rightarrow> 64 word \<Rightarrow> bytes list"
  readRawData :: "nat \<Rightarrow> bytes \<Rightarrow> bytes \<times> bytes"
  env_debug :: bool

definition Q_ASSERT :: "('db, 'm) sctp_env_scheme \<Rightarrow> bool \<Rightarrow> unit option" where
  "Q_ASSERT E c = (if env_debug E \<and> \<not> c then None else Some ())"

text \<open>The documented behaviour of \<^verbatim>\<open>QDataStream::readRawData\<close> on a byte array: at most so many bytes.\<close>

definition raw_reads :: "('db, 'm) sctp_env_scheme \<Rightarrow> bool" where
  "raw_reads E \<longleftrightarrow> (\<forall>n params. readRawData E n params = (take n params, drop n params))"

definition client :: "nat \<Rightarrow> 'db sctp_world \<Rightarrow> sc_memory_context option" where
  "client c w = do {
     cmd \<leftarrow> commands w c;
     p \<leftarrow> mContext cmd;
     ctx \<leftarrow> ctx_heap (contexts w) p;
     Some \<lparr>ctx_id = ctx_id ctx, ctx_access = ctx_access ctx\<rparr>
   }"

subsection \<open>Reading parameters and writing results\<close>

type_synonym 'db outcome = "(eSctpErrorCode \<times> bytes \<times> 'db sctp_world) option"

definition bytes_word :: "bytes \<Rightarrow> 'a::len word" where
  "bytes_word bs = of_nat (le_nat bs)"

definition word_bytes :: "nat \<Rightarrow> 'a::len word \<Rightarrow> bytes" where
  "word_bytes n x = le_bytes n (unat x)"

text \<open>The macro \<^verbatim>\<open>READ_PARAM\<close>: too few bytes end the command.\<close>

definition READ_PARAM ::
    "'db sctp_env \<Rightarrow> nat \<Rightarrow> (bytes \<Rightarrow> 'a) \<Rightarrow> bytes \<Rightarrow> 'db sctp_world \<Rightarrow> ('a \<Rightarrow> bytes \<Rightarrow> 'db outcome) \<Rightarrow> 'db outcome" where
  "READ_PARAM E n conv params w k =
     (let (d, rest) = readRawData E n params
      in if length d \<noteq> n then Some (SCTP_ERROR_CMD_READ_PARAMS, [], w) else k (conv d) rest)"

definition writeResultHeader :: "u8 \<Rightarrow> u32 \<Rightarrow> u8 \<Rightarrow> u32 \<Rightarrow> bytes" where
  "writeResultHeader cmdCode cmdId resCode resSize =
     [cmdCode] @ word_bytes 4 cmdId @ [resCode] @ word_bytes 4 resSize"

definition cmdHeaderSize :: nat where
  "cmdHeaderSize = 2 * 1 + 2 * 4"

text \<open>The result code of a boolean.\<close>

definition result_code :: "bool \<Rightarrow> u8" where
  "result_code ok = (if ok then SCTP_RESULT_OK else SCTP_RESULT_FAIL)"

text \<open>A socket: the bytes that have come in, and what each wait for more will bring.\<close>

record socket =
  available :: bytes
  arriving :: "bytes list"

fun wait_bytes :: "nat \<Rightarrow> bytes \<Rightarrow> bytes list \<Rightarrow> bool \<times> bytes \<times> bytes list" where
  "wait_bytes n av [] = (n \<le> length av, av, [])"
| "wait_bytes n av (b # bs) = (if n \<le> length av then (True, av, b # bs) else wait_bytes n (av @ b) bs)"

definition waitAvailableBytes :: "socket \<Rightarrow> nat \<Rightarrow> bool \<times> socket" where
  "waitAvailableBytes stream bytesNum =
     (let (ok, av, more) = wait_bytes bytesNum (available stream) (arriving stream)
      in (ok, \<lparr>available = av, arriving = more\<rparr>))"

definition socket_read :: "nat \<Rightarrow> socket \<Rightarrow> bytes \<times> socket" where
  "socket_read n dev = (take n (available dev), dev\<lparr>available := drop n (available dev)\<rparr>)"

end
