(* ===== verification/Sc_Sctp_Events.thy ===== *)
theory Sc_Sctp_Events
  imports Sc_Sctp_Base
begin

text \<open>
  Subscriptions of network clients: \<^verbatim>\<open>sctp_server/sctpEventManager.cpp\<close> and the life of an object
  \<^verbatim>\<open>sctpCommand\<close>. The mutexes of the source make each function one step; \<^verbatim>\<open>destroyEvent\<close> waits for the
  jobs of its subscription while it holds the mutex that the callback of such a job needs.
\<close>

subsection \<open>Numbers of subscriptions\<close>

partial_function (option) find_event_id :: "u32 \<Rightarrow> (u32 \<rightharpoonup> sEventData) \<Rightarrow> u32 \<Rightarrow> u32 option" where
  "find_event_id start evs eventId =
     (if eventId \<noteq> start \<and> evs eventId \<noteq> None \<and> eventId \<noteq> 0 then find_event_id start evs (eventId + 1)
      else Some eventId)"

definition getAvailableEventId :: "'db sctp_world \<Rightarrow> (bool \<times> u32 \<times> 'db sctp_world) option" where
  "getAvailableEventId w = do {
     let start = mLastEventId w;
     eventId \<leftarrow> find_event_id start (mEvents w) (start + 1);
     if eventId \<noteq> start then Some (True, eventId, w\<lparr>mLastEventId := eventId\<rparr>) else Some (False, eventId, w)
   }"

subsection \<open>The manager\<close>

text \<open>The one callback that the server registers.\<close>

definition events_callback :: callback where "events_callback = 0"

definition createEvent ::
    "'db sctp_env \<Rightarrow> sc_memory_context \<Rightarrow> sc_event_type \<Rightarrow> sc_addr \<Rightarrow> nat \<Rightarrow> 'db sctp_world \<Rightarrow>
     (bool \<times> u32 \<times> 'db sctp_world) option" where
  "createEvent E ctx t addr cmd w = do {
     (ok, event, w1) \<leftarrow> getAvailableEventId w;
     if \<not> ok then Some (False, event, w1)
     else do {
       (p, ev) \<leftarrow> sc_event_new ctx addr t (unat event) (Some events_callback) None (events w1);
       Q_ASSERT E (mEvents w1 event = None);
       let evt = \<lparr>ed_event = p, ed_cmd = cmd, ed_id = event\<rparr>;
       Some (True, event, w1\<lparr>events := ev, mEvents := (mEvents w1)(event \<mapsto> evt)\<rparr>)
     }
   }"

definition destroyEvent :: "'db sctp_env \<Rightarrow> u32 \<Rightarrow> 'db sctp_world \<Rightarrow> (bool \<times> 'db sctp_world) option" where
  "destroyEvent E event w = (case mEvents w event of
       None \<Rightarrow> Some (False, w)
     | Some it \<Rightarrow> do {
         Q_ASSERT E (ed_id it = event);
         p \<leftarrow> ed_event it;
         (r, ev) \<leftarrow> sc_event_destroy p (events w);
         if r \<noteq> SC_RESULT_OK then Some (False, w\<lparr>events := ev\<rparr>)
         else Some (True, w\<lparr>events := ev, mEvents := (mEvents w)(event := None)\<rparr>)
       })"

fun destroy_managed :: "u32 list \<Rightarrow> 'db sctp_world \<Rightarrow> 'db sctp_world option" where
  "destroy_managed [] w = Some w"
| "destroy_managed (i # ids) w = do {
     evt \<leftarrow> mEvents w i;
     p \<leftarrow> ed_event evt;
     (_, ev) \<leftarrow> sc_event_destroy p (events w);
     destroy_managed ids (w\<lparr>events := ev\<rparr>)
   }"

definition manager_shutdown :: "'db sctp_world \<Rightarrow> 'db sctp_world option" where
  "manager_shutdown w = do {
     w1 \<leftarrow> destroy_managed (sorted_list_of_set (dom (mEvents w))) w;
     Some (w1\<lparr>mEvents := Map.empty\<rparr>)
   }"

subsection \<open>Notifications\<close>

definition processEventEmit ::
    "nat \<Rightarrow> u32 \<Rightarrow> sc_addr \<Rightarrow> sc_addr \<Rightarrow> 'db sctp_world \<Rightarrow> (sc_result \<times> 'db sctp_world) option" where
  "processEventEmit c eventId el_addr arg_addr w = do {
     cmd \<leftarrow> commands w c;
     let cmd1 = cmd\<lparr>mSendData := mSendData cmd @ word_bytes 4 eventId @ addr_bytes el_addr @ addr_bytes arg_addr,
                    mSendEventsCount := mSendEventsCount cmd + 1\<rparr>;
     Some (SC_RESULT_OK, w\<lparr>commands := (commands w)(c \<mapsto> cmd1)\<rparr>)
   }"

definition eventsCallback ::
    "'db sctp_env \<Rightarrow> event_ref \<Rightarrow> sc_addr \<Rightarrow> 'db sctp_world \<Rightarrow> (sc_result \<times> 'db sctp_world) option" where
  "eventsCallback E event arg w = do {
     data \<leftarrow> sc_event_get_data event (events w);
     (case mEvents w (of_nat data) of
        None \<Rightarrow> Some (SC_RESULT_ERROR_INVALID_STATE, w)
      | Some evt \<Rightarrow> do {
          Q_ASSERT E (ed_event evt = Some event);
          el \<leftarrow> sc_event_get_element event (events w);
          (_, w1) \<leftarrow> processEventEmit (ed_cmd evt) (ed_id evt) el arg w;
          Some (SC_RESULT_OK, w1)
        })
   }"

subsection \<open>The life of a client\<close>

definition new_command :: "nat \<Rightarrow> 'db sctp_world \<Rightarrow> 'db sctp_world" where
  "new_command c w = w\<lparr>commands := (commands w)(c \<mapsto>
     \<lparr>mSendData = [], mSendEventsCount = 0, mEventsSet = {}, mContext = None\<rparr>)\<rparr>"

definition command_init :: "nat \<Rightarrow> 'db sctp_world \<Rightarrow> 'db sctp_world option" where
  "command_init c w = do {
     cmd \<leftarrow> commands w c;
     (p, cs) \<leftarrow> sc_memory_context_new sc_access_lvl_make_min (contexts w);
     Some (w\<lparr>contexts := cs, commands := (commands w)(c \<mapsto> cmd\<lparr>mContext := p\<rparr>)\<rparr>)
   }"

fun destroy_events :: "'db sctp_env \<Rightarrow> u32 list \<Rightarrow> 'db sctp_world \<Rightarrow> 'db sctp_world option" where
  "destroy_events E [] w = Some w"
| "destroy_events E (i # ids) w = do { (_, w1) \<leftarrow> destroyEvent E i w; destroy_events E ids w1 }"

definition command_shutdown :: "'db sctp_env \<Rightarrow> nat \<Rightarrow> 'db sctp_world \<Rightarrow> 'db sctp_world option" where
  "command_shutdown E c w = do {
     cmd \<leftarrow> commands w c;
     w1 \<leftarrow> destroy_events E (sorted_list_of_set (mEventsSet cmd)) w;
     cs \<leftarrow> sc_memory_context_free (mContext cmd) (contexts w1);
     cmd1 \<leftarrow> commands w1 c;
     Some (w1\<lparr>contexts := cs, commands := (commands w1)(c \<mapsto> cmd1\<lparr>mEventsSet := {}, mContext := None\<rparr>)\<rparr>)
   }"

end
