(* ===== verification/Sc_Sctp_Iter.thy ===== *)
theory Sc_Sctp_Iter
  imports Sc_Sctp_Base Sc_Iterator5
begin

text \<open>
  Chains of iterators sent by a client: the class \<^verbatim>\<open>IterConstsr\<close> of \<^verbatim>\<open>sctp_server/sctpCommand.cpp\<close>. The
  arguments of an iterator are types, addresses, or results of the iterators before it. Reading or writing
  outside of a vector is \<open>None\<close>.
\<close>

subsection \<open>One iterator\<close>

record IterParam =
  ip_is_type :: bool
  ip_type :: sc_type
  ip_addr :: sc_addr
  ip_repl :: u8

record IteratorData =
  m_type :: u8
  m_repl :: "u8 list"
  m_replCount :: u8
  m_args :: "IterParam list"
  m_it3 :: "sc_iterator3 option"
  m_it5 :: "sc_iterator5 option"

definition new_param :: IterParam where
  "new_param = \<lparr>ip_is_type = False, ip_type = 0, ip_addr = SC_ADDR_MAKE_EMPTY, ip_repl = 255\<rparr>"

definition isRepl :: "IterParam \<Rightarrow> bool" where
  "isRepl p \<longleftrightarrow> ip_repl p \<noteq> 255"

definition new_iterator_data :: IteratorData where
  "new_iterator_data = \<lparr>m_type = SCTP_ITERATOR_COUNT, m_repl = replicate 5 255, m_replCount = 0,
     m_args = replicate 5 new_param, m_it3 = None, m_it5 = None\<rparr>"

definition argsCount :: "IteratorData \<Rightarrow> nat" where
  "argsCount it = (if m_type it \<ge> SCTP_ITERATOR_3F_A_A \<and> m_type it \<le> SCTP_ITERATOR_3F_A_F then 3
     else if m_type it \<ge> SCTP_ITERATOR_5F_A_A_A_F \<and> m_type it \<le> SCTP_ITERATOR_5A_A_F_A_A then 5
     else 0)"

definition fixedCount :: "IteratorData \<Rightarrow> nat" where
  "fixedCount it =
     (if m_type it \<in> {SCTP_ITERATOR_5F_A_A_A_A, SCTP_ITERATOR_5A_A_F_A_A, SCTP_ITERATOR_3F_A_A, SCTP_ITERATOR_3A_A_F} then 1
      else if m_type it \<in> {SCTP_ITERATOR_5F_A_F_A_A, SCTP_ITERATOR_5A_A_F_A_F, SCTP_ITERATOR_5F_A_A_A_F, SCTP_ITERATOR_3F_A_F} then 2
      else if m_type it = SCTP_ITERATOR_5F_A_F_A_F then 3
      else 0)"

definition buildRepl :: "'db sctp_env \<Rightarrow> IteratorData \<Rightarrow> bytes \<Rightarrow> IteratorData \<times> bytes" where
  "buildRepl E it params =
     (let count = fixedCount it;
          (d, rest) = readRawData E count params;
          repl = d @ drop (length d) (m_repl it)
      in (it\<lparr>m_repl := repl, m_replCount := m_replCount it + of_nat (length (filter (\<lambda>r. r \<noteq> 255) (take count repl)))\<rparr>, rest))"

text \<open>Which arguments are types.\<close>

definition arg_kinds :: "u8 \<Rightarrow> bool list" where
  "arg_kinds t =
     (if t = SCTP_ITERATOR_3F_A_F then [False, True, False]
      else if t = SCTP_ITERATOR_3F_A_A then [False, True, True]
      else if t = SCTP_ITERATOR_3A_A_F then [True, True, False]
      else if t = SCTP_ITERATOR_5F_A_F_A_F then [False, True, False, True, False]
      else if t = SCTP_ITERATOR_5A_A_F_A_F then [True, True, False, True, False]
      else if t = SCTP_ITERATOR_5F_A_F_A_A then [False, True, False, True, True]
      else if t = SCTP_ITERATOR_5F_A_A_A_F then [False, True, True, True, False]
      else if t = SCTP_ITERATOR_5F_A_A_A_A then [False, True, True, True, True]
      else if t = SCTP_ITERATOR_5A_A_F_A_A then [True, True, False, True, True]
      else [])"

definition preapreArgs :: "IteratorData \<Rightarrow> IteratorData" where
  "preapreArgs it = (let ks = arg_kinds (m_type it)
     in it\<lparr>m_args := map2 (\<lambda>p k. p\<lparr>ip_is_type := k\<rparr>) (m_args it) ks @ drop (length ks) (m_args it)\<rparr>)"

text \<open>An argument that is cut off keeps the zero bytes it was created with.\<close>

fun build_args :: "'db sctp_env \<Rightarrow> u8 list \<Rightarrow> IterParam list \<Rightarrow> bytes \<Rightarrow> IterParam list \<times> bytes" where
  "build_args E repl [] params = ([], params)"
| "build_args E repl (p # ps) params =
     (if ip_is_type p
      then let (d, rest) = readRawData E 2 params;
               (qs, rest1) = build_args E repl ps rest
           in (p\<lparr>ip_type := bytes_word d\<rparr> # qs, rest1)
      else let p1 = p\<lparr>ip_repl := hd repl\<rparr>
           in if \<not> isRepl p1
              then let (d, rest) = readRawData E 4 params;
                       (qs, rest1) = build_args E (tl repl) ps rest
                   in (p1\<lparr>ip_addr := bytes_addr (d @ replicate (4 - length d) 0)\<rparr> # qs, rest1)
              else let (qs, rest1) = build_args E (tl repl) ps params in (p1 # qs, rest1))"

definition buildParams :: "'db sctp_env \<Rightarrow> IteratorData \<Rightarrow> bytes \<Rightarrow> IteratorData \<times> bytes" where
  "buildParams E it params =
     (let count = argsCount it;
          it1 = preapreArgs it;
          (args, rest) = build_args E (m_repl it1) (take count (m_args it1)) params
      in (it1\<lparr>m_args := args @ drop count (m_args it1)\<rparr>, rest))"

definition scIterator3Type :: "u8 \<Rightarrow> sc_iterator3_type option" where
  "scIterator3Type t =
     (if t = SCTP_ITERATOR_3F_A_A then Some sc_iterator3_f_a_a
      else if t = SCTP_ITERATOR_3A_A_F then Some sc_iterator3_a_a_f
      else if t = SCTP_ITERATOR_3F_A_F then Some sc_iterator3_f_a_f
      else None)"

definition scIterator5Type :: "u8 \<Rightarrow> sc_iterator5_type option" where
  "scIterator5Type t =
     (if t = SCTP_ITERATOR_5F_A_A_A_F then Some sc_iterator5_f_a_a_a_f
      else if t = SCTP_ITERATOR_5A_A_F_A_F then Some sc_iterator5_a_a_f_a_f
      else if t = SCTP_ITERATOR_5F_A_F_A_F then Some sc_iterator5_f_a_f_a_f
      else if t = SCTP_ITERATOR_5F_A_F_A_A then Some sc_iterator5_f_a_f_a_a
      else if t = SCTP_ITERATOR_5F_A_A_A_A then Some sc_iterator5_f_a_a_a_a
      else if t = SCTP_ITERATOR_5A_A_F_A_A then Some sc_iterator5_a_a_f_a_a
      else None)"

text \<open>The place of a fixed argument, \<open>None\<close> for \<open>-1\<close>.\<close>

definition fixedPos :: "IteratorData \<Rightarrow> nat \<Rightarrow> nat option" where
  "fixedPos it pos = (let t = m_type it in
     if t = SCTP_ITERATOR_3F_A_A then (if pos = 0 then Some 0 else None)
     else if t = SCTP_ITERATOR_3A_A_F then (if pos = 0 then Some 2 else None)
     else if t = SCTP_ITERATOR_3F_A_F then (if pos = 0 then Some 0 else if pos = 1 then Some 2 else None)
     else if t = SCTP_ITERATOR_5F_A_A_A_F then (if pos = 0 then Some 0 else if pos = 1 then Some 4 else None)
     else if t = SCTP_ITERATOR_5A_A_F_A_F then (if pos = 0 then Some 2 else if pos = 1 then Some 4 else None)
     else if t = SCTP_ITERATOR_5F_A_F_A_F then
       (if pos = 0 then Some 0 else if pos = 1 then Some 2 else if pos = 2 then Some 4 else None)
     else if t = SCTP_ITERATOR_5F_A_F_A_A then (if pos = 0 then Some 0 else if pos = 1 then Some 2 else None)
     else if t = SCTP_ITERATOR_5F_A_A_A_A then (if pos = 0 then Some 0 else None)
     else if t = SCTP_ITERATOR_5A_A_F_A_A then (if pos = 0 then Some 2 else None)
     else None)"

subsection \<open>Vectors of addresses\<close>

definition vec_at :: "'a list \<Rightarrow> nat \<Rightarrow> 'a option" where
  "vec_at xs i = (if i < length xs then Some (xs ! i) else None)"

definition vec_put :: "'a list \<Rightarrow> nat \<Rightarrow> 'a \<Rightarrow> 'a list option" where
  "vec_put xs i v = (if i < length xs then Some (xs[i := v]) else None)"

subsection \<open>Generation from one iterator\<close>

definition generateNodeLink :: "sc_memory_context \<Rightarrow> sc_type \<Rightarrow> sc_storage \<Rightarrow> (sc_addr \<times> sc_storage) option" where
  "generateNodeLink ctx t s =
     (if t AND sc_type_link \<noteq> 0 then sc_storage_link_new ctx True s
      else if t AND sc_type_node \<noteq> 0 then sc_storage_node_new ctx t s
      else Some (SC_ADDR_MAKE_EMPTY, s))"

definition generate_one ::
    "'db sctp_env \<Rightarrow> sc_memory_context \<Rightarrow> IteratorData \<Rightarrow> sc_addr list \<Rightarrow> nat \<Rightarrow> sc_storage \<Rightarrow>
     (bool \<times> sc_addr list \<times> sc_storage) option" where
  "generate_one E ctx it result pos s =
     (if argsCount it = 3 then do {
        itType \<leftarrow> scIterator3Type (m_type it);
        (r1, s1) \<leftarrow> (if itType = sc_iterator3_a_a_f then do {
             (a, s1) \<leftarrow> generateNodeLink ctx (ip_type (m_args it ! 0)) s;
             r1 \<leftarrow> vec_put result pos a;
             Some (r1, s1)
           }
           else Some (result, s));
        a \<leftarrow> vec_at r1 pos;
        if SC_ADDR_IS_EMPTY a then Some (False, r1, s1)
        else do {
          (r2, s2) \<leftarrow> (if itType = sc_iterator3_f_a_a then do {
               (b, s2) \<leftarrow> generateNodeLink ctx (ip_type (m_args it ! 2)) s1;
               r2 \<leftarrow> vec_put r1 (pos + 2) b;
               Some (r2, s2)
             }
             else Some (r1, s1));
          b \<leftarrow> vec_at r2 (pos + 2);
          if SC_ADDR_IS_EMPTY b then do {
            (_, s3) \<leftarrow> sc_storage_element_free (env_order E) (env_self_sum E) ctx a s2;
            r3 \<leftarrow> vec_put r2 pos SC_ADDR_MAKE_EMPTY;
            Some (False, r3, s3)
          }
          else do {
            (x, s3) \<leftarrow> sc_storage_arc_new ctx (ip_type (m_args it ! 1)) a b s2;
            r3 \<leftarrow> vec_put r2 (pos + 1) x;
            Some (\<not> SC_ADDR_IS_EMPTY x, r3, s3)
          }
        }
      }
      else Some (False, result, s))"

subsection \<open>Iteration\<close>

definition param_of :: "IterParam \<Rightarrow> sc_iterator_param" where
  "param_of p = (if ip_is_type p then ParamType (ip_type p) else ParamAddr (ip_addr p))"

definition stopIterate :: "IteratorData \<Rightarrow> sc_storage \<Rightarrow> (IteratorData \<times> sc_storage) option" where
  "stopIterate it s =
     (if argsCount it = 3 then (case m_it3 it of
          None \<Rightarrow> Some (it, s)
        | Some i \<Rightarrow> do { s1 \<leftarrow> sc_iterator3_free i s; Some (it\<lparr>m_it3 := None\<rparr>, s1) })
      else if argsCount it = 5 then (case m_it5 it of
          None \<Rightarrow> Some (it, s)
        | Some i \<Rightarrow> do { s1 \<leftarrow> sc_iterator5_free i s; Some (it\<lparr>m_it5 := None\<rparr>, s1) })
      else Some (it, s))"

definition startIterate :: "sc_memory_context \<Rightarrow> IteratorData \<Rightarrow> sc_storage \<Rightarrow> (IteratorData \<times> sc_storage) option" where
  "startIterate ctx it0 s0 = do {
     (it, s) \<leftarrow> stopIterate it0 s0;
     let p = (\<lambda>i. param_of (m_args it ! i));
     if argsCount it = 3 then do {
       t \<leftarrow> scIterator3Type (m_type it);
       (i, s1) \<leftarrow> sc_iterator3_new ctx t (p 0) (p 1) (p 2) s;
       Some (it\<lparr>m_it3 := i\<rparr>, s1)
     }
     else if argsCount it = 5 then do {
       t \<leftarrow> scIterator5Type (m_type it);
       (i, s1) \<leftarrow> sc_iterator5_new ctx t (p 0) (p 1) (p 2) (p 3) (p 4) s;
       Some (it\<lparr>m_it5 := i\<rparr>, s1)
     }
     else Some (it, s)
   }"

definition nextIterate :: "sc_type \<Rightarrow> IteratorData \<Rightarrow> sc_storage \<Rightarrow> (bool \<times> IteratorData \<times> sc_storage) option" where
  "nextIterate u it s =
     (if argsCount it = 3 \<and> m_it3 it \<noteq> None then do {
        i \<leftarrow> m_it3 it;
        (more, i1, s1) \<leftarrow> sc_iterator3_next u i s;
        Some (more, it\<lparr>m_it3 := Some i1\<rparr>, s1)
      }
      else if argsCount it = 5 \<and> m_it5 it \<noteq> None then do {
        i \<leftarrow> m_it5 it;
        (more, i1, s1) \<leftarrow> sc_iterator5_next u i s;
        Some (more, it\<lparr>m_it5 := Some i1\<rparr>, s1)
      }
      else Some (False, it, s))"

fun put_all :: "sc_addr list \<Rightarrow> nat \<Rightarrow> sc_addr list \<Rightarrow> sc_addr list option" where
  "put_all result pos [] = Some result"
| "put_all result pos (a # as) = do { r \<leftarrow> vec_put result pos a; put_all r (Suc pos) as }"

definition copyResults :: "IteratorData \<Rightarrow> sc_addr list \<Rightarrow> nat \<Rightarrow> sc_addr list option" where
  "copyResults it result pos =
     (if argsCount it = 3 then do { i \<leftarrow> m_it3 it; put_all result pos [result0 i, result1 i, result2 i] }
      else if argsCount it = 5 then do { i \<leftarrow> m_it5 it; put_all result pos (results5 i) }
      else Some result)"

subsection \<open>The chain\<close>

fun build_iterators :: "'db sctp_env \<Rightarrow> nat \<Rightarrow> bool \<Rightarrow> bytes \<Rightarrow> IteratorData list option" where
  "build_iterators E 0 first params = Some []"
| "build_iterators E (Suc n) first params =
     (let (d, rest) = readRawData E 1 params
      in if length d \<noteq> 1 then None
         else let it = new_iterator_data\<lparr>m_type := hd d\<rparr>;
                  (it1, rest1) = (if first then (it, rest) else buildRepl E it rest);
                  (it2, rest2) = buildParams E it1 rest1
              in map_option ((#) it2) (build_iterators E n False rest2))"

text \<open>\<open>None\<close> is the result false.\<close>

definition build :: "'db sctp_env \<Rightarrow> bytes \<Rightarrow> IteratorData list option" where
  "build E params =
     (let (d, rest) = readRawData E 1 params
      in if length d \<noteq> 1 then None
         else if hd d > 50 then None
         else build_iterators E (unat (hd d)) True rest)"

fun oneResultSize :: "IteratorData list \<Rightarrow> u8" where
  "oneResultSize [] = 0"
| "oneResultSize (it # its) = of_nat (argsCount it) + oneResultSize its"

text \<open>The arguments that are results of earlier iterators.\<close>

fun apply_repls :: "'db sctp_env \<Rightarrow> nat \<Rightarrow> sc_addr list \<Rightarrow> nat list \<Rightarrow> IteratorData \<Rightarrow> IteratorData option" where
  "apply_repls E resultPos result [] it = Some it"
| "apply_repls E resultPos result (i # is) it =
     (let repl = m_repl it ! i
      in if repl = 255 then apply_repls E resultPos result is it
         else do {
           Q_ASSERT E (unat repl < resultPos);
           pos \<leftarrow> fixedPos it i;
           Q_ASSERT E (pos < argsCount it);
           a \<leftarrow> vec_at result (unat repl);
           Q_ASSERT E (\<not> SC_ADDR_IS_EMPTY a);
           Q_ASSERT E (isRepl (m_args it ! pos));
           Q_ASSERT E (\<not> ip_is_type (m_args it ! pos));
           apply_repls E resultPos result is (it\<lparr>m_args := (m_args it)[pos := (m_args it ! pos)\<lparr>ip_addr := a\<rparr>]\<rparr>)
         })"

text \<open>The loop over the results of one iterator; \<open>body\<close> handles a result.\<close>

partial_function (option) iterate_loop ::
    "sc_type \<Rightarrow> nat \<Rightarrow> (sc_addr list \<Rightarrow> sc_addr list \<Rightarrow> sc_storage \<Rightarrow> (sc_addr list \<times> sc_addr list \<times> sc_storage) option) \<Rightarrow>
     IteratorData \<Rightarrow> sc_addr list \<Rightarrow> sc_addr list \<Rightarrow> sc_storage \<Rightarrow>
     (IteratorData \<times> sc_addr list \<times> sc_addr list \<times> sc_storage) option" where
  "iterate_loop u pos body it result results s = do {
     (more, it1, s1) \<leftarrow> nextIterate u it s;
     if \<not> more then Some (it1, result, results, s1)
     else do {
       result1 \<leftarrow> copyResults it1 result pos;
       (result2, results2, s2) \<leftarrow> body result1 results s1;
       iterate_loop u pos body it1 result2 results2 s2
     }
   }"

text \<open>
  One level of the recursion, on the iterators that are left; \<open>first\<close> is \<^verbatim>\<open>itIdx == 0\<close>. The
  arguments that are replaced are written anew on every call.
\<close>

primrec iterateStep ::
    "'db sctp_env \<Rightarrow> sc_memory_context \<Rightarrow> IteratorData list \<Rightarrow> bool \<Rightarrow> u8 \<Rightarrow> sc_addr list \<Rightarrow> sc_addr list \<Rightarrow> sc_storage \<Rightarrow>
     (sc_addr list \<times> sc_addr list \<times> sc_storage) option" where
  "iterateStep E ctx [] = (\<lambda>first resultPos result results s. None)"
| "iterateStep E ctx (it # its) = (\<lambda>first resultPos result results s. do {
     Q_ASSERT E (unat resultPos < length result);
     it1 \<leftarrow> (if first then Some it else apply_repls E (unat resultPos) result [0..<fixedCount it] it);
     (it2, s1) \<leftarrow> startIterate ctx it1 s;
     (it3, result1, results1, s2) \<leftarrow> iterate_loop (env_uninit E) (unat resultPos)
        (\<lambda>r rs t. if its = [] then Some (r, rs @ r, t)
          else iterateStep E ctx its False (resultPos + of_nat (argsCount it)) r rs t) it2 result results s1;
     (_, s3) \<leftarrow> stopIterate it3 s2;
     Some (result1, results1, s3)
   })"

definition iterate :: "'db sctp_env \<Rightarrow> sc_memory_context \<Rightarrow> IteratorData list \<Rightarrow> sc_storage \<Rightarrow> (sc_addr list \<times> sc_storage) option" where
  "iterate E ctx its s = do {
     (_, results, s1) \<leftarrow> iterateStep E ctx its True 0 (replicate (unat (oneResultSize its)) SC_ADDR_MAKE_EMPTY) [] s;
     Some (results, s1)
   }"

primrec generateStep ::
    "'db sctp_env \<Rightarrow> sc_memory_context \<Rightarrow> IteratorData list \<Rightarrow> bool \<Rightarrow> u8 \<Rightarrow> sc_addr list \<Rightarrow> sc_storage \<Rightarrow>
     (bool \<times> sc_addr list \<times> sc_storage) option" where
  "generateStep E ctx [] = (\<lambda>first resultPos result s. None)"
| "generateStep E ctx (it # its) = (\<lambda>first resultPos result s. do {
     Q_ASSERT E (unat resultPos < length result);
     it1 \<leftarrow> (if first then Some it else apply_repls E (unat resultPos) result [0..<fixedCount it] it);
     (ok, result1, s1) \<leftarrow> generate_one E ctx it1 result (unat resultPos) s;
     if ok then generateStep E ctx its False (resultPos + of_nat (argsCount it)) result1 s1
     else Some (False, result1, s1)
   })"

definition generate :: "'db sctp_env \<Rightarrow> sc_memory_context \<Rightarrow> IteratorData list \<Rightarrow> sc_storage \<Rightarrow>
     (bool \<times> sc_addr list \<times> sc_storage) option" where
  "generate E ctx its s =
     generateStep E ctx its True 0 (replicate (unat (oneResultSize its)) SC_ADDR_MAKE_EMPTY) s"

end
