(* ===== verification/Sc_Sctp.thy ===== *)
theory Sc_Sctp
  imports Sc_Sctp_Events Sc_Sctp_Iter
begin

text \<open>
  The commands of the network protocol: \<^verbatim>\<open>sctp_server/sctpCommand.cpp\<close> and the loop of
  \<^verbatim>\<open>sctp_server/sctpClient.cpp\<close>. A command reads its parameters, calls the memory and writes its
  reply, which is returned as bytes. A failed \<^verbatim>\<open>Q_ASSERT\<close>, an array of negative length and a division by
  zero are \<open>None\<close>.
\<close>

subsection \<open>Elements\<close>

definition processCheckElement :: "'db sctp_env \<Rightarrow> nat \<Rightarrow> u32 \<Rightarrow> bytes \<Rightarrow> 'db sctp_world \<Rightarrow> 'db outcome" where
  "processCheckElement E c cmdId params w =
     READ_PARAM E 4 bytes_addr params w (\<lambda>addr _. do {
       (ok, s) \<leftarrow> sc_storage_is_element addr (memory w);
       Some (SCTP_NO_ERROR, writeResultHeader SCTP_CMD_CHECK_ELEMENT cmdId (result_code ok) 0, set_memory s w)
     })"

definition processGetElementType :: "'db sctp_env \<Rightarrow> nat \<Rightarrow> u32 \<Rightarrow> bytes \<Rightarrow> 'db sctp_world \<Rightarrow> 'db outcome" where
  "processGetElementType E c cmdId params w =
     READ_PARAM E 4 bytes_addr params w (\<lambda>addr _. do {
       ctx \<leftarrow> client c w;
       (r, t, s) \<leftarrow> sc_storage_get_element_type ctx addr (memory w);
       let ok = (r = SC_RESULT_OK);
       Some (SCTP_NO_ERROR,
         writeResultHeader SCTP_CMD_GET_ELEMENT_TYPE cmdId (result_code ok) (if ok then 2 else 0) @
         (if ok then word_bytes 2 (case t of Some v \<Rightarrow> v | None \<Rightarrow> 0) else []), set_memory s w)
     })"

definition processElementErase :: "'db sctp_env \<Rightarrow> nat \<Rightarrow> u32 \<Rightarrow> bytes \<Rightarrow> 'db sctp_world \<Rightarrow> 'db outcome" where
  "processElementErase E c cmdId params w =
     READ_PARAM E 4 bytes_addr params w (\<lambda>addr _. do {
       ctx \<leftarrow> client c w;
       (r, s) \<leftarrow> sc_storage_element_free (env_order E) (env_self_sum E) ctx addr (memory w);
       Some (SCTP_NO_ERROR, writeResultHeader SCTP_CMD_ERASE_ELEMENT cmdId (result_code (r = SC_RESULT_OK)) 0, set_memory s w)
     })"

text \<open>The reply with a new address; a failed \<^verbatim>\<open>processCreateArc\<close> answers with the code of another command.\<close>

definition created_reply :: "u8 \<Rightarrow> u8 \<Rightarrow> u32 \<Rightarrow> sc_addr \<Rightarrow> eSctpErrorCode \<times> bytes" where
  "created_reply code fail_code cmdId addr =
     (if \<not> SC_ADDR_IS_EMPTY addr
      then (SCTP_NO_ERROR, writeResultHeader code cmdId SCTP_RESULT_OK 4 @ addr_bytes addr)
      else (SCTP_ERROR, writeResultHeader fail_code cmdId SCTP_RESULT_FAIL 0))"

definition processCreateNode :: "'db sctp_env \<Rightarrow> nat \<Rightarrow> u32 \<Rightarrow> bytes \<Rightarrow> 'db sctp_world \<Rightarrow> 'db outcome" where
  "processCreateNode E c cmdId params w =
     READ_PARAM E 2 bytes_word params w (\<lambda>t _. do {
       ctx \<leftarrow> client c w;
       (addr, s) \<leftarrow> sc_storage_node_new ctx t (memory w);
       let (result, out) = created_reply SCTP_CMD_CREATE_NODE SCTP_CMD_CREATE_NODE cmdId addr;
       Some (result, out, set_memory s w)
     })"

definition processCreateLink :: "'db sctp_env \<Rightarrow> nat \<Rightarrow> u32 \<Rightarrow> bytes \<Rightarrow> 'db sctp_world \<Rightarrow> 'db outcome" where
  "processCreateLink E c cmdId params w = do {
     ctx \<leftarrow> client c w;
     (addr, s) \<leftarrow> sc_storage_link_new ctx True (memory w);
     let (result, out) = created_reply SCTP_CMD_CREATE_LINK SCTP_CMD_CREATE_LINK cmdId addr;
     Some (result, out, set_memory s w)
   }"

definition processCreateArc :: "'db sctp_env \<Rightarrow> nat \<Rightarrow> u32 \<Rightarrow> bytes \<Rightarrow> 'db sctp_world \<Rightarrow> 'db outcome" where
  "processCreateArc E c cmdId params w =
     READ_PARAM E 2 bytes_word params w (\<lambda>t p1.
     READ_PARAM E 4 bytes_addr p1 w (\<lambda>begin_addr p2.
     READ_PARAM E 4 bytes_addr p2 w (\<lambda>end_addr _. do {
       ctx \<leftarrow> client c w;
       (addr, s) \<leftarrow> sc_storage_arc_new ctx t begin_addr end_addr (memory w);
       let (result, out) = created_reply SCTP_CMD_CREATE_ARC SCTP_CMD_CREATE_LINK cmdId addr;
       Some (result, out, set_memory s w)
     })))"

definition processGetArc :: "'db sctp_env \<Rightarrow> nat \<Rightarrow> u32 \<Rightarrow> bytes \<Rightarrow> 'db sctp_world \<Rightarrow> 'db outcome" where
  "processGetArc E c cmdId params w =
     READ_PARAM E 4 bytes_addr params w (\<lambda>arc_addr _. do {
       ctx \<leftarrow> client c w;
       (r1, beg, s1) \<leftarrow> sc_storage_get_arc_begin ctx arc_addr (memory w);
       let failed = (SCTP_ERROR, writeResultHeader SCTP_CMD_GET_ARC cmdId SCTP_RESULT_FAIL 0);
       if r1 \<noteq> SC_RESULT_OK then Some (fst failed, snd failed, set_memory s1 w)
       else do {
         (r2, fin, s2) \<leftarrow> sc_storage_get_arc_end ctx arc_addr s1;
         if r2 \<noteq> SC_RESULT_OK then Some (fst failed, snd failed, set_memory s2 w)
         else do {
           b \<leftarrow> beg;
           e \<leftarrow> fin;
           Some (SCTP_NO_ERROR, writeResultHeader SCTP_CMD_GET_ARC cmdId SCTP_RESULT_OK 8 @ addr_bytes b @ addr_bytes e, set_memory s2 w)
         }
       }
     })"

subsection \<open>Contents\<close>

text \<open>
  The copy of a stream to the client. When a read fails the rest of the announced length is filled with
  zeros; \<open>buf\<close> is the last block that was read.
\<close>

partial_function (option) send_content ::
    "sc_stream \<Rightarrow> u32 \<Rightarrow> u32 \<Rightarrow> bytes \<Rightarrow> bytes \<Rightarrow> (eSctpErrorCode \<times> u32 \<times> bytes) option" where
  "send_content stream data_len data_written buf out =
     (if sc_stream_eof stream then Some (SCTP_NO_ERROR, data_written, out)
      else do {
        (r, d, stream1) \<leftarrow> sc_stream_read_data 512 stream;
        if r \<noteq> SC_RESULT_OK \<and> data_written < data_len
        then Some (SCTP_ERROR, data_written, out @ replicate (unat (data_len - data_written)) 0)
        else let block = (if r \<noteq> SC_RESULT_OK then buf else d)
          in send_content stream1 data_len (data_written + of_nat (length block)) block (out @ block)
      })"

definition processGetLinkContent :: "'db sctp_env \<Rightarrow> nat \<Rightarrow> u32 \<Rightarrow> bytes \<Rightarrow> 'db sctp_world \<Rightarrow> 'db outcome" where
  "processGetLinkContent E c cmdId params w =
     READ_PARAM E 4 bytes_addr params w (\<lambda>addr _. do {
       ctx \<leftarrow> client c w;
       (r, st, s) \<leftarrow> sc_storage_get_link_content (env_db E) ctx addr (memory w) (rocks w);
       let w1 = set_memory s w;
       let failed = Some (SCTP_NO_ERROR, writeResultHeader SCTP_CMD_GET_LINK_CONTENT cmdId SCTP_RESULT_FAIL 0, w1);
       if r \<noteq> SC_RESULT_OK then failed
       else do {
         stream \<leftarrow> st;
         let (r1, len, stream1) = sc_stream_get_length stream;
         if r1 \<noteq> SC_RESULT_OK then failed
         else do {
           data_len \<leftarrow> len;
           (res, data_written, out) \<leftarrow> send_content stream1 data_len 0 [] [];
           let reply = writeResultHeader SCTP_CMD_GET_LINK_CONTENT cmdId SCTP_RESULT_OK data_len @ out;
           if res \<noteq> SCTP_NO_ERROR then Some (res, reply, w1)
           else do {
             Q_ASSERT E (data_written = data_len);
             Some (SCTP_NO_ERROR, reply, w1)
           }
         }
       }
     })"

text \<open>A length and as many bytes; the length is signed.\<close>

definition read_data ::
    "'db sctp_env \<Rightarrow> bytes \<Rightarrow> 'db sctp_world \<Rightarrow> (bytes \<Rightarrow> 'db outcome) \<Rightarrow> 'db outcome" where
  "read_data E params w k =
     READ_PARAM E 4 bytes_word params w (\<lambda>data_len :: u32. \<lambda>p1. do {
       Q_ASSERT E (sint data_len > 0);
       g_assert (sint data_len \<ge> 0);
       let (data, _) = readRawData E (unat data_len) p1;
       if length data \<noteq> unat data_len then Some (SCTP_ERROR_CMD_READ_PARAMS, [], w) else k data
     })"

definition processFindLinks :: "'db sctp_env \<Rightarrow> nat \<Rightarrow> u32 \<Rightarrow> bytes \<Rightarrow> 'db sctp_world \<Rightarrow> 'db outcome" where
  "processFindLinks E c cmdId params w = read_data E params w (\<lambda>data. do {
     ctx \<leftarrow> client c w;
     st \<leftarrow> memory_stream data;
     (r, links, n, _, s) \<leftarrow> sc_storage_find_links_with_content (env_db E) (env_sha E) ctx st (memory w) (rocks w);
     if r \<noteq> SC_RESULT_OK
     then Some (SCTP_NO_ERROR, writeResultHeader SCTP_CMD_FIND_LINKS cmdId SCTP_RESULT_FAIL 0, set_memory s w)
     else do {
       result \<leftarrow> links;
       let result_count = (of_nat n :: u32);
       Some (SCTP_NO_ERROR, writeResultHeader SCTP_CMD_FIND_LINKS cmdId SCTP_RESULT_OK (result_count * 4 + 4) @
         word_bytes 4 result_count @ concat (map addr_bytes (take (unat result_count) result)), set_memory s w)
     }
   })"

definition processSetLinkContent :: "'db sctp_env \<Rightarrow> nat \<Rightarrow> u32 \<Rightarrow> bytes \<Rightarrow> 'db sctp_world \<Rightarrow> 'db outcome" where
  "processSetLinkContent E c cmdId params w =
     READ_PARAM E 4 bytes_addr params w (\<lambda>addr p1. read_data E p1 w (\<lambda>data. do {
       ctx \<leftarrow> client c w;
       st \<leftarrow> memory_stream data;
       (r, _, s, d) \<leftarrow> sc_storage_set_link_content (env_db E) (env_sha E) ctx addr st (memory w) (rocks w);
       Some (SCTP_NO_ERROR, writeResultHeader SCTP_CMD_SET_LINK_CONTENT cmdId (result_code (r = SC_RESULT_OK)) 0,
         (set_memory s w)\<lparr>rocks := d\<rparr>)
     }))"

subsection \<open>Iterators\<close>

text \<open>The parameters of one iterator, in the order of its arguments.\<close>

fun read_args :: "'db sctp_env \<Rightarrow> bool list \<Rightarrow> bytes \<Rightarrow> (sc_iterator_param list) option" where
  "read_args E [] params = Some []"
| "read_args E (k # ks) params =
     (let (d, rest) = readRawData E (if k then 2 else 4) params
      in if length d \<noteq> (if k then 2 else 4) then None
         else map_option ((#) (if k then ParamType (bytes_word d) else ParamAddr (bytes_addr d))) (read_args E ks rest))"

text \<open>The functions that create the three and the five element iterators.\<close>

definition new_it3 ::
    "sc_memory_context \<Rightarrow> u8 \<Rightarrow> sc_iterator_param list \<Rightarrow> sc_storage \<Rightarrow> (sc_iterator3 option \<times> sc_storage) option" where
  "new_it3 ctx t ps s = (let ty = (\<lambda>i. param_type (ps ! i)); ad = (\<lambda>i. param_addr (ps ! i)) in
     if t = SCTP_ITERATOR_3A_A_F then sc_iterator3_a_a_f_new ctx (ty 0) (ty 1) (ad 2) s
     else if t = SCTP_ITERATOR_3F_A_A then sc_iterator3_f_a_a_new ctx (ad 0) (ty 1) (ty 2) s
     else sc_iterator3_f_a_f_new ctx (ad 0) (ty 1) (ad 2) s)"

definition new_it5 ::
    "sc_memory_context \<Rightarrow> u8 \<Rightarrow> sc_iterator_param list \<Rightarrow> sc_storage \<Rightarrow> (sc_iterator5 option \<times> sc_storage) option" where
  "new_it5 ctx t ps s = (let ty = (\<lambda>i. param_type (ps ! i)); ad = (\<lambda>i. param_addr (ps ! i)) in
     if t = SCTP_ITERATOR_5F_A_A_A_F then sc_iterator5_f_a_a_a_f_new ctx (ad 0) (ty 1) (ty 2) (ty 3) (ad 4) s
     else if t = SCTP_ITERATOR_5A_A_F_A_A then sc_iterator5_a_a_f_a_a_new ctx (ty 0) (ty 1) (ad 2) (ty 3) (ty 4) s
     else if t = SCTP_ITERATOR_5A_A_F_A_F then sc_iterator5_a_a_f_a_f_new ctx (ty 0) (ty 1) (ad 2) (ty 3) (ad 4) s
     else if t = SCTP_ITERATOR_5F_A_A_A_A then sc_iterator5_f_a_a_a_a_new ctx (ad 0) (ty 1) (ty 2) (ty 3) (ty 4) s
     else if t = SCTP_ITERATOR_5F_A_F_A_A then sc_iterator5_f_a_f_a_a_new ctx (ad 0) (ty 1) (ad 2) (ty 3) (ty 4) s
     else sc_iterator5_f_a_f_a_f_new ctx (ad 0) (ty 1) (ad 2) (ty 3) (ad 4) s)"

text \<open>The results, of a null iterator none, and the destruction.\<close>

definition run_it3 :: "sc_type \<Rightarrow> sc_iterator3 option \<Rightarrow> sc_storage \<Rightarrow> (sc_addr list list \<times> sc_storage) option" where
  "run_it3 u it s = (case it of
       None \<Rightarrow> Some ([], s)
     | Some i \<Rightarrow> do {
         (rs, i1, s1) \<leftarrow> iterate3 u i s;
         s2 \<leftarrow> sc_iterator3_free i1 s1;
         Some (map (\<lambda>(a, b, c). [a, b, c]) rs, s2)
       })"

definition run_it5 :: "sc_type \<Rightarrow> sc_iterator5 option \<Rightarrow> sc_storage \<Rightarrow> (sc_addr list list \<times> sc_storage) option" where
  "run_it5 u it s = (case it of
       None \<Rightarrow> Some ([], s)
     | Some i \<Rightarrow> do {
         (rs, i1, s1) \<leftarrow> iterate5 u i s;
         s2 \<leftarrow> sc_iterator5_free i1 s1;
         Some (rs, s2)
       })"

definition iterate_reply :: "u32 \<Rightarrow> bool \<Rightarrow> sc_addr list list \<Rightarrow> bytes" where
  "iterate_reply cmdId is_null rs =
     (let results = concat (map addr_bytes (concat rs));
          results_count = (of_nat (length rs) :: u32)
      in (if is_null then writeResultHeader SCTP_CMD_ITERATE_ELEMENTS cmdId SCTP_RESULT_FAIL 0 else []) @
         writeResultHeader SCTP_CMD_ITERATE_ELEMENTS cmdId SCTP_RESULT_OK (of_nat (length results) + 4) @
         word_bytes 4 results_count @ (if results_count > 0 then results else []))"

definition processIterateElements :: "'db sctp_env \<Rightarrow> nat \<Rightarrow> u32 \<Rightarrow> bytes \<Rightarrow> 'db sctp_world \<Rightarrow> 'db outcome" where
  "processIterateElements E c cmdId params w =
     READ_PARAM E 1 hd params w (\<lambda>iterator_type p1. do {
       Q_ASSERT E (iterator_type < SCTP_ITERATOR_COUNT);
       if arg_kinds iterator_type = [] then Some (SCTP_ERROR, [], w)
       else (case read_args E (arg_kinds iterator_type) p1 of
           None \<Rightarrow> Some (SCTP_ERROR_CMD_READ_PARAMS, [], w)
         | Some ps \<Rightarrow> do {
             ctx \<leftarrow> client c w;
             (is_null, rs, s) \<leftarrow> (if iterator_type \<le> SCTP_ITERATOR_3F_A_F then do {
                  (it, s1) \<leftarrow> new_it3 ctx iterator_type ps (memory w);
                  (rs, s2) \<leftarrow> run_it3 (env_uninit E) it s1;
                  Some (it = None, rs, s2)
                }
                else do {
                  (it, s1) \<leftarrow> new_it5 ctx iterator_type ps (memory w);
                  (rs, s2) \<leftarrow> run_it5 (env_uninit E) it s1;
                  Some (it = None, rs, s2)
                });
             Some (SCTP_NO_ERROR, iterate_reply cmdId is_null rs, set_memory s w)
           })
     })"

definition processIterateConstruction :: "'db sctp_env \<Rightarrow> nat \<Rightarrow> u32 \<Rightarrow> bytes \<Rightarrow> 'db sctp_world \<Rightarrow> 'db outcome" where
  "processIterateConstruction E c cmdId params w =
     (let failed = (\<lambda>w. Some (SCTP_NO_ERROR, writeResultHeader SCTP_CMD_ITERATE_CONSTRUCTION cmdId SCTP_RESULT_FAIL 0, w))
      in case build E params of
           None \<Rightarrow> failed w
         | Some its \<Rightarrow> do {
             ctx \<leftarrow> client c w;
             (result, s) \<leftarrow> iterate E ctx its (memory w);
             let stride = unat (oneResultSize its);
             g_assert (stride \<noteq> 0);
             Q_ASSERT E (length result mod stride = 0);
             let n = (of_nat (length result) :: u32);
             let sz = 4 * n;
             let count = (of_nat (unat n div stride) :: u32);
             if length result > 0
             then Some (SCTP_NO_ERROR, writeResultHeader SCTP_CMD_ITERATE_CONSTRUCTION cmdId SCTP_RESULT_OK (sz + 4) @
               word_bytes 4 count @ take (unat sz) (concat (map addr_bytes result)), set_memory s w)
             else failed (set_memory s w)
           })"

definition processGenerateConstruction :: "'db sctp_env \<Rightarrow> nat \<Rightarrow> u32 \<Rightarrow> bytes \<Rightarrow> 'db sctp_world \<Rightarrow> 'db outcome" where
  "processGenerateConstruction E c cmdId params w =
     (let failed = (\<lambda>w. Some (SCTP_NO_ERROR, writeResultHeader SCTP_CMD_GENERATE_CONSTRUCTION cmdId SCTP_RESULT_FAIL 0, w))
      in case build E params of
           None \<Rightarrow> failed w
         | Some its \<Rightarrow> do {
             ctx \<leftarrow> client c w;
             (ok, result, s) \<leftarrow> generate E ctx its (memory w);
             if ok then do {
               let byteSize = (4 * of_nat (length result) :: u32);
               Some (SCTP_NO_ERROR, writeResultHeader SCTP_CMD_GENERATE_CONSTRUCTION cmdId SCTP_RESULT_OK byteSize @
                 take (unat byteSize) (concat (map addr_bytes result)), set_memory s w)
             }
             else failed (set_memory s w)
           })"

subsection \<open>Events\<close>

text \<open>A number that is no type of event is like the unknown type: nothing of this type is ever emitted.\<close>

definition event_type_of :: "u8 \<Rightarrow> sc_event_type" where
  "event_type_of n = (if n = 0 then SC_EVENT_ADD_OUTPUT_ARC else if n = 1 then SC_EVENT_ADD_INPUT_ARC
     else if n = 2 then SC_EVENT_REMOVE_OUTPUT_ARC else if n = 3 then SC_EVENT_REMOVE_INPUT_ARC
     else if n = 4 then SC_EVENT_REMOVE_ELEMENT else if n = 5 then SC_EVENT_CONTENT_CHANGED else SC_EVENT_UNKNOWN)"

definition processCreateEvent :: "'db sctp_env \<Rightarrow> nat \<Rightarrow> u32 \<Rightarrow> bytes \<Rightarrow> 'db sctp_world \<Rightarrow> 'db outcome" where
  "processCreateEvent E c cmdId params w =
     READ_PARAM E 1 hd params w (\<lambda>event_type p1.
     READ_PARAM E 4 bytes_addr p1 w (\<lambda>addr _. do {
       ctx \<leftarrow> client c w;
       (ok, event, w1) \<leftarrow> createEvent E ctx (event_type_of event_type) addr c w;
       if \<not> ok then Some (SCTP_ERROR, writeResultHeader SCTP_CMD_EVENT_CREATE cmdId SCTP_RESULT_FAIL 0, w1)
       else do {
         cmd \<leftarrow> commands w1 c;
         if event \<in> mEventsSet cmd then Some (SCTP_ERROR, [], w1)
         else do {
           let w2 = w1\<lparr>commands := (commands w1)(c \<mapsto> cmd\<lparr>mEventsSet := insert event (mEventsSet cmd)\<rparr>)\<rparr>;
           Some (SCTP_NO_ERROR, writeResultHeader SCTP_CMD_EVENT_CREATE cmdId SCTP_RESULT_OK 4 @ word_bytes 4 event, w2)
         }
       }
     }))"

definition processDestroyEvent :: "'db sctp_env \<Rightarrow> nat \<Rightarrow> u32 \<Rightarrow> bytes \<Rightarrow> 'db sctp_world \<Rightarrow> 'db outcome" where
  "processDestroyEvent E c cmdId params w =
     READ_PARAM E 4 bytes_word params w (\<lambda>eventId _. do {
       (ok, w1) \<leftarrow> destroyEvent E eventId w;
       if ok then Some (SCTP_NO_ERROR, writeResultHeader SCTP_CMD_EVENT_DESTROY cmdId SCTP_RESULT_OK 4 @ word_bytes 4 eventId, w1)
       else Some (SCTP_ERROR, writeResultHeader SCTP_CMD_EVENT_DESTROY cmdId SCTP_RESULT_FAIL 0, w1)
     })"

definition processEmitEvent :: "'db sctp_env \<Rightarrow> nat \<Rightarrow> u32 \<Rightarrow> bytes \<Rightarrow> 'db sctp_world \<Rightarrow> 'db outcome" where
  "processEmitEvent E c cmdId params w = do {
     cmd \<leftarrow> commands w c;
     let resSize = (4 + of_nat (length (mSendData cmd)) :: u32);
     Some (SCTP_NO_ERROR, writeResultHeader SCTP_CMD_EVENT_EMIT cmdId SCTP_RESULT_OK resSize @
       word_bytes 4 (mSendEventsCount cmd) @ mSendData cmd,
       w\<lparr>commands := (commands w)(c \<mapsto> cmd\<lparr>mSendData := [], mSendEventsCount := 0\<rparr>)\<rparr>)
   }"

subsection \<open>Identifiers and statistics\<close>

definition processFindElementBySysIdtf :: "'db sctp_env \<Rightarrow> nat \<Rightarrow> u32 \<Rightarrow> bytes \<Rightarrow> 'db sctp_world \<Rightarrow> 'db outcome" where
  "processFindElementBySysIdtf E c cmdId params w = read_data E params w (\<lambda>data. do {
     ctx \<leftarrow> client c w;
     (r, a, s) \<leftarrow> sc_helper_find_element_by_system_identifier (env_db E) (env_sha E) (env_uninit E) ctx data
        (env_helper E) (memory w) (rocks w);
     if r \<noteq> SC_RESULT_OK
     then Some (SCTP_NO_ERROR, writeResultHeader SCTP_CMD_FIND_ELEMENT_BY_SYSITDF cmdId SCTP_RESULT_FAIL 0, set_memory s w)
     else do {
       result \<leftarrow> a;
       Some (SCTP_NO_ERROR, writeResultHeader SCTP_CMD_FIND_ELEMENT_BY_SYSITDF cmdId SCTP_RESULT_OK 4 @ addr_bytes result,
         set_memory s w)
     }
   })"

definition processSetSysIdtf :: "'db sctp_env \<Rightarrow> nat \<Rightarrow> u32 \<Rightarrow> bytes \<Rightarrow> 'db sctp_world \<Rightarrow> 'db outcome" where
  "processSetSysIdtf E c cmdId params w =
     READ_PARAM E 4 bytes_addr params w (\<lambda>addr p1. read_data E p1 w (\<lambda>data. do {
       ctx \<leftarrow> client c w;
       (r, s, d) \<leftarrow> sc_helper_set_system_identifier (env_db E) (env_sha E) (env_uninit E) ctx addr data (env_helper E)
          (memory w) (rocks w);
       Some (SCTP_NO_ERROR, writeResultHeader SCTP_CMD_SET_SYSIDTF cmdId (result_code (r = SC_RESULT_OK)) 0,
         (set_memory s w)\<lparr>rocks := d\<rparr>)
     }))"

text \<open>The size of a statistics item in memory.\<close>

definition stat_item_size :: nat where "stat_item_size = 72"

definition processStatistics :: "'db sctp_env \<Rightarrow> nat \<Rightarrow> u32 \<Rightarrow> bytes \<Rightarrow> 'db sctp_world \<Rightarrow> 'db outcome" where
  "processStatistics E c cmdId params w =
     READ_PARAM E 8 bytes_word params w (\<lambda>begin_time p1.
     READ_PARAM E 8 bytes_word p1 w (\<lambda>end_time _.
       let stat = getStatisticsInTimeRange E begin_time end_time;
           res_count = (of_nat (length stat) :: u32)
       in Some (SCTP_NO_ERROR,
            writeResultHeader SCTP_CMD_STATISTICS cmdId SCTP_RESULT_OK (4 + of_nat stat_item_size * of_nat (length stat)) @
            word_bytes 4 res_count @ concat (take (unat res_count) stat), w)))"

subsection \<open>The dispatcher\<close>

definition dispatch :: "'db sctp_env \<Rightarrow> nat \<Rightarrow> u8 \<Rightarrow> u32 \<Rightarrow> bytes \<Rightarrow> 'db sctp_world \<Rightarrow> 'db outcome" where
  "dispatch E c cmdCode cmdId params w =
     (if cmdCode = SCTP_CMD_CHECK_ELEMENT then processCheckElement E c cmdId params w
      else if cmdCode = SCTP_CMD_GET_ELEMENT_TYPE then processGetElementType E c cmdId params w
      else if cmdCode = SCTP_CMD_ERASE_ELEMENT then processElementErase E c cmdId params w
      else if cmdCode = SCTP_CMD_CREATE_NODE then processCreateNode E c cmdId params w
      else if cmdCode = SCTP_CMD_CREATE_LINK then processCreateLink E c cmdId params w
      else if cmdCode = SCTP_CMD_CREATE_ARC then processCreateArc E c cmdId params w
      else if cmdCode = SCTP_CMD_GET_ARC then processGetArc E c cmdId params w
      else if cmdCode = SCTP_CMD_GET_LINK_CONTENT then processGetLinkContent E c cmdId params w
      else if cmdCode = SCTP_CMD_FIND_LINKS then processFindLinks E c cmdId params w
      else if cmdCode = SCTP_CMD_SET_LINK_CONTENT then processSetLinkContent E c cmdId params w
      else if cmdCode = SCTP_CMD_ITERATE_ELEMENTS then processIterateElements E c cmdId params w
      else if cmdCode = SCTP_CMD_ITERATE_CONSTRUCTION then processIterateConstruction E c cmdId params w
      else if cmdCode = SCTP_CMD_GENERATE_CONSTRUCTION then processGenerateConstruction E c cmdId params w
      else if cmdCode = SCTP_CMD_EVENT_CREATE then processCreateEvent E c cmdId params w
      else if cmdCode = SCTP_CMD_EVENT_DESTROY then processDestroyEvent E c cmdId params w
      else if cmdCode = SCTP_CMD_EVENT_EMIT then processEmitEvent E c cmdId params w
      else if cmdCode = SCTP_CMD_FIND_ELEMENT_BY_SYSITDF then processFindElementBySysIdtf E c cmdId params w
      else if cmdCode = SCTP_CMD_SET_SYSIDTF then processSetSysIdtf E c cmdId params w
      else if cmdCode = SCTP_CMD_STATISTICS then processStatistics E c cmdId params w
      else Some (SCTP_ERROR_UNKNOWN_CMD, [], w))"

text \<open>The array for the parameters is empty when its size does not fit a signed integer.\<close>

definition processCommand ::
    "'db sctp_env \<Rightarrow> nat \<Rightarrow> socket \<Rightarrow> 'db sctp_world \<Rightarrow> (eSctpErrorCode \<times> bytes \<times> socket \<times> 'db sctp_world) option" where
  "processCommand E c inDevice w =
     (let (ok, dev) = waitAvailableBytes inDevice cmdHeaderSize
      in if \<not> ok then Some (SCTP_ERROR_CMD_HEADER_READ_TIMEOUT, [], dev, w)
         else let (b1, dev1) = socket_read 1 dev;
                  (b2, dev2) = socket_read 1 dev1;
                  (b3, dev3) = socket_read 4 dev2;
                  (b4, dev4) = socket_read 4 dev3;
                  cmdCode = hd b1;
                  cmdId = (bytes_word b3 :: u32);
                  cmdParamSize = (bytes_word b4 :: u32);
                  (ok1, dev5) = waitAvailableBytes dev4 (unat cmdParamSize)
              in if \<not> ok1 then Some (SCTP_ERROR_CMD_PARAM_READ_TIMEOUT, [], dev5, w)
                 else let (paramsData, dev6) = socket_read (nat (sint cmdParamSize)) dev5
                      in do {
                        (res, out, w1) \<leftarrow> dispatch E c cmdCode cmdId paramsData w;
                        Some (res, out, dev6, w1)
                      })"

text \<open>The commands of a client, as long as there is a whole header.\<close>

partial_function (option) processCommands ::
    "'db sctp_env \<Rightarrow> nat \<Rightarrow> socket \<Rightarrow> 'db sctp_world \<Rightarrow> (eSctpErrorCode list \<times> bytes \<times> socket \<times> 'db sctp_world) option" where
  "processCommands E c dev w =
     (if length (available dev) \<ge> cmdHeaderSize then do {
        (res, out, dev1, w1) \<leftarrow> processCommand E c dev w;
        (ress, outs, dev2, w2) \<leftarrow> processCommands E c dev1 w1;
        Some (res # ress, out @ outs, dev2, w2)
      }
      else Some ([], [], dev, w))"

end
