(* ===== verification/Sc_Sctp_Sample.thy ===== *)
theory Sc_Sctp_Sample
  imports Sc_Sctp Sc_Link_Props Sc_Sample
begin

text \<open>A concrete server with one client, to which the properties are applied.\<close>

definition sample_env :: "(bytes \<rightharpoonup> bytes) sctp_env" where
  "sample_env = \<lparr>env_db = map_db, env_sha = some_sha, env_uninit = 0, env_order = rev, env_self_sum = (\<lambda>_. []),
     env_helper = \<lparr>sc_helper_is_initialized = True, sc_keynodes = Some sample_n1\<rparr>,
     getStatisticsInTimeRange = (\<lambda>_ _. []), readRawData = (\<lambda>n p. (take n p, drop n p)), env_debug = True\<rparr>"

definition min_ctx :: sc_memory_context where
  "min_ctx = \<lparr>ctx_id = 2, ctx_access = sc_access_lvl_make_min\<rparr>"

definition sample_world :: "(bytes \<rightharpoonup> bytes) sctp_world" where
  "sample_world = \<lparr>events = \<lparr>store = sample, evt_heap = Map.empty, evt_next = 0, events_table = None,
       queue_alive = True, queue_running = True, pool = [], calls = []\<rparr>,
     contexts = no_contexts\<lparr>ctx_heap := [0 \<mapsto> \<lparr>ctx_id = 2, ctx_access = sc_access_lvl_make_min, ctx_flags = 0, pend_events = []\<rparr>]\<rparr>,
     rocks = Map.empty, mEvents = Map.empty, mLastEventId = 1,
     commands = [0 \<mapsto> \<lparr>mSendData = [], mSendEventsCount = 0, mEventsSet = {}, mContext = Some 0\<rparr>]\<rparr>"

lemma sample_env_sel [simp]:
  "env_db sample_env = map_db" "env_sha sample_env = some_sha" "env_order sample_env = rev" "env_debug sample_env"
  "env_uninit sample_env = 0" "getStatisticsInTimeRange sample_env b e = []"
  by (simp_all add: sample_env_def)

lemma sample_world_sel [simp]:
  "memory sample_world = sample" "rocks sample_world = Map.empty" "mEvents sample_world = Map.empty"
  "mLastEventId sample_world = 1"
  by (simp_all add: sample_world_def)

lemma sample_server: "raw_reads sample_env" "client 0 sample_world = Some min_ctx"
  by (simp_all add: raw_reads_def sample_env_def client_def sample_world_def min_ctx_def)

end
