(* ===== verification/Sc_Sctp_Session.thy ===== *)
theory Sc_Sctp_Session
  imports Sc_Sctp_Sample Sc_Abstract
begin

text \<open>
  A client that creates and deletes elements over the network: the bytes of its requests are decoded and
  served like the requests of the abstract graph, and the bytes of the replies are those of the replies
  of the graph.
\<close>

subsection \<open>The binary form\<close>

lemma word_bytes_back:
  assumes "LENGTH('a) \<le> 8 * n"
  shows "bytes_word (word_bytes n (x :: 'a::len word)) = x"
proof -
  have "unat x < 2 ^ LENGTH('a)" by (rule unsigned_less)
  also have "(2::nat) ^ LENGTH('a) \<le> 256 ^ n"
    using power_increasing [OF assms, of "2::nat"] by (simp add: power_mult)
  finally show ?thesis by (simp add: bytes_word_def word_bytes_def le_nat_le_bytes)
qed

lemma sint_of_nat: "n < 2 ^ 31 \<Longrightarrow> sint (of_nat n :: u32) = int n"
  by (simp add: signed_of_nat signed_take_bit_int_eq_self)

lemma le_bytes_numeral: "le_bytes (numeral n) x = of_nat (x mod 256) # le_bytes (pred_numeral n) (x div 256)"
  unfolding numeral_eq_Suc [of n] by (rule le_bytes.simps(2))

lemma length_word_bytes [simp]: "length (word_bytes n x) = n"
  by (simp add: word_bytes_def)

lemma length_writeResultHeader [simp]: "length (writeResultHeader code i r sz) = cmdHeaderSize"
  by (simp add: writeResultHeader_def cmdHeaderSize_def)

lemma READ_PARAM_ok:
  assumes "raw_reads E" "length d = n"
  shows "READ_PARAM E n conv (d @ later) w k = k (conv d) later"
  using assms by (simp add: READ_PARAM_def raw_reads_def)

lemmas READ_PARAM_end = READ_PARAM_ok [where later = "[]", simplified]

subsection \<open>One command\<close>

lemma wait_now: "n \<le> length av \<Longrightarrow> wait_bytes n av bs = (True, av, bs)"
  by (cases bs) auto

definition command_bytes :: "u8 \<Rightarrow> u8 \<Rightarrow> u32 \<Rightarrow> bytes \<Rightarrow> bytes" where
  "command_bytes code flags i p = [code, flags] @ word_bytes 4 i @ word_bytes 4 (of_nat (length p) :: u32) @ p"

lemma command_read:
  assumes "available dev = command_bytes code flags i p @ later" and "length p < 2 ^ 31"
  shows "processCommand E c dev w = (case dispatch E c code i p w of
     None \<Rightarrow> None | Some (res, out, w1) \<Rightarrow> Some (res, out, dev\<lparr>available := later\<rparr>, w1))"
proof -
  have n: "unat (of_nat (length p) :: u32) = length p" using assms(2) by (simp add: unat_of_nat)
  have s: "sint (of_nat (length p) :: u32) = int (length p)" by (rule sint_of_nat [OF assms(2)])
  have i: "bytes_word (word_bytes 4 i) = i" "bytes_word (word_bytes 4 (of_nat (length p) :: u32)) = (of_nat (length p) :: u32)"
    by (simp_all add: word_bytes_back)
  have "cmdHeaderSize \<le> length (available dev)" by (simp add: assms(1) command_bytes_def cmdHeaderSize_def)
  then show ?thesis
    using assms(1) n s i
    by (simp add: processCommand_def waitAvailableBytes_def wait_now socket_read_def command_bytes_def Let_def
          split: option.splits)
qed

subsection \<open>Requests and replies\<close>

definition request_params :: "request \<Rightarrow> u8 \<times> bytes" where
  "request_params q = (case q of
       New_Node t \<Rightarrow> (SCTP_CMD_CREATE_NODE, word_bytes 2 t)
     | New_Link c \<Rightarrow> (SCTP_CMD_CREATE_LINK, [])
     | New_Arc t b e \<Rightarrow> (SCTP_CMD_CREATE_ARC, word_bytes 2 t @ addr_bytes b @ addr_bytes e)
     | Delete a \<Rightarrow> (SCTP_CMD_ERASE_ELEMENT, addr_bytes a))"

text \<open>A client sends its requests with flags, which the server ignores, and a number.\<close>

type_synonym sent = "u8 \<times> u32 \<times> request"

definition request_bytes :: "sent \<Rightarrow> bytes" where
  "request_bytes m = (case m of (flags, i, q) \<Rightarrow> command_bytes (fst (request_params q)) flags i (snd (request_params q)))"

text \<open>Links that are variables cannot be asked for.\<close>

definition sendable :: "request \<Rightarrow> bool" where
  "sendable q \<longleftrightarrow> q \<noteq> New_Link False"

definition reply_bytes :: "sent \<times> reply \<Rightarrow> bytes" where
  "reply_bytes x = (case x of ((flags, i, q), r) \<Rightarrow> (case r of
       Address a \<Rightarrow> snd (created_reply (fst (request_params q))
          (case q of New_Arc _ _ _ \<Rightarrow> SCTP_CMD_CREATE_LINK | _ \<Rightarrow> fst (request_params q)) i a)
     | Result res \<Rightarrow> writeResultHeader (fst (request_params q)) i (result_code (res = SC_RESULT_OK)) 0))"

definition reply_code :: "reply \<Rightarrow> eSctpErrorCode" where
  "reply_code r = (case r of Address a \<Rightarrow> if SC_ADDR_IS_EMPTY a then SCTP_ERROR else SCTP_NO_ERROR | Result res \<Rightarrow> SCTP_NO_ERROR)"

lemma params_short: "length (snd (request_params q)) < 2 ^ 31"
  by (cases q) (simp_all add: request_params_def)

lemma created_reply_code: "fst (created_reply code fail_code i a) = reply_code (Address a)"
  by (simp add: created_reply_def reply_code_def)

lemma dispatch_request:
  assumes E: "raw_reads E" and c: "client c w = Some ctx" and q: "sendable q"
    and s: "serve (env_order E) (env_self_sum E) ctx (ctx_access ctx) q (memory w) = Some (r, s')"
  shows "dispatch E c (fst (request_params q)) i (snd (request_params q)) w =
     Some (reply_code r, reply_bytes ((flags, i, q), r), set_memory s' w)"
proof (cases q)
  case (New_Node t)
  then obtain a where "r = Address a" "sc_storage_node_new ctx t (memory w) = Some (a, s')"
    using s by (auto simp: serve_def sc_storage_node_new_def map_prod_def)
  then show ?thesis using New_Node c
    by (simp add: request_params_def dispatch_def sctp_commands processCreateNode_def READ_PARAM_end [OF E]
          word_bytes_back reply_bytes_def created_reply_code split_beta)
next
  case (New_Link b)
  then obtain a where "r = Address a" "sc_storage_link_new ctx True (memory w) = Some (a, s')"
    using s q by (cases b) (auto simp: serve_def sc_storage_link_new_def map_prod_def sendable_def)
  then show ?thesis using New_Link c
    by (simp add: request_params_def dispatch_def sctp_commands processCreateLink_def
          reply_bytes_def created_reply_code split_beta)
next
  case (New_Arc t b e)
  then obtain a where "r = Address a" "sc_storage_arc_new ctx t b e (memory w) = Some (a, s')"
    using s by (auto simp: serve_def sc_storage_arc_new_def map_prod_def)
  then show ?thesis using New_Arc c
    by (simp add: request_params_def dispatch_def sctp_commands processCreateArc_def READ_PARAM_ok [OF E] READ_PARAM_end [OF E]
          word_bytes_back reply_bytes_def created_reply_code split_beta)
next
  case (Delete a)
  then obtain res where "r = Result res"
    "sc_storage_element_free (env_order E) (env_self_sum E) ctx a (memory w) = Some (res, s')"
    using s by (auto simp: serve_def map_prod_def)
  then show ?thesis using Delete c
    by (simp add: request_params_def dispatch_def sctp_commands processElementErase_def READ_PARAM_end [OF E]
          reply_bytes_def reply_code_def)
qed

lemma memory_set [simp]: "memory (set_memory s w) = s" "client c (set_memory s w) = client c w"
  "rocks (set_memory s w) = rocks w" "set_memory s (set_memory t w) = set_memory s w"
  by (simp_all add: set_memory_def client_def)

subsection \<open>Sessions\<close>

lemma session_serves:
  assumes E: "raw_reads E" and "client c w = Some ctx" and "\<forall>q \<in> set qs. sendable q"
    and "serve_all (env_order E) (env_self_sum E) ctx (ctx_access ctx) qs (memory w) = Some (rs, s')"
    and "available dev = concat (map request_bytes ms)" and "map (\<lambda>m. snd (snd m)) ms = qs"
  shows "processCommands E c dev w = Some (map reply_code rs, concat (map reply_bytes (zip ms rs)),
     dev\<lparr>available := []\<rparr>, set_memory s' w)"
  using assms(2-)
proof (induction qs arbitrary: ms rs w dev)
  case Nil
  then show ?case by (cases dev) (simp add: processCommands.simps [of E c] cmdHeaderSize_def set_memory_def)
next
  case (Cons q qs)
  obtain fl i ms' where m: "ms = (fl, i, q) # ms'" "map (\<lambda>m. snd (snd m)) ms' = qs"
    using Cons.prems(5) by (cases ms) auto
  obtain r s1 rs' where r: "rs = r # rs'" "serve (env_order E) (env_self_sum E) ctx (ctx_access ctx) q (memory w) = Some (r, s1)"
    "serve_all (env_order E) (env_self_sum E) ctx (ctx_access ctx) qs s1 = Some (rs', s')"
    using Cons.prems(3) by (auto split: Option.bind_splits)
  let ?more = "concat (map request_bytes ms')"
  have a: "available dev = command_bytes (fst (request_params q)) fl i (snd (request_params q)) @ ?more"
    using Cons.prems(4) by (simp add: m(1) request_bytes_def [of "(fl, i, q)"])
  have "sendable q" using Cons.prems(2) by simp
  note d = dispatch_request [OF E Cons.prems(1) this r(2), of i fl]
  have one: "processCommand E c dev w = Some (reply_code r, reply_bytes ((fl, i, q), r), dev\<lparr>available := ?more\<rparr>, set_memory s1 w)"
    using command_read [OF a params_short, of E c w] by (simp add: d)
  have "processCommands E c (dev\<lparr>available := ?more\<rparr>) (set_memory s1 w) = Some (map reply_code rs',
      concat (map reply_bytes (zip ms' rs')), (dev\<lparr>available := ?more\<rparr>)\<lparr>available := []\<rparr>, set_memory s' (set_memory s1 w))"
    using Cons.IH [of "set_memory s1 w" rs' "dev\<lparr>available := ?more\<rparr>" ms'] Cons.prems(1,2) r(3) m(2) by simp
  moreover have "cmdHeaderSize \<le> length (available dev)" by (simp add: a command_bytes_def cmdHeaderSize_def)
  ultimately show ?case using one by (simp add: processCommands.simps [of E c dev] m(1) r(1))
qed



end
