(* ===== verification/Sc_Sctp_Frames.thy ===== *)
theory Sc_Sctp_Frames
  imports Sc_Sctp_Session
begin

text \<open>
  Replies: each command that the server processes without an error is answered by one header whose
  length is that of the data behind it.
\<close>

definition frame :: "u8 \<Rightarrow> u32 \<Rightarrow> u8 \<Rightarrow> bytes \<Rightarrow> bytes" where
  "frame code i r payload = writeResultHeader code i r (of_nat (length payload)) @ payload"

definition framed :: "u8 \<Rightarrow> u32 \<Rightarrow> bytes \<Rightarrow> bool" where
  "framed code i out \<longleftrightarrow> (\<exists>r payload. out = frame code i r payload)"

lemma framedI:
  assumes "sz = of_nat (length payload)"
  shows "framed code i (writeResultHeader code i r sz @ payload)"
  using assms by (auto simp: framed_def frame_def)

lemma framed_empty: "framed code i (writeResultHeader code i r 0)"
  using framedI [of 0 "[]"] by simp

text \<open>A parameter is there, or the command ends with an error.\<close>

lemma READ_PARAM_E:
  assumes "READ_PARAM E n conv params w k = Some (SCTP_NO_ERROR, out, w')"
  obtains d params' where "k (conv d) params' = Some (SCTP_NO_ERROR, out, w')"
  using assms by (auto simp: READ_PARAM_def split: prod.splits if_splits)

lemma read_data_E:
  assumes "read_data E params w k = Some (SCTP_NO_ERROR, out, w')"
  obtains d where "k d = Some (SCTP_NO_ERROR, out, w')"
  using assms by (auto simp: read_data_def Let_def elim!: READ_PARAM_E split: prod.splits if_splits Option.bind_splits)

lemma created_reply_framed:
  assumes "created_reply code fail_code i a = (SCTP_NO_ERROR, out)"
  shows "framed code i out"
  using assms by (auto simp: created_reply_def intro: framedI split: if_splits)

lemma send_content_counts:
  assumes "send_content st len wr buf out = Some y"
  shows "wr = of_nat (length out) \<longrightarrow> (case y of (r, wr', out') \<Rightarrow> r = SCTP_NO_ERROR \<longrightarrow> wr' = of_nat (length out'))"
proof (rule send_content.raw_induct [OF _ assms, where P = "\<lambda>st len wr buf out y. wr = of_nat (length out) \<longrightarrow>
     (case y of (r, wr', out') \<Rightarrow> r = SCTP_NO_ERROR \<longrightarrow> wr' = of_nat (length out'))"])
  fix f st len and wr :: u32 and buf out :: bytes and y
  assume IH: "\<And>st len (wr :: u32) buf out y. f st len wr buf out = Some y \<Longrightarrow> wr = of_nat (length out) \<longrightarrow>
      (case y of (r, wr', out') \<Rightarrow> r = SCTP_NO_ERROR \<longrightarrow> wr' = of_nat (length out'))"
    and run: "(if sc_stream_eof st then Some (SCTP_NO_ERROR, wr, out)
      else do {
        (r, d, st1) \<leftarrow> sc_stream_read_data 512 st;
        if r \<noteq> SC_RESULT_OK \<and> wr < len then Some (SCTP_ERROR, wr, out @ replicate (unat (len - wr)) 0)
        else let block = if r \<noteq> SC_RESULT_OK then buf else d
          in f st1 len (wr + of_nat (length block)) block (out @ block)
      }) = Some y"
  show "wr = of_nat (length out) \<longrightarrow> (case y of (r, wr', out') \<Rightarrow> r = SCTP_NO_ERROR \<longrightarrow> wr' = of_nat (length out'))"
    using run by (auto simp: Let_def dest!: IH split: if_splits Option.bind_splits)
qed

lemma find_links_count:
  assumes "sc_storage_find_links_with_content db sha ctx st s d = Some (SC_RESULT_OK, Some r, n, st', s')"
  shows "n = length r"
  using assms
  by (auto simp: sc_storage_find_links_with_content_def split: Option.bind_splits if_splits prod.splits option.splits)

subsection \<open>The commands one by one\<close>

lemma cut_to_word:
  fixes k :: nat
  shows "of_nat (min (4 * k) (unat (4 * of_nat k :: u32))) = (4 * of_nat k :: u32)"
proof -
  have "unat (of_nat (4 * k) :: u32) \<le> 4 * k" unfolding unat_of_nat by (rule mod_less_eq_dividend)
  then have "min (4 * k) (unat (4 * of_nat k :: u32)) = unat (4 * of_nat k :: u32)" by simp
  then show ?thesis by simp
qed

lemma count_word:
  fixes xs :: "'a list"
  shows "of_nat (min (length xs) (unat (of_nat (length xs) :: u32))) = (of_nat (length xs) :: u32)"
proof -
  have "unat (of_nat (length xs) :: u32) \<le> length xs" unfolding unat_of_nat by (rule mod_less_eq_dividend)
  then show ?thesis by (simp add: min_absorb2)
qed

lemma framed_plain:
  "processCheckElement E c i params w = Some (SCTP_NO_ERROR, out, w') \<Longrightarrow> framed SCTP_CMD_CHECK_ELEMENT i out"
  "processGetElementType E c i params w = Some (SCTP_NO_ERROR, out, w') \<Longrightarrow> framed SCTP_CMD_GET_ELEMENT_TYPE i out"
  "processElementErase E c i params w = Some (SCTP_NO_ERROR, out, w') \<Longrightarrow> framed SCTP_CMD_ERASE_ELEMENT i out"
  "processCreateNode E c i params w = Some (SCTP_NO_ERROR, out, w') \<Longrightarrow> framed SCTP_CMD_CREATE_NODE i out"
  "processCreateLink E c i params w = Some (SCTP_NO_ERROR, out, w') \<Longrightarrow> framed SCTP_CMD_CREATE_LINK i out"
  "processCreateArc E c i params w = Some (SCTP_NO_ERROR, out, w') \<Longrightarrow> framed SCTP_CMD_CREATE_ARC i out"
  "processGetArc E c i params w = Some (SCTP_NO_ERROR, out, w') \<Longrightarrow> framed SCTP_CMD_GET_ARC i out"
  "processSetLinkContent E c i params w = Some (SCTP_NO_ERROR, out, w') \<Longrightarrow> framed SCTP_CMD_SET_LINK_CONTENT i out"
  "processCreateEvent E c i params w = Some (SCTP_NO_ERROR, out, w') \<Longrightarrow> framed SCTP_CMD_EVENT_CREATE i out"
  "processDestroyEvent E c i params w = Some (SCTP_NO_ERROR, out, w') \<Longrightarrow> framed SCTP_CMD_EVENT_DESTROY i out"
  "processEmitEvent E c i params w = Some (SCTP_NO_ERROR, out, w') \<Longrightarrow> framed SCTP_CMD_EVENT_EMIT i out"
  "processFindElementBySysIdtf E c i params w = Some (SCTP_NO_ERROR, out, w') \<Longrightarrow> framed SCTP_CMD_FIND_ELEMENT_BY_SYSITDF i out"
  "processSetSysIdtf E c i params w = Some (SCTP_NO_ERROR, out, w') \<Longrightarrow> framed SCTP_CMD_SET_SYSIDTF i out"
  unfolding processCheckElement_def processGetElementType_def processElementErase_def processCreateNode_def
    processCreateLink_def processCreateArc_def processGetArc_def processSetLinkContent_def processCreateEvent_def
    processDestroyEvent_def processEmitEvent_def processFindElementBySysIdtf_def processSetSysIdtf_def
  by (auto elim!: READ_PARAM_E read_data_E intro!: framed_empty framedI intro: created_reply_framed simp: Let_def
        split: Option.bind_splits if_splits prod.splits)

lemma send_content_all: "send_content st len 0 buf [] = Some (SCTP_NO_ERROR, wr, out) \<Longrightarrow> wr = of_nat (length out)"
  by (drule send_content_counts) simp

lemma framed_content:
  assumes "processGetLinkContent E c i params w = Some (SCTP_NO_ERROR, out, w')" and "env_debug E"
  shows "framed SCTP_CMD_GET_LINK_CONTENT i out"
  using assms unfolding processGetLinkContent_def
  by (auto elim!: READ_PARAM_E intro!: framed_empty framedI simp: Let_def Q_ASSERT_def dest: send_content_all
        split: Option.bind_splits if_splits prod.splits)

lemma framed_find_links:
  assumes "processFindLinks E c i params w = Some (SCTP_NO_ERROR, out, w')"
  shows "framed SCTP_CMD_FIND_LINKS i out"
  using assms unfolding processFindLinks_def
  by (auto elim!: read_data_E intro!: framed_empty framedI simp: Let_def count_word dest!: find_links_count
        split: Option.bind_splits if_splits prod.splits)

lemma framed_constructions:
  "processIterateConstruction E c i params w = Some (SCTP_NO_ERROR, out, w') \<Longrightarrow> framed SCTP_CMD_ITERATE_CONSTRUCTION i out"
  "processGenerateConstruction E c i params w = Some (SCTP_NO_ERROR, out, w') \<Longrightarrow> framed SCTP_CMD_GENERATE_CONSTRUCTION i out"
  unfolding processIterateConstruction_def processGenerateConstruction_def
  by (auto intro!: framed_empty framedI simp: Let_def g_assert_def cut_to_word split: Option.bind_splits if_splits prod.splits option.splits)

lemma length_concat_equal: "(\<And>x. x \<in> set xs \<Longrightarrow> length x = k) \<Longrightarrow> length (concat xs) = k * length xs"
  by (induction xs) auto

lemma framed_statistics:
  assumes "processStatistics E c i params w = Some (SCTP_NO_ERROR, out, w')"
    and item: "\<And>b e item. item \<in> set (getStatisticsInTimeRange E b e) \<Longrightarrow> length item = stat_item_size"
  shows "framed SCTP_CMD_STATISTICS i out"
proof -
  have l: "length (concat (take n (getStatisticsInTimeRange E b e))) = stat_item_size * min (length (getStatisticsInTimeRange E b e)) n" for n b e
    by (subst length_concat_equal [where k = stat_item_size]) (auto dest: in_set_takeD intro: item)
  show ?thesis using assms(1) unfolding processStatistics_def
    by (auto elim!: READ_PARAM_E intro!: framedI simp: Let_def l count_word)
qed

lemma iterate5_rows:
  assumes "iterate5 u it s = Some y"
  shows "\<forall>r \<in> set (fst y). length r = 5"
proof (rule iterate5.raw_induct [OF _ assms, where P = "\<lambda>u it s y. \<forall>r \<in> set (fst y). length r = 5"])
  fix f u it s y
  assume IH: "\<And>u it s y. f u it s = Some y \<Longrightarrow> \<forall>r \<in> set (fst y). length r = 5"
    and run: "do { (m, it1, s1) \<leftarrow> sc_iterator5_next u it s;
      if m then do { (rs, it2, s2) \<leftarrow> f u it1 s1; Some (results5 it1 # rs, it2, s2) } else Some ([], it1, s1) } = Some y"
  then show "\<forall>r \<in> set (fst y). length r = 5"
    by (auto simp: results5_def dest!: IH split: if_splits Option.bind_splits)
qed

lemma run_rows:
  "run_it3 u it s = Some (rs, s') \<Longrightarrow> r \<in> set rs \<Longrightarrow> length r = 3"
  "run_it5 u it5 s = Some (rs, s') \<Longrightarrow> r \<in> set rs \<Longrightarrow> length r = 5"
  by (auto simp: run_it3_def run_it5_def dest: iterate5_rows split: option.splits Option.bind_splits)

lemma iterate_reply_framed:
  assumes "\<And>r. r \<in> set rs \<Longrightarrow> length r = k"
  shows "framed SCTP_CMD_ITERATE_ELEMENTS i (iterate_reply i False rs)"
proof -
  have l: "length (concat rs) = k * length rs" using length_concat_equal [OF assms] .
  show ?thesis
    unfolding iterate_reply_def Let_def length_concat_addrs l
    by (auto intro!: framedI simp: l word_gt_0)
qed

lemma null_reply:
  "iterate_reply i True [] = frame SCTP_CMD_ITERATE_ELEMENTS i SCTP_RESULT_FAIL [] @
     frame SCTP_CMD_ITERATE_ELEMENTS i SCTP_RESULT_OK (word_bytes 4 (0 :: u32))"
  by (simp add: iterate_reply_def frame_def)

lemma framed_iterators:
  assumes "processIterateElements E c i params w = Some (SCTP_NO_ERROR, out, w')"
  shows "framed SCTP_CMD_ITERATE_ELEMENTS i out \<or>
     out = frame SCTP_CMD_ITERATE_ELEMENTS i SCTP_RESULT_FAIL [] @ frame SCTP_CMD_ITERATE_ELEMENTS i SCTP_RESULT_OK (word_bytes 4 (0 :: u32))"
proof -
  have "\<exists>n rs s u it3 it5 s0. out = iterate_reply i n rs \<and>
      (run_it3 u it3 s0 = Some (rs, s) \<and> n = (it3 = None) \<or> run_it5 u it5 s0 = Some (rs, s) \<and> n = (it5 = None))"
    using assms unfolding processIterateElements_def
    by (auto elim!: READ_PARAM_E split: option.splits Option.bind_splits if_splits) blast+
  then obtain n rs s u it3 it5 s0 where o: "out = iterate_reply i n rs"
    and r: "run_it3 u it3 s0 = Some (rs, s) \<and> n = (it3 = None) \<or> run_it5 u it5 s0 = Some (rs, s) \<and> n = (it5 = None)"
    by blast
  have "(\<forall>r \<in> set rs. length r = 3) \<or> (\<forall>r \<in> set rs. length r = 5)" using r run_rows by blast
  moreover have "n \<longrightarrow> rs = []" using r by (auto simp: run_it3_def run_it5_def)
  ultimately show ?thesis using o iterate_reply_framed [of rs] null_reply [of i] by (cases n) auto
qed




end
