(* ===== verification/Sc_Sctp_Chain.thy ===== *)
theory Sc_Sctp_Chain
  imports Sc_Sctp_Frames
begin

text \<open>
  Chains of iterators: the sizes and positions of results, the kinds of the arguments, and the
  generation of constructions.
\<close>

subsection \<open>Chains of iterators\<close>

lemma argsCount_le: "argsCount it \<le> 5"
  by (simp add: argsCount_def)

lemma argsCount_args [simp]: "argsCount (it\<lparr>m_args := as\<rparr>) = argsCount it"
  by (simp add: argsCount_def)

lemma build_iterators_length: "build_iterators E n first params = Some its \<Longrightarrow> length its = n"
  by (induction n arbitrary: first params its) (auto simp: Let_def split: prod.splits if_splits)

lemma oneResultSize_sum:
  assumes "length its \<le> 50"
  shows "unat (oneResultSize its) = sum_list (map argsCount its)" "sum_list (map argsCount its) \<le> 5 * length its"
proof -
  show b: "sum_list (map argsCount its) \<le> 5 * length its" by (induction its) (use argsCount_le in \<open>auto intro: add_mono\<close>)
  have "oneResultSize its = of_nat (sum_list (map argsCount its))" by (induction its) simp_all
  then show "unat (oneResultSize its) = sum_list (map argsCount its)"
    using b assms by (simp add: unat_of_nat)
qed

lemma build_limit: "build E params = Some its \<Longrightarrow> length its \<le> 50"
  using build_iterators_length by (fastforce simp: build_def Let_def word_le_nat_alt not_less split: prod.splits if_splits)


lemma build_type [simp]: "m_type (fst (buildParams E it params)) = m_type it" "m_type (fst (buildRepl E it params)) = m_type it"
  by (simp_all add: buildParams_def preapreArgs_def buildRepl_def Let_def split_beta)


text \<open>The arguments of an iterator as they are built.\<close>

lemma build_args_kinds:
  "map ip_is_type (fst (build_args E repl ps params)) = map ip_is_type ps"
  by (induction E repl ps params rule: build_args.induct) (auto simp: Let_def split: prod.splits)

lemma known_types: "(x :: u8) \<le> 8 \<longleftrightarrow> x \<in> {0, 1, 2, 3, 4, 5, 6, 7, 8}"
  by (auto simp: word_le_nat_alt word_unat_eq_iff)

lemma kinds_count: "length (arg_kinds (m_type it)) = argsCount it"
proof (cases "m_type it \<le> 8")
  case True
  then show ?thesis unfolding known_types by (auto simp: arg_kinds_def argsCount_def sctp_iterators)
next
  case False
  moreover from False have "\<not> m_type it \<le> 2" by (simp add: word_le_nat_alt)
  ultimately show ?thesis using known_types [of "m_type it"] by (auto simp: arg_kinds_def argsCount_def sctp_iterators)
qed

definition well_typed :: "IteratorData \<Rightarrow> bool" where
  "well_typed it \<longleftrightarrow> length (m_repl it) = 5 \<and> length (m_args it) = 5 \<and>
     map ip_is_type (take (argsCount it) (m_args it)) = arg_kinds (m_type it) \<and> m_it3 it = None \<and> m_it5 it = None"

lemma prepared_kinds:
  assumes "length (m_args it) = 5"
  shows "map ip_is_type (take (argsCount it) (m_args (preapreArgs it))) = arg_kinds (m_type it)"
    "length (m_args (preapreArgs it)) = 5"
proof -
  have n: "length (arg_kinds (m_type it)) \<le> 5" "length (arg_kinds (m_type it)) = argsCount it"
    using kinds_count [of it] argsCount_le [of it] by simp_all
  have "map ip_is_type (map2 (\<lambda>p k. p\<lparr>ip_is_type := k\<rparr>) ps ks) = ks" if "length ks \<le> length ps" for ps ks
    using that by (induction ps ks rule: list_induct2') auto
  from this [of "arg_kinds (m_type it)" "m_args it"]
  show "map ip_is_type (take (argsCount it) (m_args (preapreArgs it))) = arg_kinds (m_type it)"
    "length (m_args (preapreArgs it)) = 5"
    using n assms by (simp_all add: preapreArgs_def Let_def)
qed

lemma buildParams_typed:
  assumes "length (m_args it) = 5" "length (m_repl it) = 5" "m_it3 it = None" "m_it5 it = None"
  shows "well_typed (fst (buildParams E it params))"
proof -
  let ?it = "preapreArgs it" and ?n = "argsCount it"
  let ?as = "fst (build_args E (m_repl ?it) (take ?n (m_args ?it)) params)"
  have k: "map ip_is_type ?as = arg_kinds (m_type it)" unfolding build_args_kinds by (rule prepared_kinds(1) [OF assms(1)])
  then have l: "length ?as = ?n" using kinds_count [of it] by (metis length_map)
  have f: "m_type ?it = m_type it" "m_repl ?it = m_repl it" "m_it3 ?it = None" "m_it5 ?it = None"
    using assms by (simp_all add: preapreArgs_def Let_def)
  have e: "fst (buildParams E it params) = ?it\<lparr>m_args := ?as @ drop ?n (m_args ?it)\<rparr>"
    by (simp add: buildParams_def Let_def split_beta)
  have "argsCount (fst (buildParams E it params)) = ?n" by (simp add: argsCount_def)
  then show ?thesis
    using k l f prepared_kinds(2) [OF assms(1)] argsCount_le [of it] assms(2)
    by (simp add: well_typed_def e)
qed

lemma build_iterators_SucE:
  assumes "build_iterators E (Suc n) first params = Some its"
  obtains t q ps r xs where "build_iterators E n False r = Some xs"
    and "its = fst (buildParams E (fst (if first then (new_iterator_data\<lparr>m_type := t\<rparr>, q)
      else buildRepl E (new_iterator_data\<lparr>m_type := t\<rparr>) q)) ps) # xs"
proof -
  define h where "h = (\<lambda>t q. if first then (new_iterator_data\<lparr>m_type := t\<rparr>, q)
      else buildRepl E (new_iterator_data\<lparr>m_type := t\<rparr>) q)"
  obtain d rest1 where d: "readRawData E 1 params = (d, rest1)" by fastforce
  obtain it1 rest2 where i: "h (hd d) rest1 = (it1, rest2)" by fastforce
  obtain it2 rest3 where j: "buildParams E it1 rest2 = (it2, rest3)" by fastforce
  from assms obtain xs where "build_iterators E n False rest3 = Some xs" "its = it2 # xs"
    unfolding build_iterators.simps Let_def d prod.case i [unfolded h_def] j by (auto split: if_split_asm)
  with i j show thesis using that [of rest3 xs "hd d" rest1 rest2] unfolding h_def by simp
qed

lemma built_typed:
  assumes E: "raw_reads E" and "build_iterators E n first params = Some its"
  shows "\<forall>it \<in> set its. well_typed it"
  using assms(2)
proof (induction n arbitrary: first params its)
  case (Suc n)
  have N: "length (m_args it) = 5 \<and> length (m_repl it) = 5 \<and> m_it3 it = None \<and> m_it5 it = None"
    if "it = new_iterator_data\<lparr>m_type := t\<rparr> \<or> it = fst (buildRepl E (new_iterator_data\<lparr>m_type := t\<rparr>) ps)" for it t ps
  proof -
    have "fixedCount x \<le> 5" for x by (simp add: fixedCount_def)
    then have "min (length ps) (fixedCount x) \<le> 5" for x by (meson le_trans min.cobounded2)
    then show ?thesis using that E by (auto simp: new_iterator_data_def buildRepl_def raw_reads_def Let_def)
  qed
  have T: "well_typed (fst (buildParams E (fst (if first then (new_iterator_data\<lparr>m_type := t\<rparr>, q)
      else buildRepl E (new_iterator_data\<lparr>m_type := t\<rparr>) q)) ps))" for t q ps
    using N [of "new_iterator_data\<lparr>m_type := t\<rparr>" t q] N [of "fst (buildRepl E (new_iterator_data\<lparr>m_type := t\<rparr>) q)" t q]
    by (cases first) (simp_all add: buildParams_typed)
  from Suc.prems obtain t q ps r xs where "build_iterators E n False r = Some xs"
    and "its = fst (buildParams E (fst (if first then (new_iterator_data\<lparr>m_type := t\<rparr>, q)
      else buildRepl E (new_iterator_data\<lparr>m_type := t\<rparr>) q)) ps) # xs"
    by (rule build_iterators_SucE)
  with T Suc.IH show ?case by auto
qed simp

lemma build_typed: "raw_reads E \<Longrightarrow> build E params = Some its \<Longrightarrow> it \<in> set its \<Longrightarrow> well_typed it"
  using built_typed by (fastforce simp: build_def Let_def split: prod.splits if_splits)

lemma apply_repls_typed:
  assumes "apply_repls E pos result is it = Some it'" and "well_typed it"
  shows "well_typed it'" "m_type it' = m_type it"
proof -
  have "well_typed it' \<and> m_type it' = m_type it"
    using assms
  proof (induction E pos result "is" it rule: apply_repls.induct)
    case (2 E pos result i "is" it)
    have "well_typed (it\<lparr>m_args := (m_args it)[p := (m_args it ! p)\<lparr>ip_addr := a\<rparr>]\<rparr>)" for p a
    proof -
      let ?args = "(m_args it)[p := (m_args it ! p)\<lparr>ip_addr := a\<rparr>]"
      have "map ip_is_type ?args = map ip_is_type (m_args it)"
        by (cases "p < length (m_args it)") (simp_all add: map_update list_update_same_conv list_update_beyond)
      then have "map ip_is_type (take n ?args) = map ip_is_type (take n (m_args it))" for n by (metis take_map)
      then show ?thesis using "2.prems"(2) by (simp add: well_typed_def)
    qed
    with 2 show ?case by (auto simp: Let_def split: if_splits Option.bind_splits)
  qed simp
  then show "well_typed it'" "m_type it' = m_type it" by auto
qed

lemma typed_shapes:
  assumes "well_typed it"
  defines "p \<equiv> \<lambda>i. param_of (m_args it ! i)"
  shows "argsCount it = 3 \<Longrightarrow> \<exists>t. scIterator3Type (m_type it) = Some t \<and> check_shape t (p 0) (p 1) (p 2)"
    "argsCount it = 5 \<Longrightarrow> \<exists>t. scIterator5Type (m_type it) = Some t \<and> check_shape5 t (p 0) (p 1) (p 2) (p 3) (p 4)"
proof -
  have l: "length (m_args it) = 5" and k: "map ip_is_type (take (argsCount it) (m_args it)) = arg_kinds (m_type it)"
    using assms(1) by (simp_all add: well_typed_def)
  have q: "is_type (p i) = arg_kinds (m_type it) ! i" if "i < argsCount it" for i
    using that l argsCount_le [of it] unfolding k [symmetric] by (simp add: p_def param_of_def is_type_def)
  have "argsCount it \<noteq> 0 \<Longrightarrow> m_type it \<le> 8" by (auto simp: argsCount_def sctp_iterators intro: order_trans split: if_splits)
  then have t: "argsCount it \<noteq> 0 \<Longrightarrow> m_type it \<in> {0, 1, 2, 3, 4, 5, 6, 7, 8}" using known_types by blast
  show "argsCount it = 3 \<Longrightarrow> \<exists>t. scIterator3Type (m_type it) = Some t \<and> check_shape t (p 0) (p 1) (p 2)"
    using q [of 0] q [of 1] q [of 2] t
    by (auto simp: scIterator3Type_def arg_kinds_def check_shape_def argsCount_def sctp_iterators)
  show "argsCount it = 5 \<Longrightarrow> \<exists>t. scIterator5Type (m_type it) = Some t \<and> check_shape5 t (p 0) (p 1) (p 2) (p 3) (p 4)"
  proof -
    assume c: "argsCount it = 5"
    then have "m_type it \<in> {3, 4, 5, 6, 7, 8}" using t by (auto simp: argsCount_def sctp_iterators)
    then show ?thesis
      using c q [of 0] q [of 1] q [of 2] q [of 3] q [of 4]
      by (elim insertE emptyE) (simp_all add: scIterator5Type_def arg_kinds_def check_shape5_def sctp_iterators)
  qed
qed

text \<open>
  C26. Whatever bytes a client sends, in a chain that was accepted every iterator of a known type has
  arguments of the kinds that its type asks for, so that the check of the shape in the constructors
  \<^verbatim>\<open>sc_iterator3_new\<close> and \<^verbatim>\<open>sc_iterator5_new\<close> never refuses it, also after results of earlier
  iterators were put in.
\<close>

theorem chain_well_typed:
  assumes "raw_reads E" and "build E params = Some its" and "it \<in> set its"
    and "apply_repls E pos result is it = Some it'"
  defines "p \<equiv> \<lambda>i. param_of (m_args it' ! i)"
  shows "argsCount it' = argsCount it \<and>
     (argsCount it = 3 \<longrightarrow> (\<exists>t. scIterator3Type (m_type it) = Some t \<and> check_shape t (p 0) (p 1) (p 2))) \<and>
     (argsCount it = 5 \<longrightarrow> (\<exists>t. scIterator5Type (m_type it) = Some t \<and> check_shape5 t (p 0) (p 1) (p 2) (p 3) (p 4)))"
proof -
  note T = apply_repls_typed [OF assms(4) build_typed [OF assms(1-3)]]
  have "argsCount it' = argsCount it" by (simp add: argsCount_def T(2))
  then show ?thesis using typed_shapes [OF T(1)] unfolding p_def T(2) by simp
qed

theorem chain_well_typed_witness:
  "\<exists>it. build sample_env [1, 0, 0, 0, 1, 0, 0x20, 0, 0, 0] = Some [it] \<and>
     check_shape sc_iterator3_f_a_a (param_of (m_args it ! 0)) (param_of (m_args it ! 1)) (param_of (m_args it ! 2))"
proof -
  obtain it where b: "build sample_env [1, 0, 0, 0, 1, 0, 0x20, 0, 0, 0] = Some [it]" "m_type it = 0"
    by (simp add: build_def split_beta raw_reads_def [THEN iffD1, OF sample_server(1), rule_format])
  from chain_well_typed [OF sample_server(1) b(1), of it 0 "[]" "[]" it] b show ?thesis
    by (simp add: argsCount_def scIterator3Type_def sctp_iterators)
qed

subsection \<open>Generation\<close>

lemma generate_one_fails:
  assumes "generate_one E ctx it (replicate n SC_ADDR_MAKE_EMPTY) 0 s = Some (ok, result, s')"
  shows "\<not> ok"
  using assms
  by (auto simp: generate_one_def vec_at_def vec_put_def SC_ADDR_IS_EMPTY_def split: if_splits Option.bind_splits)

lemma generate_fails:
  assumes "generate E ctx its s = Some (ok, result, s')"
  shows "\<not> ok"
  using assms unfolding generate_def
  by (cases its) (auto split: Option.bind_splits if_splits dest: generate_one_fails)

lemma known_triples: "(x :: u8) \<le> 2 \<longleftrightarrow> x \<in> {0, 1, 2}"
  by (auto simp: word_le_nat_alt word_unat_eq_iff)

lemma generate_first:
  assumes "argsCount it \<noteq> 0" and "m_type it \<noteq> SCTP_ITERATOR_3A_A_F" and "length its < 50"
  shows "\<exists>result. generate E ctx (it # its) s = Some (False, result, s)"
proof -
  have n: "unat (oneResultSize (it # its)) = argsCount it + sum_list (map argsCount its)"
    using oneResultSize_sum(1) [of "it # its"] assms(3) by simp
  have "\<exists>t. scIterator3Type (m_type it) = Some t \<and> t \<noteq> sc_iterator3_a_a_f" if "argsCount it = 3"
    using that assms(2) known_triples [of "m_type it"]
    by (auto simp: scIterator3Type_def argsCount_def sctp_iterators split: if_splits)
  moreover have "argsCount it = 3 \<or> argsCount it = 5" using assms(1) by (simp add: argsCount_def split: if_splits)
  ultimately show ?thesis using n
    by (auto simp: generate_def generate_one_def Q_ASSERT_def vec_at_def SC_ADDR_IS_EMPTY_def)
qed

text \<open>
  C40. The generation of a construction over the network never succeeds. The reply is a failure, whatever
  the parameters and the memory, and when the first iterator starts from a fixed element the command does
  return this reply and leaves the server as it was.
\<close>

theorem generation_never_succeeds:
  "(\<forall>res out w'. processGenerateConstruction E c i params w = Some (res, out, w') \<longrightarrow>
      res = SCTP_NO_ERROR \<and> out = frame SCTP_CMD_GENERATE_CONSTRUCTION i SCTP_RESULT_FAIL []) \<and>
   (\<forall>it its. build E params = Some (it # its) \<and> argsCount it \<noteq> 0 \<and> m_type it \<noteq> SCTP_ITERATOR_3A_A_F \<and> client c w \<noteq> None \<longrightarrow>
      processGenerateConstruction E c i params w =
        Some (SCTP_NO_ERROR, frame SCTP_CMD_GENERATE_CONSTRUCTION i SCTP_RESULT_FAIL [], w))"
proof -
  have m: "set_memory (memory w) w = w" by (simp add: set_memory_def)
  have "length its < 50" if "build E params = Some (it # its)" for it its
    using build_limit [OF that] by simp
  then show ?thesis
    using generate_first [of _ _ E _ "memory w"] m
    by (fastforce simp: processGenerateConstruction_def frame_def Let_def dest: generate_fails
          split: option.splits Option.bind_splits if_splits)
qed

theorem generation_never_succeeds_witness:
  "processGenerateConstruction sample_env 0 7 [1, 0, 0, 0, 1, 0, 0x20, 0, 0, 0] sample_world =
     Some (SCTP_NO_ERROR, frame SCTP_CMD_GENERATE_CONSTRUCTION 7 SCTP_RESULT_FAIL [], sample_world)"
proof -
  obtain it where b: "build sample_env [1, 0, 0, 0, 1, 0, 0x20, 0, 0, 0] = Some [it]" "m_type it = 0"
    by (simp add: build_def split_beta raw_reads_def [THEN iffD1, OF sample_server(1), rule_format])
  then have "build sample_env [1, 0, 0, 0, 1, 0, 0x20, 0, 0, 0] = Some (it # []) \<and> argsCount it \<noteq> 0 \<and>
      m_type it \<noteq> SCTP_ITERATOR_3A_A_F \<and> client 0 sample_world \<noteq> None"
    using sample_server(2) by (simp add: argsCount_def sctp_iterators)
  then show ?thesis by (rule generation_never_succeeds [THEN conjunct2, rule_format])
qed

end
