(* ===== verification/Sc_Sctp_Content.thy ===== *)
theory Sc_Sctp_Content
  imports Sc_Sctp_Session Sc_Helper_Laws
begin

text \<open>Contents of links over the network: what is written is what is read.\<close>

subsection \<open>Sending a stream\<close>

lemma send_content_ok:
  assumes "stream_ok st"
  shows "send_content st len wr buf out = Some (SCTP_NO_ERROR, wr + of_nat (length (rest st)), out @ rest st)"
  using assms
proof (induction "length (rest st)" arbitrary: st wr buf out rule: less_induct)
  case less
  show ?case
  proof (cases "sc_stream_eof st")
    case True
    then have "rest st = []" using less.prems stream.rest_eof by blast
    with True show ?thesis by (simp add: send_content.simps [of st])
  next
    case False
    let ?d = "take 512 (rest st)"
    obtain st1 where r: "sc_stream_read_data 512 st = Some (SC_RESULT_OK, ?d, st1)" "stream_ok st1"
      and l: "rest st1 = drop 512 (rest st)" and e: "length (rest st) < 512 \<Longrightarrow> sc_stream_eof st1"
      using stream.read_block [OF less.prems False, of 512] by auto
    have step: "send_content st len wr buf out = send_content st1 len (wr + of_nat (length ?d)) ?d (out @ ?d)"
      using False r(1) by (simp add: send_content.simps [of st])
    also have "\<dots> = Some (SCTP_NO_ERROR, wr + of_nat (length ?d) + of_nat (length (rest st1)), (out @ ?d) @ rest st1)"
    proof (cases "length (rest st) < 512")
      case True
      then show ?thesis using l e by (simp add: send_content.simps [of st1])
    next
      case False
      then have "length (rest st1) < length (rest st)" unfolding l by simp
      from less.hyps [OF this r(2)] show ?thesis .
    qed
    also have "\<dots> = Some (SCTP_NO_ERROR, wr + of_nat (length (rest st)), out @ rest st)"
    proof -
      have "length (rest st) = length ?d + length (rest st1)" unfolding l by simp
      then show ?thesis unfolding l by (simp only: of_nat_add) (simp add: add.assoc)
    qed
    finally show ?thesis .
  qed
qed

lemma read_data_sent:
  assumes "raw_reads E" "data \<noteq> []" "length data < 2 ^ 31"
  shows "read_data E (word_bytes 4 (of_nat (length data) :: u32) @ data) w k = k data"
  using assms sint_of_nat [OF assms(3)]
  by (simp add: read_data_def READ_PARAM_ok word_bytes_back Q_ASSERT_def g_assert_def raw_reads_def unat_of_nat)

definition set_content_params :: "sc_addr \<Rightarrow> bytes \<Rightarrow> bytes" where
  "set_content_params a data = addr_bytes a @ word_bytes 4 (of_nat (length data) :: u32) @ data"

text \<open>
  C7. What a client writes into a link over the network is what it gets back: after the bytes of a
  request to set a content and of a request to get it, the server has written a success and then a
  reply whose data are the bytes of the content, whatever their number.
\<close>

theorem content_over_network:
  assumes "raw_reads E" and "client c w = Some ctx" and "rocks_ok (env_db E)" and "fm_wf (env_db E) (rocks w)"
    and "sha_ok (env_sha E)" and "settable ctx a (memory w)"
    and "sc_access_lvl_check_read (ctx_access ctx) (el_access (el_at (memory w) a))"
    and "\<forall>cs. length (links_of (fm_abs (env_db E) (rocks w)) cs) < 2 ^ 64 - 1"
    and "data \<noteq> []" and "length data < 2 ^ 31 - 8"
    and "available dev = command_bytes SCTP_CMD_SET_LINK_CONTENT fl i (set_content_params a data) @
        command_bytes SCTP_CMD_GET_LINK_CONTENT fl' j (addr_bytes a)"
  shows "\<exists>w'. processCommands E c dev w = Some ([SCTP_NO_ERROR, SCTP_NO_ERROR],
       writeResultHeader SCTP_CMD_SET_LINK_CONTENT i SCTP_RESULT_OK 0 @
       writeResultHeader SCTP_CMD_GET_LINK_CONTENT j SCTP_RESULT_OK (of_nat (length data)) @ data,
       dev\<lparr>available := []\<rparr>, w')"
proof -
  have n: "length data < 2 ^ 31" "length data < 2 ^ 32" using assms(10) by simp_all
  obtain st where st: "memory_stream data = Some st" "stream_ok st" "whole st = data"
    using memory_stream_ok [OF n(2)] by blast
  let ?s = "content_event a (set_el a (new_cell (env_sha E) data) (memory w))"
  obtain st' d' where set: "sc_storage_set_link_content (env_db E) (env_sha E) ctx a st (memory w) (rocks w) =
      Some (SC_RESULT_OK, st', ?s, d')"
    "fm_abs (env_db E) d' = index_keep (env_sha E) a data (index_forget (env_sha E) a (el_at (memory w) a) (fm_abs (env_db E) (rocks w)))"
    using set_link_content_ok [OF assms(3,4) st(2) assms(6,5,8)] unfolding st(3) by blast
  note after = settable_after [OF assms(6,5), of data]
  have "link_ok (el_at (memory w) a)" using assms(6) by (simp add: settable_def)
  then obtain r where out: "read_content (env_db E) (new_cell (env_sha E) data (el_at (memory w) a)) d' = Some (SC_RESULT_OK, Some r)"
    "stream_ok r" "whole r = data" "at_pos r = 0"
    using read_new_cell [of data "env_db E" d' "env_sha E" "el_at (memory w) a"] set(2) assms(5,9) n(2)
    by (auto simp: index_keep_def index_store_def index_add_def)
  have get: "sc_storage_get_link_content (env_db E) ctx a ?s d' = Some (SC_RESULT_OK, Some r, ?s)"
    by (rule get_link_content_ok [OF after(1)])
       (use after(2) assms(7) out(1) in \<open>simp_all add: new_cell_type\<close>)
  obtain r1 where len: "sc_stream_get_length r = (SC_RESULT_OK, Some (of_nat (length data)), r1)" "stream_ok r1" "rest r1 = data"
    using get_length_ok [OF out(2)] out(3,4) by (auto simp: rest_def same_stream_def)
  let ?w = "(set_memory ?s w)\<lparr>rocks := d'\<rparr>"
  have w: "memory ?w = ?s" "client c ?w = Some ctx" "rocks ?w = d'" "set_memory ?s ?w = ?w"
    using assms(2) by (simp_all add: set_memory_def client_def)
  have one: "dispatch E c SCTP_CMD_SET_LINK_CONTENT i (set_content_params a data) w =
      Some (SCTP_NO_ERROR, writeResultHeader SCTP_CMD_SET_LINK_CONTENT i SCTP_RESULT_OK 0, ?w)"
    using assms(1,2,9) n(1) st(1) set(1)
    by (simp add: dispatch_def sctp_commands processSetLinkContent_def set_content_params_def READ_PARAM_ok read_data_sent result_code_def)
  have two: "dispatch E c SCTP_CMD_GET_LINK_CONTENT j (addr_bytes a) ?w =
      Some (SCTP_NO_ERROR, writeResultHeader SCTP_CMD_GET_LINK_CONTENT j SCTP_RESULT_OK (of_nat (length data)) @ data, ?w)"
    using w get len send_content_ok [OF len(2)]
    by (simp add: dispatch_def sctp_commands processGetLinkContent_def READ_PARAM_end [OF assms(1)] Q_ASSERT_def)
  let ?get = "command_bytes SCTP_CMD_GET_LINK_CONTENT fl' j (addr_bytes a)"
  have "length (set_content_params a data) < 2 ^ 31" using assms(10) by (simp add: set_content_params_def)
  from command_read [OF assms(11) this, of E c w]
  have p1: "processCommand E c dev w = Some (SCTP_NO_ERROR, writeResultHeader SCTP_CMD_SET_LINK_CONTENT i SCTP_RESULT_OK 0,
      dev\<lparr>available := ?get\<rparr>, ?w)" by (simp add: one)
  have p2: "processCommand E c (dev\<lparr>available := ?get\<rparr>) ?w = Some (SCTP_NO_ERROR,
      writeResultHeader SCTP_CMD_GET_LINK_CONTENT j SCTP_RESULT_OK (of_nat (length data)) @ data, dev\<lparr>available := []\<rparr>, ?w)"
    using command_read [of "dev\<lparr>available := ?get\<rparr>" SCTP_CMD_GET_LINK_CONTENT fl' j "addr_bytes a" "[]" E c ?w] by (simp add: two)
  have l: "cmdHeaderSize \<le> length (available dev)" "cmdHeaderSize \<le> length ?get"
    by (simp_all add: assms(11) command_bytes_def cmdHeaderSize_def)
  show ?thesis
    by (simp add: processCommands.simps [of E c dev] processCommands.simps [of E c "dev\<lparr>available := ?get\<rparr>"]
          processCommands.simps [of E c "dev\<lparr>available := []\<rparr>"] p1 p2 l) (simp add: cmdHeaderSize_def)
qed

theorem content_over_network_witness:
  "\<exists>w'. processCommands sample_env 0 \<lparr>available = command_bytes SCTP_CMD_SET_LINK_CONTENT 0 7 (set_content_params sample_link [1, 2, 3]) @
        command_bytes SCTP_CMD_GET_LINK_CONTENT 0 8 (addr_bytes sample_link), arriving = []\<rparr> sample_world =
     Some ([SCTP_NO_ERROR, SCTP_NO_ERROR], writeResultHeader SCTP_CMD_SET_LINK_CONTENT 7 SCTP_RESULT_OK 0 @
       writeResultHeader SCTP_CMD_GET_LINK_CONTENT 8 SCTP_RESULT_OK 3 @ [1, 2, 3], \<lparr>available = [], arriving = []\<rparr>, w')"
proof -
  have s: "settable min_ctx sample_link sample"
    using sample_settable(1) sample_access(2) [of "ctx_access min_ctx" sample_link] by (simp add: settable_def)
  let ?dev = "\<lparr>available = command_bytes SCTP_CMD_SET_LINK_CONTENT 0 7 (set_content_params sample_link [1, 2, 3]) @
        command_bytes SCTP_CMD_GET_LINK_CONTENT 0 8 (addr_bytes sample_link), arriving = []\<rparr>"
  have d: "available ?dev = command_bytes SCTP_CMD_SET_LINK_CONTENT 0 7 (set_content_params sample_link [1, 2, 3]) @
        command_bytes SCTP_CMD_GET_LINK_CONTENT 0 8 (addr_bytes sample_link)" by simp
  from content_over_network [OF sample_server _ _ _ _ _ _ _ _ d]
  show ?thesis using map_db_ok some_sha_ok s sample_access(1) [of "ctx_access min_ctx" sample_link] by simp
qed

end
