(* ===== verification/Sc_Sctp_Notify.thy ===== *)
theory Sc_Sctp_Notify
  imports Sc_Sctp_Frames
begin

text \<open>Subscriptions of network clients: their numbers, and the delivery of notifications.\<close>

subsection \<open>Numbers of subscriptions\<close>

definition stops :: "u32 \<Rightarrow> (u32 \<rightharpoonup> sEventData) \<Rightarrow> u32 \<Rightarrow> bool" where
  "stops start evs i \<longleftrightarrow> i = start \<or> evs i = None \<or> i = 0"

lemma find_event_id_walk:
  assumes "stops start evs (of_nat (n + k))" and "\<forall>m < k. \<not> stops start evs (of_nat (n + m))"
  shows "find_event_id start evs (of_nat n) = Some (of_nat (n + k))"
  using assms
proof (induction k arbitrary: n)
  case 0
  then show ?case by (auto simp: find_event_id.simps [of start evs "of_nat n"] stops_def)
next
  case (Suc k)
  have "\<not> stops start evs (of_nat n)" using Suc.prems(2) by (metis add_0_right zero_less_Suc)
  then have "find_event_id start evs (of_nat n) = find_event_id start evs (of_nat (Suc n))"
    by (subst find_event_id.simps) (auto simp: stops_def add.commute)
  also have "\<dots> = Some (of_nat (Suc n + k))" 
  proof (rule Suc.IH)
    show "stops start evs (of_nat (Suc n + k))" using Suc.prems(1) by simp
    show "\<forall>m < k. \<not> stops start evs (of_nat (Suc n + m))"
      using Suc.prems(2) by (metis Suc_less_eq add_Suc_shift)
  qed
  finally show ?case by simp
qed

lemma find_event_id_returns:
  "\<exists>i. find_event_id start evs (start + 1) = Some i \<and>
     (i = 0 \<and> (\<forall>j > start. evs j \<noteq> None) \<or> start < i \<and> evs i = None)"
proof -
  define x where "x = (\<lambda>m. of_nat (unat start + 1 + m) :: u32)"
  define K where "K = 2 ^ 32 - (unat start + 1)"
  have N: "unat start < 2 ^ 32" using unsigned_less [of start, where ?'a = nat] by simp
  have u: "unat (x m) = unat start + 1 + m" if "m < K" for m
    using that N by (simp add: x_def K_def unat_of_nat del: of_nat_Suc)
  have "x K = of_nat (2 ^ 32)" using N by (simp add: x_def K_def del: of_nat_add of_nat_Suc)
  also have "\<dots> = (0 :: u32)" by simp
  finally have z: "x K = 0" .
  define k where "k = (LEAST k. stops start evs (x k))"
  have ks: "stops start evs (x k)" "k \<le> K" and least: "\<forall>m < k. \<not> stops start evs (x m)"
    using z LeastI [of "\<lambda>k. stops start evs (x k)" K] unfolding k_def
    by (auto simp: stops_def [of _ _ 0] intro: Least_le dest: not_less_Least)
  have f: "find_event_id start evs (start + 1) = Some (x k)"
    using find_event_id_walk [of start evs "unat start + 1" k] ks(1) least by (simp add: x_def add.commute)
  show ?thesis
  proof (cases "k = K")
    case True
    have "evs j \<noteq> None" if "start < j" for j
    proof -
      have j: "unat start < unat j" "unat j < 2 ^ 32"
        using that unsigned_less [of j, where ?'a = nat] by (simp_all add: word_less_nat_alt)
      then have "x (unat j - (unat start + 1)) = j" by (simp add: x_def del: of_nat_add of_nat_Suc)
      moreover have "unat j - (unat start + 1) < k" using j True by (simp add: K_def)
      ultimately show ?thesis using least by (auto simp: stops_def)
    qed
    with True z f show ?thesis by auto
  next
    case False
    then have i: "unat (x k) = unat start + 1 + k" using u ks(2) by simp
    then have "start < x k" "x k \<noteq> 0" by (auto simp: word_less_nat_alt)
    with ks(1) f show ?thesis by (auto simp: stops_def)
  qed
qed

text \<open>
  C36. The search for the number of a new subscription ends. It finds the least free number above the last
  one; when there is none it falls back to zero, which may be in use, and it fails only when zero was the
  last number, when all other numbers are in use.
\<close>

theorem event_number_found:
  "\<exists>ok i w'. getAvailableEventId w = Some (ok, i, w') \<and>
     (if \<exists>j > mLastEventId w. mEvents w j = None then ok \<and> mLastEventId w < i \<and> mEvents w i = None
      else i = 0 \<and> ok = (mLastEventId w \<noteq> 0)) \<and>
     w' = (if ok then w\<lparr>mLastEventId := i\<rparr> else w)"
proof -
  obtain i where i: "find_event_id (mLastEventId w) (mEvents w) (mLastEventId w + 1) = Some i"
    "i = 0 \<and> (\<forall>j > mLastEventId w. mEvents w j \<noteq> None) \<or> mLastEventId w < i \<and> mEvents w i = None"
    using find_event_id_returns [of "mLastEventId w" "mEvents w"] by blast
  then show ?thesis by (auto simp: getAvailableEventId_def)
qed

theorem event_number_found_witness:
  "\<exists>w'. getAvailableEventId sample_world = Some (True, 2, w') \<and> mLastEventId w' = 2"
proof -
  have f: "find_event_id 1 Map.empty 2 = Some 2" by (subst find_event_id.simps) simp
  obtain ok i w' where g: "getAvailableEventId sample_world = Some (ok, i, w')"
    "if \<exists>j > mLastEventId sample_world. mEvents sample_world j = None then ok \<and> mLastEventId sample_world < i \<and> mEvents sample_world i = None
      else i = 0 \<and> ok = (mLastEventId sample_world \<noteq> 0)" "w' = (if ok then sample_world\<lparr>mLastEventId := i\<rparr> else sample_world)"
    using event_number_found [of sample_world] by blast
  have "i = 2" using g(1) f by (simp add: getAvailableEventId_def)
  moreover have ok using g(1) f by (simp add: getAvailableEventId_def)
  ultimately show ?thesis using g(1,3) by simp
qed

subsection \<open>Notifications\<close>

text \<open>
  What a call of the callback tells, and whom: the client that subscribed, the number of the subscription,
  the element and the argument.
\<close>

type_synonym notification = "u32 \<times> sc_addr \<times> sc_addr"

definition notice :: "'db sctp_world \<Rightarrow> event_ref \<times> sc_addr \<Rightarrow> (nat \<times> notification) option" where
  "notice w x = do {
     data \<leftarrow> sc_event_get_data (fst x) (events w);
     evt \<leftarrow> mEvents w (of_nat data);
     el \<leftarrow> sc_event_get_element (fst x) (events w);
     if ed_event evt = Some (fst x) \<and> commands w (ed_cmd evt) \<noteq> None then Some (ed_cmd evt, ed_id evt, el, snd x) else None
   }"

definition notification_bytes :: "notification \<Rightarrow> bytes" where
  "notification_bytes x = (case x of (i, el, arg) \<Rightarrow> word_bytes 4 i @ addr_bytes el @ addr_bytes arg)"

text \<open>The callbacks in the order in which the workers run them.\<close>

fun callbacks :: "'db sctp_env \<Rightarrow> (event_ref \<times> sc_addr) list \<Rightarrow> 'db sctp_world \<Rightarrow> 'db sctp_world option" where
  "callbacks E [] w = Some w"
| "callbacks E ((event, arg) # xs) w = do { (_, w1) \<leftarrow> eventsCallback E event arg w; callbacks E xs w1 }"

definition told :: "nat \<Rightarrow> 'db sctp_world \<Rightarrow> (event_ref \<times> sc_addr) list \<Rightarrow> notification list" where
  "told c w xs = map snd (filter (\<lambda>n. fst n = c) (List.map_filter (notice w) xs))"

definition append_notes :: "notification list \<Rightarrow> sctpCommand \<Rightarrow> sctpCommand" where
  "append_notes ns cmd = cmd\<lparr>mSendData := mSendData cmd @ concat (map notification_bytes ns),
     mSendEventsCount := mSendEventsCount cmd + of_nat (length ns)\<rparr>"

lemma append_notes_simps:
  "append_notes [] cmd = cmd" "append_notes ns (append_notes ms cmd) = append_notes (ms @ ns) cmd"
  by (simp_all add: append_notes_def)

lemma callback_appends:
  assumes "notice w (event, arg) = Some (c, n)"
  obtains cmd where "commands w c = Some cmd"
    "eventsCallback E event arg w = Some (SC_RESULT_OK, w\<lparr>commands := (commands w)(c \<mapsto> append_notes [n] cmd)\<rparr>)"
  using assms
  by (auto simp: notice_def eventsCallback_def processEventEmit_def append_notes_def notification_bytes_def Q_ASSERT_def
        split: if_splits Option.bind_splits)

lemma notice_commands:
  assumes "\<And>c. commands w' c = None \<longleftrightarrow> commands w c = None" and "events w' = events w" and "mEvents w' = mEvents w"
  shows "notice w' x = notice w x"
  by (simp add: notice_def assms)

lemma callbacks_append:
  assumes "\<forall>x \<in> set xs. notice w x \<noteq> None"
  shows "callbacks E xs w = Some (w\<lparr>commands := \<lambda>c. map_option (append_notes (told c w xs)) (commands w c)\<rparr>)"
  using assms
proof (induction xs arbitrary: w)
  case Nil
  have "(\<lambda>c. map_option (append_notes []) (commands w c)) = commands w"
  proof (rule ext)
    show "map_option (append_notes []) (commands w c) = commands w c" for c
      by (cases "commands w c") (simp_all add: append_notes_simps)
  qed
  then show ?case by (simp add: told_def map_filter_simps)
next
  case (Cons x xs)
  obtain event arg c n where x: "x = (event, arg)" "notice w (event, arg) = Some (c, n)"
    using Cons.prems by (cases x) auto
  obtain cmd where one: "commands w c = Some cmd"
    "eventsCallback E event arg w = Some (SC_RESULT_OK, w\<lparr>commands := (commands w)(c \<mapsto> append_notes [n] cmd)\<rparr>)"
    by (rule callback_appends [OF x(2)])
  let ?w = "w\<lparr>commands := (commands w)(c \<mapsto> append_notes [n] cmd)\<rparr>"
  have same: "notice ?w = notice w" by (rule ext, rule notice_commands) (simp_all add: one(1))
  then have t: "told c' ?w xs = told c' w xs" for c' by (simp add: told_def)
  have h: "told c' w (x # xs) = (if c' = c then [n] else []) @ told c' w xs" for c'
    by (simp add: told_def x map_filter_simps)
  have "callbacks E xs ?w = Some (?w\<lparr>commands := \<lambda>c. map_option (append_notes (told c ?w xs)) (commands ?w c)\<rparr>)"
    using Cons.prems by (intro Cons.IH) (simp add: same)
  also have "(\<lambda>c'. map_option (append_notes (told c' ?w xs)) (commands ?w c')) =
      (\<lambda>c'. map_option (append_notes (told c' w (x # xs))) (commands w c'))"
    by (rule ext) (simp add: t h one(1) append_notes_simps)
  finally show ?case by (simp add: x(1) one(2) fun_upd_def)
qed

text \<open>
  C24. Notifications reach the client that subscribed, once and in order. When callbacks of subscriptions of
  any clients have run, the next request of a client for its events is answered with the notifications of
  its own subscriptions, in the order of the callbacks and with their number, and the request after it
  with none.
\<close>

theorem notifications_delivered_once:
  assumes "\<forall>x \<in> set xs. notice w x \<noteq> None"
    and "commands w c = Some cmd" and "mSendData cmd = []" and "mSendEventsCount cmd = 0"
  shows "\<exists>w1 w2. callbacks E xs w = Some w1 \<and>
     dispatch E c SCTP_CMD_EVENT_EMIT i params w1 = Some (SCTP_NO_ERROR, frame SCTP_CMD_EVENT_EMIT i SCTP_RESULT_OK
       (word_bytes 4 (of_nat (length (told c w xs)) :: u32) @ concat (map notification_bytes (told c w xs))), w2) \<and>
     dispatch E c SCTP_CMD_EVENT_EMIT j params' w2 = Some (SCTP_NO_ERROR, frame SCTP_CMD_EVENT_EMIT j SCTP_RESULT_OK
       (word_bytes 4 (0 :: u32)), w2)"
proof -
  let ?w = "w\<lparr>commands := \<lambda>c. map_option (append_notes (told c w xs)) (commands w c)\<rparr>"
  let ?w2 = "?w\<lparr>commands := (commands ?w)(c \<mapsto> cmd)\<rparr>"
  have c: "commands ?w c = Some (append_notes (told c w xs) cmd)" "commands ?w2 c = Some cmd" using assms(2) by simp_all
  have e: "cmd\<lparr>mSendData := [], mSendEventsCount := 0\<rparr> = cmd" using assms(3,4) by (cases cmd) simp
  have d: "dispatch E c SCTP_CMD_EVENT_EMIT k p v = processEmitEvent E c k p v" for k p v
    by (simp add: dispatch_def sctp_commands)
  have "processEmitEvent E c i params ?w = Some (SCTP_NO_ERROR, frame SCTP_CMD_EVENT_EMIT i SCTP_RESULT_OK
       (word_bytes 4 (of_nat (length (told c w xs)) :: u32) @ concat (map notification_bytes (told c w xs))), ?w2)"
    using assms(2-4) by (simp add: processEmitEvent_def frame_def append_notes_def e)
  moreover have "processEmitEvent E c j params' ?w2 = Some (SCTP_NO_ERROR, frame SCTP_CMD_EVENT_EMIT j SCTP_RESULT_OK
       (word_bytes 4 (0 :: u32)), ?w2)"
    using c(2) assms(3,4) by (simp add: processEmitEvent_def frame_def e)
  ultimately show ?thesis using callbacks_append [OF assms(1), of E] unfolding d by blast
qed

definition subscribed_world :: "(bytes \<rightharpoonup> bytes) sctp_world" where
  "subscribed_world = sample_world\<lparr>events := (events sample_world)\<lparr>evt_heap := [3 \<mapsto> \<lparr>evt_element = sample_n1,
       evt_type = SC_EVENT_ADD_OUTPUT_ARC, evt_data = 5, evt_callback = Some events_callback, evt_callback_ex = None,
       evt_delete_callback = None, evt_refs = 1, evt_lock = None, evt_access = sc_access_lvl_make_min\<rparr>]\<rparr>,
     mEvents := [5 \<mapsto> \<lparr>ed_event = Some 3, ed_cmd = 0, ed_id = 5\<rparr>]\<rparr>"

theorem notifications_delivered_once_witness:
  "\<exists>w1 w2. callbacks sample_env [(3, sample_n2)] subscribed_world = Some w1 \<and>
     dispatch sample_env 0 SCTP_CMD_EVENT_EMIT 7 [] w1 = Some (SCTP_NO_ERROR, frame SCTP_CMD_EVENT_EMIT 7 SCTP_RESULT_OK
       (word_bytes 4 (1 :: u32) @ notification_bytes (5, sample_n1, sample_n2)), w2)"
proof -
  have n: "notice subscribed_world (3, sample_n2) = Some (0, 5, sample_n1, sample_n2)"
    by (simp add: notice_def subscribed_world_def sample_world_def sc_event_get_data_def sc_event_get_element_def)
  then have t: "told 0 subscribed_world [(3, sample_n2)] = [(5, sample_n1, sample_n2)]"
    by (simp add: told_def map_filter_simps)
  have c: "commands subscribed_world 0 = Some \<lparr>mSendData = [], mSendEventsCount = 0, mEventsSet = {}, mContext = Some 0\<rparr>"
    by (simp add: subscribed_world_def sample_world_def)
  have "\<forall>x \<in> set [(3, sample_n2)]. notice subscribed_world x \<noteq> None" using n by simp
  from notifications_delivered_once [OF this c, of sample_env 7 "[]" 8 "[]"] show ?thesis unfolding t by auto
qed

end
