(* ===== verification/Spec2Isabelle.thy ===== *)
theory Spec2Isabelle
  imports Sc_Segment_File_Props Sc_Iterator5_Laws Sc_Event_Props Sc_Link_Props Sc_Section_Lock Sc_Context
    Sc_Template_Generate Sc_Template_Search_Memory Sc_Template_Apply Sc_Base64
    Sc_Helper_Props Sc_Sctp_Chain Sc_Sctp_Content Sc_Sctp_Notify
begin

text \<open>
  Verification of the core of the sc-machine, a graph store of typed elements and connectors.

  \<^bold>\<open>The program.\<close> The store (\<^verbatim>\<open>src/sc-memory/sc-core\<close>) keeps elements in cells of
  \<^emph>\<open>segments\<close>. A segment is split into 32 interleaved \<^emph>\<open>sections\<close>, each with a recursive lock
  and a count of free cells. The \<^emph>\<open>storage\<close> owns the table of segments and a cache of those
  with room; it creates, reads, changes, deletes and counts references of elements. Connectors
  are threaded on two doubly linked lists, of their begin and of their end. \<^emph>\<open>Iterators\<close> of three
  and of five elements walk these lists. Contents of links live in the cell or in the \<^emph>\<open>file
  memory\<close>, a key-value store with an index from contents to links. Every change emits an
  \<^emph>\<open>event\<close>; subscriptions are reference counted and served by a pool of workers. \<^emph>\<open>Contexts\<close>
  carry the rights of a caller and may hold events back. The \<^emph>\<open>segment file\<close> keeps all cells
  over a restart. The C++ interface (\<^verbatim>\<open>src/sc-memory/sc-memory\<close>) adds \<^emph>\<open>templates\<close>: tables of triples of
  items from which a piece of graph is generated, or for which the graph is searched by
  backtracking over triple iterators. The network server (\<^verbatim>\<open>src/sc-network/sctp_server\<close>) offers the
  memory to clients by a binary protocol: each request names a command, and each command calls the
  memory under the rights of a context of its client and writes a reply.

  \<^bold>\<open>Theories and sources.\<close> Paths are relative to \<^verbatim>\<open>src/sc-memory/sc-core/sc-store\<close>.

  \<^item> \<open>Sc_Prelude\<close>: widths of integers, \<^const>\<open>g_assert\<close>, collections of simplification rules.
  \<^item> \<open>Sc_Types\<close>: \<^verbatim>\<open>sc_types.h\<close>, \<^verbatim>\<open>sc_element.c\<close>. Addresses, type bits, access levels, result
    codes, the cell.
  \<^item> \<open>Sc_Segment\<close>: \<^verbatim>\<open>sc_segment.c\<close>. Section locks, allocation, erasure, statistics. \<open>Sc_Loaded\<close>: the
    state \<^verbatim>\<open>sc_segment_loaded\<close> leaves. \<open>Sc_Section_Lock\<close>: the lock functions as a step relation
    over the atomic operations of any number of threads.
  \<^item> \<open>Sc_Storage\<close>: \<^verbatim>\<open>sc_storage.c\<close>, single elements and the cache. \<open>Sc_Storage_Laws\<close>,
    \<open>Sc_Storage_Alloc\<close>: what the primitives do to the observations \<^const>\<open>el_at\<close>, \<^const>\<open>refs\<close>, \<^const>\<open>held\<close>.
    \<open>Sc_Chain\<close>: the interface of an adjacency list as a locale, interpreted for both lists.
    \<open>Sc_Graph\<close>, \<open>Sc_Graph_Props\<close>: \<^verbatim>\<open>sc_storage_arc_new_ext\<close>, the graph invariant \<^const>\<open>graph_ok\<close>, creation.
    \<open>Sc_Free\<close>: \<^verbatim>\<open>sc_storage_element_free\<close>. \<open>Sc_Refs\<close>, \<open>Sc_Element_Ops\<close>: references, types, ends, rights.
  \<^item> \<open>Sc_Abstract\<close>: the contract towards users, an abstract graph, and the steps of the storage on it.
  \<^item> \<open>Sc_Iterator3\<close>, \<open>Sc_Iterator3_Laws\<close>: \<^verbatim>\<open>sc_iterator3.c\<close>; the three scanning iterators share the
    locales \<open>arc_scan\<close> and \<open>arc_enum\<close>. \<open>Sc_Iterator5\<close>, \<open>Sc_Iterator5_Laws\<close>: \<^verbatim>\<open>sc_iterator5.c\<close>.
  \<^item> \<open>Sc_Event\<close>, \<open>Sc_Event_Laws\<close>: \<^verbatim>\<open>sc_event.c\<close>, \<^verbatim>\<open>sc_event/sc_event_queue.c\<close> and the pending events of
    \<^verbatim>\<open>../sc_memory.c\<close>. \<open>Sc_Event_Machine\<close>, \<open>Sc_Event_Props\<close>: owners, storage and workers interleaved.
  \<^item> \<open>Sc_Stream\<close>: \<^verbatim>\<open>sc_stream.c\<close>, \<^verbatim>\<open>sc_stream_memory.c\<close>, \<^verbatim>\<open>sc_stream_file.c\<close>. \<open>Sc_File_Memory\<close>:
    \<^verbatim>\<open>sc_fm_engine.cpp\<close>, \<^verbatim>\<open>sc_link_helpers.c\<close>. \<open>Sc_Link\<close>, \<open>Sc_Link_Props\<close>: contents of links in \<^verbatim>\<open>sc_storage.c\<close>.
  \<^item> \<open>Sc_Segment_File\<close>, \<open>Sc_Segment_File_Laws\<close>, \<open>Sc_Segment_File_Props\<close>: \<^verbatim>\<open>sc_fs_storage.c\<close>, and starting,
    saving and stopping in \<^verbatim>\<open>sc_storage.c\<close>.
  \<^item> \<open>Sc_Helper\<close>, \<open>Sc_Helper_Laws\<close>, \<open>Sc_Helper_Props\<close>: system identifiers of \<^verbatim>\<open>../sc_helper.c\<close>.
  \<^item> \<open>Sc_Context\<close>: contexts of \<^verbatim>\<open>../sc_memory.c\<close>.
  \<^item> \<open>Sc_Type_Class\<close>: \<^verbatim>\<open>../../sc-memory/sc_type.hpp\<close>, \<^verbatim>\<open>sc_addr.cpp\<close>. \<open>Sc_Base64\<close>: \<^verbatim>\<open>utils/sc_base64.cpp\<close> there.
  \<^item> \<open>Sc_Template\<close>: \<^verbatim>\<open>sc_template_arg.hpp\<close>, \<^verbatim>\<open>sc_template_data.hpp\<close>, \<^verbatim>\<open>sc_template_params.cpp\<close>,
    \<^verbatim>\<open>sc_template_named_struct.cpp\<close>. \<open>Sc_Template_Generate\<close>: \<^verbatim>\<open>sc_template_generate.cpp\<close>.
    \<open>Sc_Template_Order\<close>, \<open>Sc_Template_Search\<close>, \<open>Sc_Template_Apply\<close>: \<^verbatim>\<open>sc_template_search.cpp\<close>;
    \<open>Sc_Template_Search_Laws\<close>: the backtracking machine equals a depth first enumeration;
    \<open>Sc_Template_Search_Memory\<close>: over the triple iterators it finds the embeddings of the template.
  \<^item> \<open>Sc_Sctp_Base\<close>: \<^verbatim>\<open>../../../sc-network/sctp_client/sctpTypes.hpp\<close>, parameters and headers of
    \<^verbatim>\<open>sctp_server/sctpCommand.cpp\<close>. \<open>Sc_Sctp_Events\<close>: \<^verbatim>\<open>sctpEventManager.cpp\<close>. \<open>Sc_Sctp_Iter\<close>: the chains of
    iterators, \<open>Sc_Sctp\<close>: the commands of \<^verbatim>\<open>sctpCommand.cpp\<close> and the loop of \<^verbatim>\<open>sctpClient.cpp\<close>.
    \<open>Sc_Sctp_Session\<close>, \<open>Sc_Sctp_Frames\<close>, \<open>Sc_Sctp_Chain\<close>, \<open>Sc_Sctp_Content\<close>, \<open>Sc_Sctp_Notify\<close>: properties.
  \<^item> \<open>Sc_Sample\<close>, \<open>Sc_Sample_Role\<close>, \<open>Sc_Sctp_Sample\<close>: small concrete storages and a server to which the properties are applied.

  \<^bold>\<open>State and errors.\<close> Each operation is a function from the state to \<open>None\<close> or a result with the
  new state. \<open>None\<close> means that control does not come back: a failed \<^verbatim>\<open>g_assert\<close>, a null pointer,
  a wait for a lock that is not released, a fatal log message. Error codes are results like
  others. The globals of the C code are fields of records (\<^typ>\<open>sc_storage\<close>, \<^typ>\<open>event_world\<close>,
  \<^typ>\<open>context_state\<close>, \<^typ>\<open>unit repository\<close>); the objects of the network server are those of
  \<^typ>\<open>unit sctp_world\<close>. C++ exceptions are values of \<^typ>\<open>exception\<close>. The union of content and connector in a cell is two fields.

  \<^bold>\<open>Threads.\<close> The storage operations are those of one thread; \<open>Sc_Section_Lock\<close> shows that the lock
  calls they are made of are atomic under every interleaving and exclude each other. Events,
  where interleaving is the point, are a step relation. The calls of the storage into the events
  and the file memory are recorded in order in \<^const>\<open>ext_calls\<close>. Each function of the network server
  is one step, as its mutexes make it; a client is served by one thread.

  \<^bold>\<open>Loops.\<close> Loops over a bounded index are structural or have a measure. Loops that may not end
  (\<^verbatim>\<open>sc_storage_arc_new_ext\<close>, the walks of the iterators, waiting for an event) are partial functions
  into \<open>option\<close>; the theorems show that they return, and where they do not. Counters of lock
  attempts are natural numbers; all callers ask for at most 100 attempts, far below the 16 bits
  of the code.

  \<^bold>\<open>Parameters.\<close> RocksDB is the record \<open>rocksdb\<close> with \<^const>\<open>rocks_ok\<close> (a lookup sees the last write), the
  digests of glib are functions, the answers of the operating system are \<^typ>\<open>glib_io\<close>, and the order
  in which glib walks a hash table is any permutation. So are the order of \<^verbatim>\<open>std::sort\<close> on equal
  scores and the iteration orders of the unordered containers. The raw read of a Qt data stream is a
  function with \<^const>\<open>raw_reads\<close>, a socket is the list of what each wait for bytes brings, and the
  statistics of the server are a function of the range of time.

  \<^bold>\<open>What is shown.\<close> Any sequence of requests is a run of the abstract graph (below). Creation and
  deletion keep \<^const>\<open>graph_ok\<close> and change exactly what they should; deletion removes the closure of
  dependent connectors. Iterators deliver exactly the matching readable connectors, in order.
  Contents round-trip, the file memory refines an index, a search by content is exact. A system
  identifier that was set is found. Jobs of
  workers never see a freed event. A restart keeps the graph, saving is atomic, damaged files are
  refused. Generation makes one connector per triple of the template and keeps the rest; a
  search delivers each embedding of the template once. Over the network, a session of requests is
  again a run of the abstract graph, replies have the announced length, contents round-trip, positions
  in a chain of iterators fit their byte, and notifications arrive once and in order. Beside this the development records behaviour of the code that is likely not meant: a
  leaked lock, leaked references, a lost cell, unusable cells after a restart, an endless loop, a
  variable split in two by generation, a command that never succeeds, a request answered twice.

  \<^bold>\<open>Not modelled.\<close> \<^verbatim>\<open>sc_config.c\<close> (a key file; its one value used here is a field of the storage),
  \<^verbatim>\<open>sc_memory_ext.c\<close> (shared libraries), the functions of \<^verbatim>\<open>sc_memory.c\<close> that only forward, and the
  layers above: the parts of the C++ wrapper that only forward, the SCs parser (its grammar is
  compiled at build time), agents, the library for clients of the network server, its listener and
  its timer for statistics, and tools. Iterators of a search run on the storage
  as it is when the search starts; that they leave references behind is shown in \<open>Sc_Iterator3_Laws\<close>. Vendored code (\<^verbatim>\<open>json.hpp\<close>, \<^verbatim>\<open>tinyxml2\<close>, ANTLR) is left out.
\<close>

subsection \<open>The store as a whole\<close>

text \<open>
  C1. The store as its users see it: however many requests to create nodes, links and
  connectors and to delete elements are served one after the other, the functions of the
  storage return, and their effect is a run of the abstract graph with the same requests and
  replies. The graph never has a connector without both of its ends, and no lock stays behind.
  The order in which glib iterates over a hash table does not matter.
\<close>

theorem storage_refines_graph:
  assumes "graph_ok s" and "max_loaded_segments s \<le> int SC_ADDR_SEG_MAX" and "\<And>xs. mset (order xs) = mset xs"
    and "all_proper order self_sum ctx al qs s"
  shows "\<exists>rs s'. serve_all order self_sum ctx al qs s = Some (rs, s') \<and> graph_run qs rs (view s) (view s') \<and>
     closed (view s') \<and> graph_ok s' \<and> held s' = held s"
  using serve_all_run [OF assms] view_closed [OF assms(1)] graph_run_closed by blast

theorem storage_refines_graph_witness:
  "\<exists>rs s'. serve_all rev (\<lambda>_. []) sample_ctx 0 [New_Node sc_type_const, Delete sample_n1] sample = Some (rs, s') \<and>
     graph_run [New_Node sc_type_const, Delete sample_n1] rs (view sample) (view s')"
proof -
  let ?serve = "serve rev (\<lambda>_. []) sample_ctx 0"
  have cap: "max_loaded_segments sample \<le> int SC_ADDR_SEG_MAX" by (rule sample_room(1))
  have p: "proper (New_Node sc_type_const) sample" using sample_types(1) by (simp add: proper_def)
  have "proper (Delete sample_n1) s1" if "?serve (New_Node sc_type_const) sample = Some (r, s1)" for r s1
  proof -
    have "graph_step (New_Node sc_type_const) r (view sample) (view s1)"
      using serve_step [OF sample_graph_ok cap mset_rev p, of "\<lambda>_. []" sample_ctx 0] that by auto
    then have "dom (view sample) \<subseteq> dom (view s1)" by (rule graph_step_nodeE) auto
    then show ?thesis using sample_members(1) by (auto simp: proper_def dom_view)
  qed
  then have "all_proper rev (\<lambda>_. []) sample_ctx 0 [New_Node sc_type_const, Delete sample_n1] sample"
    using p by (auto split: option.split)
  from storage_refines_graph [OF sample_graph_ok cap mset_rev this] show ?thesis by blast
qed

end
